(* ===== verification/Gateway_Prelude.thy ===== *)
theory Gateway_Prelude
  imports Main "HOL-Library.Word" "HOL-Library.AList"
begin

text \<open>
  Shared vocabulary of the development: the machine types of the Go sources, Go maps as
  association lists, the result type of fallible operations, the collections of rewrite
  rules that the component theories extend, and the generic list, map and word lemmas that
  more than one component uses.

  A Go \<open>string\<close> is an immutable byte sequence, and so is HOL's \<open>string\<close> (a list of 8-bit
  characters); wire data read from a socket is a list of \<open>8 word\<close>.  A \<open>time.Time\<close> is
  the number of nanoseconds since the Unix epoch; the zero value of \<open>time.Time\<close> (January 1 of
  year 1) is the constant \<open>zero_time\<close>, and a \<open>*time.Time\<close> is an option.
\<close>

unbundle bit_operations_syntax

section \<open>Machine types\<close>

type_synonym byte = "8 word"
type_synonym u16 = "16 word"
type_synonym u32 = "32 word"
type_synonym u64 = "64 word"
type_synonym i32 = "32 word"
type_synonym bytes = "byte list"

type_synonym go_time = int
type_synonym duration = int

abbreviation millisecond :: duration where "millisecond \<equiv> 1000000"
abbreviation second :: duration where "second \<equiv> 1000000000"
abbreviation minute :: duration where "minute \<equiv> 60000000000"

definition zero_time :: go_time where
  "zero_time = - 62135596800 * second"

definition unix_seconds :: "go_time \<Rightarrow> int" where
  "unix_seconds t = t div second"

definition is_zero_time :: "go_time \<Rightarrow> bool" where
  "is_zero_time t \<longleftrightarrow> t = zero_time"

section \<open>Collections of rules\<close>

named_theorems string_simps \<open>rewriting of the string operations of the Go library\<close>
named_theorems map_simps \<open>lookup in updated Go maps\<close>
named_theorems frame_simps \<open>fields an operation does not write\<close>

section \<open>Results\<close>

text \<open>A Go function returning \<open>(T, error)\<close> returns \<open>Inl\<close> of the error or \<open>Inr\<close> of the value.\<close>

type_synonym ('e, 'a) result = "'e + 'a"

definition rbind :: "('e, 'a) result \<Rightarrow> ('a \<Rightarrow> ('e, 'b) result) \<Rightarrow> ('e, 'b) result" where
  "rbind r f = (case r of Inl e \<Rightarrow> Inl e | Inr a \<Rightarrow> f a)"

lemma rbind_simps [simp]:
  "rbind (Inl e) f = Inl e"
  "rbind (Inr a) f = f a"
  by (simp_all add: rbind_def)

lemma rbind_eq_Inr: "rbind r f = Inr b \<longleftrightarrow> (\<exists>a. r = Inr a \<and> f a = Inr b)"
  by (cases r) simp_all

definition guard_ok :: "bool \<Rightarrow> 'e \<Rightarrow> ('e, unit) result" where
  "guard_ok c e = (if c then Inr () else Inl e)"

lemma guard_ok_eq_Inr [simp]: "guard_ok c e = Inr u \<longleftrightarrow> c"
  by (simp add: guard_ok_def)

lemma guard_ok_simps [simp]:
  "guard_ok True e = Inr ()"
  "guard_ok False e = Inl e"
  by (simp_all add: guard_ok_def)

text \<open>A loop over a slice whose body may return an error: the first error ends it.\<close>

fun each_ok :: "('a \<Rightarrow> ('e, unit) result) \<Rightarrow> 'a list \<Rightarrow> ('e, unit) result" where
  "each_ok f [] = Inr ()"
| "each_ok f (x # xs) = (case f x of Inl e \<Rightarrow> Inl e | Inr _ \<Rightarrow> each_ok f xs)"

lemma each_ok_eq_Inr: "each_ok f xs = Inr u \<longleftrightarrow> (\<forall>x \<in> set xs. f x = Inr ())"
  by (induction xs) (auto split: sum.splits)

section \<open>Go maps as association lists\<close>

text \<open>
  A Go map that the code iterates over is an association list with distinct keys; the order
  of the list is the iteration order of one run.  \<open>gget\<close> with a default is the read
  \<open>m[k]\<close>, which yields the zero value of the element type for a missing key.
\<close>

type_synonym ('k, 'v) gomap = "('k \<times> 'v) list"

abbreviation gput :: "'k \<Rightarrow> 'v \<Rightarrow> ('k, 'v) gomap \<Rightarrow> ('k, 'v) gomap" where
  "gput \<equiv> AList.update"

abbreviation gdel :: "'k \<Rightarrow> ('k, 'v) gomap \<Rightarrow> ('k, 'v) gomap" where
  "gdel \<equiv> AList.delete"

abbreviation gkeys :: "('k, 'v) gomap \<Rightarrow> 'k list" where
  "gkeys m \<equiv> map fst m"

abbreviation gmap_ok :: "('k, 'v) gomap \<Rightarrow> bool" where
  "gmap_ok m \<equiv> distinct (map fst m)"

definition gget :: "'v \<Rightarrow> ('k, 'v) gomap \<Rightarrow> 'k \<Rightarrow> 'v" where
  "gget d m k = (case map_of m k of None \<Rightarrow> d | Some v \<Rightarrow> v)"

lemma map_of_gput [simp, map_simps]: "map_of (gput k v m) k' = (if k' = k then Some v else map_of m k')"
  by (simp add: update_conv')

lemma map_of_gdel [simp, map_simps]: "map_of (gdel k m) k' = (if k' = k then None else map_of m k')"
  by (simp add: delete_conv')

lemma gmap_ok_gput [simp, intro]: "gmap_ok m \<Longrightarrow> gmap_ok (gput k v m)"
  by (rule distinct_update)

lemma gmap_ok_gdel [simp, intro]: "gmap_ok m \<Longrightarrow> gmap_ok (gdel k m)"
  by (rule distinct_delete)

lemma gget_gput [simp, map_simps]: "gget d (gput k v m) k' = (if k' = k then v else gget d m k')"
  by (simp add: gget_def)

lemma gget_Nil [simp]: "gget d [] k = d"
  by (simp add: gget_def)

lemma gkeys_gput: "set (gkeys (gput k v m)) = insert k (set (gkeys m))"
  by (simp add: dom_update)

lemma set_gput_subset: "set (gput k v m) \<subseteq> insert (k, v) (set m)"
  by (induction m) auto

lemma set_gdel_subset: "set (gdel k m) \<subseteq> set m"
  by (induction m) auto

text \<open>A predicate on every entry of a map.\<close>

definition gall :: "('k \<Rightarrow> 'v \<Rightarrow> bool) \<Rightarrow> ('k, 'v) gomap \<Rightarrow> bool" where
  "gall P m \<longleftrightarrow> (\<forall>(k, v) \<in> set m. P k v)"

lemma gall_gput: "gall P m \<Longrightarrow> P k v \<Longrightarrow> gall P (gput k v m)"
  using set_gput_subset [of k v m] by (auto simp: gall_def)

lemma gall_gdel: "gall P m \<Longrightarrow> gall P (gdel k m)"
  using set_gdel_subset [of k m] by (auto simp: gall_def)

lemma gall_Nil [simp]: "gall P []"
  by (simp add: gall_def)

lemma gall_Cons [simp]: "gall P ((k, v) # m) \<longleftrightarrow> P k v \<and> gall P m"
  by (simp add: gall_def)

lemma gall_lookup: "gall P m \<Longrightarrow> map_of m k = Some v \<Longrightarrow> P k v"
  by (auto simp: gall_def dest: map_of_SomeD)

text \<open>Rebuilding a map value by value, keeping its keys.\<close>

definition gmap_values :: "('k \<Rightarrow> 'v \<Rightarrow> 'w) \<Rightarrow> ('k, 'v) gomap \<Rightarrow> ('k, 'w) gomap" where
  "gmap_values f m = map (\<lambda>(k, v). (k, f k v)) m"

lemma gkeys_gmap_values [simp]: "gkeys (gmap_values f m) = gkeys m"
  by (induction m) (auto simp: gmap_values_def)

lemma map_of_gmap_values [simp, map_simps]: "map_of (gmap_values f m) k = map_option (f k) (map_of m k)"
  by (induction m) (auto simp: gmap_values_def)

lemma gmap_values_Cons [simp]: "gmap_values f ((k, v) # m) = (k, f k v) # gmap_values f m"
  by (simp add: gmap_values_def)

lemma gmap_values_Nil [simp]: "gmap_values f [] = []"
  by (simp add: gmap_values_def)

text \<open>A quantity summed over the entries of a map changes by one entry when one key is written.\<close>

definition gsum :: "('k \<Rightarrow> 'v \<Rightarrow> 'n::comm_monoid_add) \<Rightarrow> ('k, 'v) gomap \<Rightarrow> 'n" where
  "gsum f m = sum_list (map (\<lambda>(k, v). f k v) m)"

lemma gsum_Nil [simp]: "gsum f [] = 0"
  by (simp add: gsum_def)

lemma gsum_Cons [simp]: "gsum f ((k, v) # m) = f k v + gsum f m"
  by (simp add: gsum_def)

lemma gsum_gput_fresh:
  "map_of m k = None \<Longrightarrow> gsum f (gput k v m) = gsum f m + f k v"
  by (induction m) (auto simp: gsum_def add_ac split: if_splits)

lemma gsum_gput_present:
  fixes f :: "'k \<Rightarrow> 'v \<Rightarrow> 'n::ab_group_add"
  assumes "map_of m k = Some v"
  shows "gsum f (gput k w m) = gsum f m - f k v + f k w"
  using assms by (induction m) (auto simp: gsum_def algebra_simps split: if_splits)

lemma gsum_gput:
  fixes f :: "'k \<Rightarrow> 'v \<Rightarrow> 'n::ab_group_add"
  assumes "f k d = 0"
  shows "gsum f (gput k w m) = gsum f m + f k w - f k (gget d m k)"
  using assms by (cases "map_of m k") (simp_all add: gget_def gsum_gput_fresh gsum_gput_present)

section \<open>Lists\<close>

text \<open>The first occurrence of each element, in order: the seen-set loop of the sources.\<close>

fun dedup_from :: "'a list \<Rightarrow> 'a list \<Rightarrow> 'a list" where
  "dedup_from seen [] = []"
| "dedup_from seen (x # xs) =
     (if x \<in> set seen then dedup_from seen xs else x # dedup_from (x # seen) xs)"

lemma set_dedup_from: "set (dedup_from seen xs) = set xs - set seen"
  by (induction seen xs rule: dedup_from.induct) auto

lemma distinct_dedup_from [simp]: "distinct (dedup_from seen xs)"
  by (induction seen xs rule: dedup_from.induct) (auto simp: set_dedup_from)

lemma dedup_from_id: "distinct xs \<Longrightarrow> set seen \<inter> set xs = {} \<Longrightarrow> dedup_from seen xs = xs"
  by (induction seen xs rule: dedup_from.induct) auto

text \<open>The maximal suffix of characters in a set, removed (\<open>strings.TrimRight\<close>).\<close>

definition trim_right :: "('a \<Rightarrow> bool) \<Rightarrow> 'a list \<Rightarrow> 'a list" where
  "trim_right p xs = rev (dropWhile p (rev xs))"

definition trim_left :: "('a \<Rightarrow> bool) \<Rightarrow> 'a list \<Rightarrow> 'a list" where
  "trim_left p xs = dropWhile p xs"

definition trim :: "('a \<Rightarrow> bool) \<Rightarrow> 'a list \<Rightarrow> 'a list" where
  "trim p xs = trim_right p (trim_left p xs)"

lemma trim_right_snoc: "trim_right p (xs @ [x]) = (if p x then trim_right p xs else xs @ [x])"
  by (simp add: trim_right_def)

lemma trim_right_Nil [simp]: "trim_right p [] = []"
  by (simp add: trim_right_def)

lemma trim_right_replicate: "p x \<Longrightarrow> trim_right p (xs @ replicate n x) = trim_right p xs"
  by (induction n) (simp_all add: replicate_append_same [symmetric] trim_right_snoc
      flip: append_assoc)

lemma trim_right_none: "xs = [] \<or> \<not> p (last xs) \<Longrightarrow> trim_right p xs = xs"
  by (cases xs rule: rev_cases) (auto simp: trim_right_snoc)

section \<open>Words\<close>

text \<open>
  Go subtracts \<open>n\<close> from an unsigned atomic counter by adding \<open>^(n - 1)\<close>, the bitwise
  complement of \<open>n - 1\<close>.
\<close>

lemma not_minus_one_word: "NOT (n - 1) = - (n :: 'a::len word)"
  by (simp add: not_eq_complement)

lemma unat_add_no_wrap:
  fixes a b :: "'a::len word"
  assumes "unat a + unat b < 2 ^ LENGTH('a)"
  shows "unat (a + b) = unat a + unat b"
  using assms by (simp add: unat_word_ariths)

end
