(* ===== verification/Go_Net.thy ===== *)
theory Go_Net
  imports Go_Std
begin

text \<open>
  The \<open>io\<close> and \<open>net\<close> functions of the Go library on which the Trojan codec, the outbound
  resolver and the configuration validation rest: \<open>io.ReadFull\<close> over a byte stream,
  \<open>net.SplitHostPort\<close> and \<open>net.JoinHostPort\<close>, and the parsing and printing of IP addresses
  (\<open>net.ParseIP\<close>, \<open>net.IP.To4\<close>, \<open>net.IP.String\<close>).  The definitions follow the library's
  algorithms, so that the addresses they accept and the text they print are the library's.
\<close>

section \<open>Byte streams\<close>

datatype io_error = EOF | ErrUnexpectedEOF | ErrClosed | ErrDeadline | ErrOther string

text \<open>A reader is what the peer still delivers and the error that ends the stream.\<close>

record reader =
  rd_data :: bytes
  rd_end :: io_error

text \<open>
  \<open>io.ReadFull(r, buf)\<close> with \<open>len(buf) = n\<close>: the next \<open>n\<close> bytes, or an error after
  consuming what there was.  \<open>EOF\<close> is reported as such only when nothing was read.
\<close>

definition read_full :: "nat \<Rightarrow> reader \<Rightarrow> (io_error, bytes) result \<times> reader" where
  "read_full n r =
     (if n \<le> length (rd_data r)
      then (Inr (take n (rd_data r)), r\<lparr>rd_data := drop n (rd_data r)\<rparr>)
      else (Inl (if rd_data r = [] then rd_end r
                 else if rd_end r = EOF then ErrUnexpectedEOF else rd_end r),
            r\<lparr>rd_data := []\<rparr>))"

lemma read_full_append [simp]:
  "read_full (length xs) \<lparr>rd_data = xs @ ys, rd_end = e\<rparr> = (Inr xs, \<lparr>rd_data = ys, rd_end = e\<rparr>)"
  by (simp add: read_full_def)

lemma read_full_exact:
  "length xs = n \<Longrightarrow> read_full n \<lparr>rd_data = xs @ ys, rd_end = e\<rparr> = (Inr xs, \<lparr>rd_data = ys, rd_end = e\<rparr>)"
  by auto

lemma read_full_Cons:
  "read_full (Suc n) \<lparr>rd_data = x # xs, rd_end = e\<rparr> =
     (if n \<le> length xs then (Inr (x # take n xs), \<lparr>rd_data = drop n xs, rd_end = e\<rparr>)
      else (Inl (if e = EOF then ErrUnexpectedEOF else e), \<lparr>rd_data = [], rd_end = e\<rparr>))"
  by (simp add: read_full_def)

lemma read_full_InrD:
  "read_full n r = (Inr xs, r') \<Longrightarrow>
     length xs = n \<and> rd_data r = xs @ rd_data r' \<and> rd_end r' = rd_end r"
  by (auto simp: read_full_def split: if_splits)

lemma read_full_suffix:
  "read_full n r = (x, r') \<Longrightarrow> \<exists>ys. rd_data r = ys @ rd_data r' \<and> length ys \<le> n"
  by (auto simp: read_full_def split: if_splits
      intro: exI [of _ "take n (rd_data r)"] exI [of _ "rd_data r"])

section \<open>Host and port\<close>

datatype addr_error = MissingPort | TooManyColons | MissingBracket | UnexpectedOpen | UnexpectedClose

definition join_host_port :: "string \<Rightarrow> string \<Rightarrow> string" where
  "join_host_port host port =
     (if CHR '':'' \<in> set host then ''['' @ host @ '']:'' @ port else host @ '':'' @ port)"

definition split_host_port :: "string \<Rightarrow> (addr_error, string \<times> string) result" where
  "split_host_port hostport =
     (case last_index_byte hostport CHR '':'' of
        None \<Rightarrow> Inl MissingPort
      | Some i \<Rightarrow>
          let finish = (\<lambda>host j k.
                if CHR ''['' \<in> set (drop j hostport) then Inl UnexpectedOpen
                else if CHR '']'' \<in> set (drop k hostport) then Inl UnexpectedClose
                else Inr (host, drop (Suc i) hostport))
          in if take 1 hostport = ''[''
             then (case index_byte hostport CHR '']'' of
                     None \<Rightarrow> Inl MissingBracket
                   | Some e \<Rightarrow>
                       if e + 1 = length hostport then Inl MissingPort
                       else if e + 1 = i then finish (take (e - 1) (drop 1 hostport)) 1 (e + 1)
                       else if hostport ! (e + 1) = CHR '':'' then Inl TooManyColons
                       else Inl MissingPort)
             else if CHR '':'' \<in> set (take i hostport) then Inl TooManyColons
             else finish (take i hostport) 0 0)"

lemma split_host_port_plain:
  assumes "CHR '':'' \<notin> set h" "CHR ''['' \<notin> set h" "CHR '']'' \<notin> set h"
    and "CHR '':'' \<notin> set p" "CHR ''['' \<notin> set p" "CHR '']'' \<notin> set p"
  shows "split_host_port (h @ CHR '':'' # p) = Inr (h, p)"
proof -
  have "take 1 (h @ CHR '':'' # p) \<noteq> ''[''"
    using assms by (cases h) auto
  with assms show ?thesis
    by (simp add: split_host_port_def string_simps)
qed

lemma split_host_port_bracketed:
  assumes "CHR ''['' \<notin> set h" "CHR '']'' \<notin> set h"
    and "CHR '':'' \<notin> set p" "CHR ''['' \<notin> set p" "CHR '']'' \<notin> set p"
  shows "split_host_port (CHR ''['' # h @ CHR '']'' # CHR '':'' # p) = Inr (h, p)"
proof -
  let ?s = "CHR ''['' # h @ CHR '']'' # CHR '':'' # p"
  have "?s = (CHR ''['' # h @ [CHR '']'']) @ CHR '':'' # p" by simp
  then have 1: "last_index_byte ?s CHR '':'' = Some (length h + 2)"
    using last_index_byte_append [OF assms(3), of "CHR ''['' # h @ [CHR '']'']"] by simp
  have 2: "index_byte (h @ CHR '']'' # CHR '':'' # p) CHR '']'' = Some (length h)"
    using assms by (simp add: string_simps)
  show ?thesis
    using assms by (simp add: split_host_port_def 1 2)
qed

lemma split_join_host_port:
  assumes "CHR ''['' \<notin> set h" "CHR '']'' \<notin> set h"
    and "CHR '':'' \<notin> set p" "CHR ''['' \<notin> set p" "CHR '']'' \<notin> set p"
  shows "split_host_port (join_host_port h p) = Inr (h, p)"
  using assms split_host_port_plain split_host_port_bracketed
  by (simp add: join_host_port_def)

section \<open>IP addresses\<close>

text \<open>
  The dotted-quad scanner of \<open>net/netip\<close>: \<open>fs\<close> holds the finished octets, \<open>val\<close> and
  \<open>dig\<close> the value and the number of digits of the current one.  A dot that begins the
  text, ends it or follows another dot is an error, as is an octet with a leading zero.
\<close>

fun ipv4_scan :: "string \<Rightarrow> nat list \<Rightarrow> nat \<Rightarrow> nat \<Rightarrow> nat list option" where
  "ipv4_scan [] fs val dig = (if length fs < 3 then None else Some (fs @ [val]))"
| "ipv4_scan (c # cs) fs val dig =
     (if is_digit c
      then (if dig = 1 \<and> val = 0 then None
            else let v = val * 10 + digit_value c
                 in if v > 255 then None else ipv4_scan cs fs v (Suc dig))
      else if c = CHR ''.''
      then (if dig = 0 \<or> cs = [] then None
            else if length fs = 3 then None
            else ipv4_scan cs (fs @ [val]) 0 0)
      else None)"

definition parse_ipv4 :: "string \<Rightarrow> bytes option" where
  "parse_ipv4 s = (if s = [] then None else map_option (map of_nat) (ipv4_scan s [] 0 0))"

definition hex_value :: "char \<Rightarrow> nat option" where
  "hex_value c =
     (let n = of_char c
      in if is_digit c then Some (n - 48)
         else if 97 \<le> n \<and> n \<le> 102 then Some (n - 87)
         else if 65 \<le> n \<and> n \<le> 70 then Some (n - 55)
         else None)"

text \<open>One hexadecimal group: its value, its length and the rest; \<open>None\<close> after a fifth digit.\<close>

fun hex_group :: "string \<Rightarrow> nat \<Rightarrow> nat \<Rightarrow> (nat \<times> nat \<times> string) option" where
  "hex_group [] acc off = Some (acc, off, [])"
| "hex_group (c # cs) acc off =
     (case hex_value c of
        None \<Rightarrow> Some (acc, off, c # cs)
      | Some d \<Rightarrow> if off > 3 then None else hex_group cs (acc * 16 + d) (Suc off))"

lemma hex_group_length: "hex_group s acc off = Some (v, n, rest) \<Longrightarrow> length rest + n = length s + off"
  by (induction s acc off rule: hex_group.induct) (auto split: option.splits if_splits)

text \<open>
  The group loop of the IPv6 parser: \<open>ip\<close> are the bytes found so far, \<open>ell\<close> the byte
  position of the ellipsis.  It returns the bytes, the ellipsis and the unparsed rest.
\<close>

function ipv6_groups :: "string \<Rightarrow> bytes \<Rightarrow> nat option \<Rightarrow> (bytes \<times> nat option \<times> string) option" where
  "ipv6_groups s ip ell =
     (if length ip \<ge> 16 then Some (ip, ell, s)
      else case hex_group s 0 0 of
        None \<Rightarrow> None
      | Some (acc, off, rest) \<Rightarrow>
          if off = 0 then None
          else if take 1 rest = ''.''
          then (if ell = None \<and> length ip \<noteq> 12 then None
                else if length ip + 4 > 16 then None
                else map_option (\<lambda>q. (ip @ q, ell, [])) (parse_ipv4 s))
          else let ip' = ip @ put_be16 acc
               in case rest of
                    [] \<Rightarrow> Some (ip', ell, [])
                  | c # rest1 \<Rightarrow>
                      if c \<noteq> CHR '':'' then None
                      else (case rest1 of
                              [] \<Rightarrow> None
                            | d # rest2 \<Rightarrow>
                                if d = CHR '':''
                                then (if ell \<noteq> None then None
                                      else if rest2 = [] then Some (ip', Some (length ip'), [])
                                      else ipv6_groups rest2 ip' (Some (length ip')))
                                else ipv6_groups rest1 ip' ell))"
  by pat_completeness auto
termination
  by (relation "measure (\<lambda>(s, ip, ell). 16 - length ip)") auto

declare ipv6_groups.simps [simp del]

definition parse_ipv6 :: "string \<Rightarrow> bytes option" where
  "parse_ipv6 s0 =
     (let (ell, s) = (if take 2 s0 = ''::'' then (Some 0, drop 2 s0) else (None, s0))
      in if ell \<noteq> None \<and> s = [] then Some (replicate 16 0)
         else case ipv6_groups s [] ell of
           None \<Rightarrow> None
         | Some (ip, ell', rest) \<Rightarrow>
             if rest \<noteq> [] then None
             else if length ip < 16
             then (case ell' of
                     None \<Rightarrow> None
                   | Some e \<Rightarrow> Some (take e ip @ replicate (16 - length ip) 0 @ drop e ip))
             else if ell' \<noteq> None then None else Some ip)"

text \<open>
  \<open>net.ParseIP\<close> gives the 16-byte form; an IPv4 address is mapped into \<open>::ffff:0:0/96\<close>.
  The first dot or colon decides the family, and a zone (a percent sign) is not accepted.
\<close>

definition v4_prefix :: bytes where
  "v4_prefix = replicate 10 0 @ [255, 255]"

fun ip_family :: "string \<Rightarrow> nat" where
  "ip_family [] = 0"
| "ip_family (c # cs) =
     (if c = CHR ''.'' then 4 else if c = CHR '':'' then 6 else if c = CHR ''%'' then 0 else ip_family cs)"

definition parse_ip :: "string \<Rightarrow> bytes option" where
  "parse_ip s =
     (if ip_family s = 4 then map_option (\<lambda>q. v4_prefix @ q) (parse_ipv4 s)
      else if ip_family s = 6 then (if CHR ''%'' \<in> set s then None else parse_ipv6 s)
      else None)"

definition to4 :: "bytes \<Rightarrow> bytes option" where
  "to4 ip =
     (if length ip = 4 then Some ip
      else if length ip = 16 \<and> take 12 ip = v4_prefix then Some (drop 12 ip)
      else None)"

definition dotted_quad :: "bytes \<Rightarrow> string" where
  "dotted_quad q =
     format_uint (unat (q ! 0)) @ ''.'' @ format_uint (unat (q ! 1)) @ ''.'' @
     format_uint (unat (q ! 2)) @ ''.'' @ format_uint (unat (q ! 3))"

fun format_hex :: "nat \<Rightarrow> string" where
  "format_hex n = (if n < 16 then [hex_digit n] else format_hex (n div 16) @ [hex_digit (n mod 16)])"

declare format_hex.simps [simp del]

definition groups_of :: "bytes \<Rightarrow> nat list" where
  "groups_of ip = map (\<lambda>i. be16 (ip ! (2 * i)) (ip ! (2 * i + 1))) [0..<8]"

text \<open>The longest run of at least two zero groups, the leftmost on a tie: start and end.\<close>

definition zero_run :: "nat list \<Rightarrow> nat \<Rightarrow> nat" where
  "zero_run gs i = length (takeWhile (\<lambda>g. g = 0) (drop i gs))"

definition best_run :: "nat list \<Rightarrow> nat \<times> nat" where
  "best_run gs = foldl (\<lambda>(st, en) i. let l = zero_run gs i
                          in if l \<ge> 2 \<and> l > en - st then (i, i + l) else (st, en))
                   (255, 255) [0..<8]"

fun print_groups :: "nat list \<Rightarrow> nat \<Rightarrow> nat \<Rightarrow> nat \<Rightarrow> string" where
  "print_groups [] i st en = []"
| "print_groups (g # gs) i st en =
     (if i = st then (if en \<ge> 8 then ''::'' else ''::'' @ print_groups gs (Suc i) st en)
      else if st < i \<and> i < en then print_groups gs (Suc i) st en
      else (if i > 0 \<and> i \<noteq> en then '':'' else []) @ format_hex g @ print_groups gs (Suc i) st en)"

definition print_ipv6 :: "bytes \<Rightarrow> string" where
  "print_ipv6 ip = (let gs = groups_of ip; (st, en) = best_run gs in print_groups gs 0 st en)"

definition ip_string :: "bytes \<Rightarrow> string" where
  "ip_string ip = (case to4 ip of Some q \<Rightarrow> dotted_quad q | None \<Rightarrow> print_ipv6 ip)"

text \<open>\<open>IP.IsLoopback\<close> and \<open>IP.IsUnspecified\<close> of a parsed address.\<close>

definition ip_is_loopback :: "bytes \<Rightarrow> bool" where
  "ip_is_loopback ip =
     (case to4 ip of Some q \<Rightarrow> q ! 0 = 127 | None \<Rightarrow> ip = replicate 15 0 @ [1])"

definition ip_is_unspecified :: "bytes \<Rightarrow> bool" where
  "ip_is_unspecified ip \<longleftrightarrow> ip = v4_prefix @ replicate 4 0 \<or> ip = replicate 16 0"

subsection \<open>Facts\<close>

lemma length_v4_prefix [simp]: "length v4_prefix = 12"
  by (simp add: v4_prefix_def)

lemma to4_v4_prefix [simp]: "length q = 4 \<Longrightarrow> to4 (v4_prefix @ q) = Some q"
  by (simp add: to4_def)

lemma to4_length: "to4 ip = Some q \<Longrightarrow> length q = 4"
  by (auto simp: to4_def split: if_splits)

lemma ipv4_scan_length: "ipv4_scan s fs val dig = Some r \<Longrightarrow> length fs \<le> 3 \<Longrightarrow> length r = 4"
  by (induction s fs val dig rule: ipv4_scan.induct) (auto simp: Let_def split: if_splits)

lemma parse_ipv4_length: "parse_ipv4 s = Some q \<Longrightarrow> length q = 4"
  by (auto simp: parse_ipv4_def dest: ipv4_scan_length split: if_splits)

lemma ipv6_groups_length:
  "ipv6_groups s ip ell = Some (ip', ell', rest') \<Longrightarrow> length ip \<le> 16 \<Longrightarrow> even (length ip) \<Longrightarrow> length ip' \<le> 16"
proof (induction s ip ell rule: ipv6_groups.induct)
  case (1 s ip ell)
  show ?case
  proof (cases "length ip \<ge> 16 \<or> hex_group s 0 0 = None")
    case True
    with "1.prems" show ?thesis by (auto simp: ipv6_groups.simps [of s ip ell] split: if_split_asm)
  next
    case False
    then obtain acc off rest where h: "hex_group s 0 0 = Some (acc, off, rest)" by auto
    have room: "length ip + 2 \<le> 16" using "1.prems"(3) False by (auto elim!: evenE)
    note eq = "1.prems"(1) [unfolded ipv6_groups.simps [of s ip ell]]
    show ?thesis
    proof (cases "off = 0 \<or> take 1 rest = ''.''")
      case True
      with eq h False show ?thesis
        by (auto split: if_split_asm dest!: parse_ipv4_length)
    next
      case dot: False
      note IH = "1.IH" [OF _ h refl refl _ _ refl]
      show ?thesis
      proof (cases rest)
        case Nil
        with eq h dot False room show ?thesis by (auto split: if_split_asm)
      next
        case (Cons c rest1)
        with eq h dot False room IH "1.prems"(3) show ?thesis
          by (auto simp: Let_def split: if_split_asm list.split_asm)
      qed
    qed
  qed
qed

lemma ipv6_groups_length0: "ipv6_groups s [] ell = Some (ip, ell', rest) \<Longrightarrow> length ip \<le> 16"
  by (erule ipv6_groups_length) simp_all

lemma ipv6_expand_length:
  "length ip \<le> 16 \<Longrightarrow> length (take e ip @ replicate (16 - length ip) 0 @ drop e ip) = 16"
  by (simp add: min_def)

lemma parse_ipv6_length:
  assumes "parse_ipv6 s = Some ip"
  shows "length ip = 16"
proof -
  define ell where "ell = (if take 2 s = ''::'' then Some 0 else None :: nat option)"
  define t where "t = (if take 2 s = ''::'' then drop 2 s else s)"
  have p: "(if take 2 s = ''::'' then (Some 0, drop 2 s) else (None, s)) = (ell, t)"
    by (simp add: ell_def t_def)
  show ?thesis
  proof (cases "ell \<noteq> None \<and> t = []")
    case True
    with assms show ?thesis by (auto simp: parse_ipv6_def p)
  next
    case False
    with assms obtain ip1 ell1 where g: "ipv6_groups t [] ell = Some (ip1, ell1, [])"
      and r: "(if length ip1 < 16
               then (case ell1 of None \<Rightarrow> None
                     | Some e \<Rightarrow> Some (take e ip1 @ replicate (16 - length ip1) 0 @ drop e ip1))
               else if ell1 \<noteq> None then None else Some ip1) = Some ip"
      unfolding parse_ipv6_def p Let_def by (auto split: option.split_asm if_split_asm)
    from g have "length ip1 \<le> 16" by (rule ipv6_groups_length0)
    with r ipv6_expand_length [of ip1] show ?thesis
      by (auto split: if_split_asm option.split_asm simp del: length_append)
  qed
qed

lemma parse_ip_length: "parse_ip s = Some ip \<Longrightarrow> length ip = 16"
  by (auto simp: parse_ip_def split: if_split_asm dest: parse_ipv4_length parse_ipv6_length)

lemma ip_string_v4 [simp]: "length q = 4 \<Longrightarrow> ip_string q = dotted_quad q"
  by (simp add: ip_string_def to4_def)

lemma to4_ip_string: "to4 ip = Some q \<Longrightarrow> ip_string q = ip_string ip"
  using ip_string_v4 [OF to4_length] by (simp add: ip_string_def [of ip])

lemma format_hex_chars: "c \<in> set (format_hex n) \<Longrightarrow> is_lower_hex c"
proof (induction n rule: format_hex.induct)
  case (1 n)
  then show ?case by (cases "n < 16") (auto simp: format_hex.simps [of n])
qed

lemma print_groups_chars: "c \<in> set (print_groups gs i st en) \<Longrightarrow> is_lower_hex c \<or> c = CHR '':''"
  by (induction gs i st en rule: print_groups.induct) (auto split: if_splits dest: format_hex_chars)

lemma dotted_quad_chars: "c \<in> set (dotted_quad q) \<Longrightarrow> is_digit c \<or> c = CHR ''.''"
  using format_uint_digits by (auto simp: dotted_quad_def)

lemma ip_string_chars: "c \<in> set (ip_string ip) \<Longrightarrow> is_lower_hex c \<or> c = CHR '':'' \<or> c = CHR ''.''"
  by (auto simp: ip_string_def print_ipv6_def is_lower_hex_def Let_def split: option.splits prod.splits
      dest!: dotted_quad_chars print_groups_chars)

lemma ip_string_no_brackets [simp]:
  "CHR ''['' \<notin> set (ip_string ip)" "CHR '']'' \<notin> set (ip_string ip)"
  using ip_string_chars by (fastforce simp: is_lower_hex_def is_digit_def char_le_def)+

end
