(* ===== verification/Config_Types.thy ===== *)
theory Config_Types
  imports Go_Net "HOL-Library.Char_ord" "HOL-Library.List_Lexorder"
begin

text \<open>
  The configuration data that the components exchange, as \<open>internal/config\<close> declares it: users,
  outbound nodes, and the listener, masquerade, fallback, QUIC and subscription sections of the
  runtime schema.  Pointers to optional sections are options; durations are nanoseconds.
  Strings are ordered bytewise, as Go's \<open>sort.Strings\<close> orders them.
\<close>

section \<open>Users and nodes\<close>

record user_config =
  uc_password :: string
  uc_disabled :: bool
  uc_expires_at :: "go_time option"
  uc_routes :: "string list"
  uc_max_bytes :: u64
  uc_speed_limit :: u64

record hysteria2_outbound_config =
  h2_addr :: string
  h2_auth :: string
  h2_insecure :: bool
  h2_sni :: string

record node_config =
  nc_type :: string
  nc_alias :: string
  nc_hysteria2 :: "hysteria2_outbound_config option"

section \<open>Listener sections\<close>

record tls_config =
  tls_cert :: string
  tls_key :: string

record quic_config =
  init_stream_receive_window :: u64
  max_stream_receive_window :: u64
  init_conn_receive_window :: u64
  max_conn_receive_window :: u64
  max_idle_timeout :: duration
  max_incoming_streams :: int
  disable_path_mtu_discovery :: bool

record masquerade_proxy_config =
  mp_url :: string
  mp_rewrite_host :: bool

record inbound_masquerade_config =
  im_type :: string
  im_proxy :: "masquerade_proxy_config option"

record trojan_fallback_config =
  fb_addr :: string
  fb_probe_timeout :: duration
  fb_dial_timeout :: duration
  fb_idle_timeout :: duration
  fb_max_connections :: int

record trojan_inbound_config =
  ti_handshake_timeout :: duration
  ti_max_pending :: int
  ti_udp_idle_timeout :: duration
  ti_fallback :: "trojan_fallback_config option"

record inbound =
  ib_name :: string
  ib_type :: string
  ib_listen :: string
  ib_quic :: "quic_config option"
  ib_trojan :: "trojan_inbound_config option"
  ib_masquerade :: "inbound_masquerade_config option"

record subscription_endpoint =
  se_inbound :: string
  se_server_addr :: string
  se_sni :: string
  se_insecure :: bool

text \<open>
  \<open>InboundSubConfig\<close> embeds a pointer to the single-endpoint fields; \<open>Endpoints\<close> is \<open>None\<close> for
  a nil slice, which the code distinguishes from an empty one.
\<close>

record inbound_sub_config =
  is_listen :: string
  is_public_url :: string
  is_single :: "subscription_endpoint option"
  is_endpoints :: "subscription_endpoint list option"

record systemd_config =
  sd_unit :: string
  sd_watchdog :: bool

record inbound_config =
  ic_inbounds :: "inbound list"
  ic_tls :: tls_config
  ic_admin_listen :: string
  ic_sub :: "inbound_sub_config option"
  ic_db_path :: string
  ic_flush_interval :: duration
  ic_timezone :: string
  ic_systemd :: "systemd_config option"

definition hysteria2_type :: string where "hysteria2_type = ''hysteria2''"
definition trojan_type :: string where "trojan_type = ''trojan''"

section \<open>Order of strings\<close>

lemma sorted_sort_strings [simp]: "sorted (sort (xs :: string list))"
  by (rule sorted_sort)

text \<open>\<open>isValidName\<close> of the store: the names that appear in credentials and in URLs.\<close>

definition is_valid_name :: "string \<Rightarrow> bool" where
  "is_valid_name value \<longleftrightarrow> value \<noteq> [] \<and> \<not> contains_any value [CHR '':'', CHR ''/'', CHR 0x5C, CHR 0x00]"

lemma is_valid_name_no_colon: "is_valid_name s \<Longrightarrow> CHR '':'' \<notin> set s \<and> s \<noteq> []"
  by (auto simp: is_valid_name_def contains_any_def)

end
