(* ===== verification/Auth.thy ===== *)
theory Auth
  imports Config_Types
begin

text \<open>
  The authenticator of \<open>internal/auth\<close>: the published user policy, the \<open>username:node:password\<close>
  credential of Hysteria2 clients, the SHA-224 credential of Trojan clients and the
  \<open>username:node\<close> route identity both produce.  The hash function is a parameter
  (\<open>sha224\<close>); the facts that rest on it name what they need of it.
\<close>

section \<open>Credentials and route identities\<close>

text \<open>\<open>parseAuth\<close>: the first two colons separate user, node and password.\<close>

definition parse_auth :: "string \<Rightarrow> string \<times> string \<times> string" where
  "parse_auth auth =
     (case index_byte auth CHR '':'' of
        None \<Rightarrow> ([], [], auth)
      | Some idx1 \<Rightarrow>
          let username = take idx1 auth; rest = drop (idx1 + 1) auth
          in (case index_byte rest CHR '':'' of
                None \<Rightarrow> (username, [], rest)
              | Some idx2 \<Rightarrow> (username, take idx2 rest, drop (idx2 + 1) rest)))"

definition parse_id :: "string \<Rightarrow> string \<times> string" where
  "parse_id rid =
     (case index_byte rid CHR '':'' of
        None \<Rightarrow> (rid, [])
      | Some idx \<Rightarrow> (take idx rid, drop (idx + 1) rid))"

definition route_id :: "string \<Rightarrow> string \<Rightarrow> string" where
  "route_id username node = username @ '':'' @ node"

definition raw_password :: "string \<Rightarrow> string \<Rightarrow> string \<Rightarrow> string" where
  "raw_password username node password = username @ '':'' @ node @ '':'' @ password"

definition hash_password :: "(string \<Rightarrow> bytes) \<Rightarrow> string \<Rightarrow> string" where
  "hash_password sha224 password = hex_encode (sha224 password)"

section \<open>The authenticator\<close>

record user_entry =
  ue_password :: string
  ue_routes :: "(string, bool) gomap"
  ue_disabled :: bool
  ue_expires :: "go_time option"
  ue_max_bytes :: u64
  ue_speed_limit :: u64

record authenticator =
  au_users :: "(string, user_entry) gomap"
  au_trojan :: "(string, string) gomap"

definition build_routes :: "string list \<Rightarrow> (string, bool) gomap" where
  "build_routes rs = foldl (\<lambda>m r. gput r True m) [] rs"

definition build_user_entry :: "user_config \<Rightarrow> user_entry" where
  "build_user_entry u =
     \<lparr>ue_password = uc_password u, ue_routes = build_routes (uc_routes u),
      ue_disabled = uc_disabled u, ue_expires = uc_expires_at u,
      ue_max_bytes = uc_max_bytes u, ue_speed_limit = uc_speed_limit u\<rparr>"

definition build_user_entries :: "(string, user_config) gomap \<Rightarrow> (string, user_entry) gomap" where
  "build_user_entries users = gmap_values (\<lambda>_. build_user_entry) users"

definition credential_pairs :: "(string \<Rightarrow> bytes) \<Rightarrow> (string, user_config) gomap \<Rightarrow> (string \<times> string) list" where
  "credential_pairs sha224 users =
     concat (map (\<lambda>(username, user). map (\<lambda>node.
         (hash_password sha224 (raw_password username node (uc_password user)), route_id username node))
       (uc_routes user)) users)"

definition build_trojan_credentials :: "(string \<Rightarrow> bytes) \<Rightarrow> (string, user_config) gomap \<Rightarrow> (string, string) gomap" where
  "build_trojan_credentials sha224 users = foldl (\<lambda>m (k, v). gput k v m) [] (credential_pairs sha224 users)"

definition new_authenticator :: "(string \<Rightarrow> bytes) \<Rightarrow> (string, user_config) gomap \<Rightarrow> authenticator" where
  "new_authenticator sha224 users =
     \<lparr>au_users = build_user_entries users, au_trojan = build_trojan_credentials sha224 users\<rparr>"

definition auth_update_users :: "(string \<Rightarrow> bytes) \<Rightarrow> (string, user_config) gomap \<Rightarrow> authenticator \<Rightarrow> authenticator" where
  "auth_update_users sha224 users a =
     a\<lparr>au_users := build_user_entries users, au_trojan := build_trojan_credentials sha224 users\<rparr>"

datatype auth_failure =
    EmptyUsername | EmptyNodeName | UnknownUser | InactiveUser | WrongPassword | NodeNotAllowed

definition expired :: "go_time option \<Rightarrow> go_time \<Rightarrow> bool" where
  "expired e now = (case e of None \<Rightarrow> False | Some t \<Rightarrow> \<not> now < t)"

text \<open>
  \<open>Authenticate\<close> at the instant \<open>now\<close>: the checks in the order of the code, each with its own
  reason, and the route identity on success.
\<close>

definition authenticate :: "go_time \<Rightarrow> authenticator \<Rightarrow> string \<Rightarrow> (auth_failure, string) result" where
  "authenticate now a auth =
     (let (username, node_name, password) = parse_auth auth
      in if username = [] then Inl EmptyUsername
         else if node_name = [] then Inl EmptyNodeName
         else case map_of (au_users a) username of
           None \<Rightarrow> Inl UnknownUser
         | Some entry \<Rightarrow>
             if ue_disabled entry \<or> expired (ue_expires entry) now then Inl InactiveUser
             else if password \<noteq> ue_password entry then Inl WrongPassword
             else if \<not> gget False (ue_routes entry) node_name then Inl NodeNotAllowed
             else Inr (route_id username node_name))"

definition sha224_size :: nat where "sha224_size = 28"

definition valid_trojan_credential :: "string \<Rightarrow> bool" where
  "valid_trojan_credential value \<longleftrightarrow>
     length value = sha224_size * 2 \<and> list_all is_lower_hex value"

definition authenticate_trojan :: "go_time \<Rightarrow> authenticator \<Rightarrow> string \<Rightarrow> string option" where
  "authenticate_trojan now a credential =
     (if \<not> valid_trojan_credential credential then None
      else case map_of (au_trojan a) credential of
        None \<Rightarrow> None
      | Some rid \<Rightarrow>
          let (username, _) = parse_id rid;
              active = (case map_of (au_users a) username of
                          None \<Rightarrow> False
                        | Some entry \<Rightarrow> \<not> ue_disabled entry \<and> \<not> expired (ue_expires entry) now)
          in if active then Some rid else None)"

text \<open>\<open>userConfig\<close>, \<open>User\<close> and \<open>Snapshot\<close>: the published policy, with its routes sorted.\<close>

definition user_config_of :: "user_entry \<Rightarrow> user_config" where
  "user_config_of entry =
     \<lparr>uc_password = ue_password entry, uc_disabled = ue_disabled entry,
      uc_expires_at = ue_expires entry, uc_routes = sort (gkeys (ue_routes entry)),
      uc_max_bytes = ue_max_bytes entry, uc_speed_limit = ue_speed_limit entry\<rparr>"

definition auth_user :: "authenticator \<Rightarrow> string \<Rightarrow> user_config option" where
  "auth_user a username = map_option user_config_of (map_of (au_users a) username)"

definition auth_snapshot :: "authenticator \<Rightarrow> (string, user_config) gomap" where
  "auth_snapshot a = gmap_values (\<lambda>_. user_config_of) (au_users a)"

section \<open>Parsing and printing of credentials\<close>

lemma parse_auth_raw_password [simp]:
  "CHR '':'' \<notin> set u \<Longrightarrow> CHR '':'' \<notin> set n \<Longrightarrow> parse_auth (raw_password u n p) = (u, n, p)"
  by (simp add: parse_auth_def raw_password_def string_simps)

lemma parse_authD:
  assumes "parse_auth auth = (u, n, p)" and "n \<noteq> []"
  shows "auth = raw_password u n p" and "CHR '':'' \<notin> set u" and "CHR '':'' \<notin> set n"
proof -
  from assms obtain i where i: "index_byte auth CHR '':'' = Some i"
    by (cases "index_byte auth CHR '':''") (auto simp: parse_auth_def)
  with assms obtain j where j: "index_byte (drop (i + 1) auth) CHR '':'' = Some j"
    by (cases "index_byte (drop (i + 1) auth) CHR '':''") (auto simp: parse_auth_def)
  from assms(1) i j have u: "u = take i auth" and n: "n = take j (drop (i + 1) auth)"
    and p: "p = drop (j + 1) (drop (i + 1) auth)"
    by (simp_all add: parse_auth_def Let_def)
  note a = index_byte_SomeD [OF i] and b = index_byte_SomeD [OF j]
  have "auth = u @ CHR '':'' # drop (i + 1) auth"
    unfolding u by (rule conjunct1 [OF a, unfolded Suc_eq_plus1])
  also have "drop (i + 1) auth = n @ CHR '':'' # p"
    unfolding n p by (rule conjunct1 [OF b, unfolded Suc_eq_plus1])
  finally show "auth = raw_password u n p"
    unfolding raw_password_def append_Cons append_Nil .
  from a b show "CHR '':'' \<notin> set u" and "CHR '':'' \<notin> set n"
    unfolding u n by auto
qed

lemma parse_id_route_id [simp]: "CHR '':'' \<notin> set u \<Longrightarrow> parse_id (route_id u n) = (u, n)"
  by (simp add: parse_id_def route_id_def string_simps)

lemma raw_password_inject:
  assumes "CHR '':'' \<notin> set u" "CHR '':'' \<notin> set n" "CHR '':'' \<notin> set u'" "CHR '':'' \<notin> set n'"
  shows "raw_password u n p = raw_password u' n' p' \<longleftrightarrow> u = u' \<and> n = n' \<and> p = p'"
  using parse_auth_raw_password [OF assms(1,2), of p] parse_auth_raw_password [OF assms(3,4), of p']
  by (metis prod.inject)

section \<open>The published policy\<close>

lemma gget_build_routes_aux: "gget False (foldl (\<lambda>m r. gput r True m) m rs) x \<longleftrightarrow> x \<in> set rs \<or> gget False m x"
  by (induction rs arbitrary: m) auto

lemma gget_build_routes [simp]: "gget False (build_routes rs) x \<longleftrightarrow> x \<in> set rs"
  by (simp add: build_routes_def gget_build_routes_aux)

lemma keys_build_routes_aux:
  "gmap_ok m \<Longrightarrow> gmap_ok (foldl (\<lambda>m r. gput r True m) m rs) \<and>
     set (gkeys (foldl (\<lambda>m r. gput r True m) m rs)) = set rs \<union> set (gkeys m)"
  by (induction rs arbitrary: m) (auto simp: gkeys_gput simp del: set_map)

lemma keys_build_routes: "distinct (gkeys (build_routes rs)) \<and> set (gkeys (build_routes rs)) = set rs"
  using keys_build_routes_aux [of "[]" rs] by (simp add: build_routes_def)

lemma sort_distinct_set_eq:
  fixes xs :: "'a::linorder list"
  assumes "distinct xs" "distinct ys" "set xs = set ys"
  shows "sort xs = sort ys"
  by (rule sorted_distinct_set_unique) (use assms in simp_all)

text \<open>What the authenticator publishes of a user: the configuration with its routes as a sorted set.\<close>

definition canonical_user :: "user_config \<Rightarrow> user_config" where
  "canonical_user u = u\<lparr>uc_routes := sort (remdups (uc_routes u))\<rparr>"

lemma user_config_of_build [simp]: "user_config_of (build_user_entry u) = canonical_user u"
proof -
  have "sort (gkeys (build_routes (uc_routes u))) = sort (remdups (uc_routes u))"
    using keys_build_routes [of "uc_routes u"] by (intro sort_distinct_set_eq) simp_all
  then show ?thesis
    by (simp add: user_config_of_def build_user_entry_def canonical_user_def)
qed

lemma auth_user_new [simp]:
  "auth_user (new_authenticator sha users) name = map_option canonical_user (map_of users name)"
  by (simp add: auth_user_def new_authenticator_def build_user_entries_def option.map_comp comp_def)

lemma auth_user_update [simp]:
  "auth_user (auth_update_users sha users a) name = map_option canonical_user (map_of users name)"
  by (simp add: auth_user_def auth_update_users_def build_user_entries_def option.map_comp comp_def)

lemma map_of_auth_snapshot [simp]: "map_of (auth_snapshot a) name = auth_user a name"
  by (simp add: auth_snapshot_def auth_user_def)

lemma auth_update_eq_new: "auth_update_users sha users a = new_authenticator sha users"
  by (simp add: auth_update_users_def new_authenticator_def)

lemma canonical_user_simps [simp]:
  "uc_password (canonical_user u) = uc_password u"
  "uc_disabled (canonical_user u) = uc_disabled u"
  "uc_expires_at (canonical_user u) = uc_expires_at u"
  "uc_max_bytes (canonical_user u) = uc_max_bytes u"
  "uc_speed_limit (canonical_user u) = uc_speed_limit u"
  "set (uc_routes (canonical_user u)) = set (uc_routes u)"
  by (simp_all add: canonical_user_def)

lemma canonical_user_idem [simp]: "canonical_user (canonical_user u) = canonical_user u"
  by (simp add: canonical_user_def distinct_remdups_id sort_key_id_if_sorted)

section \<open>Who is authenticated\<close>

definition active_at :: "go_time \<Rightarrow> user_config \<Rightarrow> bool" where
  "active_at now u \<longleftrightarrow> \<not> uc_disabled u \<and> \<not> expired (uc_expires_at u) now"

lemma authenticate_raw:
  assumes "CHR '':'' \<notin> set u" "CHR '':'' \<notin> set n" "u \<noteq> []" "n \<noteq> []"
  shows "authenticate now (new_authenticator sha users) (raw_password u n p) =
    (case map_of users u of
       None \<Rightarrow> Inl UnknownUser
     | Some c \<Rightarrow> if \<not> active_at now c then Inl InactiveUser
                 else if p \<noteq> uc_password c then Inl WrongPassword
                 else if n \<notin> set (uc_routes c) then Inl NodeNotAllowed
                 else Inr (route_id u n))"
  using assms
  by (simp add: authenticate_def new_authenticator_def build_user_entries_def build_user_entry_def
      active_at_def split: option.splits)

lemma authenticate_InrD:
  assumes "authenticate now (new_authenticator sha users) auth = Inr rid"
  shows "\<exists>u n p c. auth = raw_password u n p \<and> CHR '':'' \<notin> set u \<and> CHR '':'' \<notin> set n \<and> u \<noteq> [] \<and> n \<noteq> [] \<and>
     map_of users u = Some c \<and> active_at now c \<and> p = uc_password c \<and> n \<in> set (uc_routes c) \<and>
     rid = route_id u n"
proof -
  obtain u n p where q: "parse_auth auth = (u, n, p)" by (cases "parse_auth auth")
  with assms have ne: "u \<noteq> []" "n \<noteq> []"
    by (auto simp: authenticate_def split: if_splits)
  note a = parse_authD [OF q ne(2)]
  from assms authenticate_raw [OF a(2,3) ne, of now sha users p] a(1) show ?thesis
    using a ne by (force split: option.splits if_splits)
qed

section \<open>Trojan credentials\<close>

lemma map_of_foldl_gput: "map_of (foldl (\<lambda>m (k, v). gput k v m) m ps) k = map_of (rev ps @ m) k"
  by (induction ps arbitrary: m) (auto simp: map_add_def split: option.splits)

lemma map_of_functional:
  assumes "\<And>v v'. (k, v) \<in> set ps \<Longrightarrow> (k, v') \<in> set ps \<Longrightarrow> v = v'"
  shows "map_of ps k = Some v \<longleftrightarrow> (k, v) \<in> set ps"
proof
  assume "(k, v) \<in> set ps"
  then obtain v' where "map_of ps k = Some v'"
    by (metis weak_map_of_SomeI)
  with assms \<open>(k, v) \<in> set ps\<close> show "map_of ps k = Some v"
    by (metis map_of_SomeD)
qed (rule map_of_SomeD)

lemma credential_pairs_iff:
  assumes "gmap_ok users"
  shows "(k, v) \<in> set (credential_pairs sha users) \<longleftrightarrow>
    (\<exists>u c n. map_of users u = Some c \<and> n \<in> set (uc_routes c) \<and>
       k = hash_password sha (raw_password u n (uc_password c)) \<and> v = route_id u n)"
  using assms by (auto simp: credential_pairs_def map_of_eq_Some_iff)

text \<open>
  The names that may appear in a credential, and what the hash must guarantee on the raw
  passwords in use: its fixed output size and no collision.
\<close>

definition names_ok :: "(string, user_config) gomap \<Rightarrow> bool" where
  "names_ok users \<longleftrightarrow> (\<forall>(u, c) \<in> set users. is_valid_name u \<and> list_all is_valid_name (uc_routes c))"

definition raw_passwords :: "(string, user_config) gomap \<Rightarrow> string set" where
  "raw_passwords users =
     {raw_password u n (uc_password c) | u n c. map_of users u = Some c \<and> n \<in> set (uc_routes c)}"

lemma names_okD:
  assumes "names_ok users" "map_of users u = Some c"
  shows "CHR '':'' \<notin> set u" "u \<noteq> []" "n \<in> set (uc_routes c) \<Longrightarrow> CHR '':'' \<notin> set n \<and> n \<noteq> []"
  using assms map_of_SomeD [OF assms(2)] is_valid_name_no_colon
  by (fastforce simp: names_ok_def list_all_iff)+

lemma hash_password_inject:
  assumes "inj_on sha A" "x \<in> A" "y \<in> A" "\<And>s. length (sha s) = sha224_size"
  shows "hash_password sha x = hash_password sha y \<longleftrightarrow> x = y"
proof
  have hd_inj: "hex_digit a = hex_digit b \<Longrightarrow> a < 16 \<Longrightarrow> b < 16 \<Longrightarrow> a = b" for a b
    by (auto simp: hex_digit_def split: if_splits dest!: arg_cong [where f = "of_char :: char \<Rightarrow> nat"])
  have hex_inj: "hex_encode xs = hex_encode ys \<Longrightarrow> xs = ys" for xs ys
  proof (induction xs arbitrary: ys)
    case Nil
    then show ?case by (cases ys) (auto simp: hex_encode_def)
  next
    case (Cons a xs)
    then obtain b ys' where ys: "ys = b # ys'" by (cases ys) (auto simp: hex_encode_def)
    with Cons.prems have t: "hex_encode xs = hex_encode ys'"
      and h: "hex_digit (unat a div 16) = hex_digit (unat b div 16)"
      and l: "hex_digit (unat a mod 16) = hex_digit (unat b mod 16)"
      by (auto simp: hex_encode_def)
    from h l have "unat a div 16 = unat b div 16" "unat a mod 16 = unat b mod 16"
      using hd_inj by auto
    then have "unat a = unat b" by (metis div_mult_mod_eq)
    then have "a = b" by (rule unsigned_word_eqI)
    with t Cons.IH ys show ?case by simp
  qed
  assume "hash_password sha x = hash_password sha y"
  with assms(1-3) show "x = y"
    by (auto simp: hash_password_def inj_on_def dest: hex_inj)
qed simp

lemma hash_password_valid:
  "length (sha s) = sha224_size \<Longrightarrow> valid_trojan_credential (hash_password sha s)"
  by (simp add: valid_trojan_credential_def hash_password_def hex_encode_lower)

lemma trojan_lookup:
  assumes "gmap_ok users" "names_ok users" "inj_on sha (insert raw (raw_passwords users))"
    and "\<And>s. length (sha s) = sha224_size"
  shows "map_of (au_trojan (new_authenticator sha users)) (hash_password sha raw) =
    (if \<exists>u n c. map_of users u = Some c \<and> n \<in> set (uc_routes c) \<and> raw = raw_password u n (uc_password c)
     then Some (let (u, n, _) = parse_auth raw in route_id u n) else None)"
proof -
  let ?ps = "credential_pairs sha users"
  have val: "(hash_password sha r, v) \<in> set ?ps \<longleftrightarrow>
      (\<exists>u n c. map_of users u = Some c \<and> n \<in> set (uc_routes c) \<and>
         r = raw_password u n (uc_password c) \<and> v = route_id u n)"
    if "r \<in> insert raw (raw_passwords users)" for r v
    using that assms(1,3,4) hash_password_inject [OF assms(3) that _ assms(4)]
    unfolding credential_pairs_iff [OF assms(1)] raw_passwords_def by blast
  have det: "v = (let (u, n, _) = parse_auth r in route_id u n)"
    if "(hash_password sha r, v) \<in> set ?ps" "r \<in> insert raw (raw_passwords users)" for r v
    using that names_okD [OF assms(2)] by (auto simp: val)
  have fun_like: "v = v'" if "(k, v) \<in> set ?ps" "(k, v') \<in> set ?ps" for k v v'
  proof -
    from that(1) obtain r where "r \<in> raw_passwords users" "k = hash_password sha r"
      unfolding credential_pairs_iff [OF assms(1)] raw_passwords_def by blast
    with that det show ?thesis by (metis insertI2)
  qed
  have look: "map_of (au_trojan (new_authenticator sha users)) k = Some v \<longleftrightarrow> (k, v) \<in> set ?ps" for k v
    using map_of_functional [of k "rev ?ps" v] fun_like
    by (simp add: new_authenticator_def build_trojan_credentials_def map_of_foldl_gput)
  show ?thesis
  proof (cases "map_of (au_trojan (new_authenticator sha users)) (hash_password sha raw)")
    case None
    then have "(hash_password sha raw, v) \<notin> set ?ps" for v
      using look [of "hash_password sha raw" v] by simp
    with None val [of raw] show ?thesis by simp blast
  next
    case (Some v)
    with look have "(hash_password sha raw, v) \<in> set ?ps" by simp
    with Some det [of raw v] val [of raw v] show ?thesis by auto
  qed
qed

section \<open>Properties\<close>


text \<open>
  C15: the two inbound protocols authenticate alike.  With the user and node names the store admits
  and a hash that has the size of SHA-224 and does not collide on the raw passwords in use,
  presenting the Trojan credential of a raw password has the same outcome as presenting that
  password to a Hysteria2 inbound.
\<close>

theorem trojan_matches_hysteria2:
  assumes "gmap_ok users" and "names_ok users"
    and "inj_on sha (insert raw (raw_passwords users))"
    and "\<And>s. length (sha s) = sha224_size"
  shows "authenticate_trojan now (new_authenticator sha users) (hash_password sha raw) =
    (case authenticate now (new_authenticator sha users) raw of Inl _ \<Rightarrow> None | Inr rid \<Rightarrow> Some rid)"
proof (cases "\<exists>u n c. map_of users u = Some c \<and> n \<in> set (uc_routes c) \<and> raw = raw_password u n (uc_password c)")
  case True
  then obtain u n c where m: "map_of users u = Some c" "n \<in> set (uc_routes c)"
    and r: "raw = raw_password u n (uc_password c)" by blast
  note nm = names_okD(1,2) [OF assms(2) m(1)] names_okD(3) [OF assms(2) m]
  from True r nm have "map_of (au_trojan (new_authenticator sha users)) (hash_password sha raw) = Some (route_id u n)"
    using trojan_lookup [OF assms] by simp
  with r m nm show ?thesis
    by (simp add: authenticate_trojan_def hash_password_valid assms(4) authenticate_raw active_at_def)
      (auto simp: new_authenticator_def build_user_entries_def build_user_entry_def)
next
  case False
  then have "map_of (au_trojan (new_authenticator sha users)) (hash_password sha raw) = None"
    using trojan_lookup [OF assms] by simp
  moreover from False have "\<nexists>rid. authenticate now (new_authenticator sha users) raw = Inr rid"
    by (blast dest: authenticate_InrD)
  ultimately show ?thesis
    by (auto simp: authenticate_trojan_def split: sum.splits)
qed

definition demo_hash :: "string \<Rightarrow> bytes" where
  "demo_hash s = take 28 (bytes_of_string s @ replicate 28 0)"

definition demo_users :: "(string, user_config) gomap" where
  "demo_users = [(''bob'', \<lparr>uc_password = ''pw'', uc_disabled = False, uc_expires_at = Some 100,
     uc_routes = [''direct''], uc_max_bytes = 0, uc_speed_limit = 0\<rparr>)]"

theorem trojan_matches_hysteria2_witness:
  "authenticate_trojan 7 (new_authenticator demo_hash demo_users) (hash_password demo_hash ''bob:direct:pw'') =
     (case authenticate 7 (new_authenticator demo_hash demo_users) ''bob:direct:pw'' of
        Inl _ \<Rightarrow> None | Inr rid \<Rightarrow> Some rid)"
proof (rule trojan_matches_hysteria2)
  show "gmap_ok demo_users" by (simp add: demo_users_def)
  show "names_ok demo_users"
    by (simp add: names_ok_def demo_users_def is_valid_name_def contains_any_def)
  have "raw_passwords demo_users = {''bob:direct:pw''}"
    by (auto simp: raw_passwords_def demo_users_def raw_password_def split: if_splits)
  then show "inj_on demo_hash (insert ''bob:direct:pw'' (raw_passwords demo_users))" by simp
  show "length (demo_hash s) = sha224_size" for s
    by (simp add: demo_hash_def sha224_size_def)
qed

end
