(* ===== verification/Tracker.thy ===== *)
theory Tracker
  imports Auth "HOL-Library.Multiset"
begin

text \<open>
  The connection tracker of \<open>internal/connection\<close>: sessions by their server-issued identity, the
  requests of each session by request number, the older address-keyed interface with counted TCP
  and UDP requests, and the snapshot the management page reads.  Its contract with the policy
  kernel is the locale \<open>request_registry\<close>, interpreted here on the tracker.
\<close>

section \<open>State and operations\<close>

record request =
  rq_id :: u64
  rq_protocol :: string
  rq_target :: string
  rq_started_at :: go_time

record tracked_session =
  ts_id :: string
  ts_inbound :: string
  ts_client_addr :: string
  ts_client_ip :: string
  ts_username :: string
  ts_node :: string
  ts_connected :: go_time
  ts_requests :: "(string, request list) gomap"

type_synonym tracker = "(string, tracked_session) gomap"

definition client_ip :: "string \<Rightarrow> string" where
  "client_ip address = (case split_host_port address of Inl _ \<Rightarrow> address | Inr (host, _) \<Rightarrow> host)"

definition new_tracker :: tracker where
  "new_tracker = []"

definition connect_session :: "go_time \<Rightarrow> string \<Rightarrow> string \<Rightarrow> string \<Rightarrow> string \<Rightarrow> tracker \<Rightarrow> tracker" where
  "connect_session now session_id inb address rid t =
     (let (username, node) = parse_id rid
      in gput session_id
           \<lparr>ts_id = session_id, ts_inbound = inb, ts_client_addr = address,
            ts_client_ip = client_ip address, ts_username = username, ts_node = node,
            ts_connected = now, ts_requests = []\<rparr> t)"

definition disconnect_session :: "string \<Rightarrow> tracker \<Rightarrow> tracker" where
  "disconnect_session session_id t = gdel session_id t"

definition request_key :: "u64 \<Rightarrow> string" where
  "request_key request_id = ''request:'' @ format_uint (unat request_id)"

definition start_request :: "go_time \<Rightarrow> string \<Rightarrow> u64 \<Rightarrow> string \<Rightarrow> string \<Rightarrow> tracker \<Rightarrow> tracker" where
  "start_request now session_id request_id protocol target t =
     (case map_of t session_id of
        None \<Rightarrow> t
      | Some current \<Rightarrow>
          gput session_id (current\<lparr>ts_requests := gput (request_key request_id)
             [\<lparr>rq_id = request_id, rq_protocol = protocol, rq_target = target, rq_started_at = now\<rparr>]
             (ts_requests current)\<rparr>) t)"

definition stop_request :: "string \<Rightarrow> u64 \<Rightarrow> tracker \<Rightarrow> tracker" where
  "stop_request session_id request_id t =
     (case map_of t session_id of
        None \<Rightarrow> t
      | Some current \<Rightarrow>
          gput session_id (current\<lparr>ts_requests := gdel (request_key request_id) (ts_requests current)\<rparr>) t)"

text \<open>The address-keyed interface.\<close>

definition connect_addr :: "go_time \<Rightarrow> string \<Rightarrow> string \<Rightarrow> tracker \<Rightarrow> tracker" where
  "connect_addr now address rid t =
     (let (username, node) = parse_id rid
      in gput address
           \<lparr>ts_id = [], ts_inbound = [], ts_client_addr = address, ts_client_ip = client_ip address,
            ts_username = username, ts_node = node, ts_connected = now, ts_requests = []\<rparr> t)"

definition disconnect_addr :: "string \<Rightarrow> tracker \<Rightarrow> tracker" where
  "disconnect_addr address t = gdel address t"

definition start_keyed :: "go_time \<Rightarrow> string \<Rightarrow> string \<Rightarrow> string \<Rightarrow> string \<Rightarrow> tracker \<Rightarrow> tracker" where
  "start_keyed now address key protocol target t =
     (case map_of t address of
        None \<Rightarrow> t
      | Some current \<Rightarrow>
          gput address (current\<lparr>ts_requests := gput key
             (gget [] (ts_requests current) key @
              [\<lparr>rq_id = 0, rq_protocol = protocol, rq_target = target, rq_started_at = now\<rparr>])
             (ts_requests current)\<rparr>) t)"

definition stop_keyed :: "string \<Rightarrow> string \<Rightarrow> tracker \<Rightarrow> tracker" where
  "stop_keyed address key t =
     (case map_of t address of
        None \<Rightarrow> t
      | Some current \<Rightarrow>
          let requests = gget [] (ts_requests current) key
          in gput address (current\<lparr>ts_requests :=
               (if length requests \<le> 1 then gdel key (ts_requests current)
                else gput key (tl requests) (ts_requests current))\<rparr>) t)"

definition udp_key :: "u32 \<Rightarrow> string" where
  "udp_key session_id = ''udp:'' @ format_uint (unat session_id)"

definition start_tcp :: "go_time \<Rightarrow> string \<Rightarrow> string \<Rightarrow> tracker \<Rightarrow> tracker" where
  "start_tcp now address target t = start_keyed now address (''tcp:'' @ target) ''TCP'' target t"

definition stop_tcp :: "string \<Rightarrow> string \<Rightarrow> tracker \<Rightarrow> tracker" where
  "stop_tcp address target t = stop_keyed address (''tcp:'' @ target) t"

definition start_udp :: "go_time \<Rightarrow> string \<Rightarrow> u32 \<Rightarrow> string \<Rightarrow> tracker \<Rightarrow> tracker" where
  "start_udp now address session_id target t = start_keyed now address (udp_key session_id) ''UDP'' target t"

definition stop_udp :: "string \<Rightarrow> u32 \<Rightarrow> tracker \<Rightarrow> tracker" where
  "stop_udp address session_id t = stop_keyed address (udp_key session_id) t"

record connection_snapshot =
  cs_session_id :: string
  cs_inbound :: string
  cs_client_addr :: string
  cs_client_ip :: string
  cs_username :: string
  cs_node :: string
  cs_connected_at :: go_time
  cs_requests :: "request list"

definition snapshot_of :: "tracked_session \<Rightarrow> connection_snapshot" where
  "snapshot_of current =
     \<lparr>cs_session_id = ts_id current, cs_inbound = ts_inbound current,
      cs_client_addr = ts_client_addr current, cs_client_ip = ts_client_ip current,
      cs_username = ts_username current, cs_node = ts_node current,
      cs_connected_at = ts_connected current,
      cs_requests = sort_key rq_started_at (concat (map snd (ts_requests current)))\<rparr>"

definition snapshots :: "tracker \<Rightarrow> connection_snapshot list" where
  "snapshots t = sort_key cs_connected_at (map (\<lambda>(_, current). snapshot_of current) t)"

section \<open>The contract of a request registry\<close>

text \<open>
  What the kernel relies on: \<open>live r s\<close> is \<open>None\<close> for a session that is not attached, and otherwise
  maps each request number to the request in progress under it.
\<close>

locale request_registry =
  fixes attach :: "string \<Rightarrow> 'c \<Rightarrow> 'reg \<Rightarrow> 'reg"
    and detach :: "string \<Rightarrow> 'reg \<Rightarrow> 'reg"
    and start :: "string \<Rightarrow> u64 \<Rightarrow> 'q \<Rightarrow> 'reg \<Rightarrow> 'reg"
    and stop :: "string \<Rightarrow> u64 \<Rightarrow> 'reg \<Rightarrow> 'reg"
    and live :: "'reg \<Rightarrow> string \<Rightarrow> (u64 \<rightharpoonup> 'q) option"
  assumes live_attach: "live (attach s c r) s' = (if s' = s then Some Map.empty else live r s')"
    and live_detach: "live (detach s r) s' = (if s' = s then None else live r s')"
    and live_start: "live (start s i q r) s' =
          (if s' = s then map_option (\<lambda>m. m(i \<mapsto> q)) (live r s) else live r s')"
    and live_stop: "live (stop s i r) s' =
          (if s' = s then map_option (\<lambda>m. m(i := None)) (live r s) else live r s')"
begin

lemmas live_simps = live_attach live_detach live_start live_stop

text \<open>One whole request of one session, from attaching to detaching, leaves no trace.\<close>

lemma request_cycle:
  "live (detach s (stop s i (start s i q (attach s c r)))) s' = (if s' = s then None else live r s')"
  by (simp add: live_simps)

text \<open>Starting a request that is in progress under its own number, then stopping it, ends it.\<close>

lemma stop_start: "live (stop s i (start s i q r)) s' = live (stop s i r) s'"
  by (simp add: live_simps option.map_comp comp_def)

text \<open>Any sequence of operations on other sessions leaves a session's requests alone.\<close>

lemma others_untouched:
  assumes "\<forall>f \<in> set ops. \<exists>s i q c. s \<noteq> s0 \<and> f \<in> {attach s c, detach s, start s i q, stop s i}"
  shows "live (fold (\<lambda>f. f) ops r) s0 = live r s0"
  using assms
proof (induction ops arbitrary: r)
  case (Cons f ops)
  then have "live (f r) s0 = live r s0"
    by (auto simp: live_simps)
  with Cons show ?case by simp
qed simp

end

section \<open>The tracker implements it\<close>

definition requests_of :: "tracked_session \<Rightarrow> u64 \<rightharpoonup> string \<times> string \<times> go_time" where
  "requests_of s i =
     (case map_of (ts_requests s) (request_key i) of
        Some [q] \<Rightarrow> Some (rq_protocol q, rq_target q, rq_started_at q)
      | _ \<Rightarrow> None)"

definition tracker_live :: "tracker \<Rightarrow> string \<Rightarrow> (u64 \<rightharpoonup> string \<times> string \<times> go_time) option" where
  "tracker_live t s = map_option requests_of (map_of t s)"

lemma request_key_inject [simp]: "request_key i = request_key j \<longleftrightarrow> i = j"
  by (auto simp: request_key_def intro: unsigned_word_eqI)

lemma requests_of_start [simp]:
  "requests_of (s\<lparr>ts_requests := gput (request_key i)
      [\<lparr>rq_id = i, rq_protocol = p, rq_target = tg, rq_started_at = now\<rparr>] (ts_requests s)\<rparr>) =
   (requests_of s)(i \<mapsto> (p, tg, now))"
  by (auto simp: requests_of_def fun_eq_iff)

lemma requests_of_stop [simp]:
  "requests_of (s\<lparr>ts_requests := gdel (request_key i) (ts_requests s)\<rparr>) = (requests_of s)(i := None)"
  by (auto simp: requests_of_def fun_eq_iff)

interpretation tracked: request_registry
  "\<lambda>s (now, inb, address, rid). connect_session now s inb address rid"
  disconnect_session
  "\<lambda>s i (protocol, target, now). start_request now s i protocol target"
  stop_request
  tracker_live
proof
  fix s s' :: string and t :: tracker and c :: "go_time \<times> string \<times> string \<times> string"
  show "tracker_live ((case c of (now, inb, address, rid) \<Rightarrow> connect_session now s inb address rid) t) s' =
      (if s' = s then Some Map.empty else tracker_live t s')"
    by (auto simp: tracker_live_def connect_session_def requests_of_def fun_eq_iff split: prod.splits)
next
  fix s s' :: string and t :: tracker
  show "tracker_live (disconnect_session s t) s' = (if s' = s then None else tracker_live t s')"
    by (simp add: tracker_live_def disconnect_session_def)
next
  fix s s' :: string and i :: u64 and q :: "string \<times> string \<times> go_time" and t :: tracker
  show "tracker_live ((case q of (protocol, target, now) \<Rightarrow> start_request now s i protocol target) t) s' =
      (if s' = s then map_option (\<lambda>m. m(i \<mapsto> q)) (tracker_live t s) else tracker_live t s')"
    by (cases q) (auto simp: tracker_live_def start_request_def split: option.splits)
next
  fix s s' :: string and i :: u64 and t :: tracker
  show "tracker_live (stop_request s i t) s' =
      (if s' = s then map_option (\<lambda>m. m(i := None)) (tracker_live t s) else tracker_live t s')"
    by (auto simp: tracker_live_def stop_request_def split: option.splits)
qed

section \<open>The counted interface\<close>

definition open_requests :: "tracker \<Rightarrow> string \<Rightarrow> string \<Rightarrow> request list" where
  "open_requests t address key =
     (case map_of t address of None \<Rightarrow> [] | Some s \<Rightarrow> gget [] (ts_requests s) key)"

lemma open_requests_start_keyed:
  assumes "map_of t address \<noteq> None"
  shows "open_requests (start_keyed now address key protocol target t) address' key' =
    (if address' = address \<and> key' = key
     then open_requests t address key @ [\<lparr>rq_id = 0, rq_protocol = protocol, rq_target = target, rq_started_at = now\<rparr>]
     else open_requests t address' key')"
  using assms by (auto simp: open_requests_def start_keyed_def)

lemma gget_gdel [simp]: "gget d (gdel k m) k' = (if k' = k then d else gget d m k')"
  by (simp add: gget_def)

lemma open_requests_stop_keyed:
  "open_requests (stop_keyed address key t) address' key' =
    (if address' = address \<and> key' = key then tl (open_requests t address key)
     else open_requests t address' key')"
proof (cases "map_of t address")
  case (Some s)
  have "length xs \<le> 1 \<Longrightarrow> tl xs = []" for xs :: "request list" by (cases xs) auto
  with Some show ?thesis by (auto simp: open_requests_def stop_keyed_def Let_def)
qed (auto simp: open_requests_def stop_keyed_def)

lemma connected_start_keyed [frame_simps]:
  "map_of (start_keyed now address key protocol target t) a = None \<longleftrightarrow> map_of t a = None"
  by (auto simp: start_keyed_def split: option.splits)

section \<open>Snapshots\<close>

text \<open>
  The invariant of a tracker driven through the session interface: a session has at most one
  request per number, stored under the key of its own number.
\<close>

definition session_ok :: "tracked_session \<Rightarrow> bool" where
  "session_ok s \<longleftrightarrow> gmap_ok (ts_requests s) \<and>
     gall (\<lambda>k qs. \<exists>q. qs = [q] \<and> k = request_key (rq_id q)) (ts_requests s)"

definition tracker_ok :: "tracker \<Rightarrow> bool" where
  "tracker_ok t \<longleftrightarrow> gmap_ok t \<and> gall (\<lambda>_. session_ok) t"

lemma session_ok_start:
  "session_ok s \<Longrightarrow> session_ok (s\<lparr>ts_requests := gput (request_key i)
      [\<lparr>rq_id = i, rq_protocol = p, rq_target = tg, rq_started_at = now\<rparr>] (ts_requests s)\<rparr>)"
  by (simp add: session_ok_def gall_gput)

lemma session_ok_stop:
  "session_ok s \<Longrightarrow> session_ok (s\<lparr>ts_requests := gdel (request_key i) (ts_requests s)\<rparr>)"
  by (simp add: session_ok_def gall_gdel)

lemma tracker_ok_gput: "tracker_ok t \<Longrightarrow> session_ok s \<Longrightarrow> tracker_ok (gput sid s t)"
  by (simp add: tracker_ok_def gall_gput)

lemma tracker_ok_gdel: "tracker_ok t \<Longrightarrow> tracker_ok (gdel sid t)"
  by (simp add: tracker_ok_def gall_gdel)

lemma tracker_okD: "tracker_ok t \<Longrightarrow> map_of t sid = Some s \<Longrightarrow> session_ok s"
  by (auto simp: tracker_ok_def dest: gall_lookup)

lemma tracker_ok_ops [intro]:
  "tracker_ok new_tracker"
  "tracker_ok t \<Longrightarrow> tracker_ok (connect_session now sid inb address rid t)"
  "tracker_ok t \<Longrightarrow> tracker_ok (disconnect_session sid t)"
  "tracker_ok t \<Longrightarrow> tracker_ok (start_request now sid i protocol target t)"
  "tracker_ok t \<Longrightarrow> tracker_ok (stop_request sid i t)"
  by (auto simp: new_tracker_def connect_session_def disconnect_session_def start_request_def
      stop_request_def tracker_ok_gdel split: option.splits prod.splits
      intro!: tracker_ok_gput session_ok_start session_ok_stop dest: tracker_okD)
    (simp_all add: tracker_ok_def session_ok_def)

lemma snapshot_requests_iff:
  assumes "session_ok s"
  shows "q \<in> set (cs_requests (snapshot_of s)) \<longleftrightarrow> map_of (ts_requests s) (request_key (rq_id q)) = Some [q]"
proof -
  have "q \<in> set (cs_requests (snapshot_of s)) \<longleftrightarrow> (\<exists>k qs. (k, qs) \<in> set (ts_requests s) \<and> q \<in> set qs)"
    by (force simp: snapshot_of_def)
  also have "\<dots> \<longleftrightarrow> (request_key (rq_id q), [q]) \<in> set (ts_requests s)"
    using assms by (fastforce simp: session_ok_def gall_def)
  also have "\<dots> \<longleftrightarrow> map_of (ts_requests s) (request_key (rq_id q)) = Some [q]"
    using assms by (simp add: session_ok_def)
  finally show ?thesis .
qed

lemma mset_snapshots: "mset (snapshots t) = mset (map (snapshot_of \<circ> snd) t)"
  by (simp add: snapshots_def comp_def case_prod_unfold)

section \<open>Properties\<close>

text \<open>
  the management snapshot is exact.  For a tracker reached through the session interface, a
  session is listed if and only if it is attached, and a request appears in its entry if and only
  if it was started on that session and not stopped since; sessions are ordered by connection
  time.
\<close>

theorem snapshots_exact:
  assumes "tracker_ok t" and "map_of t sid = Some s"
  shows "sorted (map cs_connected_at (snapshots t)) \<and> snapshot_of s \<in> set (snapshots t) \<and>
    ((\<exists>q \<in> set (cs_requests (snapshot_of s)). rq_id q = i \<and> rq_protocol q = protocol \<and>
         rq_target q = target \<and> rq_started_at q = now) \<longleftrightarrow>
      (\<exists>m. tracker_live t sid = Some m \<and> m i = Some (protocol, target, now)))"
proof (intro conjI)
  show "sorted (map cs_connected_at (snapshots t))" by (simp add: snapshots_def)
  from assms(2) show "snapshot_of s \<in> set (snapshots t)"
    by (auto simp: snapshots_def dest!: map_of_SomeD)
  from assms have ok: "session_ok s" by (rule tracker_okD)
  have one: "map_of (ts_requests s) (request_key i) = Some qs \<Longrightarrow> \<exists>q. qs = [q] \<and> rq_id q = i" for qs
    using ok by (fastforce simp: session_ok_def dest!: gall_lookup)
  show "(\<exists>q \<in> set (cs_requests (snapshot_of s)). rq_id q = i \<and> rq_protocol q = protocol \<and>
         rq_target q = target \<and> rq_started_at q = now) \<longleftrightarrow>
      (\<exists>m. tracker_live t sid = Some m \<and> m i = Some (protocol, target, now))"
    using assms(2) one by (auto simp: tracker_live_def requests_of_def snapshot_requests_iff [OF ok]
        split: option.splits list.splits)
qed

definition demo_tracker :: tracker where
  "demo_tracker = start_request 5 ''in/1'' 3 ''TCP'' ''example.org:80''
     (connect_session 4 ''in/1'' ''in'' ''10.0.0.1:999'' ''bob:direct'' new_tracker)"

theorem snapshots_exact_witness:
  "tracker_ok demo_tracker \<and> (\<exists>s. map_of demo_tracker ''in/1'' = Some s \<and>
     snapshot_of s \<in> set (snapshots demo_tracker) \<and>
     (\<exists>q \<in> set (cs_requests (snapshot_of s)). rq_id q = 3 \<and> rq_protocol q = ''TCP'' \<and>
        rq_target q = ''example.org:80'' \<and> rq_started_at q = 5))"
proof -
  have ok: "tracker_ok demo_tracker" unfolding demo_tracker_def by (intro tracker_ok_ops)
  obtain s where s: "map_of demo_tracker ''in/1'' = Some s"
    by (cases "parse_id ''bob:direct''") (simp add: demo_tracker_def start_request_def connect_session_def)
  have "\<exists>m. tracker_live demo_tracker ''in/1'' = Some m \<and> m 3 = Some (''TCP'', ''example.org:80'', 5)"
    unfolding demo_tracker_def
    using tracked.live_start [of "''in/1''" 3 "(''TCP'', ''example.org:80'', 5)"]
      tracked.live_attach [of "''in/1''" "(4, ''in'', ''10.0.0.1:999'', ''bob:direct'')"] by simp
  with snapshots_exact [OF ok s] ok s show ?thesis by blast
qed

text \<open>
  the address-keyed interface counts.  On a connected address, starting TCP requests to one
  target at the given times and then stopping \<open>k\<close> of them removes the \<open>k\<close> oldest and keeps the
  rest in order; stopping more often than was started leaves none.
\<close>

theorem tcp_requests_counted:
  assumes "map_of t address \<noteq> None"
  shows "open_requests ((stop_tcp address target ^^ k) (fold (\<lambda>now. start_tcp now address target) ts t))
      address (''tcp:'' @ target) =
    drop k (open_requests t address (''tcp:'' @ target) @
      map (\<lambda>now. \<lparr>rq_id = 0, rq_protocol = ''TCP'', rq_target = target, rq_started_at = now\<rparr>) ts)"
proof -
  have starts: "open_requests (fold (\<lambda>now. start_tcp now address target) ts t) address (''tcp:'' @ target) =
      open_requests t address (''tcp:'' @ target) @
      map (\<lambda>now. \<lparr>rq_id = 0, rq_protocol = ''TCP'', rq_target = target, rq_started_at = now\<rparr>) ts"
    using assms
    by (induction ts arbitrary: t)
      (simp_all add: start_tcp_def open_requests_start_keyed connected_start_keyed del: not_None_eq)
  have "open_requests ((stop_tcp address target ^^ k) u) address (''tcp:'' @ target) =
      drop k (open_requests u address (''tcp:'' @ target))" for u
    by (induction k) (simp_all add: stop_tcp_def open_requests_stop_keyed drop_Suc tl_drop)
  with starts show ?thesis by simp
qed

theorem tcp_requests_counted_witness:
  "map_of (connect_addr 1 ''1.2.3.4:5'' ''bob:direct'' new_tracker) ''1.2.3.4:5'' \<noteq> None \<and>
   open_requests ((stop_tcp ''1.2.3.4:5'' ''x:1'' ^^ 1) (fold (\<lambda>now. start_tcp now ''1.2.3.4:5'' ''x:1'')
     [7, 8] (connect_addr 1 ''1.2.3.4:5'' ''bob:direct'' new_tracker))) ''1.2.3.4:5'' ''tcp:x:1'' =
   [\<lparr>rq_id = 0, rq_protocol = ''TCP'', rq_target = ''x:1'', rq_started_at = 8\<rparr>]"
proof -
  have c: "map_of (connect_addr 1 ''1.2.3.4:5'' ''bob:direct'' new_tracker) ''1.2.3.4:5'' \<noteq> None"
    by (cases "parse_id ''bob:direct''") (simp add: connect_addr_def new_tracker_def)
  have o: "open_requests (connect_addr 1 ''1.2.3.4:5'' ''bob:direct'' new_tracker) ''1.2.3.4:5'' key = []" for key
    by (cases "parse_id ''bob:direct''") (simp add: open_requests_def connect_addr_def new_tracker_def)
  show ?thesis
    using c tcp_requests_counted [OF c, of 1 "''x:1''" "[7, 8]"] by (simp add: o)
qed

end
