(* ===== verification/Calendar.thy ===== *)
theory Calendar
  imports Go_Std
begin

text \<open>
  Natural months.  \<open>monthBounds\<close> of the traffic logger and \<open>monthRange\<close> of the management page
  compute, for an instant, the key \<open>2006-01\<close> of its month and the instants at which the month
  starts and ends in the configured location.  Everything else depends on a location only
  through these three values, so the locale \<open>month_calendar\<close> states what a location provides;
  it is interpreted here on the proleptic Gregorian calendar of a location with a constant offset
  from UTC, of which \<open>time.UTC\<close> (the default of the code) is one.
\<close>

section \<open>The contract of a location\<close>

type_synonym month_fn = "go_time \<Rightarrow> string \<times> go_time \<times> go_time"

definition month_key :: "month_fn \<Rightarrow> go_time \<Rightarrow> string" where
  "month_key mb t = fst (mb t)"

locale month_calendar =
  fixes mb :: month_fn
  assumes same_key: "fst (mb t) = fst (mb t') \<longleftrightarrow> fst (snd (mb t)) \<le> t' \<and> t' < snd (snd (mb t))"
    and start_whole: "fst (snd (mb t)) mod second = 0"
    and end_whole: "snd (snd (mb t)) mod second = 0"
    and key_nonempty: "fst (mb t) \<noteq> []"
begin

text \<open>
  The store compares whole seconds; because months start and end on whole seconds, the
  comparison selects exactly the instants of the month.
\<close>

lemma in_month_seconds:
  "unix_seconds (fst (snd (mb t))) \<le> unix_seconds t' \<and> unix_seconds t' < unix_seconds (snd (snd (mb t)))
     \<longleftrightarrow> month_key mb t' = month_key mb t"
proof -
  have *: "a div second \<le> b div second \<longleftrightarrow> a \<le> b" if "a mod second = 0" for a b :: int
  proof -
    have a: "a = second * (a div second)" using that by (simp add: minus_mod_eq_mult_div [symmetric])
    have b: "b = second * (b div second) + b mod second" "0 \<le> b mod second" "b mod second < second"
      by simp_all
    show ?thesis using a b by linarith
  qed
  have "unix_seconds (fst (snd (mb t))) \<le> unix_seconds t' \<longleftrightarrow> fst (snd (mb t)) \<le> t'"
    unfolding unix_seconds_def by (rule * [OF start_whole])
  moreover have "unix_seconds t' < unix_seconds (snd (snd (mb t))) \<longleftrightarrow> t' < snd (snd (mb t))"
    unfolding unix_seconds_def using * [OF end_whole, of t t'] by (simp add: not_le [symmetric])
  ultimately show ?thesis
    using same_key [of t t'] by (auto simp: month_key_def)
qed

end

section \<open>The Gregorian calendar\<close>

definition leap_year :: "int \<Rightarrow> bool" where
  "leap_year y \<longleftrightarrow> (y mod 4 = 0 \<and> y mod 100 \<noteq> 0) \<or> y mod 400 = 0"

text \<open>Days from the start of year 0 to the start of year \<open>y\<close>.\<close>

definition year_days :: "int \<Rightarrow> int" where
  "year_days y = 365 * y + (y + 3) div 4 - (y + 99) div 100 + (y + 399) div 400"

definition days_in :: "bool \<Rightarrow> nat \<Rightarrow> int" where
  "days_in leap m = (if m = 1 then (if leap then 29 else 28) else if m \<in> {3, 5, 8, 10} then 30 else 31)"

definition month_days :: "bool \<Rightarrow> nat \<Rightarrow> int" where
  "month_days leap m = sum_list (map (days_in leap) [0..<m])"

text \<open>
  Months are numbered consecutively: month \<open>i\<close> is month \<open>i mod 12\<close> (from 0) of year
  \<open>i div 12\<close>.  Its first day, counted from January 1 of 1970:
\<close>

definition month_start :: "int \<Rightarrow> int" where
  "month_start i = year_days (i div 12) + month_days (leap_year (i div 12)) (nat (i mod 12)) - 719528"

lemma ceil_div_Suc:
  fixes y n :: int
  assumes "0 < n" "k = n - 1"
  shows "(y + n) div n = (y + k) div n + (if y mod n = 0 then 1 else 0)"
proof -
  define q r where "q = y div n" and "r = y mod n"
  have y: "y = n * q + r" and r: "0 \<le> r" "r < n"
    using assms by (simp_all add: q_def r_def)
  have "(y + n) div n = q + 1"
    by (rule int_div_pos_eq [of _ _ _ r]) (use y r in \<open>simp_all add: algebra_simps\<close>)
  moreover have "(y + k) div n = (if r = 0 then q else q + 1)"
  proof (cases "r = 0")
    case True
    then show ?thesis
      using int_div_pos_eq [of "y + k" n q "n - 1"] y assms by simp
  next
    case False
    then show ?thesis
      using int_div_pos_eq [of "y + k" n "q + 1" "r - 1"] y r assms by (simp add: distrib_left)
  qed
  ultimately show ?thesis by (simp add: r_def)
qed

lemma year_days_Suc: "year_days (y + 1) = year_days y + 365 + (if leap_year y then 1 else 0)"
proof -
  have c: "(y + 4) div 4 = (y + 3) div 4 + (if y mod 4 = 0 then 1 else 0)"
    "(y + 100) div 100 = (y + 99) div 100 + (if y mod 100 = 0 then 1 else 0)"
    "(y + 400) div 400 = (y + 399) div 400 + (if y mod 400 = 0 then 1 else 0)"
    by (rule ceil_div_Suc; simp)+
  have m: "y mod 400 = 0 \<Longrightarrow> y mod 100 = 0" "y mod 100 = 0 \<Longrightarrow> y mod 4 = 0"
    using dvd_trans [of 100 400 y] dvd_trans [of 4 100 y] by (simp_all add: dvd_eq_mod_eq_0)
  have "year_days (y + 1) = 365 * y + 365 + (y + 4) div 4 - (y + 100) div 100 + (y + 400) div 400"
    unfolding year_days_def by (simp add: add.commute)
  also have "\<dots> = year_days y + 365 + ((if y mod 4 = 0 then 1 else 0) - (if y mod 100 = 0 then 1 else 0) +
      (if y mod 400 = 0 then 1 else 0))"
    unfolding c year_days_def by linarith
  also have "\<dots> = year_days y + 365 + (if leap_year y then 1 else 0)"
    using m unfolding leap_year_def by (cases "y mod 4 = 0"; cases "y mod 100 = 0"; cases "y mod 400 = 0") simp_all
  finally show ?thesis .
qed

lemma month_days_Suc: "month_days leap (Suc m) = month_days leap m + days_in leap m"
  by (simp add: month_days_def)

lemma month_days_12: "month_days leap 12 = 365 + (if leap then 1 else 0)"
  by (simp add: month_days_def days_in_def upt_rec)

lemma month_start_Suc: "month_start (i + 1) = month_start i + days_in (leap_year (i div 12)) (nat (i mod 12))"
proof (cases "i mod 12 = 11")
  case True
  then have i: "i = 12 * (i div 12) + 11" by (metis mult_div_mod_eq)
  have e: "i + 1 = 12 * (i div 12 + 1) + 0"
    by (subst i) (simp add: distrib_left)
  have q: "(i + 1) div 12 = i div 12 + 1" "(i + 1) mod 12 = 0"
    using int_div_pos_eq [OF e] int_mod_pos_eq [OF e] by simp_all
  have "month_days l (nat (i mod 12)) + days_in l (nat (i mod 12)) = month_days l 12" for l
    using month_days_Suc [of l 11] True by simp
  then have "month_days l (nat (i mod 12)) + days_in l (nat (i mod 12)) = 365 + (if l then 1 else 0)" for l
    by (simp only: month_days_12)
  from this [of "leap_year (i div 12)"] show ?thesis
    unfolding month_start_def q year_days_Suc by (simp add: month_days_def [of _ 0])
next
  case False
  then have m: "0 \<le> i mod 12 + 1" "i mod 12 + 1 < 12" by simp_all
  have i: "i + 1 = 12 * (i div 12) + (i mod 12 + 1)" by simp
  have "(i + 1) div 12 = i div 12" "(i + 1) mod 12 = i mod 12 + 1"
    using int_div_pos_eq [OF i m] int_mod_pos_eq [OF i m] by blast+
  moreover have "nat (i mod 12 + 1) = Suc (nat (i mod 12))" by (simp add: Suc_nat_eq_nat_zadd1 add.commute)
  ultimately show ?thesis unfolding month_start_def by (simp only: month_days_Suc)
qed

lemma days_in_pos: "28 \<le> days_in leap m"
  by (simp add: days_in_def)

lemma month_start_step: "month_start i < month_start (i + 1)"
  using days_in_pos by (smt (verit, best) month_start_Suc)

lemma month_start_mono: "i \<le> j \<Longrightarrow> month_start i \<le> month_start j"
proof (induction "nat (j - i)" arbitrary: j)
  case (Suc n)
  then have "month_start i \<le> month_start (j - 1)" by simp
  also have "\<dots> \<le> month_start j" using month_start_step [of "j - 1"] by simp
  finally show ?case .
qed simp

text \<open>
  The month of a day: a search upwards from a month that begins no later than the day.  The
  starting year is a lower bound of the day's year.
\<close>

function find_month :: "int \<Rightarrow> int \<Rightarrow> int" where
  "find_month d i = (if month_start (i + 1) \<le> d then find_month d (i + 1) else i)"
  by pat_completeness auto
termination
proof (relation "measure (\<lambda>(d, i). nat (d - month_start i))", goal_cases)
  case (2 d i)
  with month_start_step [of i] show ?case by simp
qed simp

declare find_month.simps [simp del]

definition base_year :: "int \<Rightarrow> int" where
  "base_year d = (if 0 \<le> d + 719528 then (d + 719528) div 366 else (d + 719528) div 365 - 1)"

definition month_index :: "int \<Rightarrow> int" where
  "month_index d = find_month d (12 * base_year d)"

lemma find_month_spec:
  "month_start i \<le> d \<Longrightarrow> month_start (find_month d i) \<le> d \<and> d < month_start (find_month d i + 1)"
proof (induction d i rule: find_month.induct)
  case (1 d i)
  then show ?case by (cases "month_start (i + 1) \<le> d") (simp_all add: find_month.simps [of d i])
qed

lemma month_start_year: "month_start (12 * y) = year_days y - 719528"
  by (simp add: month_start_def month_days_def)

lemma base_year_le: "month_start (12 * base_year d) \<le> d"
proof (cases "0 \<le> d + 719528")
  case True
  define y where "y = (d + 719528) div 366"
  have y: "0 \<le> y" "366 * y \<le> d + 719528" using True unfolding y_def by simp_all
  have "(y + 3) div 4 - (y + 99) div 100 + (y + 399) div 400 \<le> y"
    using y(1) by (cases "y = 0") (simp, linarith)
  then show ?thesis
    using y True by (simp add: base_year_def month_start_year year_days_def flip: y_def)
next
  case False
  define y where "y = (d + 719528) div 365 - 1"
  have y: "y < 0" "365 * (y + 1) \<le> d + 719528" using False unfolding y_def by simp_all
  have "(y + 3) div 4 - (y + 99) div 100 + (y + 399) div 400 \<le> 365"
    using y(1) by linarith
  then show ?thesis
    using y False by (simp add: base_year_def month_start_year year_days_def flip: y_def)
qed

lemma month_index_spec: "month_start (month_index d) \<le> d \<and> d < month_start (month_index d + 1)"
  unfolding month_index_def by (rule find_month_spec [OF base_year_le])

lemma month_index_unique:
  assumes "month_start i \<le> d" "d < month_start (i + 1)"
  shows "month_index d = i"
proof (rule ccontr)
  assume "month_index d \<noteq> i"
  then consider "month_index d + 1 \<le> i" | "i + 1 \<le> month_index d" by linarith
  then show False
  proof cases
    case 1
    from month_start_mono [OF this] month_index_spec [of d] assms show ?thesis by linarith
  next
    case 2
    from month_start_mono [OF this] month_index_spec [of d] assms show ?thesis by linarith
  qed
qed

section \<open>Month keys\<close>

definition pad_zero :: "nat \<Rightarrow> string \<Rightarrow> string" where
  "pad_zero w s = replicate (w - length s) CHR ''0'' @ s"

text \<open>\<open>Format("2006-01")\<close>.\<close>

definition month_label :: "int \<Rightarrow> string" where
  "month_label i =
     (if i div 12 < 0 then ''-'' else []) @ pad_zero 4 (format_uint (nat \<bar>i div 12\<bar>)) @ ''-'' @
     pad_zero 2 (format_uint (nat (i mod 12) + 1))"

lemma decimal_value_zeros: "decimal_value (replicate n CHR ''0'' @ s) = decimal_value s"
  by (induction n) (simp_all add: decimal_value_def digit_value_def)

lemma decimal_value_pad_zero [simp]: "decimal_value (pad_zero w (format_uint n)) = n"
  by (simp add: pad_zero_def decimal_value_zeros)

lemma pad_zero_no_dash: "CHR ''-'' \<notin> set (pad_zero w (format_uint n))"
  using format_uint_notin [of "CHR ''-''" n] by (auto simp: pad_zero_def)

lemma pad_zero_nonempty [simp]: "pad_zero w (format_uint n) \<noteq> []"
  by (simp add: pad_zero_def)

lemma append_sep_inject:
  fixes a a' b b' :: string
  assumes "c \<notin> set a" "c \<notin> set a'"
  shows "a @ c # b = a' @ c # b' \<longleftrightarrow> a = a' \<and> b = b'"
  using assms index_byte_append [of c a b] index_byte_append [of c a' b'] append_eq_append_conv
  by (metis list.inject option.inject)

lemma month_parts_inject:
  fixes i j :: int
  assumes "i div 12 < 0 \<longleftrightarrow> j div 12 < 0" "nat \<bar>i div 12\<bar> = nat \<bar>j div 12\<bar>"
    and "nat (i mod 12) + 1 = nat (j mod 12) + 1"
  shows "i = j"
proof -
  have "(a < 0) = (b < 0) \<Longrightarrow> nat \<bar>a\<bar> = nat \<bar>b\<bar> \<Longrightarrow> a = b" for a b :: int by linarith
  from this [OF assms(1,2)] have d: "i div 12 = j div 12" .
  have m: "i mod 12 = j mod 12"
    using assms(3) by (metis add_right_cancel eq_nat_nat_iff pos_mod_sign zero_less_numeral)
  have "i = 12 * (i div 12) + i mod 12" by (rule mult_div_mod_eq [symmetric])
  also have "\<dots> = j" unfolding d m by (rule mult_div_mod_eq)
  finally show ?thesis .
qed

lemma month_label_inject: "month_label i = month_label j \<longleftrightarrow> i = j"
proof
  assume eq: "month_label i = month_label j"
  define y where "y k = nat \<bar>k div 12\<bar>" for k :: int
  define m where "m k = nat (k mod 12) + 1" for k :: int
  have label: "month_label k = (if k div 12 < 0 then ''-'' else []) @ pad_zero 4 (format_uint (y k)) @
      CHR ''-'' # pad_zero 2 (format_uint (m k))" for k
    by (simp add: month_label_def y_def m_def)
  have no_dash: "CHR ''-'' # xs \<noteq> pad_zero 4 (format_uint n) @ zs" for n xs zs
    using pad_zero_no_dash [of 4 n] by (cases "pad_zero 4 (format_uint n)") auto
  have sgn: "i div 12 < 0 \<longleftrightarrow> j div 12 < 0"
  proof (rule ccontr)
    assume "(i div 12 < 0) \<noteq> (j div 12 < 0)"
    with eq no_dash no_dash [symmetric] show False
      unfolding label by (cases "i div 12 < 0") simp_all
  qed
  then have "pad_zero 4 (format_uint (y i)) @ CHR ''-'' # pad_zero 2 (format_uint (m i)) =
      pad_zero 4 (format_uint (y j)) @ CHR ''-'' # pad_zero 2 (format_uint (m j))"
    using eq unfolding label by (cases "i div 12 < 0") simp_all
  then have "pad_zero 4 (format_uint (y i)) = pad_zero 4 (format_uint (y j))"
    and "pad_zero 2 (format_uint (m i)) = pad_zero 2 (format_uint (m j))"
    by (simp_all add: append_sep_inject pad_zero_no_dash)
  then have "y i = y j" "m i = m j"
    by (metis decimal_value_pad_zero)+
  with sgn show "i = j"
    unfolding y_def m_def by (rule month_parts_inject)
qed simp

section \<open>The bounds of a month in a location with a constant offset\<close>

definition day_ns :: int where "day_ns = 86400 * second"

definition fixed_zone :: "int \<Rightarrow> month_fn" where
  "fixed_zone offset t =
     (let local = t + offset * second; i = month_index (local div day_ns)
      in (month_label i, month_start i * day_ns - offset * second, month_start (i + 1) * day_ns - offset * second))"

abbreviation utc :: month_fn where "utc \<equiv> fixed_zone 0"

lemma fixed_zone_in:
  "month_index (t div day_ns) = i \<longleftrightarrow> month_start i * day_ns \<le> t \<and> t < month_start (i + 1) * day_ns"
proof -
  have *: "a * day_ns \<le> t \<longleftrightarrow> a \<le> t div day_ns" for a
    by (simp add: day_ns_def) linarith
  then have "month_start i * day_ns \<le> t \<and> t < month_start (i + 1) * day_ns \<longleftrightarrow>
      month_start i \<le> t div day_ns \<and> t div day_ns < month_start (i + 1)"
    by (metis linorder_not_le)
  with month_index_unique month_index_spec show ?thesis by blast
qed

interpretation zone: month_calendar "fixed_zone offset" for offset
proof
  fix t t' :: go_time
  let ?i = "month_index ((t + offset * second) div day_ns)"
  show "fst (fixed_zone offset t) = fst (fixed_zone offset t') \<longleftrightarrow>
      fst (snd (fixed_zone offset t)) \<le> t' \<and> t' < snd (snd (fixed_zone offset t))"
    using fixed_zone_in [of "t' + offset * second" ?i]
    by (auto simp: fixed_zone_def Let_def month_label_inject)
  show "fst (snd (fixed_zone offset t)) mod second = 0"
    by (simp add: fixed_zone_def Let_def day_ns_def)
  show "snd (snd (fixed_zone offset t)) mod second = 0"
    by (simp add: fixed_zone_def Let_def day_ns_def)
  show "fst (fixed_zone offset t) \<noteq> []"
    by (simp add: fixed_zone_def Let_def month_label_def)
qed

end
