(* ===== verification/Traffic_Store.thy ===== *)
theory Traffic_Store
  imports Calendar "HOL-Library.Product_Lexorder" "HOL-Library.List_Lexorder" "HOL-Library.Char_ord"
    "HOL-Library.Multiset"
begin

text \<open>
  The traffic tables of the SQLite store (\<open>storage/sqlite.go\<close> and the usage queries of
  \<open>storage/management.go\<close>): the log of flushed records, the cumulative summary per (user, node),
  the transactional flush, and the aggregate queries.  SQLite itself is not code of this program:
  what is used of it is the documented meaning of the statements (\<open>INSERT\<close>,
  \<open>ON CONFLICT DO UPDATE\<close>, \<open>SUM\<close>, \<open>GROUP BY\<close>, \<open>ORDER BY\<close>), that a transaction that does not
  commit leaves nothing behind, and that any statement may fail; which statements fail is the
  argument \<open>io\<close>, a function of the position of the statement in the call.

  The locale \<open>traffic_store\<close> states what the traffic logger relies on; it is interpreted at the
  end of the theory on the operations of the store.
\<close>

section \<open>Rows and records\<close>

record traffic_record =
  tr_user :: string
  tr_node :: string
  tr_tx :: u64
  tr_rx :: u64
  tr_time :: go_time

definition zero_record :: traffic_record where
  "zero_record = \<lparr>tr_user = [], tr_node = [], tr_tx = 0, tr_rx = 0, tr_time = zero_time\<rparr>"

record log_row =
  lr_user :: string
  lr_node :: string
  lr_tx :: int
  lr_rx :: int
  lr_at :: int

text \<open>
  A column of the summary is an SQLite integer as long as the sum stays in the 64-bit range;
  \<open>+\<close> outside of it yields a floating point value (\<open>None\<close>), which stays one and cannot be read
  back into a \<open>uint64\<close>.
\<close>

record summary_row =
  sm_tx :: "int option"
  sm_rx :: "int option"
  sm_at :: int

record traffic_db =
  td_logs :: "log_row list"
  td_summary :: "(string \<times> string, summary_row) gomap"

record traffic_bucket =
  tb_hour :: int
  tb_user :: string
  tb_node :: string
  tb_tx :: u64
  tb_rx :: u64

record traffic_summary_row =
  sr_user :: string
  sr_node :: string
  sr_tx :: u64
  sr_rx :: u64

datatype store_error =
    BeginTx
  | PrepareInsertLog
  | PrepareUpsertSummary
  | InsertLog string string
  | UpsertSummary string string
  | CommitTx
  | QueryFailed
  | ScanFailed

abbreviation int64_ok :: "int \<Rightarrow> bool" where
  "int64_ok n \<equiv> - (2 ^ 63) \<le> n \<and> n < 2 ^ 63"

section \<open>Writing\<close>

text \<open>The argument conversion of \<open>database/sql\<close> refuses a \<open>uint64\<close> with its high bit set.\<close>

definition sql_uint :: "u64 \<Rightarrow> int option" where
  "sql_uint w = (if uint w < 2 ^ 63 then Some (uint w) else None)"

definition sql_add :: "int option \<Rightarrow> int \<Rightarrow> int option" where
  "sql_add a n = (case a of None \<Rightarrow> None | Some m \<Rightarrow> if int64_ok (m + n) then Some (m + n) else None)"

definition upsert_summary :: "log_row \<Rightarrow> traffic_db \<Rightarrow> traffic_db" where
  "upsert_summary r db =
     db\<lparr>td_summary := gput (lr_user r, lr_node r)
       (case map_of (td_summary db) (lr_user r, lr_node r) of
          None \<Rightarrow> \<lparr>sm_tx = Some (lr_tx r), sm_rx = Some (lr_rx r), sm_at = lr_at r\<rparr>
        | Some s \<Rightarrow> \<lparr>sm_tx = sql_add (sm_tx s) (lr_tx r), sm_rx = sql_add (sm_rx s) (lr_rx r),
            sm_at = max (sm_at s) (lr_at r)\<rparr>) (td_summary db)\<rparr>"

definition insert_log :: "log_row \<Rightarrow> traffic_db \<Rightarrow> traffic_db" where
  "insert_log r db = db\<lparr>td_logs := td_logs db @ [r]\<rparr>"

definition row_of :: "go_time \<Rightarrow> traffic_record \<Rightarrow> log_row option" where
  "row_of now r =
     (case (sql_uint (tr_tx r), sql_uint (tr_rx r)) of
        (Some t, Some x) \<Rightarrow> Some \<lparr>lr_user = tr_user r, lr_node = tr_node r, lr_tx = t, lr_rx = x,
          lr_at = unix_seconds (if is_zero_time (tr_time r) then now else tr_time r)\<rparr>
      | _ \<Rightarrow> None)"

text \<open>
  The loop over the records.  The two statements of a record are numbered from \<open>n\<close>; a record
  without payload is skipped.
\<close>

fun flush_records ::
  "(nat \<Rightarrow> bool) \<Rightarrow> go_time \<Rightarrow> nat \<Rightarrow> traffic_record list \<Rightarrow> traffic_db \<Rightarrow> (store_error, nat \<times> traffic_db) result"
where
  "flush_records io now n [] db = Inr (n, db)"
| "flush_records io now n (r # rs) db =
     (if tr_tx r = 0 \<and> tr_rx r = 0 then flush_records io now n rs db
      else
        (case row_of now r of
           None \<Rightarrow> Inl (InsertLog (tr_user r) (tr_node r))
         | Some row \<Rightarrow>
             (if \<not> io n then Inl (InsertLog (tr_user r) (tr_node r))
              else if \<not> io (n + 1) then Inl (UpsertSummary (tr_user r) (tr_node r))
              else flush_records io now (n + 2) rs (upsert_summary row (insert_log row db)))))"

definition flush_traffic ::
  "(nat \<Rightarrow> bool) \<Rightarrow> go_time \<Rightarrow> traffic_record list \<Rightarrow> traffic_db \<Rightarrow> (store_error, unit) result \<times> traffic_db"
where
  "flush_traffic io now rs db =
     (if \<not> io 0 then (Inl BeginTx, db)
      else if \<not> io 1 then (Inl PrepareInsertLog, db)
      else if \<not> io 2 then (Inl PrepareUpsertSummary, db)
      else
        (case flush_records io now 3 rs db of
           Inl e \<Rightarrow> (Inl e, db)
         | Inr (n, db') \<Rightarrow> if io n then (Inr (), db') else (Inl CommitTx, db)))"

section \<open>Reading\<close>

text \<open>\<open>SUM\<close> over integers: an overflow at any point of the sum fails the query.\<close>

fun sql_sum_from :: "int \<Rightarrow> int list \<Rightarrow> int option" where
  "sql_sum_from acc [] = Some acc"
| "sql_sum_from acc (x # xs) = (if int64_ok (acc + x) then sql_sum_from (acc + x) xs else None)"

definition sql_sum :: "int list \<Rightarrow> int option" where
  "sql_sum xs = sql_sum_from 0 xs"

text \<open>Reading a column into a \<open>uint64\<close>.\<close>

definition scan_uint :: "int option \<Rightarrow> u64 option" where
  "scan_uint v = (case v of None \<Rightarrow> None | Some n \<Rightarrow> if 0 \<le> n then Some (word_of_int n) else None)"

definition rows_between :: "go_time \<Rightarrow> go_time \<Rightarrow> traffic_db \<Rightarrow> log_row list" where
  "rows_between start stop db =
     filter (\<lambda>r. unix_seconds start \<le> lr_at r \<and> lr_at r < unix_seconds stop) (td_logs db)"

definition sum_pair :: "log_row list \<Rightarrow> (u64 \<times> u64) option" where
  "sum_pair rows =
     (case (scan_uint (sql_sum (map lr_tx rows)), scan_uint (sql_sum (map lr_rx rows))) of
        (Some t, Some x) \<Rightarrow> Some (t, x)
      | _ \<Rightarrow> None)"

text \<open>One aggregated row for every distinct value of a key, in the order of its first appearance.\<close>

fun collect_groups ::
  "(log_row \<Rightarrow> 'k) \<Rightarrow> 'k list \<Rightarrow> log_row list \<Rightarrow> (store_error, ('k, u64 \<times> u64) gomap) result"
where
  "collect_groups key [] rows = Inr []"
| "collect_groups key (k # ks) rows =
     (case sum_pair (filter (\<lambda>r. key r = k) rows) of
        None \<Rightarrow> Inl ScanFailed
      | Some p \<Rightarrow> (case collect_groups key ks rows of Inl e \<Rightarrow> Inl e | Inr m \<Rightarrow> Inr ((k, p) # m)))"

definition group_by :: "(log_row \<Rightarrow> 'k) \<Rightarrow> log_row list \<Rightarrow> (store_error, ('k, u64 \<times> u64) gomap) result" where
  "group_by key rows = collect_groups key (dedup_from [] (map key rows)) rows"

definition get_user_monthly_usage ::
  "bool \<Rightarrow> go_time \<Rightarrow> go_time \<Rightarrow> traffic_db \<Rightarrow> (store_error, (string, u64 \<times> u64) gomap) result"
where
  "get_user_monthly_usage io start stop db =
     (if io then group_by lr_user (rows_between start stop db) else Inl QueryFailed)"

definition get_node_monthly_usage ::
  "bool \<Rightarrow> go_time \<Rightarrow> go_time \<Rightarrow> traffic_db \<Rightarrow> (store_error, (string, u64 \<times> u64) gomap) result"
where
  "get_node_monthly_usage io start stop db =
     (if io then group_by lr_node (rows_between start stop db) else Inl QueryFailed)"

definition get_monthly_usage_for_user ::
  "bool \<Rightarrow> string \<Rightarrow> go_time \<Rightarrow> go_time \<Rightarrow> traffic_db \<Rightarrow> (store_error, u64 \<times> u64) result"
where
  "get_monthly_usage_for_user io username start stop db =
     (if \<not> io then Inl QueryFailed
      else case sum_pair (filter (\<lambda>r. lr_user r = username) (rows_between start stop db)) of
             None \<Rightarrow> Inl ScanFailed
           | Some p \<Rightarrow> Inr p)"

definition hour_start :: "int \<Rightarrow> int" where
  "hour_start s = 3600 * (s div 3600)"

definition bucket_key :: "log_row \<Rightarrow> int \<times> string \<times> string" where
  "bucket_key r = (hour_start (lr_at r), lr_user r, lr_node r)"

definition get_traffic_buckets ::
  "bool \<Rightarrow> go_time \<Rightarrow> go_time \<Rightarrow> traffic_db \<Rightarrow> (store_error, traffic_bucket list) result"
where
  "get_traffic_buckets io start stop db =
     (if \<not> io then Inl QueryFailed
      else case group_by bucket_key (rows_between start stop db) of
             Inl e \<Rightarrow> Inl e
           | Inr m \<Rightarrow> Inr (map (\<lambda>((h, u, n), t, x). \<lparr>tb_hour = h * second, tb_user = u, tb_node = n, tb_tx = t, tb_rx = x\<rparr>)
               (sort_key fst m)))"

definition scan_summary :: "summary_row \<Rightarrow> (store_error, u64 \<times> u64) result" where
  "scan_summary s =
     (case (scan_uint (sm_tx s), scan_uint (sm_rx s)) of
        (Some t, Some x) \<Rightarrow> Inr (t, x)
      | _ \<Rightarrow> Inl ScanFailed)"

definition get_summary :: "bool \<Rightarrow> string \<Rightarrow> string \<Rightarrow> traffic_db \<Rightarrow> (store_error, u64 \<times> u64) result" where
  "get_summary io user node db =
     (if \<not> io then Inl QueryFailed
      else case map_of (td_summary db) (user, node) of
             None \<Rightarrow> Inr (0, 0)
           | Some s \<Rightarrow> scan_summary s)"

definition load_summary_for_user_node ::
  "bool \<Rightarrow> string \<Rightarrow> string \<Rightarrow> traffic_db \<Rightarrow> (store_error, u64 \<times> u64) result"
where
  "load_summary_for_user_node = get_summary"

fun scan_summaries ::
  "((string \<times> string) \<times> summary_row) list \<Rightarrow> (store_error, traffic_summary_row list) result"
where
  "scan_summaries [] = Inr []"
| "scan_summaries (((u, n), s) # rest) =
     (case scan_summary s of
        Inl e \<Rightarrow> Inl e
      | Inr (t, x) \<Rightarrow>
          (case scan_summaries rest of
             Inl e \<Rightarrow> Inl e
           | Inr rows \<Rightarrow> Inr (\<lparr>sr_user = u, sr_node = n, sr_tx = t, sr_rx = x\<rparr> # rows)))"

definition get_all_summaries :: "bool \<Rightarrow> traffic_db \<Rightarrow> (store_error, traffic_summary_row list) result" where
  "get_all_summaries io db = (if io then scan_summaries (td_summary db) else Inl QueryFailed)"

definition get_user_summaries ::
  "bool \<Rightarrow> string \<Rightarrow> traffic_db \<Rightarrow> (store_error, (string, u64 \<times> u64) gomap) result"
where
  "get_user_summaries io user db =
     (if \<not> io then Inl QueryFailed
      else case scan_summaries (filter (\<lambda>((u, n), s). u = user) (td_summary db)) of
             Inl e \<Rightarrow> Inl e
           | Inr rows \<Rightarrow> Inr (map (\<lambda>r. (sr_node r, (sr_tx r, sr_rx r))) rows))"

section \<open>The interface of the store\<close>

text \<open>
  \<open>usage db u P\<close> is the payload persisted for user \<open>u\<close> at the seconds that satisfy \<open>P\<close>.  A
  provider promises that a failed flush changes nothing, that a successful flush adds exactly the
  payload of the batch, and that a loaded map holds exactly the persisted payload.
\<close>

definition record_payload :: "traffic_record \<Rightarrow> int" where
  "record_payload r = uint (tr_tx r) + uint (tr_rx r)"

definition batch_usage :: "go_time \<Rightarrow> traffic_record list \<Rightarrow> string \<Rightarrow> (int \<Rightarrow> bool) \<Rightarrow> int" where
  "batch_usage now rs u P =
     (\<Sum>r \<leftarrow> rs. if tr_user r = u \<and> P (unix_seconds (if is_zero_time (tr_time r) then now else tr_time r))
                 then record_payload r else 0)"

locale traffic_store =
  fixes usage :: "'db \<Rightarrow> string \<Rightarrow> (int \<Rightarrow> bool) \<Rightarrow> int"
    and flush :: "'io \<Rightarrow> go_time \<Rightarrow> traffic_record list \<Rightarrow> 'db \<Rightarrow> ('e, unit) result \<times> 'db"
    and load :: "bool \<Rightarrow> go_time \<Rightarrow> go_time \<Rightarrow> 'db \<Rightarrow> ('e, (string, u64 \<times> u64) gomap) result"
  assumes flush_failed: "flush io now rs db = (Inl e, db') \<Longrightarrow> db' = db"
    and flush_done: "flush io now rs db = (Inr v, db') \<Longrightarrow> usage db' u P = usage db u P + batch_usage now rs u P"
    and load_done: "load ok start stop db = Inr m \<Longrightarrow>
      word_of_int (usage db u (\<lambda>s. unix_seconds start \<le> s \<and> s < unix_seconds stop)) =
        fst (gget (0, 0) m u) + snd (gget (0, 0) m u)"
    and load_keys: "load ok start stop db = Inr m \<Longrightarrow> gmap_ok m"
begin

text \<open>
  A batch that is flushed until an attempt succeeds is counted once, whatever the number of failed
  attempts before.
\<close>

lemma retried_once:
  assumes "\<forall>i < length ios. \<exists>e. flush (ios ! i) now rs (dbs ! i) = (Inl e, dbs ! Suc i)"
    and "length dbs = Suc (length ios)"
    and "flush io now rs (last dbs) = (Inr v, db')"
  shows "usage db' u P = usage (hd dbs) u P + batch_usage now rs u P"
proof -
  have "i \<le> length ios \<Longrightarrow> dbs ! i = dbs ! 0" for i
  proof (induction i)
    case (Suc i)
    then have "i < length ios" by simp
    then obtain e where "flush (ios ! i) now rs (dbs ! i) = (Inl e, dbs ! Suc i)"
      using assms(1) by blast
    from flush_failed [OF this] Suc show ?case by simp
  qed simp
  from this [OF order.refl] have same: "dbs ! length ios = dbs ! 0" .
  have "dbs \<noteq> []" using assms(2) by force
  then have "last dbs = hd dbs"
    using same assms(2) by (simp add: last_conv_nth hd_conv_nth)
  with flush_done [OF assms(3)] show ?thesis by simp
qed

end

text \<open>
  Together with a location, the contract speaks of months: a second belongs to the month of its
  key, and the records of a batch carry a timestamp of their month.
\<close>

definition in_month :: "month_fn \<Rightarrow> string \<Rightarrow> int \<Rightarrow> bool" where
  "in_month mb key s \<longleftrightarrow> month_key mb (s * second) = key"

locale month_store = traffic_store usage flush load + month_calendar mb
  for usage :: "'db \<Rightarrow> string \<Rightarrow> (int \<Rightarrow> bool) \<Rightarrow> int"
    and flush :: "'io \<Rightarrow> go_time \<Rightarrow> traffic_record list \<Rightarrow> 'db \<Rightarrow> ('e, unit) result \<times> 'db"
    and load :: "bool \<Rightarrow> go_time \<Rightarrow> go_time \<Rightarrow> 'db \<Rightarrow> ('e, (string, u64 \<times> u64) gomap) result"
    and mb :: month_fn
begin

lemma in_month_seconds_iff: "in_month mb (month_key mb t) s \<longleftrightarrow>
    unix_seconds (fst (snd (mb t))) \<le> s \<and> s < unix_seconds (snd (snd (mb t)))"
  using in_month_seconds [of t "s * second"] by (simp add: in_month_def unix_seconds_def)

lemma in_month_unix: "in_month mb key (unix_seconds t) \<longleftrightarrow> month_key mb t = key"
  using in_month_seconds [of t "unix_seconds t * second"] in_month_seconds [of t t]
  by (auto simp: in_month_def unix_seconds_def)

lemma month_loaded:
  assumes "load ok (fst (snd (mb t))) (snd (snd (mb t))) db = Inr m"
  shows "word_of_int (usage db u (in_month mb (month_key mb t))) = fst (gget (0, 0) m u) + snd (gget (0, 0) m u)"
  using load_done [OF assms, of u] by (simp add: in_month_seconds_iff [abs_def])

lemma month_flushed:
  assumes "flush io now rs db = (Inr v, db')"
    and "\<forall>r \<in> set rs. tr_time r \<noteq> zero_time"
  shows "usage db' u (in_month mb key) = usage db u (in_month mb key) +
    (\<Sum>r \<leftarrow> rs. if tr_user r = u \<and> month_key mb (tr_time r) = key then record_payload r else 0)"
proof -
  have "batch_usage now rs u (in_month mb key) =
      (\<Sum>r \<leftarrow> rs. if tr_user r = u \<and> month_key mb (tr_time r) = key then record_payload r else 0)"
    unfolding batch_usage_def using assms(2)
    by (intro arg_cong [where f = sum_list] map_cong) (simp_all add: is_zero_time_def in_month_unix)
  with flush_done [OF assms(1), of u] show ?thesis by simp
qed

end

section \<open>The flush\<close>

definition pair_rows :: "traffic_db \<Rightarrow> string \<Rightarrow> string \<Rightarrow> log_row list" where
  "pair_rows db u n = filter (\<lambda>r. lr_user r = u \<and> lr_node r = n) (td_logs db)"

definition clip64 :: "int \<Rightarrow> int option" where
  "clip64 n = (if n < 2 ^ 63 then Some n else None)"

definition summary_of :: "log_row list \<Rightarrow> summary_row" where
  "summary_of rows = \<lparr>sm_tx = clip64 (sum_list (map lr_tx rows)), sm_rx = clip64 (sum_list (map lr_rx rows)),
     sm_at = Max (lr_at ` set rows)\<rparr>"

text \<open>
  The invariant of the tables: every logged amount is a non-negative 64-bit integer, and the
  summary holds a row for exactly the pairs that were logged, with the totals of their log rows
  and the latest timestamp.
\<close>

definition row_ok :: "log_row \<Rightarrow> bool" where
  "row_ok r \<longleftrightarrow> 0 \<le> lr_tx r \<and> lr_tx r < 2 ^ 63 \<and> 0 \<le> lr_rx r \<and> lr_rx r < 2 ^ 63"

definition traffic_db_ok :: "traffic_db \<Rightarrow> bool" where
  "traffic_db_ok db \<longleftrightarrow>
     (\<forall>r \<in> set (td_logs db). row_ok r) \<and> gmap_ok (td_summary db) \<and>
     (\<forall>u n. map_of (td_summary db) (u, n) =
        (if pair_rows db u n = [] then None else Some (summary_of (pair_rows db u n))))"

lemma row_of_ok: "row_of now r = Some row \<Longrightarrow> row_ok row \<and> lr_user row = tr_user r \<and> lr_node row = tr_node r \<and>
    lr_tx row + lr_rx row = record_payload r \<and>
    lr_at row = unix_seconds (if is_zero_time (tr_time r) then now else tr_time r)"
  by (auto simp: row_of_def row_ok_def sql_uint_def record_payload_def split: option.splits if_split_asm)

lemma sql_add_clip: "0 \<le> m \<Longrightarrow> 0 \<le> n \<Longrightarrow> n < 2 ^ 63 \<Longrightarrow> sql_add (clip64 m) n = clip64 (m + n)"
  by (auto simp: sql_add_def clip64_def)

lemma sum_list_nonneg_map: "\<forall>r \<in> set rows. row_ok r \<Longrightarrow> 0 \<le> sum_list (map lr_tx rows) \<and> 0 \<le> sum_list (map lr_rx rows)"
  by (auto intro!: sum_list_nonneg simp: row_ok_def)

lemma summary_of_single: "row_ok r \<Longrightarrow> summary_of [r] = \<lparr>sm_tx = Some (lr_tx r), sm_rx = Some (lr_rx r), sm_at = lr_at r\<rparr>"
  by (simp add: summary_of_def clip64_def row_ok_def)

lemma summary_of_snoc:
  assumes "rows \<noteq> []" "\<forall>r \<in> set rows. row_ok r" "row_ok r"
  shows "summary_of (rows @ [r]) =
    \<lparr>sm_tx = sql_add (sm_tx (summary_of rows)) (lr_tx r), sm_rx = sql_add (sm_rx (summary_of rows)) (lr_rx r),
     sm_at = max (sm_at (summary_of rows)) (lr_at r)\<rparr>"
  using assms sum_list_nonneg_map [OF assms(2)]
  by (simp add: summary_of_def sql_add_clip row_ok_def max.commute)

lemma td_logs_write [simp]: "td_logs (upsert_summary row (insert_log row db)) = td_logs db @ [row]"
  by (simp add: upsert_summary_def insert_log_def)

lemma pair_rows_write: "pair_rows (upsert_summary row (insert_log row db)) u n =
    pair_rows db u n @ (if lr_user row = u \<and> lr_node row = n then [row] else [])"
  by (simp add: pair_rows_def)

lemma traffic_db_ok_write:
  assumes ok: "traffic_db_ok db" and row: "row_ok row"
  shows "traffic_db_ok (upsert_summary row (insert_log row db))"
proof -
  let ?db = "upsert_summary row (insert_log row db)"
  let ?k = "(lr_user row, lr_node row)"
  have rows: "\<forall>r \<in> set (pair_rows db u n). row_ok r" for u n
    using ok by (auto simp: traffic_db_ok_def pair_rows_def)
  have old: "map_of (td_summary db) (u, n) =
      (if pair_rows db u n = [] then None else Some (summary_of (pair_rows db u n)))" for u n
    using ok by (simp add: traffic_db_ok_def)
  have "map_of (td_summary ?db) (u, n) =
      (if pair_rows ?db u n = [] then None else Some (summary_of (pair_rows ?db u n)))" for u n
  proof (cases "(u, n) = ?k")
    case True
    then show ?thesis
      using old [of u n] rows [of u n] row
      by (simp add: pair_rows_write) (simp add: upsert_summary_def insert_log_def summary_of_single summary_of_snoc)
  next
    case False
    then show ?thesis
      using old [of u n] by (auto simp: pair_rows_write) (simp_all add: upsert_summary_def insert_log_def)
  qed
  moreover have "gmap_ok (td_summary ?db)"
    using ok by (simp add: traffic_db_ok_def upsert_summary_def insert_log_def)
  moreover have "\<forall>r \<in> set (td_logs ?db). row_ok r"
    using ok row by (simp add: traffic_db_ok_def)
  ultimately show ?thesis by (simp add: traffic_db_ok_def)
qed

text \<open>The records of a batch that are written: those with payload.\<close>

definition effective :: "traffic_record list \<Rightarrow> traffic_record list" where
  "effective rs = filter (\<lambda>r. \<not> (tr_tx r = 0 \<and> tr_rx r = 0)) rs"

lemma flush_records_done:
  "flush_records io now n rs db = Inr (n', db') \<Longrightarrow>
     n' = n + 2 * length (effective rs) \<and>
     td_logs db' = td_logs db @ map (the \<circ> row_of now) (effective rs) \<and>
     (\<forall>r \<in> set (effective rs). row_of now r \<noteq> None) \<and>
     (traffic_db_ok db \<longrightarrow> traffic_db_ok db')"
proof (induction rs arbitrary: n db)
  case (Cons r rs)
  show ?case
  proof (cases "tr_tx r = 0 \<and> tr_rx r = 0")
    case False
    with Cons.prems obtain row where row: "row_of now r = Some row"
      and rest: "flush_records io now (n + 2) rs (upsert_summary row (insert_log row db)) = Inr (n', db')"
      by (auto split: option.split_asm if_split_asm)
    from Cons.IH [OF rest] False row row_of_ok [OF row] traffic_db_ok_write [of db row] show ?thesis
      by (auto simp: effective_def)
  qed (use Cons in \<open>auto simp: effective_def\<close>)
qed (auto simp: effective_def)

lemma flush_traffic_cases:
  assumes "flush_traffic io now rs db = (res, db')"
  obtains (failed) e where "res = Inl e" "db' = db"
  | (committed) n where "res = Inr ()" "flush_records io now 3 rs db = Inr (n, db')"
  using assms by (auto simp: flush_traffic_def split: if_split_asm sum.split_asm)

text \<open>C17: A flush is all or nothing.  If it returns an error, the database is unchanged.  If it
  succeeds, the log is extended by exactly one row for each record of the batch with payload, in
  order, with the record's amounts, and in both cases the summary table still holds exactly the
  totals of the log rows of every (user, node) pair.\<close>

theorem flush_all_or_nothing:
  assumes "traffic_db_ok db" and "flush_traffic io now rs db = (res, db')"
  shows "traffic_db_ok db' \<and>
    (case res of
       Inl e \<Rightarrow> db' = db
     | Inr _ \<Rightarrow> td_logs db' = td_logs db @ map (the \<circ> row_of now) (effective rs) \<and>
         (\<forall>r \<in> set (effective rs). \<exists>row. row_of now r = Some row \<and> lr_tx row = uint (tr_tx r) \<and> lr_rx row = uint (tr_rx r)))"
  using assms(2)
proof (cases rule: flush_traffic_cases)
  case (committed n)
  note f = flush_records_done [OF committed(2)]
  have "\<exists>row. row_of now r = Some row \<and> lr_tx row = uint (tr_tx r) \<and> lr_rx row = uint (tr_rx r)"
    if "r \<in> set (effective rs)" for r
    using f that by (auto simp: row_of_def sql_uint_def split: option.split_asm if_split_asm)
  with f committed(1) assms(1) show ?thesis by simp
qed (use assms(1) in simp)

definition demo_record :: traffic_record where
  "demo_record = \<lparr>tr_user = ''alice'', tr_node = ''n1'', tr_tx = 5, tr_rx = 7, tr_time = 1700000000 * second\<rparr>"

theorem flush_all_or_nothing_witness:
  "let db = \<lparr>td_logs = [], td_summary = []\<rparr>; (res, db') = flush_traffic (\<lambda>_. True) 0 [demo_record] db
   in traffic_db_ok db' \<and> res = Inr () \<and> length (td_logs db') = 1"
proof -
  let ?db = "\<lparr>td_logs = [], td_summary = []\<rparr>"
  obtain res db' where f: "flush_traffic (\<lambda>_. True) 0 [demo_record] ?db = (res, db')" by fastforce
  have "traffic_db_ok ?db" by (simp add: traffic_db_ok_def pair_rows_def)
  from flush_all_or_nothing [OF this f] f show ?thesis
    by (auto simp: flush_traffic_def demo_record_def row_of_def sql_uint_def effective_def)
qed

section \<open>The queries\<close>

lemma sql_sum_from_Some: "sql_sum_from acc xs = Some n \<Longrightarrow> n = acc + sum_list xs \<and> (int64_ok acc \<longrightarrow> int64_ok n)"
  by (induction acc xs rule: sql_sum_from.induct) (auto split: if_split_asm)

lemma sql_sum_Some: "sql_sum xs = Some n \<Longrightarrow> n = sum_list xs \<and> n < 2 ^ 63"
  unfolding sql_sum_def using sql_sum_from_Some [of 0 xs n] by simp

lemma sql_sum_nonneg:
  "\<forall>x \<in> set xs. 0 \<le> x \<Longrightarrow> 0 \<le> acc \<Longrightarrow> acc + sum_list xs < 2 ^ 63 \<Longrightarrow> sql_sum_from acc xs = Some (acc + sum_list xs)"
proof (induction xs arbitrary: acc)
  case (Cons x xs)
  then have "0 \<le> sum_list xs" by (simp add: sum_list_nonneg)
  with Cons show ?case by (simp add: add.assoc)
qed simp

lemma scan_uint_sum: "scan_uint (sql_sum xs) = Some w \<Longrightarrow> uint w = sum_list xs"
  using sql_sum_Some by (fastforce simp: scan_uint_def uint_word_of_int split: option.split_asm if_split_asm)

lemma sum_pair_Some: "sum_pair rows = Some (t, x) \<Longrightarrow> uint t = sum_list (map lr_tx rows) \<and> uint x = sum_list (map lr_rx rows)"
  by (auto simp: sum_pair_def scan_uint_sum split: option.split_asm)

lemma collect_groups_keys: "collect_groups key ks rows = Inr m \<Longrightarrow> gkeys m = ks"
  by (induction ks arbitrary: m) (auto split: option.split_asm sum.split_asm)

lemma collect_groups_lookup:
  "collect_groups key ks rows = Inr m \<Longrightarrow> k \<in> set ks \<Longrightarrow>
     \<exists>p. map_of m k = Some p \<and> sum_pair (filter (\<lambda>r. key r = k) rows) = Some p"
  by (induction ks arbitrary: m) (fastforce split: option.split_asm sum.split_asm)+

lemma group_by_keys: "group_by key rows = Inr m \<Longrightarrow> set (gkeys m) = key ` set rows \<and> gmap_ok m"
  unfolding group_by_def by (drule collect_groups_keys) (simp only: set_dedup_from distinct_dedup_from, simp)

lemma group_by_lookup:
  assumes "group_by key rows = Inr m"
  shows "uint (fst (gget (0, 0) m k)) = sum_list (map lr_tx (filter (\<lambda>r. key r = k) rows)) \<and>
    uint (snd (gget (0, 0) m k)) = sum_list (map lr_rx (filter (\<lambda>r. key r = k) rows))"
proof (cases "k \<in> key ` set rows")
  case True
  then have "k \<in> set (dedup_from [] (map key rows))" by (simp add: set_dedup_from)
  from collect_groups_lookup [OF assms [unfolded group_by_def] this] show ?thesis
    by (auto simp: gget_def sum_pair_Some)
next
  case False
  then have "filter (\<lambda>r. key r = k) rows = []" "map_of m k = None"
    using group_by_keys [OF assms] by (auto simp: filter_empty_conv map_of_eq_None_iff)
  then show ?thesis by (simp add: gget_def)
qed

lemma sum_list_partition:
  fixes f :: "'a \<Rightarrow> int"
  assumes "distinct ks"
  shows "(\<Sum>k \<leftarrow> ks. sum_list (map f (filter (\<lambda>r. key r = k) rows))) = sum_list (map f (filter (\<lambda>r. key r \<in> set ks) rows))"
proof (induction rows)
  case (Cons r rows)
  have "(\<Sum>k \<leftarrow> ks. if key r = k then f r + g k else g k) = (if key r \<in> set ks then f r else 0) + (\<Sum>k \<leftarrow> ks. g k)" for g
    using assms by (induction ks) auto
  with Cons show ?case by (simp add: if_distrib [where f = sum_list] if_distrib [where f = "map f"] cong: if_cong)
qed simp

text \<open>The totals of a grouping are the totals of the rows, whatever the grouping key.\<close>

lemma group_by_total:
  assumes "group_by key rows = Inr m"
  shows "(\<Sum>p \<leftarrow> m. uint (fst (snd p))) = sum_list (map lr_tx rows) \<and>
    (\<Sum>p \<leftarrow> m. uint (snd (snd p))) = sum_list (map lr_rx rows)"
proof -
  have m: "gmap_ok m" and keys: "set (gkeys m) = key ` set rows"
    using group_by_keys [OF assms] by simp_all
  have look: "snd p = gget (0, 0) m (fst p)" if "p \<in> set m" for p
    using m that by (cases p) (simp add: gget_def)
  have all: "filter (\<lambda>r. key r \<in> set (gkeys m)) rows = rows"
    unfolding keys by (simp add: filter_id_conv)
  have "(\<Sum>p \<leftarrow> m. uint (fst (snd p))) = (\<Sum>k \<leftarrow> gkeys m. sum_list (map lr_tx (filter (\<lambda>r. key r = k) rows)))"
    using look group_by_lookup [OF assms] by (simp add: comp_def cong: map_cong)
  moreover have "(\<Sum>p \<leftarrow> m. uint (snd (snd p))) = (\<Sum>k \<leftarrow> gkeys m. sum_list (map lr_rx (filter (\<lambda>r. key r = k) rows)))"
    using look group_by_lookup [OF assms] by (simp add: comp_def cong: map_cong)
  ultimately show ?thesis
    unfolding sum_list_partition [OF m] all by simp
qed

lemma sum_list_sort_key:
  fixes f :: "'a \<Rightarrow> int"
  shows "sum_list (map f (sort_key k xs)) = sum_list (map f xs)"
  by (metis mset_map mset_sort sum_mset_sum_list)

lemma bucket_totals:
  assumes "get_traffic_buckets io start stop db = Inr bs"
  shows "(\<Sum>b \<leftarrow> bs. uint (tb_tx b)) = sum_list (map lr_tx (rows_between start stop db)) \<and>
    (\<Sum>b \<leftarrow> bs. uint (tb_rx b)) = sum_list (map lr_rx (rows_between start stop db))"
proof -
  from assms obtain m where g: "group_by bucket_key (rows_between start stop db) = Inr m"
    and bs: "bs = map (\<lambda>((h, u, n), t, x). \<lparr>tb_hour = h * second, tb_user = u, tb_node = n, tb_tx = t, tb_rx = x\<rparr>) (sort_key fst m)"
    by (auto simp: get_traffic_buckets_def split: if_split_asm sum.split_asm)
  have "(\<Sum>b \<leftarrow> bs. uint (tb_tx b)) = (\<Sum>p \<leftarrow> sort_key fst m. uint (fst (snd p)))"
    "(\<Sum>b \<leftarrow> bs. uint (tb_rx b)) = (\<Sum>p \<leftarrow> sort_key fst m. uint (snd (snd p)))"
    unfolding bs by (simp_all add: comp_def case_prod_beta)
  then show ?thesis
    using group_by_total [OF g] by (simp add: sum_list_sort_key)
qed

text \<open>The usage pages agree.  For one window, the per-user usage, the per-node usage and the
  hourly buckets have the same upload total and the same download total, none of them wraps
  around, and the buckets come strictly ordered by hour, user and node.\<close>

theorem usage_groupings_agree:
  assumes "get_user_monthly_usage io1 start stop db = Inr users"
    and "get_node_monthly_usage io2 start stop db = Inr nodes"
    and "get_traffic_buckets io3 start stop db = Inr bs"
  shows "(\<Sum>(u, t, x) \<leftarrow> users. uint t) = (\<Sum>(n, t, x) \<leftarrow> nodes. uint t) \<and>
    (\<Sum>(u, t, x) \<leftarrow> users. uint x) = (\<Sum>(n, t, x) \<leftarrow> nodes. uint x) \<and>
    (\<Sum>b \<leftarrow> bs. uint (tb_tx b)) = (\<Sum>(u, t, x) \<leftarrow> users. uint t) \<and>
    (\<Sum>b \<leftarrow> bs. uint (tb_rx b)) = (\<Sum>(u, t, x) \<leftarrow> users. uint x) \<and>
    sorted_wrt (<) (map (\<lambda>b. (tb_hour b, tb_user b, tb_node b)) bs)"
proof -
  have u: "group_by lr_user (rows_between start stop db) = Inr users"
    and n: "group_by lr_node (rows_between start stop db) = Inr nodes"
    using assms(1,2)
    by (simp_all add: get_user_monthly_usage_def get_node_monthly_usage_def split: if_split_asm)
  from assms(3) obtain m where g: "group_by bucket_key (rows_between start stop db) = Inr m"
    and bs: "bs = map (\<lambda>((h, u, n), t, x). \<lparr>tb_hour = h * second, tb_user = u, tb_node = n, tb_tx = t, tb_rx = x\<rparr>) (sort_key fst m)"
    by (auto simp: get_traffic_buckets_def split: if_split_asm sum.split_asm)
  have "distinct (map fst (sort_key fst m))"
    using group_by_keys [OF g] by (metis distinct_map distinct_sort set_sort)
  then have "sorted_wrt (<) (map fst (sort_key fst m))"
    by (simp add: strict_sorted_iff)
  then have "sorted_wrt (<) (map (\<lambda>b. (tb_hour b, tb_user b, tb_node b)) bs)"
    unfolding bs by (simp add: sorted_wrt_map comp_def case_prod_beta less_prod_def')
  with group_by_total [OF u] group_by_total [OF n] bucket_totals [OF assms(3)] show ?thesis
    by (simp add: case_prod_beta')
qed

definition demo_db :: traffic_db where
  "demo_db = snd (flush_traffic (\<lambda>_. True) 0 [demo_record, demo_record\<lparr>tr_node := ''n2''\<rparr>]
     \<lparr>td_logs = [], td_summary = []\<rparr>)"

theorem usage_groupings_agree_witness:
  "\<exists>users nodes bs. get_user_monthly_usage True 0 (1700000001 * second) demo_db = Inr users \<and>
     get_node_monthly_usage True 0 (1700000001 * second) demo_db = Inr nodes \<and>
     get_traffic_buckets True 0 (1700000001 * second) demo_db = Inr bs \<and>
     (\<Sum>b \<leftarrow> bs. uint (tb_tx b)) = (\<Sum>(u, t, x) \<leftarrow> users. uint t) \<and> length bs = 2"
proof -
  have logs: "td_logs demo_db = [\<lparr>lr_user = ''alice'', lr_node = ''n1'', lr_tx = 5, lr_rx = 7, lr_at = 1700000000\<rparr>,
      \<lparr>lr_user = ''alice'', lr_node = ''n2'', lr_tx = 5, lr_rx = 7, lr_at = 1700000000\<rparr>]"
    by code_simp
  have rows: "rows_between 0 (1700000001 * second) demo_db = td_logs demo_db"
    by (simp add: rows_between_def logs unix_seconds_def)
  have u: "get_user_monthly_usage True 0 (1700000001 * second) demo_db = Inr [(''alice'', 10, 14)]"
    unfolding get_user_monthly_usage_def rows logs by code_simp
  have n: "get_node_monthly_usage True 0 (1700000001 * second) demo_db = Inr [(''n1'', 5, 7), (''n2'', 5, 7)]"
    unfolding get_node_monthly_usage_def rows logs by code_simp
  have "case_sum (\<lambda>_. False) (\<lambda>bs. length bs = 2) (get_traffic_buckets True 0 (1700000001 * second) demo_db)"
    unfolding get_traffic_buckets_def rows logs by code_simp
  then obtain bs where b: "get_traffic_buckets True 0 (1700000001 * second) demo_db = Inr bs" "length bs = 2"
    by (auto split: sum.split_asm)
  from usage_groupings_agree [OF u n b(1)] u n b show ?thesis by blast
qed

lemma summary_total:
  assumes "traffic_db_ok db"
  shows "load_summary_for_user_node True u n db =
    (if sum_list (map lr_tx (pair_rows db u n)) < 2 ^ 63 \<and> sum_list (map lr_rx (pair_rows db u n)) < 2 ^ 63
     then Inr (word_of_int (sum_list (map lr_tx (pair_rows db u n))), word_of_int (sum_list (map lr_rx (pair_rows db u n))))
     else Inl ScanFailed)"
proof -
  have "\<forall>r \<in> set (pair_rows db u n). row_ok r"
    using assms by (auto simp: traffic_db_ok_def pair_rows_def)
  note nonneg = sum_list_nonneg_map [OF this]
  have "map_of (td_summary db) (u, n) =
      (if pair_rows db u n = [] then None else Some (summary_of (pair_rows db u n)))"
    using assms by (simp add: traffic_db_ok_def)
  then show ?thesis
    using nonneg
    by (simp add: load_summary_for_user_node_def get_summary_def scan_summary_def summary_of_def clip64_def scan_uint_def)
qed

text \<open>A counter resumes where the log ends.  When the totals of a (user, node) pair stay below
  \<open>2^63\<close>, \<open>LoadSummaryForUserNode\<close> returns exactly the payload logged for the pair, and zero for a
  pair that was never logged; when a total has left that range, it returns an error and never a
  wrapped value.\<close>

theorem summary_is_log_total:
  assumes "traffic_db_ok db"
  shows "load_summary_for_user_node True u n db =
    (if sum_list (map lr_tx (pair_rows db u n)) < 2 ^ 63 \<and> sum_list (map lr_rx (pair_rows db u n)) < 2 ^ 63
     then Inr (word_of_int (sum_list (map lr_tx (pair_rows db u n))), word_of_int (sum_list (map lr_rx (pair_rows db u n))))
     else Inl ScanFailed)"
  using assms by (rule summary_total)

theorem summary_is_log_total_witness:
  "load_summary_for_user_node True ''alice'' ''n1'' demo_db = Inr (5, 7)"
proof -
  have "traffic_db_ok \<lparr>td_logs = [], td_summary = []\<rparr>" by (simp add: traffic_db_ok_def pair_rows_def)
  moreover have "flush_records (\<lambda>_. True) 0 3 [demo_record, demo_record\<lparr>tr_node := ''n2''\<rparr>]
      \<lparr>td_logs = [], td_summary = []\<rparr> = Inr (7, demo_db)"
    by code_simp
  ultimately have ok: "traffic_db_ok demo_db" using flush_records_done by blast
  have rows: "pair_rows demo_db ''alice'' ''n1'' =
      [\<lparr>lr_user = ''alice'', lr_node = ''n1'', lr_tx = 5, lr_rx = 7, lr_at = 1700000000\<rparr>]"
    by code_simp
  show ?thesis using summary_is_log_total [OF ok, of "''alice''" "''n1''"] by (simp add: rows)
qed

section \<open>The store meets the contract of the logger\<close>

definition logged_usage :: "traffic_db \<Rightarrow> string \<Rightarrow> (int \<Rightarrow> bool) \<Rightarrow> int" where
  "logged_usage db u P = (\<Sum>r \<leftarrow> td_logs db. if lr_user r = u \<and> P (lr_at r) then lr_tx r + lr_rx r else 0)"

text \<open>Any quantity that is summed over the log grows by its sum over the batch.\<close>

lemma flushed_sum:
  fixes f :: "log_row \<Rightarrow> int"
  assumes "flush_traffic io now rs db = (Inr v, db')"
    and "\<And>r row. row_of now r = Some row \<Longrightarrow> f row = g r"
    and "\<And>r. tr_tx r = 0 \<Longrightarrow> tr_rx r = 0 \<Longrightarrow> g r = 0"
  shows "sum_list (map f (td_logs db')) = sum_list (map f (td_logs db)) + sum_list (map g rs)"
proof -
  obtain n where "flush_records io now 3 rs db = Inr (n, db')"
    using assms(1) by (cases rule: flush_traffic_cases) auto
  then have logs: "td_logs db' = td_logs db @ map (the \<circ> row_of now) (effective rs)"
    and rows: "\<forall>r \<in> set (effective rs). row_of now r \<noteq> None"
    by (auto dest: flush_records_done)
  have "sum_list (map g rs) = sum_list (map g (effective rs))"
    using assms(3) by (induction rs) (auto simp: effective_def)
  moreover have "map (f \<circ> (the \<circ> row_of now)) (effective rs) = map g (effective rs)"
    using rows assms(2) by (intro map_cong) auto
  ultimately show ?thesis by (simp only: logs map_append sum_list_append map_map)
qed

lemma logged_usage_flushed:
  assumes "flush_traffic io now rs db = (Inr v, db')"
  shows "logged_usage db' u P = logged_usage db u P + batch_usage now rs u P"
  unfolding logged_usage_def batch_usage_def
  by (rule flushed_sum [OF assms]) (auto dest!: row_of_ok simp: record_payload_def)

text \<open>The payload logged for one (user, node) pair.\<close>

definition logged_tx :: "traffic_db \<Rightarrow> string \<Rightarrow> string \<Rightarrow> int" where
  "logged_tx db u n = (\<Sum>r \<leftarrow> td_logs db. if lr_user r = u \<and> lr_node r = n then lr_tx r else 0)"

definition logged_rx :: "traffic_db \<Rightarrow> string \<Rightarrow> string \<Rightarrow> int" where
  "logged_rx db u n = (\<Sum>r \<leftarrow> td_logs db. if lr_user r = u \<and> lr_node r = n then lr_rx r else 0)"

lemma row_of_amounts: "row_of now r = Some row \<Longrightarrow> lr_tx row = uint (tr_tx r) \<and> lr_rx row = uint (tr_rx r)"
  by (auto simp: row_of_def sql_uint_def split: option.split_asm if_split_asm)

lemma logged_pair_flushed:
  assumes "flush_traffic io now rs db = (Inr v, db')"
  shows "logged_tx db' u n = logged_tx db u n + (\<Sum>r \<leftarrow> rs. if tr_user r = u \<and> tr_node r = n then uint (tr_tx r) else 0)"
    and "logged_rx db' u n = logged_rx db u n + (\<Sum>r \<leftarrow> rs. if tr_user r = u \<and> tr_node r = n then uint (tr_rx r) else 0)"
  unfolding logged_tx_def logged_rx_def
  by (rule flushed_sum [OF assms], auto dest: row_of_ok row_of_amounts)+

lemma logged_usage_rows: "logged_usage db u (\<lambda>s. unix_seconds start \<le> s \<and> s < unix_seconds stop) =
    sum_list (map lr_tx (filter (\<lambda>r. lr_user r = u) (rows_between start stop db))) +
    sum_list (map lr_rx (filter (\<lambda>r. lr_user r = u) (rows_between start stop db)))"
proof -
  have "(\<Sum>r \<leftarrow> rows. if lr_user r = u \<and> P (lr_at r) then lr_tx r + lr_rx r else 0) =
      sum_list (map lr_tx (filter (\<lambda>r. lr_user r = u) (filter (\<lambda>r. P (lr_at r)) rows))) +
      sum_list (map lr_rx (filter (\<lambda>r. lr_user r = u) (filter (\<lambda>r. P (lr_at r)) rows)))" for rows P
    by (induction rows) auto
  from this [of "\<lambda>s. unix_seconds start \<le> s \<and> s < unix_seconds stop" "td_logs db"] show ?thesis
    by (simp add: logged_usage_def rows_between_def)
qed

interpretation sqlite: traffic_store logged_usage flush_traffic get_user_monthly_usage
proof
  fix io now rs db e db'
  assume "flush_traffic io now rs db = (Inl e, db')"
  then show "db' = db" by (cases rule: flush_traffic_cases) auto
next
  fix io now rs db v db' u P
  assume "flush_traffic io now rs db = (Inr v, db')"
  then show "logged_usage db' u P = logged_usage db u P + batch_usage now rs u P"
    by (rule logged_usage_flushed)
next
  fix ok start stop db m
  assume "get_user_monthly_usage ok start stop db = Inr m"
  then have g: "group_by lr_user (rows_between start stop db) = Inr m"
    by (simp add: get_user_monthly_usage_def split: if_split_asm)
  then show "gmap_ok m" by (simp add: group_by_keys)
  fix u
  have "word_of_int (uint (fst (gget (0, 0) m u)) + uint (snd (gget (0, 0) m u))) = fst (gget (0, 0) m u) + snd (gget (0, 0) m u)"
    by simp
  then show "word_of_int (logged_usage db u (\<lambda>s. unix_seconds start \<le> s \<and> s < unix_seconds stop)) =
      fst (gget (0, 0) m u) + snd (gget (0, 0) m u)"
    using group_by_lookup [OF g, of u] by (simp add: logged_usage_rows)
qed

interpretation sqlite_zone: month_store logged_usage flush_traffic get_user_monthly_usage "fixed_zone offset" for offset
  by unfold_locales

text \<open>On the SQLite store, a location is all that the monthly contract needs.\<close>

sublocale month_calendar \<subseteq> months: month_store logged_usage flush_traffic get_user_monthly_usage mb
  by unfold_locales

end
