(* ===== verification/Limiter.thy ===== *)
theory Limiter
  imports Gateway_Prelude "HOL-Library.Log_Nat"
begin

text \<open>
  The download limiter of \<open>traffic/logger.go\<close>: one reservation timeline per user.  A chunk reserves
  the interval that starts where the previous reservation ends (or now) and lasts for as long as the
  chunk takes at the configured rate; an abandoned reservation is rolled back when it is the last
  one.  The duration is computed in \<open>float64\<close>; the rounding of that arithmetic is modelled for the
  normal range, which contains every value the computation can reach.
\<close>

section \<open>The duration of a chunk\<close>

definition round_half_even :: "rat \<Rightarrow> int" where
  "round_half_even y =
     (let f = \<lfloor>y\<rfloor>; d = y - of_int f
      in if d < 1 / 2 then f else if 1 / 2 < d then f + 1 else if even f then f else f + 1)"

definition pow2 :: "int \<Rightarrow> rat" where
  "pow2 e = 2 powi e"

text \<open>
  Rounding of a positive rational to 53 significant bits: the exponent is chosen so that the
  scaled value lies between \<open>2^52\<close> and \<open>2^53\<close>.
\<close>

definition float_exp :: "rat \<Rightarrow> int" where
  "float_exp x =
     (let (p, q) = quotient_of x; e = bitlen p - bitlen q - 53
      in if 2 ^ 53 \<le> x * pow2 (- e) then e + 1 else e)"

definition float64 :: "rat \<Rightarrow> rat" where
  "float64 x =
     (if x \<le> 0 then 0
      else of_int (round_half_even (x * pow2 (- float_exp x))) * pow2 (float_exp x))"

text \<open>
  \<open>time.Duration(seconds * float64(time.Second))\<close> with \<open>seconds = float64(bytes) / float64(rate)\<close>.
  A value outside of the \<open>int64\<close> range converts to the least \<open>int64\<close> on the supported platform.
\<close>

definition chunk_ns :: "int \<Rightarrow> int \<Rightarrow> duration" where
  "chunk_ns bytes rate =
     (let seconds = float64 (float64 (of_int bytes) / float64 (of_int rate));
          n = \<lfloor>float64 (seconds * of_int second)\<rfloor>
      in if n < 2 ^ 63 then n else - (2 ^ 63))"

definition chunk_time :: "u64 \<Rightarrow> u64 \<Rightarrow> duration" where
  "chunk_time bytes rate = chunk_ns (uint bytes) (uint rate)"

section \<open>The timeline\<close>

text \<open>The \<open>notify\<close> channel is a generation number: closing it and making a new one advances it.\<close>

record download_limiter =
  dl_next :: go_time
  dl_notify :: nat

definition new_limiter :: download_limiter where
  "new_limiter = \<lparr>dl_next = zero_time, dl_notify = 0\<rparr>"

text \<open>The locked section of \<open>limitDownloadContext\<close>: start, end and channel of the reservation.\<close>

definition reserve ::
  "go_time \<Rightarrow> u64 \<Rightarrow> u64 \<Rightarrow> download_limiter \<Rightarrow> (go_time \<times> go_time \<times> nat) \<times> download_limiter"
where
  "reserve now bytes rate l =
     (let next = (if dl_next l < now then now else dl_next l);
          end_at = next + chunk_time bytes rate
      in ((next, end_at, dl_notify l), l\<lparr>dl_next := end_at\<rparr>))"

definition cancel_reservation :: "go_time \<Rightarrow> go_time \<Rightarrow> download_limiter \<Rightarrow> download_limiter" where
  "cancel_reservation end_at start l = (if dl_next l = end_at then l\<lparr>dl_next := start\<rparr> else l)"

definition wake_limiter :: "download_limiter \<Rightarrow> download_limiter" where
  "wake_limiter l = \<lparr>dl_next = zero_time, dl_notify = dl_notify l + 1\<rparr>"

section \<open>Rounding\<close>

lemma round_half_even_bounds: "\<bar>of_int (round_half_even y) - y\<bar> \<le> 1 / 2"
proof -
  define f where "f = rat_of_int \<lfloor>y\<rfloor>"
  have "f \<le> y" "y < f + 1" unfolding f_def by linarith+
  then show ?thesis by (auto simp: round_half_even_def Let_def simp flip: f_def)
qed

lemma round_half_even_nonneg: "0 \<le> y \<Longrightarrow> 0 \<le> round_half_even y"
  by (auto simp: round_half_even_def Let_def)

lemma pow2_pos [simp]: "0 < pow2 e"
  by (simp add: pow2_def)

lemma pow2_add: "pow2 (a + b) = pow2 a * pow2 b"
  by (simp add: pow2_def power_int_add)

lemma pow2_nat: "0 \<le> e \<Longrightarrow> pow2 e = 2 ^ nat e"
  by (simp add: pow2_def power_int_def)

lemma pow2_cancel [simp]: "pow2 (- e) * pow2 e = 1"
  using pow2_add [of "- e" e] by (simp add: pow2_def)

lemma float64_nonneg: "0 \<le> float64 x"
  by (simp add: float64_def round_half_even_nonneg less_imp_le)

lemma float_exp_scale:
  assumes "0 < x"
  shows "2 ^ 52 \<le> x * pow2 (- float_exp x)"
proof -
  obtain p q where pq: "quotient_of x = (p, q)" by fastforce
  have q: "0 < q" using quotient_of_denom_pos [OF pq] .
  have x: "x = of_int p / of_int q" using quotient_of_div [OF pq] .
  have p: "0 < p" using assms q by (simp add: x zero_less_divide_iff)
  define e where "e = bitlen p - bitlen q - 53"
  have "pow2 (bitlen p - 1) = of_int (2 ^ nat (bitlen p - 1))"
    using bitlen_bounds [OF p] p by (simp add: pow2_nat bitlen_def floorlog_def)
  then have lp: "pow2 (bitlen p - 1) \<le> of_int p"
    using bitlen_bounds [OF p] by (simp only: of_int_le_iff)
  have "pow2 (bitlen q) = of_int (2 ^ nat (bitlen q))"
    by (simp add: pow2_nat bitlen_nonneg)
  then have uq: "of_int q \<le> pow2 (bitlen q)"
    using bitlen_bounds [OF q] by (simp only: of_int_le_iff) simp
  have "pow2 (bitlen p - 1) \<le> x * pow2 (bitlen q)"
  proof -
    have "of_int q * x = of_int p" using q by (simp add: x)
    moreover have "of_int q * x \<le> pow2 (bitlen q) * x" using uq assms by (simp add: mult_right_mono)
    ultimately show ?thesis using lp by (simp add: mult.commute)
  qed
  then have "pow2 (bitlen p - 1) * pow2 (- (bitlen p - 53)) \<le> x * pow2 (bitlen q) * pow2 (- (bitlen p - 53))"
    by (simp add: mult_right_mono less_imp_le)
  then have base: "2 ^ 52 \<le> x * pow2 (- e)"
    by (simp add: mult.assoc e_def pow2_nat algebra_simps flip: pow2_add)
  have half: "x * pow2 (- (e + 1)) = x * pow2 (- e) / 2"
    using pow2_add [of "- e" "- 1"] by (simp add: pow2_def [of "- 1"])
  have exp: "float_exp x = (if 2 ^ 53 \<le> x * pow2 (- e) then e + 1 else e)"
    by (simp add: float_exp_def pq e_def)
  show ?thesis
  proof (cases "2 ^ 53 \<le> x * pow2 (- e)")
    case True
    with exp have "x * pow2 (- float_exp x) = x * pow2 (- e) / 2" by (simp only: if_True half)
    moreover have "(2::rat) ^ 52 \<le> x * pow2 (- e) / 2" using True by simp
    ultimately show ?thesis by (simp only:)
  qed (use exp base in simp)
qed

text \<open>Rounding to \<open>float64\<close> changes a value by at most one part in \<open>2^53\<close>.\<close>

lemma float64_error:
  assumes "0 < x"
  shows "\<bar>float64 x - x\<bar> \<le> x / 2 ^ 53"
proof -
  define e y where "e = float_exp x" and "y = x * pow2 (- e)"
  have xy: "x = y * pow2 e" by (simp add: y_def mult.assoc)
  have "2 ^ 52 \<le> y" using float_exp_scale [OF assms] by (simp add: y_def e_def)
  then have "\<bar>of_int (round_half_even y) - y\<bar> \<le> y / 2 ^ 53"
    using round_half_even_bounds [of y] by simp
  then have "\<bar>of_int (round_half_even y) - y\<bar> * pow2 e \<le> y / 2 ^ 53 * pow2 e"
    by (simp add: mult_right_mono less_imp_le)
  moreover have "float64 x - x = (of_int (round_half_even y) - y) * pow2 e"
    using assms by (subst xy) (simp add: float64_def y_def e_def left_diff_distrib)
  moreover have "\<bar>(of_int (round_half_even y) - y) * pow2 e\<bar> = \<bar>of_int (round_half_even y) - y\<bar> * pow2 e"
    by (simp add: abs_mult abs_of_pos)
  moreover have "y / 2 ^ 53 * pow2 e = x / 2 ^ 53" by (simp add: xy)
  ultimately show ?thesis by metis
qed

section \<open>Reservations do not overlap\<close>

text \<open>
  A run of one limiter between two wake-ups: streams reserve chunks and abandon reservations they
  hold.  The second component of the state is the list of the intervals that are reserved, latest
  first.
\<close>

datatype limiter_event =
    Reserve go_time u64 u64
  | Cancel go_time go_time

type_synonym timeline = "download_limiter \<times> (go_time \<times> go_time) list"

fun limiter_step :: "limiter_event \<Rightarrow> timeline \<Rightarrow> timeline option" where
  "limiter_step (Reserve now bytes rate) (l, live) =
     (let ((start, end_at, _), l') = reserve now bytes rate l
      in if start \<le> end_at then Some (l', (start, end_at) # live) else None)"
| "limiter_step (Cancel start end_at) (l, live) =
     (if (start, end_at) \<in> set live then Some (cancel_reservation end_at start l, remove1 (start, end_at) live) else None)"

fun limiter_run :: "limiter_event list \<Rightarrow> timeline \<Rightarrow> timeline option" where
  "limiter_run [] s = Some s"
| "limiter_run (e # es) s = (case limiter_step e s of None \<Rightarrow> None | Some s' \<Rightarrow> limiter_run es s')"

text \<open>The intervals of positive length are consecutive, and the limiter is past all of them.\<close>

definition timeline_ok :: "timeline \<Rightarrow> bool" where
  "timeline_ok s \<longleftrightarrow>
     (let occupied = filter (\<lambda>(a, b). a < b) (snd s)
      in sorted_wrt (\<lambda>(a, b) (c, d). d \<le> a) occupied \<and> (\<forall>(a, b) \<in> set occupied. b \<le> dl_next (fst s)))"

lemma sorted_wrt_remove1: "sorted_wrt P xs \<Longrightarrow> sorted_wrt P (remove1 x xs)"
  by (induction xs) (auto dest: notin_set_remove1 [THEN contrapos_nn] set_remove1_subset [THEN subsetD])

lemma filter_remove1: "filter P (remove1 x xs) = (if P x then remove1 x (filter P xs) else filter P xs)"
  by (induction xs) auto

lemma timeline_reserve:
  assumes "timeline_ok (l, live)" and "reserve now bytes rate l = ((start, end_at, ch), l')" and "start \<le> end_at"
  shows "timeline_ok (l', (start, end_at) # live)"
proof -
  from assms(2) have "dl_next l \<le> start" "dl_next l' = end_at"
    by (auto simp: reserve_def Let_def split: if_split_asm)
  with assms(1,3) show ?thesis
    by (fastforce simp: timeline_ok_def Let_def split: prod.split)
qed

lemma timeline_cancel:
  assumes ok: "timeline_ok (l, live)" and mem: "(start, end_at) \<in> set live"
  shows "timeline_ok (cancel_reservation end_at start l, remove1 (start, end_at) live)"
proof (cases "start < end_at \<and> dl_next l = end_at")
  case False
  have "dl_next l \<le> dl_next (cancel_reservation end_at start l)"
    using False by (auto simp: cancel_reservation_def)
  then show ?thesis
    using ok by (fastforce simp: timeline_ok_def Let_def filter_remove1 sorted_wrt_remove1
        dest!: set_remove1_subset [THEN subsetD])
next
  case True
  let ?occ = "filter (\<lambda>(a, b). a < b) live"
  have sorted: "sorted_wrt (\<lambda>(a, b) (c, d). d \<le> a) ?occ" and le: "\<forall>(a, b) \<in> set ?occ. b \<le> end_at"
    using ok True by (simp_all add: timeline_ok_def Let_def)
  have mem': "(start, end_at) \<in> set ?occ" using mem True by simp
  then obtain xs ys where split: "?occ = xs @ (start, end_at) # ys" "(start, end_at) \<notin> set xs"
    by (auto dest: split_list_first)
  have "xs = []"
  proof (cases xs rule: rev_cases)
    case (snoc zs p)
    obtain a b where p: "p = (a, b)" by fastforce
    have "end_at \<le> a" "a < b"
      using sorted split snoc p by (auto simp: sorted_wrt_append dest: filter_eq_Cons_iff [THEN iffD1])
        (metis (mono_tags, lifting) case_prodD in_set_conv_decomp mem_Collect_eq set_filter)+
    moreover have "b \<le> end_at" using le split snoc p by auto
    ultimately show ?thesis by simp
  qed
  with sorted split True show ?thesis
    by (simp add: timeline_ok_def Let_def filter_remove1 cancel_reservation_def)
qed

lemma limiter_step_ok: "timeline_ok s \<Longrightarrow> limiter_step e s = Some s' \<Longrightarrow> timeline_ok s'"
  by (cases s; cases e) (auto simp: timeline_cancel split: prod.split_asm if_split_asm intro: timeline_reserve)

lemma limiter_run_ok: "timeline_ok s \<Longrightarrow> limiter_run es s = Some s' \<Longrightarrow> timeline_ok s'"
  by (induction es arbitrary: s) (auto split: option.split_asm dest: limiter_step_ok)

section \<open>The configured rate\<close>

text \<open>The computed duration is close to the exact one: relative error below \<open>2^-50\<close>, plus truncation.\<close>

lemma float64_range:
  assumes "0 < x"
  shows "x * (1 - 1 / 2 ^ 53) \<le> float64 x" and "float64 x \<le> x * (1 + 1 / 2 ^ 53)" and "0 < float64 x"
proof -
  have "- (x / 2 ^ 53) \<le> float64 x - x" "float64 x - x \<le> x / 2 ^ 53"
    using float64_error [OF assms] by linarith+
  then show l: "x * (1 - 1 / 2 ^ 53) \<le> float64 x" and "float64 x \<le> x * (1 + 1 / 2 ^ 53)"
    by (simp_all only: right_diff_distrib distrib_left mult_1_right times_divide_eq_right)
  have "0 < x * (1 - 1 / 2 ^ 53)" using assms by simp
  with l show "0 < float64 x" by linarith
qed

definition exact_time :: "int \<Rightarrow> int \<Rightarrow> rat" where
  "exact_time bytes rate = of_int bytes / of_int rate * of_int second"

lemma float_chunk_range:
  assumes "0 < bytes" "0 < rate"
  defines "F \<equiv> float64 (float64 (float64 (of_int bytes) / float64 (of_int rate)) * of_int second)"
  shows "exact_time bytes rate * (1 - 1 / 2 ^ 50) \<le> F" and "F \<le> exact_time bytes rate * 2"
proof -
  define B R where "B = rat_of_int bytes" and "R = rat_of_int rate"
  have pos: "0 < B" "0 < R" using assms(1,2) by (simp_all add: B_def R_def)
  note fb = float64_range [OF pos(1)] and fr = float64_range [OF pos(2)]
  define Q where "Q = float64 B / float64 R"
  have Q: "0 < Q" using fb(3) fr(3) by (simp add: Q_def)
  have Ql: "B * (1 - 1 / 2 ^ 53) / (R * (1 + 1 / 2 ^ 53)) \<le> Q"
    unfolding Q_def by (rule frac_le) (use fb fr pos in simp_all)
  have Qu: "Q \<le> B * (1 + 1 / 2 ^ 53) / (R * (1 - 1 / 2 ^ 53))"
    unfolding Q_def by (rule frac_le) (use fb fr pos in simp_all)
  note fs = float64_range [OF Q]
  have "0 < float64 Q * of_int second" using fs(3) by simp
  note ff = float64_range [OF this]
  have F: "F = float64 (float64 Q * of_int second)" by (simp add: F_def Q_def B_def R_def)
  have T: "exact_time bytes rate = B / R * of_int second" by (simp add: exact_time_def B_def R_def)
  have BR: "0 < B / R" using pos by simp
  have T0: "0 \<le> exact_time bytes rate" unfolding T using BR by (intro mult_nonneg_nonneg) simp_all
  have "B / R * ((1 - 1 / 2 ^ 53) ^ 2 / (1 + 1 / 2 ^ 53)) = B * (1 - 1 / 2 ^ 53) / (R * (1 + 1 / 2 ^ 53)) * (1 - 1 / 2 ^ 53)"
    by (simp add: power2_eq_square)
  also have "\<dots> \<le> Q * (1 - 1 / 2 ^ 53)" by (rule mult_right_mono [OF Ql]) simp
  also have "\<dots> \<le> float64 Q" by (rule fs(1))
  finally have "B / R * ((1 - 1 / 2 ^ 53) ^ 2 / (1 + 1 / 2 ^ 53)) \<le> float64 Q" .
  moreover have "B / R * (1 - 3 / 2 ^ 53) \<le> B / R * ((1 - 1 / 2 ^ 53) ^ 2 / (1 + 1 / 2 ^ 53))"
    by (rule mult_left_mono) (use BR in \<open>simp_all add: power2_eq_square\<close>)
  ultimately have "B / R * (1 - 3 / 2 ^ 53) * of_int second * (1 - 1 / 2 ^ 53) \<le> float64 Q * of_int second * (1 - 1 / 2 ^ 53)"
    by (intro mult_right_mono) simp_all
  also have "\<dots> \<le> F" unfolding F by (rule ff(1))
  finally have "exact_time bytes rate * ((1 - 3 / 2 ^ 53) * (1 - 1 / 2 ^ 53)) \<le> F" by (simp only: T ac_simps)
  moreover have "exact_time bytes rate * (1 - 1 / 2 ^ 50) \<le> exact_time bytes rate * ((1 - 3 / 2 ^ 53) * (1 - 1 / 2 ^ 53))"
    by (rule mult_left_mono [OF _ T0]) simp
  ultimately show "exact_time bytes rate * (1 - 1 / 2 ^ 50) \<le> F" by linarith
  have "float64 Q \<le> Q * (1 + 1 / 2 ^ 53)" by (rule fs(2))
  also have "\<dots> \<le> B * (1 + 1 / 2 ^ 53) / (R * (1 - 1 / 2 ^ 53)) * (1 + 1 / 2 ^ 53)" by (rule mult_right_mono [OF Qu]) simp
  also have "\<dots> = B / R * ((1 + 1 / 2 ^ 53) ^ 2 / (1 - 1 / 2 ^ 53))" by (simp add: power2_eq_square)
  also have "\<dots> \<le> B / R * (3 / 2)" by (rule mult_left_mono) (use BR in \<open>simp_all add: power2_eq_square\<close>)
  finally have "float64 Q * of_int second * (1 + 1 / 2 ^ 53) \<le> B / R * (3 / 2) * of_int second * (1 + 1 / 2 ^ 53)"
    by (intro mult_right_mono) simp_all
  then have "F \<le> exact_time bytes rate * ((3 / 2) * (1 + 1 / 2 ^ 53))" using ff(2) by (simp only: F T ac_simps)
  moreover have "exact_time bytes rate * ((3 / 2) * (1 + 1 / 2 ^ 53)) \<le> exact_time bytes rate * 2"
    by (rule mult_left_mono [OF _ T0]) simp
  ultimately show "F \<le> exact_time bytes rate * 2" by linarith
qed

lemma chunk_ns_lower:
  assumes "0 < bytes" "bytes < 2 ^ 32" "0 < rate"
  shows "exact_time bytes rate * (1 - 1 / 2 ^ 50) - 1 \<le> of_int (chunk_ns bytes rate)" and "0 \<le> chunk_ns bytes rate"
proof -
  define F where "F = float64 (float64 (float64 (of_int bytes) / float64 (of_int rate)) * of_int second)"
  have range: "exact_time bytes rate * (1 - 1 / 2 ^ 50) \<le> F" "F \<le> exact_time bytes rate * 2"
    using float_chunk_range [OF assms(1,3)] unfolding F_def .
  have "rat_of_int bytes / of_int rate \<le> of_int bytes"
    using assms by (simp add: divide_le_eq mult_le_cancel_left1)
  then have "exact_time bytes rate \<le> of_int bytes * of_int second"
    unfolding exact_time_def by (rule mult_right_mono) simp
  moreover have "rat_of_int bytes < of_int (2 ^ 32)" using assms(2) by (simp only: of_int_less_iff)
  ultimately have "F < 2 ^ 63" using range(2) by simp
  then have "\<lfloor>F\<rfloor> < 2 ^ 63" by (simp add: floor_less_iff)
  then have c: "chunk_ns bytes rate = \<lfloor>F\<rfloor>" by (simp add: chunk_ns_def F_def)
  have "0 \<le> F" by (simp add: F_def float64_nonneg)
  then show "exact_time bytes rate * (1 - 1 / 2 ^ 50) - 1 \<le> of_int (chunk_ns bytes rate)"
    and "0 \<le> chunk_ns bytes rate"
    using range(1) unfolding c by linarith+
qed

text \<open>The instant at which the first of some chunks starts.\<close>

definition first_start :: "download_limiter \<Rightarrow> (go_time \<times> u64) list \<Rightarrow> go_time" where
  "first_start l chunks = (case chunks of [] \<Rightarrow> dl_next l | (now, bytes) # _ \<Rightarrow> max (dl_next l) now)"

lemma limiter_run_reserves:
  assumes "limiter_run (map (\<lambda>(now, bytes). Reserve now bytes rate) chunks) (l, live) = Some (l', live')"
    and "start \<le> first_start l chunks"
  shows "start + (\<Sum>(now, bytes) \<leftarrow> chunks. chunk_time bytes rate) \<le> dl_next l' \<and> length live' = length live + length chunks"
  using assms
proof (induction chunks arbitrary: l live start)
  case (Cons c chunks)
  obtain now bytes where c: "c = (now, bytes)" by fastforce
  define l1 where "l1 = snd (reserve now bytes rate l)"
  have "start + chunk_time bytes rate \<le> dl_next l1"
    using Cons.prems(2) by (auto simp: c l1_def reserve_def Let_def first_start_def max_def split: if_split_asm)
  then have next1: "start + chunk_time bytes rate \<le> first_start l1 chunks"
    by (auto simp: first_start_def split: list.split)
  obtain live1 where run: "limiter_run (map (\<lambda>(now, bytes). Reserve now bytes rate) chunks) (l1, live1) = Some (l', live')"
    and "length live1 = Suc (length live)"
    using Cons.prems(1) by (auto simp: c l1_def Let_def split: prod.split_asm if_split_asm option.split_asm)
  with Cons.IH [OF run next1] show ?case by (simp add: c add.assoc)
qed (simp add: first_start_def)

text \<open>C18: Between two wake-ups, whatever chunks the streams of a user reserve and whichever
  reservations they abandon, the reserved intervals of positive length never overlap, and the next
  reservation starts after all of them: the streams share one timeline.\<close>

theorem reservations_disjoint:
  assumes "limiter_run es (new_limiter, []) = Some (l, live)"
  shows "(\<forall>i < length live. \<forall>j < i. fst (live ! i) < snd (live ! i) \<and> fst (live ! j) < snd (live ! j) \<longrightarrow>
      snd (live ! i) \<le> fst (live ! j)) \<and>
    (\<forall>(a, b) \<in> set live. a < b \<longrightarrow> b \<le> dl_next l)"
proof -
  have "timeline_ok (new_limiter, [])" by (simp add: timeline_ok_def)
  from limiter_run_ok [OF this assms] have ok: "timeline_ok (l, live)" .
  have sorted: "sorted_wrt (\<lambda>(a, b) (c, d). a < b \<and> c < d \<longrightarrow> d \<le> a) live"
    if "sorted_wrt (\<lambda>(a, b) (c, d). d \<le> a) (filter (\<lambda>(a, b). a < b) live)" for live :: "(int \<times> int) list"
    using that by (induction live) (auto split: if_split_asm)
  have "sorted_wrt (\<lambda>(a, b) (c, d). a < b \<and> c < d \<longrightarrow> d \<le> a) live"
    using ok by (intro sorted) (simp add: timeline_ok_def Let_def)
  then have "\<forall>i < length live. \<forall>j < i. fst (live ! i) < snd (live ! i) \<and> fst (live ! j) < snd (live ! j) \<longrightarrow>
      snd (live ! i) \<le> fst (live ! j)"
    by (auto simp: sorted_wrt_iff_nth_less case_prod_beta)
  with ok show ?thesis by (auto simp: timeline_ok_def Let_def)
qed

theorem reservations_disjoint_witness:
  "limiter_run [Reserve 100 1000 1000, Reserve 120 500 1000, Cancel 100 1000000100, Reserve 130 1000 1000] (new_limiter, []) =
     Some (\<lparr>dl_next = 2500000100, dl_notify = 0\<rparr>, [(1500000100, 2500000100), (1000000100, 1500000100)]) \<and>
   (1500000100 :: int) \<le> 1500000100"
proof -
  have "limiter_run [Reserve 100 1000 1000, Reserve 120 500 1000, Cancel 100 1000000100, Reserve 130 1000 1000] (new_limiter, []) =
     Some (\<lparr>dl_next = 2500000100, dl_notify = 0\<rparr>, [(1500000100, 2500000100), (1000000100, 1500000100)])"
    by code_simp
  with reservations_disjoint [OF this] show ?thesis by simp
qed

lemma chunk_times_lower:
  assumes "0 < rate" and "\<forall>(now, bytes) \<in> set chunks. 0 < bytes \<and> uint bytes < 2 ^ 32"
  shows "(\<Sum>(now, bytes) \<leftarrow> chunks. exact_time (uint bytes) (uint rate)) * (1 - 1 / 2 ^ 50) - of_nat (length chunks)
    \<le> of_int (\<Sum>(now :: go_time, bytes) \<leftarrow> chunks. chunk_time bytes rate)"
  using assms(2)
proof (induction chunks)
  case (Cons c chunks)
  obtain now bytes where c: "c = (now, bytes)" by fastforce
  define k :: rat where "k = 1 - 1 / 2 ^ 50"
  define e where "e = exact_time (uint bytes) (uint rate)"
  define rest where "rest = (\<Sum>(now, bytes) \<leftarrow> chunks. exact_time (uint bytes) (uint rate))"
  define tail where "tail = (\<Sum>(now, bytes) \<leftarrow> chunks. chunk_time bytes rate)"
  have "0 < uint bytes" "uint bytes < 2 ^ 32" "0 < uint rate"
    using Cons.prems assms(1) by (simp_all add: c word_less_def)
  from chunk_ns_lower(1) [OF this] have "e * k - 1 \<le> of_int (chunk_time bytes rate)"
    by (simp only: chunk_time_def e_def k_def)
  moreover have "rest * k - of_nat (length chunks) \<le> of_int tail"
    using Cons.IH Cons.prems unfolding rest_def tail_def k_def by simp
  ultimately have "(e + rest) * k - (1 + of_nat (length chunks)) \<le> of_int (chunk_time bytes rate + tail)"
    by (simp add: distrib_right)
  then show ?case by (simp add: c e_def rest_def tail_def k_def)
qed simp

text \<open>C19: The configured speed limit holds across all streams.  When chunks below 4 GiB are reserved
  at a rate, the timeline ends later than the start of the first of them by at least the time their
  bytes take at that rate, up to the
  rounding of \<open>float64\<close> (one part in \<open>2^50\<close>) and one nanosecond per chunk.\<close>

theorem download_rate_bound:
  assumes "limiter_run (map (\<lambda>(now, bytes). Reserve now bytes rate) chunks) (l, []) = Some (l', live)"
    and "0 < rate" and "\<forall>(now, bytes) \<in> set chunks. 0 < bytes \<and> uint bytes < 2 ^ 32"
  shows "(\<Sum>(now, bytes) \<leftarrow> chunks. exact_time (uint bytes) (uint rate)) * (1 - 1 / 2 ^ 50) - of_nat (length chunks)
    \<le> of_int (dl_next l' - first_start l chunks)"
proof -
  have "(\<Sum>(now, bytes) \<leftarrow> chunks. chunk_time bytes rate) \<le> dl_next l' - first_start l chunks"
    using limiter_run_reserves [OF assms(1) order.refl] by simp
  then have "rat_of_int (\<Sum>(now, bytes) \<leftarrow> chunks. chunk_time bytes rate) \<le> of_int (dl_next l' - first_start l chunks)"
    by (simp only: of_int_le_iff)
  with chunk_times_lower [OF assms(2,3)] show ?thesis by (rule order_trans)
qed

theorem download_rate_bound_witness:
  "limiter_run (map (\<lambda>(now, bytes). Reserve now bytes 1000) [(100, 1000), (120, 500)]) (new_limiter, []) =
     Some (\<lparr>dl_next = 1500000100, dl_notify = 0\<rparr>, [(1000000100, 1500000100), (100, 1000000100)]) \<and>
   (\<Sum>(now :: int, bytes :: u64) \<leftarrow> [(100, 1000), (120, 500)]. exact_time (uint bytes) (uint (1000 :: u64))) * (1 - 1 / 2 ^ 50) - 2
     \<le> of_int (1500000100 - 100)"
proof -
  have run: "limiter_run (map (\<lambda>(now, bytes). Reserve now bytes 1000) [(100, 1000), (120, 500)]) (new_limiter, []) =
     Some (\<lparr>dl_next = 1500000100, dl_notify = 0\<rparr>, [(1000000100, 1500000100), (100, 1000000100)])"
    by code_simp
  show ?thesis
    using run download_rate_bound [OF run] by (simp add: new_limiter_def first_start_def zero_time_def)
qed

end
