(* ===== verification/Traffic.thy ===== *)
theory Traffic
  imports Auth Traffic_Store Limiter
begin

text \<open>
  The traffic logger of \<open>traffic/logger.go\<close>: per-route counters, the records pending for the store,
  the usage of the current month that the quota is checked against, the periodic flush and the
  shared download limiters.

  The logger is one record.  Its methods are the locked sections of the code and their sequential
  composition; a method reads the clock and the context through its arguments, and whether the
  store fails through \<open>io\<close>.  \<open>flushMu\<close> is held over a whole flush or baseline read while
  \<open>usageMu\<close> is released in between, so other sections interleave with them: the second half of the
  theory runs the sections as events, with the phase of the holder of \<open>flushMu\<close> in the state.
  The authenticator is shared with the other components and passed as an argument.
\<close>

section \<open>State\<close>

record user_node_stats =
  us_tx :: u64
  us_rx :: u64
  us_txd :: u64
  us_rxd :: u64
  us_online :: i32
  us_last :: int

definition zero_stats :: user_node_stats where
  "zero_stats = \<lparr>us_tx = 0, us_rx = 0, us_txd = 0, us_rxd = 0, us_online = 0, us_last = 0\<rparr>"

record stats_snapshot =
  ss_user :: string
  ss_node :: string
  ss_tx :: u64
  ss_rx :: u64
  ss_online :: i32
  ss_max_bytes :: u64
  ss_speed_limit :: u64
  ss_last :: int

text \<open>A key of \<open>pending\<close>: the route identity and the month.\<close>

type_synonym pending_key = "string \<times> string"
type_synonym pending_map = "(pending_key, traffic_record) gomap"

record traffic_logger =
  tl_stats :: "(string, user_node_stats) gomap"
  tl_store :: "traffic_db option"
  tl_month :: string
  tl_monthly :: "(string, u64) gomap"
  tl_pending :: pending_map
  tl_stopping :: bool
  tl_stop_closed :: bool
  tl_flush_started :: bool
  tl_flush_done :: bool
  tl_last_flush_err :: "store_error option"
  tl_limiters :: "(string, download_limiter) gomap"

section \<open>Counters\<close>

definition get_or_create :: "string \<Rightarrow> traffic_logger \<Rightarrow> traffic_logger" where
  "get_or_create rid lg =
     (case map_of (tl_stats lg) rid of
        Some _ \<Rightarrow> lg
      | None \<Rightarrow> lg\<lparr>tl_stats := gput rid zero_stats (tl_stats lg)\<rparr>)"

definition update_stats :: "(user_node_stats \<Rightarrow> user_node_stats) \<Rightarrow> string \<Rightarrow> traffic_logger \<Rightarrow> traffic_logger" where
  "update_stats f rid lg = lg\<lparr>tl_stats := gput rid (f (gget zero_stats (tl_stats lg) rid)) (tl_stats lg)\<rparr>"

definition user_limits :: "authenticator \<Rightarrow> string \<Rightarrow> u64 \<times> u64" where
  "user_limits a username =
     (case auth_user a username of None \<Rightarrow> (0, 0) | Some u \<Rightarrow> (uc_max_bytes u, uc_speed_limit u))"

definition stats_snapshot_of :: "authenticator \<Rightarrow> string \<Rightarrow> user_node_stats \<Rightarrow> stats_snapshot" where
  "stats_snapshot_of a rid stats =
     (let (username, node) = parse_id rid; (max_bytes, speed_limit) = user_limits a username
      in \<lparr>ss_user = username, ss_node = node, ss_tx = us_tx stats, ss_rx = us_rx stats, ss_online = us_online stats,
          ss_max_bytes = max_bytes, ss_speed_limit = speed_limit, ss_last = us_last stats\<rparr>)"

definition get_snapshot :: "authenticator \<Rightarrow> string \<Rightarrow> traffic_logger \<Rightarrow> stats_snapshot option" where
  "get_snapshot a rid lg = map_option (stats_snapshot_of a rid) (map_of (tl_stats lg) rid)"

definition get_all_snapshots :: "authenticator \<Rightarrow> traffic_logger \<Rightarrow> (string, stats_snapshot) gomap" where
  "get_all_snapshots a lg = gmap_values (stats_snapshot_of a) (tl_stats lg)"

definition zero_totals :: "user_node_stats \<Rightarrow> user_node_stats" where
  "zero_totals s = s\<lparr>us_tx := 0, us_rx := 0\<rparr>"

definition reset_stats :: "string \<Rightarrow> traffic_logger \<Rightarrow> traffic_logger" where
  "reset_stats rid lg =
     (case map_of (tl_stats lg) rid of
        None \<Rightarrow> lg
      | Some s \<Rightarrow> lg\<lparr>tl_stats := gput rid (zero_totals s) (tl_stats lg)\<rparr>)"

definition reset_all_stats :: "traffic_logger \<Rightarrow> traffic_logger" where
  "reset_all_stats lg = lg\<lparr>tl_stats := gmap_values (\<lambda>_. zero_totals) (tl_stats lg)\<rparr>"

definition log_online_state :: "string \<Rightarrow> bool \<Rightarrow> traffic_logger \<Rightarrow> traffic_logger" where
  "log_online_state rid online lg =
     update_stats (\<lambda>s. s\<lparr>us_online := us_online s + (if online then 1 else - 1)\<rparr>) rid lg"

section \<open>The month's usage\<close>

text \<open>
  \<open>ensureMonthlyUsage\<close> in two sections: \<open>load_month\<close> reads the baseline under \<open>flushMu\<close>,
  \<open>publish_month\<close> installs it together with the pending records of the month.
\<close>

definition load_month ::
  "month_fn \<Rightarrow> bool \<Rightarrow> go_time \<Rightarrow> traffic_logger \<Rightarrow> (store_error, (string, u64 \<times> u64) gomap) result"
where
  "load_month mb io now lg =
     (let (key, start, stop) = mb now
      in case tl_store lg of
           None \<Rightarrow> Inr []
         | Some db \<Rightarrow> get_user_monthly_usage io start stop db)"

definition add_usage :: "string \<Rightarrow> u64 \<Rightarrow> (string, u64) gomap \<Rightarrow> (string, u64) gomap" where
  "add_usage username n m = gput username (gget 0 m username + n) m"

definition month_totals :: "(string, u64 \<times> u64) gomap \<Rightarrow> (string, u64) gomap" where
  "month_totals loaded = foldl (\<lambda>m (username, tx, rx). gput username (tx + rx) m) [] loaded"

definition add_pending :: "string \<Rightarrow> pending_map \<Rightarrow> (string, u64) gomap \<Rightarrow> (string, u64) gomap" where
  "add_pending key pending m =
     foldl (\<lambda>m ((_, month), r). if month = key then add_usage (tr_user r) (tr_tx r + tr_rx r) m else m) m pending"

definition publish_month :: "string \<Rightarrow> (string, u64 \<times> u64) gomap \<Rightarrow> traffic_logger \<Rightarrow> traffic_logger" where
  "publish_month key loaded lg =
     lg\<lparr>tl_month := key, tl_monthly := add_pending key (tl_pending lg) (month_totals loaded)\<rparr>"

definition ensure_monthly_usage ::
  "month_fn \<Rightarrow> bool \<Rightarrow> go_time \<Rightarrow> traffic_logger \<Rightarrow> store_error option \<times> traffic_logger"
where
  "ensure_monthly_usage mb io now lg =
     (if tl_month lg = month_key mb now then (None, lg)
      else case load_month mb io now lg of
             Inl e \<Rightarrow> (Some e, lg)
           | Inr loaded \<Rightarrow> (None, publish_month (month_key mb now) loaded lg))"

section \<open>Construction\<close>

definition initial_stats :: "bool \<Rightarrow> traffic_db option \<Rightarrow> string \<Rightarrow> string \<Rightarrow> user_node_stats" where
  "initial_stats io store name route =
     (case store of
        None \<Rightarrow> zero_stats
      | Some db \<Rightarrow>
          (case load_summary_for_user_node io name route db of
             Inl _ \<Rightarrow> zero_stats
           | Inr (tx, rx) \<Rightarrow> zero_stats\<lparr>us_tx := tx, us_rx := rx\<rparr>))"

definition empty_logger :: "traffic_db option \<Rightarrow> traffic_logger" where
  "empty_logger store =
     \<lparr>tl_stats = [], tl_store = store, tl_month = [], tl_monthly = [], tl_pending = [], tl_stopping = False,
      tl_stop_closed = False, tl_flush_started = False, tl_flush_done = False, tl_last_flush_err = None, tl_limiters = []\<rparr>"

text \<open>Which of the queries of the constructor succeed: \<open>io\<close> for the month, \<open>ios\<close> for each pair.\<close>

definition new_traffic_logger ::
  "month_fn \<Rightarrow> bool \<Rightarrow> (string \<Rightarrow> string \<Rightarrow> bool) \<Rightarrow> go_time \<Rightarrow> authenticator \<Rightarrow> traffic_db option \<Rightarrow> traffic_logger"
where
  "new_traffic_logger mb io ios now a store =
     (let lg = snd (ensure_monthly_usage mb io now (empty_logger store))
      in foldl (\<lambda>lg (name, u). foldl (\<lambda>lg route.
             lg\<lparr>tl_stats := gput (route_id name route) (initial_stats (ios name route) store name route) (tl_stats lg)\<rparr>)
           lg (uc_routes u)) lg (auth_snapshot a))"

section \<open>Flushing\<close>

text \<open>
  \<open>FlushContext\<close> in two sections.  \<open>detach\<close> takes the pending records out and subtracts them from
  the deltas, by adding the complement of their predecessor; \<open>settle\<close> hands them to the store and
  puts them back if the store fails.
\<close>

definition sub_delta :: "traffic_record \<Rightarrow> user_node_stats \<Rightarrow> user_node_stats" where
  "sub_delta r s = s\<lparr>us_txd := us_txd s + NOT (tr_tx r - 1), us_rxd := us_rxd s + NOT (tr_rx r - 1)\<rparr>"

definition add_delta :: "traffic_record \<Rightarrow> user_node_stats \<Rightarrow> user_node_stats" where
  "add_delta r s = s\<lparr>us_txd := us_txd s + tr_tx r, us_rxd := us_rxd s + tr_rx r\<rparr>"

definition detach :: "traffic_logger \<Rightarrow> pending_map \<times> traffic_logger" where
  "detach lg =
     (let batch = tl_pending lg
      in (batch, foldl (\<lambda>lg (_, r). update_stats (sub_delta r) (route_id (tr_user r) (tr_node r)) lg)
           (lg\<lparr>tl_pending := []\<rparr>) batch))"

text \<open>A record merged into the pending records: amounts added, the later timestamp kept.\<close>

definition merge_record :: "traffic_record \<Rightarrow> traffic_record \<Rightarrow> traffic_record" where
  "merge_record r current =
     current\<lparr>tr_user := tr_user r, tr_node := tr_node r, tr_tx := tr_tx current + tr_tx r,
       tr_rx := tr_rx current + tr_rx r,
       tr_time := (if tr_time current < tr_time r then tr_time r else tr_time current)\<rparr>"

definition add_record :: "pending_key \<Rightarrow> traffic_record \<Rightarrow> pending_map \<Rightarrow> pending_map" where
  "add_record k r pending = gput k (merge_record r (gget zero_record pending k)) pending"

definition restore :: "pending_map \<Rightarrow> traffic_logger \<Rightarrow> traffic_logger" where
  "restore batch lg =
     foldl (\<lambda>lg (k, r). update_stats (add_delta r) (route_id (tr_user r) (tr_node r))
         (lg\<lparr>tl_pending := add_record k r (tl_pending lg)\<rparr>)) lg batch"

definition settle ::
  "(nat \<Rightarrow> bool) \<Rightarrow> go_time \<Rightarrow> traffic_db \<Rightarrow> pending_map \<Rightarrow> traffic_logger \<Rightarrow> store_error option \<times> traffic_logger"
where
  "settle io now db batch lg =
     (case flush_traffic io now (map snd batch) db of
        (Inl e, db') \<Rightarrow> (Some e, (restore batch lg)\<lparr>tl_store := Some db', tl_last_flush_err := Some e\<rparr>)
      | (Inr _, db') \<Rightarrow> (None, lg\<lparr>tl_store := Some db', tl_last_flush_err := None\<rparr>))"

definition flush_context ::
  "(nat \<Rightarrow> bool) \<Rightarrow> go_time \<Rightarrow> traffic_logger \<Rightarrow> store_error option \<times> traffic_logger"
where
  "flush_context io now lg =
     (case tl_store lg of
        None \<Rightarrow> (None, lg)
      | Some db \<Rightarrow>
          (let (batch, lg') = detach lg
           in if batch = [] then (None, lg') else settle io now db batch lg'))"

section \<open>The download limiters\<close>

definition limiter_for :: "string \<Rightarrow> traffic_logger \<Rightarrow> download_limiter" where
  "limiter_for username lg = gget new_limiter (tl_limiters lg) username"

definition wake_limiters :: "traffic_logger \<Rightarrow> traffic_logger" where
  "wake_limiters lg = lg\<lparr>tl_limiters := gmap_values (\<lambda>_. wake_limiter) (tl_limiters lg)\<rparr>"

text \<open>
  The loop of \<open>limitDownloadContext\<close> waits on a timer, the context and the notification channel.
  A round of the loop is given by what it observes: the policy and the clocks it reads, what the
  other goroutines do to the logger while it waits, and what ends the wait.  The result is
  \<open>None\<close> while the loop is still waiting when the rounds are used up, \<open>Some False\<close> for an error.
\<close>

datatype wait_end = TimerFired | ContextDone | Notified

record limit_round =
  ro_auth :: authenticator
  ro_now :: go_time
  ro_clock :: go_time
  ro_until :: go_time
  ro_others :: "traffic_logger \<Rightarrow> traffic_logger"
  ro_end :: wait_end

definition may_transfer :: "authenticator \<Rightarrow> string \<Rightarrow> go_time \<Rightarrow> bool" where
  "may_transfer a username now =
     (case auth_user a username of
        None \<Rightarrow> False
      | Some u \<Rightarrow> \<not> uc_disabled u \<and> \<not> expired (uc_expires_at u) now)"

fun limit_download :: "limit_round list \<Rightarrow> string \<Rightarrow> u64 \<Rightarrow> traffic_logger \<Rightarrow> bool option \<times> traffic_logger" where
  "limit_download [] username bytes lg = (None, lg)"
| "limit_download (ro # rounds) username bytes lg =
     (if \<not> may_transfer (ro_auth ro) username (ro_now ro) then (Some False, lg)
      else
        (let rate = snd (user_limits (ro_auth ro) username)
         in if rate = 0 then (Some True, lg)
            else
              (let ((wait_until, end_at, _), l) = reserve (ro_clock ro) bytes rate (limiter_for username lg);
                   lg1 = lg\<lparr>tl_limiters := gput username l (tl_limiters lg)\<rparr>
               in if \<not> ro_until ro < wait_until then (Some True, lg1)
                  else
                    (let lg2 = ro_others ro lg1;
                         cancelled = lg2\<lparr>tl_limiters := gput username (cancel_reservation end_at wait_until (limiter_for username lg2))
                           (tl_limiters lg2)\<rparr>
                     in case ro_end ro of
                          TimerFired \<Rightarrow> (Some True, lg2)
                        | ContextDone \<Rightarrow> (Some False, cancelled)
                        | Notified \<Rightarrow> limit_download rounds username bytes cancelled))))"

definition notify_users_updated ::
  "(string, user_config) gomap \<Rightarrow> (string, user_config) gomap \<Rightarrow> traffic_logger \<Rightarrow> traffic_logger"
where
  "notify_users_updated previous users lg =
     (if list_ex (\<lambda>(name, old). case map_of users name of
            None \<Rightarrow> True
          | Some current \<Rightarrow> uc_speed_limit current \<noteq> uc_speed_limit old) previous
      then wake_limiters lg else lg)"

definition traffic_update_users ::
  "(string \<Rightarrow> bytes) \<Rightarrow> (string, user_config) gomap \<Rightarrow> authenticator \<Rightarrow> traffic_logger \<Rightarrow> authenticator \<times> traffic_logger"
where
  "traffic_update_users sha224 users a lg =
     (auth_update_users sha224 users a, notify_users_updated (auth_snapshot a) users lg)"

section \<open>Accounting a transfer\<close>

text \<open>
  The locked section of \<open>LogTrafficContext\<close>: the check that the published month is still the month
  of the transfer, the counters, the pending record, and the month's total of the user.  \<open>None\<close>
  when the section returns false before it accounts anything.
\<close>

definition account ::
  "month_fn \<Rightarrow> bool \<Rightarrow> go_time \<Rightarrow> string \<Rightarrow> u64 \<Rightarrow> u64 \<Rightarrow> traffic_logger \<Rightarrow> (u64 \<times> traffic_logger) option"
where
  "account mb cancelled now rid tx rx lg =
     (let key = month_key mb now; (username, node) = parse_id rid
      in if tl_stopping lg \<or> cancelled \<or> tl_month lg \<noteq> key then None
         else
           let lg1 = update_stats (\<lambda>s. s\<lparr>us_tx := us_tx s + tx, us_rx := us_rx s + rx, us_txd := us_txd s + tx,
                 us_rxd := us_rxd s + rx, us_last := unix_seconds now\<rparr>) rid lg;
               r = \<lparr>tr_user = username, tr_node = node, tr_tx = tx, tr_rx = rx, tr_time = now\<rparr>;
               monthly = add_usage username (tx + rx) (tl_monthly lg)
           in Some (gget 0 monthly username,
                lg1\<lparr>tl_pending := add_record (rid, key) r (tl_pending lg), tl_monthly := monthly\<rparr>))"

text \<open>What one call of \<open>LogTrafficContext\<close> observes: the context and the clock at each of their reads.\<close>

record log_env =
  le_ctx_start :: bool
  le_now :: go_time
  le_rounds :: "limit_round list"
  le_ctx_limited :: bool
  le_now_account :: go_time
  le_io :: bool
  le_ctx_account :: bool

definition log_traffic ::
  "month_fn \<Rightarrow> log_env \<Rightarrow> authenticator \<Rightarrow> string \<Rightarrow> u64 \<Rightarrow> u64 \<Rightarrow> traffic_logger \<Rightarrow> bool option \<times> traffic_logger"
where
  "log_traffic mb env a rid tx rx lg =
     (let (username, _) = parse_id rid
      in if tl_stopping lg \<or> le_ctx_start env then (Some False, lg)
         else if \<not> may_transfer a username (le_now env) then (Some False, lg)
         else
           let max_bytes = fst (user_limits a username);
               (limited, lg1) = (if 0 < rx then limit_download (le_rounds env) username rx (get_or_create rid lg)
                                 else (Some True, get_or_create rid lg))
           in case limited of
                None \<Rightarrow> (None, lg1)
              | Some False \<Rightarrow> (Some False, lg1)
              | Some True \<Rightarrow>
                  if tl_stopping lg1 \<or> le_ctx_limited env then (Some False, lg1)
                  else
                    (case ensure_monthly_usage mb (le_io env) (le_now_account env) lg1 of
                       (Some e, lg2) \<Rightarrow> (Some False, lg2)
                     | (None, lg2) \<Rightarrow>
                         (case account mb (le_ctx_account env) (le_now_account env) rid tx rx lg2 of
                            None \<Rightarrow> (Some False, lg2)
                          | Some (used, lg3) \<Rightarrow> (Some (\<not> (0 < max_bytes \<and> max_bytes < used)), lg3))))"

section \<open>Stopping\<close>

definition start_periodic_flush :: "traffic_logger \<Rightarrow> traffic_logger" where
  "start_periodic_flush lg =
     (if tl_store lg = None \<or> tl_flush_started lg then lg else lg\<lparr>tl_flush_started := True\<rparr>)"

text \<open>The goroutine of the periodic flush: it flushes on a tick and ends when \<open>stopCh\<close> is closed.\<close>

definition flush_tick :: "(nat \<Rightarrow> bool) \<Rightarrow> go_time \<Rightarrow> traffic_logger \<Rightarrow> traffic_logger" where
  "flush_tick io now lg = snd (flush_context io now lg)"

definition flush_exit :: "traffic_logger \<Rightarrow> traffic_logger" where
  "flush_exit lg = (if tl_stop_closed lg then lg\<lparr>tl_flush_done := True\<rparr> else lg)"

definition stop_admission :: "traffic_logger \<Rightarrow> traffic_logger" where
  "stop_admission lg = wake_limiters (lg\<lparr>tl_stopping := True\<rparr>)"

datatype stop_error = StopContext | StopFlush store_error

text \<open>\<open>others\<close> is what happens while \<open>StopContext\<close> waits for the flush goroutine to end.\<close>

definition stop_context ::
  "(nat \<Rightarrow> bool) \<Rightarrow> go_time \<Rightarrow> (traffic_logger \<Rightarrow> traffic_logger) \<Rightarrow> traffic_logger \<Rightarrow> stop_error option \<times> traffic_logger"
where
  "stop_context io now others lg =
     (let lg1 = (stop_admission lg)\<lparr>tl_stop_closed := True\<rparr>;
          lg2 = (if tl_flush_started lg1 then others lg1 else lg1)
      in if tl_flush_started lg1 \<and> \<not> tl_flush_done lg2 then (Some StopContext, lg2)
         else (case flush_context io now lg2 of
                 (None, lg3) \<Rightarrow> (None, lg3)
               | (Some e, lg3) \<Rightarrow> (Some (StopFlush e), lg3)))"

end
