(* ===== verification/Traffic_Accounting.thy ===== *)
theory Traffic_Accounting
  imports Traffic
begin

text \<open>
  The sections of the traffic logger run concurrently.  A state is the logger with the phase of the
  goroutine that holds \<open>flushMu\<close>; an event is one locked section of one goroutine, in any order.
  Shown here: the month's usage that the quota is checked against is always the persisted usage plus
  what is pending plus what a flush is writing; the live counters never drift from the log; and the
  sequential methods are runs of these events.
\<close>

section \<open>Events\<close>

datatype flush_phase =
    Idle
  | Flushing pending_map
  | Loading string "(string, u64 \<times> u64) gomap"

datatype tl_event =
    Account bool go_time string u64 u64
  | Detach
  | Settle "nat \<Rightarrow> bool" go_time
  | Load bool go_time
  | Publish
  | GetOrCreate string
  | Online string bool
  | StopAdmission
  | Limiters "(string, download_limiter) gomap"
  | ResetStats string
  | ResetAllStats

type_synonym tl_state = "traffic_logger \<times> flush_phase"

fun tl_step :: "month_fn \<Rightarrow> tl_event \<Rightarrow> tl_state \<Rightarrow> tl_state option" where
  "tl_step mb (Account cancelled now rid tx rx) (lg, ph) =
     map_option (\<lambda>(_, lg'). (lg', ph)) (account mb cancelled now rid tx rx lg)"
| "tl_step mb Detach (lg, ph) =
     (if ph = Idle \<and> tl_store lg \<noteq> None
      then (let (batch, lg') = detach lg in Some (lg', if batch = [] then Idle else Flushing batch))
      else None)"
| "tl_step mb (Settle io now) (lg, ph) =
     (case (ph, tl_store lg) of
        (Flushing batch, Some db) \<Rightarrow> Some (snd (settle io now db batch lg), Idle)
      | _ \<Rightarrow> None)"
| "tl_step mb (Load io now) (lg, ph) =
     (if ph = Idle \<and> tl_month lg \<noteq> month_key mb now
      then (case load_month mb io now lg of
              Inl e \<Rightarrow> Some (lg, Idle)
            | Inr loaded \<Rightarrow> Some (lg, Loading (month_key mb now) loaded))
      else None)"
| "tl_step mb Publish (lg, ph) =
     (case ph of Loading key loaded \<Rightarrow> Some (publish_month key loaded lg, Idle) | _ \<Rightarrow> None)"
| "tl_step mb (GetOrCreate rid) (lg, ph) = Some (get_or_create rid lg, ph)"
| "tl_step mb (Online rid online) (lg, ph) = Some (log_online_state rid online lg, ph)"
| "tl_step mb StopAdmission (lg, ph) = Some (stop_admission lg, ph)"
| "tl_step mb (Limiters ls) (lg, ph) = Some (lg\<lparr>tl_limiters := ls\<rparr>, ph)"
| "tl_step mb (ResetStats rid) (lg, ph) = Some (reset_stats rid lg, ph)"
| "tl_step mb ResetAllStats (lg, ph) = Some (reset_all_stats lg, ph)"

fun tl_run :: "month_fn \<Rightarrow> tl_event list \<Rightarrow> tl_state \<Rightarrow> tl_state option" where
  "tl_run mb [] s = Some s"
| "tl_run mb (e # es) s = (case tl_step mb e s of None \<Rightarrow> None | Some s' \<Rightarrow> tl_run mb es s')"

text \<open>The clock is past the zero instant of \<open>time.Time\<close> whenever a transfer is accounted.\<close>

definition clock_ok :: "tl_event \<Rightarrow> bool" where
  "clock_ok e = (case e of Account _ now _ _ _ \<Rightarrow> zero_time < now | _ \<Rightarrow> True)"

section \<open>What each section leaves alone\<close>

lemma update_stats_frame [simp, frame_simps]:
  "tl_store (update_stats f rid lg) = tl_store lg"
  "tl_month (update_stats f rid lg) = tl_month lg"
  "tl_monthly (update_stats f rid lg) = tl_monthly lg"
  "tl_pending (update_stats f rid lg) = tl_pending lg"
  "tl_stopping (update_stats f rid lg) = tl_stopping lg"
  by (simp_all add: update_stats_def)

lemma get_or_create_frame [simp, frame_simps]:
  "tl_store (get_or_create rid lg) = tl_store lg"
  "tl_month (get_or_create rid lg) = tl_month lg"
  "tl_monthly (get_or_create rid lg) = tl_monthly lg"
  "tl_pending (get_or_create rid lg) = tl_pending lg"
  "gget zero_stats (tl_stats (get_or_create rid lg)) rid' = gget zero_stats (tl_stats lg) rid'"
  by (auto simp: get_or_create_def gget_def split: option.split)

lemma stop_admission_frame [simp, frame_simps]:
  "tl_store (stop_admission lg) = tl_store lg"
  "tl_month (stop_admission lg) = tl_month lg"
  "tl_monthly (stop_admission lg) = tl_monthly lg"
  "tl_pending (stop_admission lg) = tl_pending lg"
  "tl_stats (stop_admission lg) = tl_stats lg"
  by (simp_all add: stop_admission_def wake_limiters_def)

lemma reset_frame [simp, frame_simps]:
  "tl_store (reset_stats rid lg) = tl_store lg"
  "tl_month (reset_stats rid lg) = tl_month lg"
  "tl_monthly (reset_stats rid lg) = tl_monthly lg"
  "tl_pending (reset_stats rid lg) = tl_pending lg"
  "tl_store (reset_all_stats lg) = tl_store lg"
  "tl_month (reset_all_stats lg) = tl_month lg"
  "tl_monthly (reset_all_stats lg) = tl_monthly lg"
  "tl_pending (reset_all_stats lg) = tl_pending lg"
  by (simp_all add: reset_stats_def reset_all_stats_def split: option.split)

lemma log_online_frame [simp, frame_simps]:
  "tl_store (log_online_state rid online lg) = tl_store lg"
  "tl_month (log_online_state rid online lg) = tl_month lg"
  "tl_monthly (log_online_state rid online lg) = tl_monthly lg"
  "tl_pending (log_online_state rid online lg) = tl_pending lg"
  by (simp_all add: log_online_state_def)

lemma gget_update_stats [simp]:
  "gget zero_stats (tl_stats (update_stats f rid lg)) rid' =
     (if rid' = rid then f (gget zero_stats (tl_stats lg) rid) else gget zero_stats (tl_stats lg) rid')"
  by (simp add: update_stats_def)

lemma foldl_update_stats_frame:
  "tl_store (foldl (\<lambda>lg (k, r). update_stats (f r) (h r) lg) lg b) = tl_store lg"
  "tl_month (foldl (\<lambda>lg (k, r). update_stats (f r) (h r) lg) lg b) = tl_month lg"
  "tl_monthly (foldl (\<lambda>lg (k, r). update_stats (f r) (h r) lg) lg b) = tl_monthly lg"
  "tl_pending (foldl (\<lambda>lg (k, r). update_stats (f r) (h r) lg) lg b) = tl_pending lg"
  by (induction b arbitrary: lg) auto

lemma detach_frame [simp, frame_simps]:
  "fst (detach lg) = tl_pending lg"
  "tl_store (snd (detach lg)) = tl_store lg"
  "tl_month (snd (detach lg)) = tl_month lg"
  "tl_monthly (snd (detach lg)) = tl_monthly lg"
  "tl_pending (snd (detach lg)) = []"
  by (simp_all add: detach_def Let_def foldl_update_stats_frame)

lemma restore_Cons: "restore ((k, r) # b) lg =
    restore b (update_stats (add_delta r) (route_id (tr_user r) (tr_node r)) (lg\<lparr>tl_pending := add_record k r (tl_pending lg)\<rparr>))"
  by (simp add: restore_def)

lemma restore_frame [simp, frame_simps]:
  "tl_store (restore b lg) = tl_store lg"
  "tl_month (restore b lg) = tl_month lg"
  "tl_monthly (restore b lg) = tl_monthly lg"
  by (induction b arbitrary: lg) (auto simp: restore_Cons restore_def)

lemma restore_pending: "tl_pending (restore b lg) = foldl (\<lambda>p (k, r). add_record k r p) (tl_pending lg) b"
  by (induction b arbitrary: lg) (auto simp: restore_Cons restore_def)

lemma settle_cases:
  assumes "settle io now db batch lg = (e, lg')"
  obtains (failed) err where "e = Some err" "lg' = (restore batch lg)\<lparr>tl_store := Some db, tl_last_flush_err := Some err\<rparr>"
  | (stored) db' where "e = None" "flush_traffic io now (map snd batch) db = (Inr (), db')"
      "lg' = lg\<lparr>tl_store := Some db', tl_last_flush_err := None\<rparr>"
proof (cases "flush_traffic io now (map snd batch) db")
  case (Pair res db')
  then show ?thesis
    using assms that sqlite.flush_failed [of io now "map snd batch" db] by (cases res) (auto simp: settle_def)
qed

section \<open>The usage of the month\<close>

text \<open>
  The records of a pending map that count for a user in a month, modulo \<open>2^64\<close>, and what the store
  holds for the same user and month.
\<close>

definition pending_usage :: "string \<Rightarrow> string \<Rightarrow> pending_map \<Rightarrow> u64" where
  "pending_usage key u m = gsum (\<lambda>(_, month) r. if month = key \<and> tr_user r = u then tr_tx r + tr_rx r else 0) m"

definition stored_usage :: "month_fn \<Rightarrow> string \<Rightarrow> string \<Rightarrow> traffic_db option \<Rightarrow> u64" where
  "stored_usage mb key u store =
     (case store of None \<Rightarrow> 0 | Some db \<Rightarrow> word_of_int (logged_usage db u (in_month mb key)))"

definition in_flight :: "flush_phase \<Rightarrow> pending_map" where
  "in_flight ph = (case ph of Flushing batch \<Rightarrow> batch | _ \<Rightarrow> [])"

text \<open>A pending record belongs to the month of its key and to the user and node of its identity.\<close>

definition pending_ok :: "month_fn \<Rightarrow> pending_map \<Rightarrow> bool" where
  "pending_ok mb = gall (\<lambda>(rid, month) r.
     month_key mb (tr_time r) = month \<and> parse_id rid = (tr_user r, tr_node r) \<and> zero_time < tr_time r)"

definition phase_ok :: "month_fn \<Rightarrow> tl_state \<Rightarrow> bool" where
  "phase_ok mb s =
     (case snd s of
        Idle \<Rightarrow> True
      | Flushing batch \<Rightarrow> pending_ok mb batch \<and> tl_store (fst s) \<noteq> None
      | Loading key loaded \<Rightarrow> gmap_ok loaded \<and>
          (\<forall>u. stored_usage mb key u (tl_store (fst s)) = fst (gget (0, 0) loaded u) + snd (gget (0, 0) loaded u)))"

definition usage_exact :: "month_fn \<Rightarrow> tl_state \<Rightarrow> bool" where
  "usage_exact mb s \<longleftrightarrow>
     (tl_month (fst s) \<noteq> [] \<longrightarrow>
      (\<forall>u. gget 0 (tl_monthly (fst s)) u =
         stored_usage mb (tl_month (fst s)) u (tl_store (fst s)) +
         pending_usage (tl_month (fst s)) u (tl_pending (fst s)) +
         pending_usage (tl_month (fst s)) u (in_flight (snd s))))"

definition accounting_ok :: "month_fn \<Rightarrow> tl_state \<Rightarrow> bool" where
  "accounting_ok mb s \<longleftrightarrow> pending_ok mb (tl_pending (fst s)) \<and> phase_ok mb s \<and> usage_exact mb s"

lemma pending_usage_Nil [simp]: "pending_usage key u [] = 0"
  by (simp add: pending_usage_def)

lemma in_flight_simps [simp]:
  "in_flight Idle = []"
  "in_flight (Flushing b) = b"
  "in_flight (Loading key loaded) = []"
  by (simp_all add: in_flight_def)

lemma pending_ok_Nil [simp]: "pending_ok mb []"
  by (simp add: pending_ok_def)

lemma pending_ok_add_record:
  assumes "pending_ok mb p" and "month_key mb (tr_time r) = month" and "parse_id rid = (tr_user r, tr_node r)"
    and "zero_time < tr_time r"
  shows "pending_ok mb (add_record (rid, month) r p)"
proof -
  have "month_key mb (tr_time (merge_record r (gget zero_record p (rid, month)))) = month \<and>
      zero_time < tr_time (merge_record r (gget zero_record p (rid, month)))"
  proof (cases "map_of p (rid, month)")
    case None
    then show ?thesis using assms(2,4) by (simp add: gget_def merge_record_def zero_record_def)
  next
    case (Some r')
    from gall_lookup [OF assms(1) [unfolded pending_ok_def] Some] show ?thesis
      using assms(2,4) by (simp add: Some gget_def merge_record_def)
  qed
  then show ?thesis
    using assms(1,3) unfolding pending_ok_def add_record_def
    by (intro gall_gput) (simp_all add: merge_record_def)
qed

lemma pending_usage_add_record:
  assumes "pending_ok mb p" and "parse_id rid = (tr_user r, tr_node r)"
  shows "pending_usage key u (add_record (rid, month) r p) =
    pending_usage key u p + (if month = key \<and> tr_user r = u then tr_tx r + tr_rx r else 0)"
proof -
  have same: "map_of p (rid, month) = Some r' \<Longrightarrow> tr_user r' = tr_user r" for r'
    using gall_lookup [OF assms(1) [unfolded pending_ok_def], of "(rid, month)" r'] assms(2) by simp
  let ?f = "\<lambda>(_, month) r. if month = key \<and> tr_user r = u then tr_tx r + tr_rx r else (0 :: u64)"
  have "pending_usage key u (add_record (rid, month) r p) = pending_usage key u p +
      ?f (rid, month) (merge_record r (gget zero_record p (rid, month))) - ?f (rid, month) (gget zero_record p (rid, month))"
    unfolding pending_usage_def add_record_def by (rule gsum_gput) (simp add: zero_record_def)
  also have "\<dots> = pending_usage key u p + (if month = key \<and> tr_user r = u then tr_tx r + tr_rx r else 0)"
    using same by (cases "map_of p (rid, month)") (simp_all add: gget_def merge_record_def zero_record_def)
  finally show ?thesis .
qed

lemma pending_restored:
  assumes "pending_ok mb p" "pending_ok mb b"
  shows "pending_ok mb (foldl (\<lambda>p (k, r). add_record k r p) p b) \<and>
    pending_usage key u (foldl (\<lambda>p (k, r). add_record k r p) p b) = pending_usage key u p + pending_usage key u b"
  using assms
proof (induction b arbitrary: p)
  case (Cons e b)
  obtain rid month r where e: "e = ((rid, month), r)" by (metis surj_pair)
  have r: "month_key mb (tr_time r) = month" "parse_id rid = (tr_user r, tr_node r)" "zero_time < tr_time r"
    and b: "pending_ok mb b"
    using Cons.prems(2) by (simp_all add: e pending_ok_def)
  from Cons.IH [OF pending_ok_add_record [OF Cons.prems(1) r] b] pending_usage_add_record [OF Cons.prems(1) r(2), of key u month]
  show ?case by (simp add: e) (simp add: pending_usage_def add.assoc)
qed simp

lemma gget_month_totals_aux:
  "gmap_ok loaded \<Longrightarrow> gget 0 (foldl (\<lambda>m (username, tx, rx). gput username (tx + rx) m) m loaded) u =
     (case map_of loaded u of None \<Rightarrow> gget 0 m u | Some (tx, rx) \<Rightarrow> tx + rx)"
proof (induction loaded arbitrary: m)
  case (Cons e loaded)
  then show ?case
    by (cases e) (auto split: option.split simp: map_of_eq_None_iff dest: map_of_SomeD, force+)
qed simp

lemma gget_month_totals: "gmap_ok loaded \<Longrightarrow> gget 0 (month_totals loaded) u = fst (gget (0, 0) loaded u) + snd (gget (0, 0) loaded u)"
  unfolding month_totals_def by (simp add: gget_month_totals_aux) (simp add: gget_def split: option.split)

lemma gget_add_usage [simp]: "gget 0 (add_usage v n m) u = gget 0 m u + (if u = v then n else 0)"
  by (simp add: add_usage_def)

lemma gget_add_pending: "gget 0 (add_pending key p m) u = gget 0 m u + pending_usage key u p"
  by (induction p arbitrary: m) (auto simp: add_pending_def pending_usage_def add.assoc)

section \<open>Every section keeps the accounting exact\<close>

lemma account_Some:
  assumes "account mb cancelled now rid tx rx lg = Some (used, lg')"
  obtains username node where "parse_id rid = (username, node)" "tl_month lg = month_key mb now" "tl_store lg' = tl_store lg"
    "tl_month lg' = tl_month lg" "tl_monthly lg' = add_usage username (tx + rx) (tl_monthly lg)"
    "tl_pending lg' = add_record (rid, month_key mb now)
       \<lparr>tr_user = username, tr_node = node, tr_tx = tx, tr_rx = rx, tr_time = now\<rparr> (tl_pending lg)"
    "used = gget 0 (tl_monthly lg') username" "\<not> tl_stopping lg" "\<not> cancelled"
  using assms by (cases "parse_id rid") (auto simp: account_def Let_def split: if_split_asm)

lemma accounting_account:
  assumes ok: "accounting_ok mb (lg, ph)" and acc: "account mb cancelled now rid tx rx lg = Some (used, lg')"
    and clock: "zero_time < now"
  shows "accounting_ok mb (lg', ph)"
  using acc
proof (cases rule: account_Some)
  case (1 username node)
  let ?r = "\<lparr>tr_user = username, tr_node = node, tr_tx = tx, tr_rx = rx, tr_time = now\<rparr>"
  have p: "pending_ok mb (tl_pending lg)" using ok by (simp add: accounting_ok_def)
  have "pending_ok mb (tl_pending lg')"
    unfolding 1(6) by (rule pending_ok_add_record [OF p]) (use 1(1) clock in simp_all)
  moreover have "pending_usage key u (tl_pending lg') = pending_usage key u (tl_pending lg) +
      (if month_key mb now = key \<and> username = u then tx + rx else 0)" for key u
    unfolding 1(6) using pending_usage_add_record [OF p, of rid ?r] 1(1) by simp
  ultimately show ?thesis
    using ok 1 by (auto simp: accounting_ok_def phase_ok_def usage_exact_def split: flush_phase.split)
qed

lemma accounting_detach:
  assumes "accounting_ok mb (lg, Idle)" and "tl_store lg \<noteq> None" and "detach lg = (batch, lg')"
  shows "accounting_ok mb (lg', if batch = [] then Idle else Flushing batch)"
proof -
  have b: "batch = tl_pending lg" and l: "lg' = snd (detach lg)"
    using assms(3) detach_frame(1) [of lg] by simp_all
  show ?thesis
    using assms(1,2) unfolding b l by (auto simp: accounting_ok_def phase_ok_def usage_exact_def)
qed

lemma accounting_publish:
  assumes ok: "accounting_ok mb (lg, Loading key loaded)"
  shows "accounting_ok mb (publish_month key loaded lg, Idle)"
proof -
  have "gmap_ok loaded" and "\<And>u. stored_usage mb key u (tl_store lg) = fst (gget (0, 0) loaded u) + snd (gget (0, 0) loaded u)"
    using ok by (simp_all add: accounting_ok_def phase_ok_def)
  then show ?thesis
    using ok by (simp add: accounting_ok_def phase_ok_def usage_exact_def publish_month_def gget_add_pending gget_month_totals)
qed

lemma accounting_frame:
  assumes "accounting_ok mb (lg, ph)" "tl_store lg' = tl_store lg" "tl_month lg' = tl_month lg"
    "tl_monthly lg' = tl_monthly lg" "tl_pending lg' = tl_pending lg"
  shows "accounting_ok mb (lg', ph)"
  using assms by (auto simp: accounting_ok_def phase_ok_def usage_exact_def split: flush_phase.split)

lemma word_payload: "word_of_int (record_payload r) = tr_tx r + tr_rx r"
  by (simp add: record_payload_def)

lemma pending_usage_payload:
  assumes "pending_ok mb b"
  shows "word_of_int (\<Sum>r \<leftarrow> map snd b. if tr_user r = u \<and> month_key mb (tr_time r) = key then record_payload r else 0) =
    pending_usage key u b"
  using assms
proof (induction b)
  case (Cons e b)
  obtain rid month r where e: "e = ((rid, month), r)" by (metis surj_pair)
  with Cons show ?case by (auto simp: pending_ok_def pending_usage_def word_payload)
qed simp

context month_calendar
begin

lemma accounting_settle:
  assumes ok: "accounting_ok mb (lg, Flushing batch)" and store: "tl_store lg = Some db"
    and set: "settle io now db batch lg = (e, lg')"
  shows "accounting_ok mb (lg', Idle)"
  using set
proof (cases rule: settle_cases)
  case (failed err)
  have "pending_ok mb (tl_pending lg)" "pending_ok mb batch"
    using ok by (simp_all add: accounting_ok_def phase_ok_def)
  note r = pending_restored [OF this]
  show ?thesis
    using ok r store unfolding failed(2)
    by (simp add: accounting_ok_def phase_ok_def usage_exact_def restore_pending add.assoc)
next
  case (stored db')
  have b: "pending_ok mb batch" using ok by (simp add: accounting_ok_def phase_ok_def)
  have "\<forall>r \<in> set (map snd batch). tr_time r \<noteq> zero_time"
    using b by (fastforce simp: pending_ok_def gall_def)
  from months.month_flushed [OF stored(2) this]
  have "stored_usage mb key u (Some db') = stored_usage mb key u (Some db) + pending_usage key u batch" for key u
    using pending_usage_payload [OF b] by (simp add: stored_usage_def)
  then show ?thesis
    using ok store unfolding stored(3)
    by (simp add: accounting_ok_def phase_ok_def usage_exact_def algebra_simps)
qed

lemma accounting_load:
  assumes ok: "accounting_ok mb (lg, Idle)" and load: "load_month mb io now lg = Inr loaded"
  shows "accounting_ok mb (lg, Loading (month_key mb now) loaded)"
proof (cases "tl_store lg")
  case None
  with load ok show ?thesis
    by (simp add: load_month_def accounting_ok_def phase_ok_def usage_exact_def stored_usage_def case_prod_beta)
next
  case (Some db)
  with load have g: "get_user_monthly_usage io (fst (snd (mb now))) (snd (snd (mb now))) db = Inr loaded"
    by (simp add: load_month_def case_prod_beta)
  from months.month_loaded [OF g] months.load_keys [OF g] ok show ?thesis
    by (simp add: Some accounting_ok_def phase_ok_def usage_exact_def stored_usage_def)
qed

lemma accounting_step:
  assumes "accounting_ok mb s" "clock_ok e" "tl_step mb e s = Some s'"
  shows "accounting_ok mb s'"
proof -
  obtain lg ph where s: "s = (lg, ph)" by fastforce
  show ?thesis
  proof (cases e)
    case (Settle io now)
    with assms(3) obtain batch db where "ph = Flushing batch" "tl_store lg = Some db" "s' = (snd (settle io now db batch lg), Idle)"
      by (auto simp: s split: flush_phase.split_asm option.split_asm)
    with assms(1) show ?thesis using accounting_settle [of lg batch db io now] by (metis s prod.collapse)
  next
    case (Load io now)
    with assms show ?thesis by (auto simp: s intro: accounting_load split: if_split_asm sum.split_asm)
  next
    case (Account c now rid tx rx)
    with assms show ?thesis by (auto simp: s clock_ok_def intro: accounting_account)
  next
    case Detach
    with assms show ?thesis by (auto simp: s Let_def split: if_split_asm prod.split_asm dest: accounting_detach)
  next
    case Publish
    with assms show ?thesis by (auto simp: s intro: accounting_publish split: flush_phase.split_asm)
  qed (use assms in \<open>auto simp: s intro: accounting_frame\<close>)
qed

lemma accounting_run: "accounting_ok mb s \<Longrightarrow> list_all clock_ok es \<Longrightarrow> tl_run mb es s = Some s' \<Longrightarrow> accounting_ok mb s'"
  by (induction es arbitrary: s) (auto split: option.split_asm dest: accounting_step)

lemma accounting_ensure:
  assumes "accounting_ok mb (lg, Idle)" "ensure_monthly_usage mb io now lg = (e, lg')"
  shows "accounting_ok mb (lg', Idle)"
  using assms by (auto simp: ensure_monthly_usage_def split: if_split_asm sum.split_asm
      intro: accounting_publish accounting_load)

end

section \<open>Live counters and the log\<close>

definition live_stats :: "traffic_logger \<Rightarrow> string \<Rightarrow> string \<Rightarrow> user_node_stats" where
  "live_stats lg u n = gget zero_stats (tl_stats lg) (route_id u n)"

definition pending_by :: "(traffic_record \<Rightarrow> u64) \<Rightarrow> string \<Rightarrow> string \<Rightarrow> pending_map \<Rightarrow> u64" where
  "pending_by f u n m = gsum (\<lambda>_ r. if tr_user r = u \<and> tr_node r = n then f r else 0) m"

definition stored_tx :: "traffic_db option \<Rightarrow> string \<Rightarrow> string \<Rightarrow> u64" where
  "stored_tx store u n = (case store of None \<Rightarrow> 0 | Some db \<Rightarrow> word_of_int (logged_tx db u n))"

definition stored_rx :: "traffic_db option \<Rightarrow> string \<Rightarrow> string \<Rightarrow> u64" where
  "stored_rx store u n = (case store of None \<Rightarrow> 0 | Some db \<Rightarrow> word_of_int (logged_rx db u n))"

text \<open>The part of a live counter that is neither logged nor pending nor being written.\<close>

definition drift_tx :: "string \<Rightarrow> string \<Rightarrow> tl_state \<Rightarrow> u64" where
  "drift_tx u n s = us_tx (live_stats (fst s) u n) -
     (stored_tx (tl_store (fst s)) u n + pending_by tr_tx u n (tl_pending (fst s)) + pending_by tr_tx u n (in_flight (snd s)))"

definition drift_rx :: "string \<Rightarrow> string \<Rightarrow> tl_state \<Rightarrow> u64" where
  "drift_rx u n s = us_rx (live_stats (fst s) u n) -
     (stored_rx (tl_store (fst s)) u n + pending_by tr_rx u n (tl_pending (fst s)) + pending_by tr_rx u n (in_flight (snd s)))"

text \<open>The deltas of a pair are its pending payload.\<close>

definition deltas_exact :: "string \<Rightarrow> string \<Rightarrow> tl_state \<Rightarrow> bool" where
  "deltas_exact u n s \<longleftrightarrow>
     us_txd (live_stats (fst s) u n) = pending_by tr_tx u n (tl_pending (fst s)) \<and>
     us_rxd (live_stats (fst s) u n) = pending_by tr_rx u n (tl_pending (fst s))"

definition pair_ok :: "string \<Rightarrow> string \<Rightarrow> bool" where
  "pair_ok u n \<longleftrightarrow> CHR '':'' \<notin> set u \<and> n \<noteq> []"

definition is_reset :: "tl_event \<Rightarrow> bool" where
  "is_reset e = (case e of ResetStats _ \<Rightarrow> True | ResetAllStats \<Rightarrow> True | _ \<Rightarrow> False)"

lemma parse_id_colon: "parse_id rid = (u, n) \<Longrightarrow> CHR '':'' \<notin> set u"
  by (auto simp: parse_id_def split: option.split_asm dest: index_byte_SomeD) (metis index_byte_None)

lemma parse_id_pair:
  assumes "pair_ok u n"
  shows "parse_id rid = (u, n) \<longleftrightarrow> rid = route_id u n"
proof
  assume a: "parse_id rid = (u, n)"
  with assms obtain i where i: "index_byte rid CHR '':'' = Some i" and "u = take i rid" "n = drop (Suc i) rid"
    by (auto simp: parse_id_def pair_ok_def split: option.split_asm)
  then show "rid = route_id u n"
    using index_byte_SomeD [OF i] by (metis append_Cons append_Nil route_id_def)
qed (use assms in \<open>simp add: pair_ok_def\<close>)

lemma route_id_eq:
  assumes "CHR '':'' \<notin> set u" "CHR '':'' \<notin> set u'"
  shows "route_id u n = route_id u' n' \<longleftrightarrow> u = u' \<and> n = n'"
  by (metis assms parse_id_route_id prod.inject)

text \<open>The payload selectors: zero on an absent record, additive under merging.\<close>

definition additive :: "(traffic_record \<Rightarrow> u64) \<Rightarrow> bool" where
  "additive f \<longleftrightarrow> f zero_record = 0 \<and> (\<forall>r c. f (merge_record r c) = f c + f r)"

lemma additive_tx [simp]: "additive tr_tx" and additive_rx [simp]: "additive tr_rx"
  by (simp_all add: additive_def merge_record_def zero_record_def)

lemma pending_by_Nil [simp]: "pending_by f u n [] = 0"
  by (simp add: pending_by_def)

lemma pending_by_Cons: "pending_by f u n ((k, r) # b) = (if tr_user r = u \<and> tr_node r = n then f r else 0) + pending_by f u n b"
  by (simp add: pending_by_def)

lemma pending_by_add_record:
  assumes f: "additive f" and "pending_ok mb p" and "parse_id rid = (tr_user r, tr_node r)"
  shows "pending_by f u n (add_record (rid, month) r p) =
    pending_by f u n p + (if tr_user r = u \<and> tr_node r = n then f r else 0)"
proof -
  have same: "map_of p (rid, month) = Some r' \<Longrightarrow> tr_user r' = tr_user r \<and> tr_node r' = tr_node r" for r'
    using gall_lookup [OF assms(2) [unfolded pending_ok_def], of "(rid, month)" r'] assms(3) by simp
  let ?f = "\<lambda>_ r. if tr_user r = u \<and> tr_node r = n then f r else (0 :: u64)"
  let ?c = "gget zero_record p (rid, month)"
  have "pending_by f u n (add_record (rid, month) r p) = pending_by f u n p + ?f (rid, month) (merge_record r ?c) - ?f (rid, month) ?c"
    unfolding pending_by_def add_record_def by (rule gsum_gput) (use f in \<open>simp add: additive_def\<close>)
  moreover have "tr_user (merge_record r ?c) = tr_user r" "tr_node (merge_record r ?c) = tr_node r"
    by (simp_all add: merge_record_def)
  moreover have "?f (rid, month) ?c = (if tr_user r = u \<and> tr_node r = n then f ?c else 0)"
    using same f by (cases "map_of p (rid, month)") (auto simp: gget_def additive_def)
  ultimately show ?thesis using f by (simp add: additive_def)
qed

lemma pending_by_restored:
  assumes "additive f" "pending_ok mb p" "pending_ok mb b"
  shows "pending_by f u n (foldl (\<lambda>p (k, r). add_record k r p) p b) = pending_by f u n p + pending_by f u n b"
  using assms(2,3)
proof (induction b arbitrary: p)
  case (Cons e b)
  obtain rid month r where e: "e = ((rid, month), r)" by (metis surj_pair)
  have r: "month_key mb (tr_time r) = month" "parse_id rid = (tr_user r, tr_node r)" "zero_time < tr_time r"
    and b: "pending_ok mb b"
    using Cons.prems(2) by (simp_all add: e pending_ok_def)
  from Cons.IH [OF pending_ok_add_record [OF Cons.prems(1) r] b] pending_by_add_record [OF assms(1) Cons.prems(1) r(2), of u n month]
  show ?case by (simp add: e pending_by_Cons add.assoc)
qed simp

lemma live_update_stats:
  assumes "pair_ok u n" "CHR '':'' \<notin> set u'"
  shows "live_stats (update_stats f (route_id u' n') lg) u n =
    (if u' = u \<and> n' = n then f (live_stats lg u n) else live_stats lg u n)"
  using assms route_id_eq [of u u' n n'] by (auto simp: live_stats_def pair_ok_def)

lemma live_detach:
  assumes "pair_ok u n" and "pending_ok mb (tl_pending lg)"
  shows "live_stats (snd (detach lg)) u n = (live_stats lg u n)
    \<lparr>us_txd := us_txd (live_stats lg u n) - pending_by tr_tx u n (tl_pending lg),
     us_rxd := us_rxd (live_stats lg u n) - pending_by tr_rx u n (tl_pending lg)\<rparr>"
proof -
  have "live_stats (foldl (\<lambda>lg (_, r). update_stats (sub_delta r) (route_id (tr_user r) (tr_node r)) lg) lg b) u n =
      (live_stats lg u n)\<lparr>us_txd := us_txd (live_stats lg u n) - pending_by tr_tx u n b,
        us_rxd := us_rxd (live_stats lg u n) - pending_by tr_rx u n b\<rparr>"
    if "pending_ok mb b" for lg b
    using that
  proof (induction b arbitrary: lg)
    case (Cons e b)
    obtain rid month r where e: "e = ((rid, month), r)" by (metis surj_pair)
    have "CHR '':'' \<notin> set (tr_user r)" and b: "pending_ok mb b"
      using Cons.prems by (auto simp: e pending_ok_def dest: parse_id_colon)
    with Cons.IH [OF b] show ?case
      by (simp add: e pending_by_Cons live_update_stats [OF assms(1)] sub_delta_def not_minus_one_word)
  qed simp
  from this [OF assms(2), of "lg\<lparr>tl_pending := []\<rparr>"] show ?thesis
    by (simp add: detach_def Let_def live_stats_def)
qed

lemma live_restore:
  assumes "pair_ok u n" and "pending_ok mb b"
  shows "live_stats (restore b lg) u n = (live_stats lg u n)
    \<lparr>us_txd := us_txd (live_stats lg u n) + pending_by tr_tx u n b,
     us_rxd := us_rxd (live_stats lg u n) + pending_by tr_rx u n b\<rparr>"
  using assms(2)
proof (induction b arbitrary: lg)
  case (Cons e b)
  obtain rid month r where e: "e = ((rid, month), r)" by (metis surj_pair)
  have "CHR '':'' \<notin> set (tr_user r)" and b: "pending_ok mb b"
    using Cons.prems by (auto simp: e pending_ok_def dest: parse_id_colon)
  moreover have "live_stats (lg\<lparr>tl_pending := p\<rparr>) u n = live_stats lg u n" for p
    by (simp add: live_stats_def)
  ultimately show ?case
    using Cons.IH [OF b] by (simp add: e restore_Cons pending_by_Cons live_update_stats [OF assms(1)] add_delta_def add.assoc)
qed (simp add: restore_def)

lemma live_account:
  assumes "pair_ok u n" and "account mb cancelled now rid tx rx lg = Some (used, lg')"
  shows "let s = live_stats lg u n; s' = live_stats lg' u n; hit = (parse_id rid = (u, n)) in
    us_tx s' = us_tx s + (if hit then tx else 0) \<and> us_rx s' = us_rx s + (if hit then rx else 0) \<and>
    us_txd s' = us_txd s + (if hit then tx else 0) \<and> us_rxd s' = us_rxd s + (if hit then rx else 0)"
  using assms parse_id_pair [OF assms(1), of rid]
  by (cases "parse_id rid") (auto simp: account_def Let_def live_stats_def split: if_split_asm)

lemma stored_flushed:
  assumes "flush_traffic io now (map snd b) db = (Inr v, db')"
  shows "stored_tx (Some db') u n = stored_tx (Some db) u n + pending_by tr_tx u n b"
    and "stored_rx (Some db') u n = stored_rx (Some db) u n + pending_by tr_rx u n b"
proof -
  have "word_of_int (\<Sum>r \<leftarrow> map snd b. if tr_user r = u \<and> tr_node r = n then uint (f r) else 0) = pending_by f u n b" for f
  proof (induction b)
    case (Cons e b)
    then show ?case by (cases e) (simp add: pending_by_Cons)
  qed simp
  with logged_pair_flushed [OF assms, of u n]
  show "stored_tx (Some db') u n = stored_tx (Some db) u n + pending_by tr_tx u n b"
    and "stored_rx (Some db') u n = stored_rx (Some db) u n + pending_by tr_rx u n b"
    by (simp_all add: stored_tx_def stored_rx_def)
qed

text \<open>
  One step other than a reset leaves the drift of both counters unchanged, and every step keeps the
  deltas exact.
\<close>

definition same_ledger :: "string \<Rightarrow> string \<Rightarrow> tl_state \<Rightarrow> tl_state \<Rightarrow> bool" where
  "same_ledger u n s s' \<longleftrightarrow>
     drift_tx u n s' = drift_tx u n s \<and> drift_rx u n s' = drift_rx u n s \<and> (deltas_exact u n s \<longrightarrow> deltas_exact u n s')"

lemmas ledger_defs = same_ledger_def drift_tx_def drift_rx_def deltas_exact_def

lemma same_ledger_frame:
  assumes "tl_store lg' = tl_store lg" "tl_pending lg' = tl_pending lg" "live_stats lg' u n = live_stats lg u n"
    and "in_flight ph' = in_flight ph"
  shows "same_ledger u n (lg, ph) (lg', ph')"
  using assms by (simp add: ledger_defs)

lemma same_ledger_account:
  assumes p: "pair_ok u n" and ok: "accounting_ok mb (lg, ph)" and acc: "account mb cancelled now rid tx rx lg = Some (used, lg')"
  shows "same_ledger u n (lg, ph) (lg', ph)"
  using acc
proof (cases rule: account_Some)
  case (1 username node)
  have "pending_ok mb (tl_pending lg)" using ok by (simp add: accounting_ok_def)
  from pending_by_add_record [OF _ this, of _ rid "\<lparr>tr_user = username, tr_node = node, tr_tx = tx, tr_rx = rx, tr_time = now\<rparr>"
      u n "month_key mb now"]
  have "additive f \<Longrightarrow> pending_by f u n (tl_pending lg') = pending_by f u n (tl_pending lg) +
      (if parse_id rid = (u, n) then f \<lparr>tr_user = username, tr_node = node, tr_tx = tx, tr_rx = rx, tr_time = now\<rparr> else 0)" for f
    using 1(1,6) by simp
  from this [of tr_tx] this [of tr_rx] live_account [OF p acc] 1(3) show ?thesis
    by (auto simp: ledger_defs Let_def)
qed

lemma same_ledger_detach:
  assumes p: "pair_ok u n" and ok: "accounting_ok mb (lg, Idle)" and d: "detach lg = (batch, lg')"
  shows "same_ledger u n (lg, Idle) (lg', if batch = [] then Idle else Flushing batch)"
proof -
  have b: "batch = tl_pending lg" and l: "lg' = snd (detach lg)"
    using d detach_frame(1) [of lg] by simp_all
  have "pending_ok mb (tl_pending lg)" using ok by (simp add: accounting_ok_def)
  from live_detach [OF p this] show ?thesis
    unfolding b l by (auto simp: ledger_defs)
qed

lemma same_ledger_settle:
  assumes p: "pair_ok u n" and ok: "accounting_ok mb (lg, Flushing batch)" and store: "tl_store lg = Some db"
    and set: "settle io now db batch lg = (e, lg')"
  shows "same_ledger u n (lg, Flushing batch) (lg', Idle)"
proof -
  have pend: "pending_ok mb (tl_pending lg)" "pending_ok mb batch"
    using ok by (simp_all add: accounting_ok_def phase_ok_def)
  have live: "live_stats (lg\<lparr>tl_store := st, tl_last_flush_err := er\<rparr>) u n = live_stats lg u n" for lg st er
    by (simp add: live_stats_def)
  show ?thesis
    using set
  proof (cases rule: settle_cases)
    case (failed err)
    then show ?thesis
      using live_restore [OF p pend(2), of lg] pending_by_restored [OF _ pend, of _ u n] store
      by (simp add: ledger_defs live restore_pending add.assoc)
  next
    case (stored db')
    then show ?thesis
      using stored_flushed [OF stored(2), of u n] store by (simp add: ledger_defs live algebra_simps)
  qed
qed

lemma same_ledger_step:
  assumes "accounting_ok mb s" "pair_ok u n" "\<not> is_reset e" "tl_step mb e s = Some s'"
  shows "same_ledger u n s s'"
proof -
  obtain lg ph where s: "s = (lg, ph)" by fastforce
  show ?thesis
  proof (cases e)
    case (Settle io now)
    with assms(4) obtain batch db where "ph = Flushing batch" "tl_store lg = Some db" "s' = (snd (settle io now db batch lg), Idle)"
      by (auto simp: s split: flush_phase.split_asm option.split_asm)
    with assms(1,2) show ?thesis using same_ledger_settle [of u n mb lg batch db io now] by (metis s prod.collapse)
  next
    case (Account c now rid tx rx)
    with assms show ?thesis by (auto simp: s intro: same_ledger_account)
  next
    case Detach
    with assms show ?thesis by (auto simp: s Let_def split: if_split_asm prod.split_asm dest: same_ledger_detach)
  next
    case (Load io now)
    with assms(4) show ?thesis
      by (auto simp: s intro: same_ledger_frame split: if_split_asm sum.split_asm)
  next
    case Publish
    with assms(4) show ?thesis
      by (auto simp: s publish_month_def live_stats_def intro!: same_ledger_frame split: flush_phase.split_asm)
  next
    case (Online rid online)
    with assms(4) show ?thesis
      by (auto simp: s log_online_state_def ledger_defs live_stats_def)
  qed (use assms in \<open>auto simp: s is_reset_def live_stats_def intro!: same_ledger_frame\<close>)
qed

context month_calendar
begin

lemma same_ledger_run:
  "accounting_ok mb s \<Longrightarrow> pair_ok u n \<Longrightarrow> list_all clock_ok es \<Longrightarrow> list_all (\<lambda>e. \<not> is_reset e) es \<Longrightarrow>
     tl_run mb es s = Some s' \<Longrightarrow> same_ledger u n s s'"
proof (induction es arbitrary: s)
  case (Cons e es)
  then obtain s1 where s1: "tl_step mb e s = Some s1" "tl_run mb es s1 = Some s'"
    by (auto split: option.split_asm)
  with Cons have "same_ledger u n s s1" by (auto intro: same_ledger_step)
  moreover have "same_ledger u n s1 s'"
    using Cons.prems s1 by (intro Cons.IH) (auto intro: accounting_step)
  ultimately show ?case by (auto simp: same_ledger_def)
qed (simp add: same_ledger_def)

end

section \<open>The logger at start\<close>

definition policy_pairs :: "authenticator \<Rightarrow> (string \<times> string) list" where
  "policy_pairs a = concat (map (\<lambda>(name, u). map (\<lambda>route. (name, route)) (uc_routes u)) (auth_snapshot a))"

lemma new_traffic_logger_alt:
  "new_traffic_logger mb io ios now a store =
     foldl (\<lambda>lg (name, route). lg\<lparr>tl_stats := gput (route_id name route) (initial_stats (ios name route) store name route) (tl_stats lg)\<rparr>)
       (snd (ensure_monthly_usage mb io now (empty_logger store))) (policy_pairs a)"
proof -
  have "foldl (\<lambda>lg (name, u). foldl (\<lambda>lg route. f lg name route) lg (uc_routes u)) lg us =
      foldl (\<lambda>lg (name, route). f lg name route) lg (concat (map (\<lambda>(name, u). map (\<lambda>route. (name, route)) (uc_routes u)) us))"
    for f and lg :: traffic_logger and us :: "(string \<times> user_config) list"
    by (induction us arbitrary: lg) (auto simp: foldl_map)
  from this [of "\<lambda>lg name route. lg\<lparr>tl_stats := gput (route_id name route) (initial_stats (ios name route) store name route) (tl_stats lg)\<rparr>"]
  show ?thesis by (simp add: new_traffic_logger_def policy_pairs_def Let_def)
qed

lemma ensure_frame:
  "tl_stats (snd (ensure_monthly_usage mb io now lg)) = tl_stats lg"
  "tl_store (snd (ensure_monthly_usage mb io now lg)) = tl_store lg"
  "tl_pending (snd (ensure_monthly_usage mb io now lg)) = tl_pending lg"
  by (simp_all add: ensure_monthly_usage_def publish_month_def split: sum.split)

lemma foldl_stats_frame:
  "tl_store (foldl (\<lambda>lg (name, route). lg\<lparr>tl_stats := gput (k name route) (v name route) (tl_stats lg)\<rparr>) lg ps) = tl_store lg"
  "tl_month (foldl (\<lambda>lg (name, route). lg\<lparr>tl_stats := gput (k name route) (v name route) (tl_stats lg)\<rparr>) lg ps) = tl_month lg"
  "tl_monthly (foldl (\<lambda>lg (name, route). lg\<lparr>tl_stats := gput (k name route) (v name route) (tl_stats lg)\<rparr>) lg ps) = tl_monthly lg"
  "tl_pending (foldl (\<lambda>lg (name, route). lg\<lparr>tl_stats := gput (k name route) (v name route) (tl_stats lg)\<rparr>) lg ps) = tl_pending lg"
  by (induction ps arbitrary: lg) auto

lemma foldl_stats_lookup:
  fixes lg :: traffic_logger
  assumes "\<And>u' n'. (u', n') \<in> set ps \<Longrightarrow> k u' n' = k u n \<longleftrightarrow> u' = u \<and> n' = n"
  shows "gget zero_stats (tl_stats (foldl (\<lambda>lg (name, route). lg\<lparr>tl_stats := gput (k name route) (v name route) (tl_stats lg)\<rparr>) lg ps)) (k u n) =
    (if (u, n) \<in> set ps then v u n else gget zero_stats (tl_stats lg) (k u n))"
  using assms
proof (induction ps arbitrary: lg)
  case (Cons p ps)
  obtain a b where p: "p = (a, b)" by fastforce
  have eq: "k u n = k a b \<longleftrightarrow> u = a \<and> n = b" using Cons.prems [of a b] by (auto simp: p)
  have IH: "gget zero_stats (tl_stats (foldl (\<lambda>lg (name, route). lg\<lparr>tl_stats := gput (k name route) (v name route) (tl_stats lg)\<rparr>) lg ps)) (k u n) =
      (if (u, n) \<in> set ps then v u n else gget zero_stats (tl_stats lg) (k u n))" for lg :: traffic_logger
    by (rule Cons.IH) (simp add: Cons.prems)
  show ?case by (simp add: p IH eq)
qed simp

lemma policy_pairs_iff:
  "(u, n) \<in> set (policy_pairs a) \<Longrightarrow> \<exists>e. (u, e) \<in> set (au_users a)"
  by (force simp: policy_pairs_def auth_snapshot_def gmap_values_def)

definition names_plain :: "authenticator \<Rightarrow> bool" where
  "names_plain a \<longleftrightarrow> list_all (\<lambda>(name, _). CHR '':'' \<notin> set name) (au_users a)"

lemma new_logger_live:
  assumes "names_plain a" "pair_ok u n"
  shows "live_stats (new_traffic_logger mb io ios now a store) u n =
    (if (u, n) \<in> set (policy_pairs a) then initial_stats (ios u n) store u n else zero_stats)"
proof -
  have "route_id u' n' = route_id u n \<longleftrightarrow> u' = u \<and> n' = n" if "(u', n') \<in> set (policy_pairs a)" for u' n'
  proof (rule route_id_eq)
    show "CHR '':'' \<notin> set u'"
      using assms(1) policy_pairs_iff [OF that] by (auto simp: names_plain_def list_all_iff)
  qed (use assms(2) in \<open>simp add: pair_ok_def\<close>)
  then show ?thesis
    unfolding live_stats_def new_traffic_logger_alt
    by (subst foldl_stats_lookup) (auto simp: ensure_frame empty_logger_def)
qed

lemma initial_stats_deltas [simp]:
  "us_txd (initial_stats io store u n) = 0"
  "us_rxd (initial_stats io store u n) = 0"
  by (simp_all add: initial_stats_def zero_stats_def split: option.split sum.split)

lemma new_logger_frame:
  "tl_store (new_traffic_logger mb io ios now a store) = store"
  "tl_pending (new_traffic_logger mb io ios now a store) = []"
  by (simp_all add: new_traffic_logger_alt foldl_stats_frame ensure_frame) (simp_all add: empty_logger_def)

lemma initial_stats_exact:
  assumes "traffic_db_ok db" "logged_tx db u n < 2 ^ 63" "logged_rx db u n < 2 ^ 63"
  shows "us_tx (initial_stats True (Some db) u n) = word_of_int (logged_tx db u n) \<and>
    us_rx (initial_stats True (Some db) u n) = word_of_int (logged_rx db u n)"
proof -
  have sums: "logged_tx db u n = sum_list (map lr_tx (pair_rows db u n))"
    "logged_rx db u n = sum_list (map lr_rx (pair_rows db u n))"
    by (simp_all add: logged_tx_def logged_rx_def pair_rows_def sum_list_map_filter')
  show ?thesis
    using assms(2,3) summary_total [OF assms(1), of u n] unfolding sums by (simp add: initial_stats_def)
qed

context month_calendar
begin

lemma accounting_new: "accounting_ok mb (new_traffic_logger mb io ios now a store, Idle)"
proof -
  let ?lg = "snd (ensure_monthly_usage mb io now (empty_logger store))"
  have "accounting_ok mb (empty_logger store, Idle)"
    by (simp add: accounting_ok_def phase_ok_def usage_exact_def empty_logger_def)
  then have "accounting_ok mb (?lg, Idle)"
    by (rule accounting_ensure [OF _ prod.collapse [symmetric]])
  then show ?thesis
    unfolding new_traffic_logger_alt by (rule accounting_frame) (simp_all add: foldl_stats_frame)
qed

lemma accounting_reachable:
  assumes "tl_run mb es (new_traffic_logger mb io ios now a store, Idle) = Some s" "list_all clock_ok es"
  shows "accounting_ok mb s"
  using accounting_run [OF accounting_new assms(2,1)] .

end

text \<open>C2: The usage that the quota is checked against is exact.  In every state that concurrent
  transfers, flushes that succeed or fail, month changes and resets can reach, the month's usage of
  every user equals (modulo \<open>2^64\<close>) the persisted usage of the month, plus the pending records of
  the month, plus the records a flush is writing at that moment: nothing is lost and nothing is
  counted twice.\<close>

theorem monthly_usage_exact:
  assumes "tl_run (fixed_zone offset) es (new_traffic_logger (fixed_zone offset) io ios t0 a store, Idle) = Some (lg, ph)"
    and "list_all clock_ok es" and "tl_month lg \<noteq> []"
  shows "gget 0 (tl_monthly lg) u =
    stored_usage (fixed_zone offset) (tl_month lg) u (tl_store lg) +
    pending_usage (tl_month lg) u (tl_pending lg) + pending_usage (tl_month lg) u (in_flight ph)"
  using zone.accounting_reachable [OF assms(1,2)] assms(3) by (simp add: accounting_ok_def usage_exact_def)

definition demo_auth :: authenticator where
  "demo_auth = new_authenticator (\<lambda>_. []) [(''alice'',
     \<lparr>uc_password = ''pw'', uc_disabled = False, uc_expires_at = None, uc_routes = [''n1''], uc_max_bytes = 20, uc_speed_limit = 0\<rparr>)]"

definition demo_store :: traffic_db where
  "demo_store = \<lparr>td_logs = [], td_summary = []\<rparr>"

definition demo_logger :: traffic_logger where
  "demo_logger = new_traffic_logger utc True (\<lambda>_ _. True) (zero_time + 1 * second) demo_auth (Some demo_store)"

text \<open>A transfer, a flush that fails while a second transfer is accounted, and a flush that succeeds.\<close>

definition demo_events :: "tl_event list" where
  "demo_events =
     [Account False (zero_time + 2 * second) ''alice:n1'' 3 4, Detach,
      Account False (zero_time + 3 * second) ''alice:n1'' 1 1, Settle (\<lambda>n. n < 4) 0, Detach]"

lemma demo_run: "\<exists>lg batch. tl_run utc demo_events (demo_logger, Idle) = Some (lg, Flushing batch) \<and>
    tl_month lg = ''0001-01'' \<and> gget 0 (tl_monthly lg) ''alice'' = 9 \<and> tl_pending lg = [] \<and> length batch = 1"
proof -
  have "(case tl_run utc demo_events (demo_logger, Idle) of
      Some (lg, Flushing batch) \<Rightarrow> tl_month lg = ''0001-01'' \<and> gget 0 (tl_monthly lg) ''alice'' = 9 \<and> tl_pending lg = [] \<and> length batch = 1
    | _ \<Rightarrow> False)"
    by code_simp
  then show ?thesis
    by (cases "tl_run utc demo_events (demo_logger, Idle)") (simp, auto split: prod.split_asm flush_phase.split_asm)
qed

theorem monthly_usage_exact_witness:
  "\<exists>lg batch. tl_run utc demo_events (demo_logger, Idle) = Some (lg, Flushing batch) \<and>
     9 = stored_usage utc ''0001-01'' ''alice'' (tl_store lg) + pending_usage ''0001-01'' ''alice'' [] + pending_usage ''0001-01'' ''alice'' batch"
proof -
  obtain lg batch where run: "tl_run utc demo_events (demo_logger, Idle) = Some (lg, Flushing batch)"
    and st: "tl_month lg = ''0001-01''" "gget 0 (tl_monthly lg) ''alice'' = 9" "tl_pending lg = []"
    using demo_run by blast
  have "list_all clock_ok demo_events" by (simp add: demo_events_def clock_ok_def zero_time_def)
  from monthly_usage_exact [OF run [unfolded demo_logger_def] this, of "''alice''"] st run show ?thesis by auto
qed

text \<open>The live counters never drift from the log.  For a configured (user, node) pair, with the
  logger started on a consistent store, the upload and download counters always equal (modulo
  \<open>2^64\<close>) what is logged, plus what is pending, plus what a flush is writing, and the deltas equal
  what is pending, as long as nobody resets the counters.\<close>

theorem live_counters_exact:
  assumes "tl_run (fixed_zone offset) es (new_traffic_logger (fixed_zone offset) io (\<lambda>_ _. True) t0 a (Some db), Idle) = Some (lg, ph)"
    and "list_all clock_ok es" and "list_all (\<lambda>e. \<not> is_reset e) es"
    and "traffic_db_ok db" and "logged_tx db u n < 2 ^ 63" and "logged_rx db u n < 2 ^ 63"
    and "names_plain a" and "pair_ok u n" and "(u, n) \<in> set (policy_pairs a)"
  shows "us_tx (live_stats lg u n) = stored_tx (tl_store lg) u n + pending_by tr_tx u n (tl_pending lg) + pending_by tr_tx u n (in_flight ph) \<and>
    us_rx (live_stats lg u n) = stored_rx (tl_store lg) u n + pending_by tr_rx u n (tl_pending lg) + pending_by tr_rx u n (in_flight ph) \<and>
    us_txd (live_stats lg u n) = pending_by tr_tx u n (tl_pending lg) \<and> us_rxd (live_stats lg u n) = pending_by tr_rx u n (tl_pending lg)"
proof -
  let ?s = "(new_traffic_logger (fixed_zone offset) io (\<lambda>_ _. True) t0 a (Some db), Idle)"
  have "same_ledger u n ?s (lg, ph)"
    by (rule zone.same_ledger_run [OF zone.accounting_new assms(8,2,3,1)])
  moreover have "drift_tx u n ?s = 0" "drift_rx u n ?s = 0" "deltas_exact u n ?s"
    using initial_stats_exact [OF assms(4,5,6)] assms(9)
    by (simp_all add: drift_tx_def drift_rx_def deltas_exact_def new_logger_live [OF assms(7,8)] new_logger_frame stored_tx_def stored_rx_def)
  ultimately show ?thesis
    by (auto simp: same_ledger_def drift_tx_def drift_rx_def deltas_exact_def)
qed

theorem live_counters_exact_witness:
  "\<exists>lg batch. tl_run utc demo_events (demo_logger, Idle) = Some (lg, Flushing batch) \<and>
     us_tx (live_stats lg ''alice'' ''n1'') = stored_tx (tl_store lg) ''alice'' ''n1'' + pending_by tr_tx ''alice'' ''n1'' batch"
proof -
  obtain lg batch where run: "tl_run utc demo_events (demo_logger, Idle) = Some (lg, Flushing batch)" and p: "tl_pending lg = []"
    using demo_run by blast
  have c: "list_all clock_ok demo_events" "list_all (\<lambda>e. \<not> is_reset e) demo_events"
    by (simp_all add: demo_events_def clock_ok_def is_reset_def)
  have db: "traffic_db_ok demo_store" "logged_tx demo_store ''alice'' ''n1'' < 2 ^ 63" "logged_rx demo_store ''alice'' ''n1'' < 2 ^ 63"
    by (simp_all add: demo_store_def traffic_db_ok_def pair_rows_def logged_tx_def logged_rx_def)
  have a: "names_plain demo_auth" "pair_ok ''alice'' ''n1''" "(''alice'', ''n1'') \<in> set (policy_pairs demo_auth)"
    by code_simp+
  from live_counters_exact [OF run [unfolded demo_logger_def] c db a] run p show ?thesis by auto
qed

end
