(* ===== verification/Traffic_Quota.thy ===== *)
theory Traffic_Quota
  imports Traffic_Accounting
begin

text \<open>
  The quota of the traffic logger: one call of \<open>LogTrafficContext\<close> as the sequence of its atomic sections, interleaved in
  any way with the sections of all other goroutines, and the sequential methods as runs of these sections.
\<close>

section \<open>A call among others\<close>

text \<open>
  Where a call stands.  It carries the quota it read with the policy, the instant it accounts for, and the reservation
  it waits for.  In \<open>CallLoaded\<close> it holds \<open>flushMu\<close>.
\<close>

datatype call_pc =
    CallEntry
  | CallPolicy
  | CallStats u64
  | CallLimit u64
  | CallWait u64 go_time go_time
  | CallLimited u64
  | CallMonth u64 go_time
  | CallLock u64 go_time
  | CallLoaded u64 go_time
  | CallAccount u64 go_time
  | CallPassed u64 go_time
  | CallRefused

text \<open>
  One section of the call, with what it observes (whether the context is done, the published policy, the clocks, whether the
  query succeeds), or a section of another goroutine.
\<close>

datatype call_action =
    Other tl_event
  | CheckStart bool
  | ReadPolicy authenticator go_time
  | CreateStats
  | ReserveDownload authenticator go_time go_time go_time
  | WaitEnds wait_end
  | CheckAgain bool go_time
  | CheckMonth
  | LockMonth bool
  | PublishMonth
  | AccountNow bool

type_synonym call_state = "traffic_logger \<times> flush_phase \<times> call_pc"

text \<open>While the call holds \<open>flushMu\<close> after its query, no other goroutine publishes a month.\<close>

fun locked_out :: "tl_event \<Rightarrow> call_pc \<Rightarrow> bool" where
  "locked_out Publish (CallLoaded _ _) = True"
| "locked_out _ _ = False"

fun call_exec :: "month_fn \<Rightarrow> string \<Rightarrow> u64 \<Rightarrow> u64 \<Rightarrow> call_action \<Rightarrow> call_state \<Rightarrow> call_state option" where
  "call_exec mb rid tx rx (Other e) (lg, ph, pc) =
     (if locked_out e pc then None
      else map_option (\<lambda>(lg', ph'). (lg', ph', pc)) (tl_step mb e (lg, ph)))"
| "call_exec mb rid tx rx (CheckStart cancelled) (lg, ph, pc) =
     (case pc of CallEntry \<Rightarrow> Some (lg, ph, if tl_stopping lg \<or> cancelled then CallRefused else CallPolicy) | _ \<Rightarrow> None)"
| "call_exec mb rid tx rx (ReadPolicy a now) (lg, ph, pc) =
     (case pc of
        CallPolicy \<Rightarrow>
          (let username = fst (parse_id rid)
           in Some (lg, ph, if may_transfer a username now then CallStats (fst (user_limits a username)) else CallRefused))
      | _ \<Rightarrow> None)"
| "call_exec mb rid tx rx CreateStats (lg, ph, pc) =
     (case pc of CallStats quota \<Rightarrow> Some (get_or_create rid lg, ph, if 0 < rx then CallLimit quota else CallLimited quota) | _ \<Rightarrow> None)"
| "call_exec mb rid tx rx (ReserveDownload a now clock until) (lg, ph, pc) =
     (case pc of
        CallLimit quota \<Rightarrow>
          (let username = fst (parse_id rid); rate = snd (user_limits a username)
           in if \<not> may_transfer a username now then Some (lg, ph, CallRefused)
              else if rate = 0 then Some (lg, ph, CallLimited quota)
              else (let ((wait_until, end_at, _), l) = reserve clock rx rate (limiter_for username lg);
                        lg1 = lg\<lparr>tl_limiters := gput username l (tl_limiters lg)\<rparr>
                    in Some (lg1, ph, if until < wait_until then CallWait quota end_at wait_until else CallLimited quota)))
      | _ \<Rightarrow> None)"
| "call_exec mb rid tx rx (WaitEnds why) (lg, ph, pc) =
     (case pc of
        CallWait quota end_at wait_until \<Rightarrow>
          (let username = fst (parse_id rid);
               cancelled = lg\<lparr>tl_limiters := gput username (cancel_reservation end_at wait_until (limiter_for username lg)) (tl_limiters lg)\<rparr>
           in case why of
                TimerFired \<Rightarrow> Some (lg, ph, CallLimited quota)
              | ContextDone \<Rightarrow> Some (cancelled, ph, CallRefused)
              | Notified \<Rightarrow> Some (cancelled, ph, CallLimit quota))
      | _ \<Rightarrow> None)"
| "call_exec mb rid tx rx (CheckAgain cancelled now) (lg, ph, pc) =
     (case pc of CallLimited quota \<Rightarrow> Some (lg, ph, if tl_stopping lg \<or> cancelled then CallRefused else CallMonth quota now) | _ \<Rightarrow> None)"
| "call_exec mb rid tx rx CheckMonth (lg, ph, pc) =
     (case pc of CallMonth quota now \<Rightarrow> Some (lg, ph, if tl_month lg = month_key mb now then CallAccount quota now else CallLock quota now) | _ \<Rightarrow> None)"
| "call_exec mb rid tx rx (LockMonth io) (lg, ph, pc) =
     (case pc of
        CallLock quota now \<Rightarrow>
          if ph \<noteq> Idle then None
          else if tl_month lg = month_key mb now then Some (lg, ph, CallAccount quota now)
          else (case load_month mb io now lg of
                  Inl e \<Rightarrow> Some (lg, ph, CallRefused)
                | Inr loaded \<Rightarrow> Some (lg, Loading (month_key mb now) loaded, CallLoaded quota now))
      | _ \<Rightarrow> None)"
| "call_exec mb rid tx rx PublishMonth (lg, ph, pc) =
     (case (pc, ph) of
        (CallLoaded quota now, Loading key loaded) \<Rightarrow> Some (publish_month key loaded lg, Idle, CallAccount quota now)
      | _ \<Rightarrow> None)"
| "call_exec mb rid tx rx (AccountNow cancelled) (lg, ph, pc) =
     (case pc of
        CallAccount quota now \<Rightarrow>
          (case account mb cancelled now rid tx rx lg of
             None \<Rightarrow> Some (lg, ph, CallRefused)
           | Some (used, lg') \<Rightarrow> Some (lg', ph, if 0 < quota \<and> quota < used then CallRefused else CallPassed quota now))
      | _ \<Rightarrow> None)"

fun call_run :: "month_fn \<Rightarrow> string \<Rightarrow> u64 \<Rightarrow> u64 \<Rightarrow> call_action list \<Rightarrow> call_state \<Rightarrow> call_state option" where
  "call_run mb rid tx rx [] s = Some s"
| "call_run mb rid tx rx (act # acts) s =
     (case call_exec mb rid tx rx act s of None \<Rightarrow> None | Some s' \<Rightarrow> call_run mb rid tx rx acts s')"

text \<open>The clock is past the zero instant of \<open>time.Time\<close> whenever a transfer is accounted.\<close>

definition call_clock_ok :: "call_action \<Rightarrow> bool" where
  "call_clock_ok act = (case act of Other e \<Rightarrow> clock_ok e | CheckAgain _ now \<Rightarrow> zero_time < now | _ \<Rightarrow> True)"

section \<open>Every section of a call is a section of the logger\<close>

fun pc_instant :: "call_pc \<Rightarrow> go_time option" where
  "pc_instant (CallMonth _ now) = Some now"
| "pc_instant (CallLock _ now) = Some now"
| "pc_instant (CallLoaded _ now) = Some now"
| "pc_instant (CallAccount _ now) = Some now"
| "pc_instant (CallPassed _ now) = Some now"
| "pc_instant _ = None"

fun pc_quota :: "call_pc \<Rightarrow> u64 option" where
  "pc_quota CallEntry = None"
| "pc_quota CallPolicy = None"
| "pc_quota CallRefused = None"
| "pc_quota (CallStats quota) = Some quota"
| "pc_quota (CallLimit quota) = Some quota"
| "pc_quota (CallWait quota _ _) = Some quota"
| "pc_quota (CallLimited quota) = Some quota"
| "pc_quota (CallMonth quota _) = Some quota"
| "pc_quota (CallLock quota _) = Some quota"
| "pc_quota (CallLoaded quota _) = Some quota"
| "pc_quota (CallAccount quota _) = Some quota"
| "pc_quota (CallPassed quota _) = Some quota"

definition instant_ok :: "call_pc \<Rightarrow> bool" where
  "instant_ok pc \<longleftrightarrow> (case pc_instant pc of None \<Rightarrow> True | Some now \<Rightarrow> zero_time < now)"

lemma call_exec_sections:
  assumes "call_exec mb rid tx rx act (lg, ph, pc) = Some (lg', ph', pc')" and "call_clock_ok act" and "instant_ok pc"
  shows "\<exists>es. list_all clock_ok es \<and> tl_run mb es (lg, ph) = Some (lg', ph')"
proof -
  have idle: ?thesis if "lg' = lg" "ph' = ph" using that by (intro exI [of _ "[]"]) simp
  have one: ?thesis if "tl_step mb e (lg, ph) = Some (lg', ph')" "clock_ok e" for e using that by (intro exI [of _ "[e]"]) simp
  show ?thesis
  proof (cases act)
    case (Other e)
    with assms(1,2) show ?thesis by (intro one [of e]) (auto simp: call_clock_ok_def split: if_split_asm)
  next
    case CreateStats
    with assms(1) show ?thesis by (intro one [of "GetOrCreate rid"]) (auto simp: clock_ok_def split: call_pc.split_asm)
  next
    case (ReserveDownload a now clock until)
    with assms(1) show ?thesis
      by (intro one [of "Limiters (tl_limiters lg')"])
        (auto simp: clock_ok_def Let_def split: call_pc.split_asm if_split_asm prod.split_asm)
  next
    case (WaitEnds why)
    with assms(1) show ?thesis
      by (intro one [of "Limiters (tl_limiters lg')"]) (auto simp: clock_ok_def Let_def split: call_pc.split_asm wait_end.split_asm)
  next
    case (LockMonth io)
    with assms(1) obtain quota now where pc: "pc = CallLock quota now" by (auto split: call_pc.split_asm)
    show ?thesis
    proof (cases "tl_month lg = month_key mb now")
      case False
      with LockMonth pc assms(1) show ?thesis
        by (intro one [of "Load io now"]) (auto simp: clock_ok_def split: if_split_asm sum.split_asm)
    qed (use LockMonth pc assms(1) idle in \<open>auto split: if_split_asm\<close>)
  next
    case PublishMonth
    with assms(1) show ?thesis
      by (intro one [of Publish]) (auto simp: clock_ok_def split: call_pc.split_asm flush_phase.split_asm)
  next
    case (AccountNow cancelled)
    with assms(1) obtain quota now where pc: "pc = CallAccount quota now" by (auto split: call_pc.split_asm)
    show ?thesis
    proof (cases "account mb cancelled now rid tx rx lg")
      case (Some p)
      with AccountNow pc assms(1,3) show ?thesis
        by (intro one [of "Account cancelled now rid tx rx"]) (auto simp: clock_ok_def instant_ok_def split: prod.split_asm)
    qed (use AccountNow pc assms(1) idle in auto)
  qed (use assms(1) idle in \<open>auto simp: Let_def split: call_pc.split_asm\<close>)
qed

lemma call_exec_instant:
  assumes "call_exec mb rid tx rx act (lg, ph, pc) = Some (lg', ph', pc')" and "call_clock_ok act" and "instant_ok pc"
  shows "instant_ok pc'"
  using assms
  by (cases act) (auto simp: instant_ok_def call_clock_ok_def Let_def
      split: call_pc.split_asm if_split_asm wait_end.split_asm sum.split_asm option.split_asm prod.split_asm flush_phase.split_asm)

lemma call_exec_quota:
  assumes "call_exec mb rid tx rx act (lg, ph, pc) = Some (lg', ph', pc')" and "pc_quota pc' = Some quota"
  shows "pc_quota pc = Some quota \<or>
    (\<exists>a now. act = ReadPolicy a now \<and> may_transfer a (fst (parse_id rid)) now \<and> quota = fst (user_limits a (fst (parse_id rid))))"
  using assms
  by (cases act) (auto simp: Let_def
      split: call_pc.split_asm if_split_asm wait_end.split_asm sum.split_asm option.split_asm prod.split_asm flush_phase.split_asm)

section \<open>The quota\<close>

definition policy_read :: "string \<Rightarrow> call_action list \<Rightarrow> u64 \<Rightarrow> bool" where
  "policy_read u acts quota \<longleftrightarrow> (\<exists>a now. ReadPolicy a now \<in> set acts \<and> may_transfer a u now \<and> quota = fst (user_limits a u))"

context month_calendar
begin

lemma call_run_invariant:
  assumes "call_run mb rid tx rx acts (lg, ph, pc) = Some (lg', ph', pc')" and "list_all call_clock_ok acts"
    and "accounting_ok mb (lg, ph)" and "instant_ok pc"
  shows "accounting_ok mb (lg', ph') \<and> instant_ok pc' \<and>
    (\<forall>quota. pc_quota pc' = Some quota \<longrightarrow> pc_quota pc = Some quota \<or> policy_read (fst (parse_id rid)) acts quota)"
  using assms
proof (induction acts arbitrary: lg ph pc)
  case (Cons act acts)
  then obtain lg1 ph1 pc1 where ex: "call_exec mb rid tx rx act (lg, ph, pc) = Some (lg1, ph1, pc1)"
    and run: "call_run mb rid tx rx acts (lg1, ph1, pc1) = Some (lg', ph', pc')"
    by (auto split: option.split_asm)
  have clock: "call_clock_ok act" "list_all call_clock_ok acts" using Cons.prems(2) by simp_all
  from call_exec_sections [OF ex clock(1) Cons.prems(4)] accounting_run Cons.prems(3) have ok: "accounting_ok mb (lg1, ph1)" by blast
  from Cons.IH [OF run clock(2) ok call_exec_instant [OF ex clock(1) Cons.prems(4)]] call_exec_quota [OF ex]
  show ?case by (fastforce simp: policy_read_def)
qed simp

lemma account_within_quota:
  assumes "accounting_ok mb (lg, ph)" and "zero_time < now" and "0 < quota"
    and "call_exec mb rid tx rx (AccountNow cancelled) (lg, ph, CallAccount quota now) = Some (lg', ph', CallPassed quota' now')"
    and "u = fst (parse_id rid)" and "key = month_key mb now"
  shows "stored_usage mb key u (tl_store lg') + pending_usage key u (tl_pending lg') + pending_usage key u (in_flight ph') \<le> quota"
proof -
  from assms(3,4) obtain used where acc: "account mb cancelled now rid tx rx lg = Some (used, lg')" and le: "used \<le> quota" and ph: "ph' = ph"
    by (auto split: option.split_asm if_split_asm)
  have "accounting_ok mb (lg', ph)" using accounting_account [OF assms(1) acc assms(2)] .
  moreover have "tl_month lg' = key" "used = gget 0 (tl_monthly lg') u" using acc assms(5,6) by (auto elim!: account_Some)
  moreover have "key \<noteq> []" using key_nonempty assms(6) by (simp add: month_key_def)
  ultimately show ?thesis using le ph by (simp add: accounting_ok_def usage_exact_def)
qed

end

text \<open>C3: The quota is enforced.  A new logger serves any interleaving of the sections of other goroutines (transfers, flushes that
  succeed or fail, month changes, policy changes, shutdown) before and between all the sections of one call of
  \<open>LogTrafficContext\<close>, also while a flush is in flight.  If the call then accounts its transfer and lets it pass with a quota,
  the quota is that of a policy the call has read, in which the user was active, and at that instant the user's usage of that
  calendar month, persisted, pending and being flushed together and with this transfer included, is within the quota
  (usage modulo \<open>2 ^ 64\<close>, months of a zone of constant offset).\<close>

theorem quota_enforced:
  assumes "call_run (fixed_zone offset) rid tx rx acts (new_traffic_logger (fixed_zone offset) io ios t0 a0 store, Idle, CallEntry) =
      Some (lg, ph, CallAccount quota now)"
    and "list_all call_clock_ok acts" and "0 < quota"
    and "call_exec (fixed_zone offset) rid tx rx (AccountNow cancelled) (lg, ph, CallAccount quota now) = Some (lg', ph', CallPassed quota' now')"
    and "u = fst (parse_id rid)" and "key = month_key (fixed_zone offset) now"
  shows "stored_usage (fixed_zone offset) key u (tl_store lg') + pending_usage key u (tl_pending lg') + pending_usage key u (in_flight ph') \<le> quota \<and>
    (\<exists>a t. ReadPolicy a t \<in> set acts \<and> may_transfer a u t \<and> quota = fst (user_limits a u))"
proof -
  from zone.call_run_invariant [OF assms(1,2) zone.accounting_new] have inv: "accounting_ok (fixed_zone offset) (lg, ph)"
    "instant_ok (CallAccount quota now)" "policy_read u acts quota"
    unfolding assms(5) by (simp_all add: instant_ok_def)
  then show ?thesis
    using zone.account_within_quota [OF inv(1) _ assms(3,4,5,6)] by (simp add: instant_ok_def policy_read_def)
qed

definition demo_env :: log_env where
  "demo_env = \<lparr>le_ctx_start = False, le_now = zero_time + 4 * second, le_rounds = [], le_ctx_limited = False,
     le_now_account = zero_time + 4 * second, le_io = True, le_ctx_account = False\<rparr>"

text \<open>
  A transfer of 15 bytes by another stream is being flushed while the call passes its sections; a transfer of 5 bytes fits the
  quota of 20, one of 6 does not.
\<close>

definition demo_call :: "call_action list" where
  "demo_call = [CheckStart False, Other (Account False (zero_time + 2 * second) ''alice:n1'' 7 8), ReadPolicy demo_auth (zero_time + 3 * second),
     CreateStats, CheckAgain False (zero_time + 4 * second), Other Detach, CheckMonth]"

theorem quota_enforced_witness:
  "\<exists>lg batch lg'. call_run utc ''alice:n1'' 5 0 demo_call (demo_logger, Idle, CallEntry) = Some (lg, Flushing batch, CallAccount 20 (zero_time + 4 * second)) \<and>
     call_exec utc ''alice:n1'' 5 0 (AccountNow False) (lg, Flushing batch, CallAccount 20 (zero_time + 4 * second)) =
       Some (lg', Flushing batch, CallPassed 20 (zero_time + 4 * second)) \<and>
     stored_usage utc (month_key utc (zero_time + 4 * second)) ''alice'' (tl_store lg') +
       pending_usage (month_key utc (zero_time + 4 * second)) ''alice'' (tl_pending lg') +
       pending_usage (month_key utc (zero_time + 4 * second)) ''alice'' batch \<le> 20 \<and>
     (\<exists>lg6. call_exec utc ''alice:n1'' 6 0 (AccountNow False) (lg, Flushing batch, CallAccount 20 (zero_time + 4 * second)) = Some (lg6, Flushing batch, CallRefused))"
proof -
  let ?now = "zero_time + 4 * second"
  have "case call_run utc ''alice:n1'' 5 0 demo_call (demo_logger, Idle, CallEntry) of
      Some (lg, Flushing batch, CallAccount quota now) \<Rightarrow> quota = 20 \<and> now = ?now \<and>
        (case account utc False now ''alice:n1'' 5 0 lg of Some (used, _) \<Rightarrow> used = 20 | None \<Rightarrow> False) \<and>
        (case account utc False now ''alice:n1'' 6 0 lg of Some (used, _) \<Rightarrow> used = 21 | None \<Rightarrow> False)
    | _ \<Rightarrow> False"
    by code_simp
  then obtain lg batch lg5 lg6 where run: "call_run utc ''alice:n1'' 5 0 demo_call (demo_logger, Idle, CallEntry) = Some (lg, Flushing batch, CallAccount 20 ?now)"
    and five: "account utc False ?now ''alice:n1'' 5 0 lg = Some (20, lg5)" and six: "account utc False ?now ''alice:n1'' 6 0 lg = Some (21, lg6)"
    by (auto split: option.split_asm prod.split_asm flush_phase.split_asm call_pc.split_asm)
  have pass: "call_exec utc ''alice:n1'' 5 0 (AccountNow False) (lg, Flushing batch, CallAccount 20 ?now) = Some (lg5, Flushing batch, CallPassed 20 ?now)"
    using five by simp
  have refuse: "call_exec utc ''alice:n1'' 6 0 (AccountNow False) (lg, Flushing batch, CallAccount 20 ?now) = Some (lg6, Flushing batch, CallRefused)"
    using six by simp
  have clock: "list_all call_clock_ok demo_call" by (simp add: demo_call_def call_clock_ok_def clock_ok_def)
  have p: "''alice'' = fst (parse_id ''alice:n1'')" by code_simp
  from quota_enforced [OF run [unfolded demo_logger_def] clock _ pass p refl] run pass refuse show ?thesis by auto
qed

section \<open>The sequential methods are runs of the sections\<close>

lemma flush_context_run:
  assumes "tl_store lg = Some db" "tl_pending lg \<noteq> []"
  shows "tl_run mb [Detach, Settle io now] (lg, Idle) = Some (snd (flush_context io now lg), Idle)"
proof -
  obtain batch lg1 where d: "detach lg = (batch, lg1)" by fastforce
  with assms detach_frame(1,2) [of lg] have "batch \<noteq> []" "tl_store lg1 = Some db" by simp_all
  with assms(1) d show ?thesis by (simp add: flush_context_def)
qed

lemma ensure_run:
  assumes "tl_month lg \<noteq> month_key mb now" "load_month mb io now lg = Inr loaded"
  shows "tl_run mb [Load io now, Publish] (lg, Idle) = Some (snd (ensure_monthly_usage mb io now lg), Idle)"
  using assms by (simp add: ensure_monthly_usage_def)

text \<open>
  The call of \<open>LogTrafficContext\<close> that the kernel makes, \<open>log_traffic\<close>, is one of the interleavings above: the one in which the
  other goroutines run only while the call waits in the limiter.
\<close>

definition call_reaches :: "month_fn \<Rightarrow> string \<Rightarrow> u64 \<Rightarrow> u64 \<Rightarrow> call_state \<Rightarrow> call_state \<Rightarrow> bool" where
  "call_reaches mb rid tx rx s s' \<longleftrightarrow> (\<exists>acts. call_run mb rid tx rx acts s = Some s')"

lemma call_run_append:
  "call_run mb rid tx rx (acts @ acts') s = (case call_run mb rid tx rx acts s of None \<Rightarrow> None | Some s' \<Rightarrow> call_run mb rid tx rx acts' s')"
  by (induction acts arbitrary: s) (auto split: option.split)

lemma call_reaches_trans [trans]: "call_reaches mb rid tx rx s s' \<Longrightarrow> call_reaches mb rid tx rx s' s'' \<Longrightarrow> call_reaches mb rid tx rx s s''"
  unfolding call_reaches_def by (metis call_run_append option.simps(5))

lemma call_reaches_refl: "call_reaches mb rid tx rx s s"
  unfolding call_reaches_def by (rule exI [of _ "[]"]) simp

lemma call_reaches_step: "call_exec mb rid tx rx act s = Some s' \<Longrightarrow> call_reaches mb rid tx rx s s'"
  unfolding call_reaches_def by (rule exI [of _ "[act]"]) simp

lemma call_reaches_others:
  assumes "tl_run mb es (lg, ph) = Some (lg', ph')" and "\<And>e. \<not> locked_out e pc"
  shows "call_reaches mb rid tx rx (lg, ph, pc) (lg', ph', pc)"
proof -
  have "call_run mb rid tx rx (map Other es) (lg, ph, pc) = Some (lg', ph', pc)"
    using assms(1) by (induction es arbitrary: lg ph) (auto simp: assms(2) split: option.split_asm)
  then show ?thesis unfolding call_reaches_def by blast
qed

definition is_run :: "month_fn \<Rightarrow> (traffic_logger \<Rightarrow> traffic_logger) \<Rightarrow> bool" where
  "is_run mb f \<longleftrightarrow> (\<forall>lg. \<exists>es. tl_run mb es (lg, Idle) = Some (f lg, Idle))"

lemma limit_download_run:
  assumes "limit_download rounds (fst (parse_id rid)) rx lg = (Some passed, lg')" and "\<forall>ro \<in> set rounds. is_run mb (ro_others ro)"
  shows "call_reaches mb rid tx rx (lg, Idle, CallLimit quota) (lg', Idle, if passed then CallLimited quota else CallRefused)"
  using assms
proof (induction rounds arbitrary: lg)
  case (Cons ro rounds)
  let ?u = "fst (parse_id rid)"
  let ?act = "ReserveDownload (ro_auth ro) (ro_now ro) (ro_clock ro) (ro_until ro)"
  let ?rate = "snd (user_limits (ro_auth ro) ?u)"
  obtain wait_until end_at nt l where res: "reserve (ro_clock ro) rx ?rate (limiter_for ?u lg) = ((wait_until, end_at, nt), l)"
    by (metis prod.exhaust)
  let ?lg1 = "lg\<lparr>tl_limiters := gput ?u l (tl_limiters lg)\<rparr>"
  let ?lg2 = "ro_others ro ?lg1"
  have now: ?case if "call_exec mb rid tx rx ?act (lg, Idle, CallLimit quota) = Some (lg', Idle, if passed then CallLimited quota else CallRefused)"
    using that by (rule call_reaches_step)
  consider "\<not> may_transfer (ro_auth ro) ?u (ro_now ro)" | "may_transfer (ro_auth ro) ?u (ro_now ro)" "?rate = 0"
    | "may_transfer (ro_auth ro) ?u (ro_now ro)" "?rate \<noteq> 0" "\<not> ro_until ro < wait_until"
    | (waits) "may_transfer (ro_auth ro) ?u (ro_now ro)" "?rate \<noteq> 0" "ro_until ro < wait_until" by blast
  then show ?case
  proof cases
    case 1
    with Cons.prems(1) show ?thesis by (intro now) simp
  next
    case 2
    with Cons.prems(1) show ?thesis by (intro now) simp
  next
    case 3
    with Cons.prems(1) res show ?thesis by (intro now) simp
  next
    case waits
    let ?wait = "(?lg1, Idle, CallWait quota end_at wait_until)" and ?woken = "(?lg2, Idle, CallWait quota end_at wait_until)"
    have "call_reaches mb rid tx rx (lg, Idle, CallLimit quota) ?wait"
      using waits res by (intro call_reaches_step [of _ _ _ _ ?act]) simp
    also have "is_run mb (ro_others ro)" using Cons.prems(2) by simp
    then obtain es where "tl_run mb es (?lg1, Idle) = Some (?lg2, Idle)" unfolding is_run_def by blast
    then have "call_reaches mb rid tx rx ?wait ?woken" by (rule call_reaches_others) simp
    finally have woken: "call_reaches mb rid tx rx (lg, Idle, CallLimit quota) ?woken" .
    have ends: "call_reaches mb rid tx rx ?woken s" if "call_exec mb rid tx rx (WaitEnds (ro_end ro)) ?woken = Some s" for s
      using that by (rule call_reaches_step)
    let ?lg3 = "?lg2\<lparr>tl_limiters := gput ?u (cancel_reservation end_at wait_until (limiter_for ?u ?lg2)) (tl_limiters ?lg2)\<rparr>"
    have rest: "(case ro_end ro of TimerFired \<Rightarrow> (Some True, ?lg2) | ContextDone \<Rightarrow> (Some False, ?lg3)
        | Notified \<Rightarrow> limit_download rounds ?u rx ?lg3) = (Some passed, lg')"
      using Cons.prems(1) waits res by (simp add: Let_def)
    have "call_reaches mb rid tx rx ?woken (lg', Idle, if passed then CallLimited quota else CallRefused)"
    proof (cases "ro_end ro")
      case Notified
      then have "call_reaches mb rid tx rx ?woken (?lg3, Idle, CallLimit quota)" by (intro ends) (simp add: Let_def)
      moreover have "call_reaches mb rid tx rx (?lg3, Idle, CallLimit quota) (lg', Idle, if passed then CallLimited quota else CallRefused)"
        using rest Notified Cons.prems(2) by (intro Cons.IH) simp_all
      ultimately show ?thesis by (rule call_reaches_trans)
    qed (use rest in \<open>auto simp: Let_def intro!: ends\<close>)
    with woken show ?thesis by (rule call_reaches_trans)
  qed
qed simp

lemma ensure_reaches:
  assumes "ensure_monthly_usage mb io now lg = (err, lg')"
  shows "call_reaches mb rid tx rx (lg, Idle, CallMonth quota now) (lg', Idle, if err = None then CallAccount quota now else CallRefused)"
proof (cases "tl_month lg = month_key mb now")
  case True
  with assms show ?thesis by (intro call_reaches_step [of _ _ _ _ CheckMonth]) (auto simp: ensure_monthly_usage_def)
next
  case False
  then have "call_reaches mb rid tx rx (lg, Idle, CallMonth quota now) (lg, Idle, CallLock quota now)"
    by (intro call_reaches_step [of _ _ _ _ CheckMonth]) simp
  also have "call_reaches mb rid tx rx (lg, Idle, CallLock quota now) (lg', Idle, if err = None then CallAccount quota now else CallRefused)"
  proof (cases "load_month mb io now lg")
    case (Inl e)
    with False assms show ?thesis by (intro call_reaches_step [of _ _ _ _ "LockMonth io"]) (auto simp: ensure_monthly_usage_def)
  next
    case (Inr loaded)
    with False have "call_reaches mb rid tx rx (lg, Idle, CallLock quota now) (lg, Loading (month_key mb now) loaded, CallLoaded quota now)"
      by (intro call_reaches_step [of _ _ _ _ "LockMonth io"]) simp
    also have "call_reaches mb rid tx rx (lg, Loading (month_key mb now) loaded, CallLoaded quota now) (lg', Idle, CallAccount quota now)"
      using Inr False assms by (intro call_reaches_step [of _ _ _ _ PublishMonth]) (simp add: ensure_monthly_usage_def)
    finally show ?thesis using Inr False assms by (auto simp: ensure_monthly_usage_def)
  qed
  finally show ?thesis .
qed

lemma log_traffic_run:
  assumes log: "log_traffic mb env a rid tx rx lg = (Some passed, lg')" and rounds: "\<forall>ro \<in> set (le_rounds env). is_run mb (ro_others ro)"
  shows "call_reaches mb rid tx rx (lg, Idle, CallEntry)
    (lg', Idle, if passed then CallPassed (fst (user_limits a (fst (parse_id rid)))) (le_now_account env) else CallRefused)"
proof -
  let ?u = "fst (parse_id rid)" and ?now = "le_now_account env"
  let ?q = "fst (user_limits a ?u)"
  let ?R = "call_reaches mb rid tx rx"
  obtain limited lg1 where l: "(if 0 < rx then limit_download (le_rounds env) ?u rx (get_or_create rid lg)
      else (Some True, get_or_create rid lg)) = (limited, lg1)" by fastforce
  have start: "?R (lg, Idle, CallEntry) (lg, Idle, if tl_stopping lg \<or> le_ctx_start env then CallRefused else CallPolicy)"
    by (rule call_reaches_step [of _ _ _ _ "CheckStart (le_ctx_start env)"]) simp
  have policy: "?R (lg, Idle, CallPolicy) (lg, Idle, if may_transfer a ?u (le_now env) then CallStats ?q else CallRefused)"
    by (rule call_reaches_step [of _ _ _ _ "ReadPolicy a (le_now env)"]) (simp add: Let_def)
  have create: "?R (lg, Idle, CallStats ?q) (get_or_create rid lg, Idle, if 0 < rx then CallLimit ?q else CallLimited ?q)"
    by (rule call_reaches_step [of _ _ _ _ CreateStats]) simp
  have limit: "?R (get_or_create rid lg, Idle, if 0 < rx then CallLimit ?q else CallLimited ?q)
      (lg1, Idle, if limited = Some True then CallLimited ?q else CallRefused)" if "limited \<noteq> None"
    using that l rounds limit_download_run [of "le_rounds env" rid rx "get_or_create rid lg" _ lg1 mb tx ?q]
    by (auto simp: call_reaches_refl split: if_split_asm)
  have again: "?R (lg1, Idle, CallLimited ?q) (lg1, Idle, if tl_stopping lg1 \<or> le_ctx_limited env then CallRefused else CallMonth ?q ?now)"
    by (rule call_reaches_step [of _ _ _ _ "CheckAgain (le_ctx_limited env) ?now"]) simp
  obtain err lg2 where en: "ensure_monthly_usage mb (le_io env) ?now lg1 = (err, lg2)" by fastforce
  have acc: "?R (lg2, Idle, CallAccount ?q ?now) s" if "call_exec mb rid tx rx (AccountNow (le_ctx_account env)) (lg2, Idle, CallAccount ?q ?now) = Some s" for s
    using that by (rule call_reaches_step)
  note parts = start policy create limit again ensure_reaches [OF en, of rid tx rx ?q]
  show ?thesis
  proof (cases "tl_stopping lg \<or> le_ctx_start env \<or> \<not> may_transfer a ?u (le_now env)")
    case True
    with log parts(1,2) show ?thesis by (auto simp: log_traffic_def case_prod_beta Let_def split: if_split_asm intro: call_reaches_trans)
  next
    case False
    then have "?R (lg, Idle, CallEntry) (lg, Idle, CallPolicy)" "?R (lg, Idle, CallPolicy) (lg, Idle, CallStats ?q)"
      using start policy by simp_all
    from call_reaches_trans [OF call_reaches_trans [OF this] create] limit
    have at1: "limited \<noteq> None \<Longrightarrow> ?R (lg, Idle, CallEntry) (lg1, Idle, if limited = Some True then CallLimited ?q else CallRefused)"
      by (rule call_reaches_trans)
    have log': "(case limited of None \<Rightarrow> (None, lg1) | Some False \<Rightarrow> (Some False, lg1) | Some True \<Rightarrow>
        if tl_stopping lg1 \<or> le_ctx_limited env then (Some False, lg1)
        else (case ensure_monthly_usage mb (le_io env) ?now lg1 of (Some e, lg2) \<Rightarrow> (Some False, lg2) | (None, lg2) \<Rightarrow>
          (case account mb (le_ctx_account env) ?now rid tx rx lg2 of None \<Rightarrow> (Some False, lg2)
           | Some (used, lg3) \<Rightarrow> (Some (\<not> (0 < ?q \<and> ?q < used)), lg3)))) = (Some passed, lg')"
      using log False l by (simp add: log_traffic_def case_prod_beta Let_def)
    show ?thesis
    proof (cases "limited = Some True \<and> \<not> (tl_stopping lg1 \<or> le_ctx_limited env) \<and> err = None")
      case True
      then have "?R (lg, Idle, CallEntry) (lg2, Idle, CallAccount ?q ?now)"
        using at1 parts(5,6) by (auto intro: call_reaches_trans)
      then show ?thesis using log' True acc en
        by (auto intro: call_reaches_trans split: option.split_asm prod.split_asm)
    next
      case halt: False
      with log' at1 parts(5,6) en show ?thesis
        by (cases "limited = Some True")
          (auto intro: call_reaches_trans split: option.split_asm bool.split_asm if_split_asm)
    qed
  qed
qed

text \<open>C16: A flush either persists everything that was pending or keeps it for the next one.  After a
  successful flush nothing is pending; after a failed one every counter, the pending payload of
  every pair and the database are what they were, and the error is reported.\<close>

theorem flush_persists_or_keeps:
  assumes "tl_run (fixed_zone offset) es (new_traffic_logger (fixed_zone offset) io ios t0 a store, Idle) = Some (lg, Idle)"
    and "list_all clock_ok es" and "tl_store lg = Some db" and "flush_context fio now lg = (res, lg')" and "pair_ok u n"
  shows "case res of
      None \<Rightarrow> tl_pending lg' = [] \<and>
        stored_tx (tl_store lg') u n = stored_tx (Some db) u n + pending_by tr_tx u n (tl_pending lg) \<and>
        stored_rx (tl_store lg') u n = stored_rx (Some db) u n + pending_by tr_rx u n (tl_pending lg)
    | Some e \<Rightarrow> tl_store lg' = Some db \<and> live_stats lg' u n = live_stats lg u n \<and> tl_last_flush_err lg' = Some e \<and>
        pending_by tr_tx u n (tl_pending lg') = pending_by tr_tx u n (tl_pending lg) \<and>
        pending_by tr_rx u n (tl_pending lg') = pending_by tr_rx u n (tl_pending lg)"
proof -
  have p: "pending_ok (fixed_zone offset) (tl_pending lg)"
    using zone.accounting_reachable [OF assms(1,2)] by (simp add: accounting_ok_def)
  obtain batch lg1 where d: "detach lg = (batch, lg1)" by fastforce
  have b: "batch = tl_pending lg" and l: "lg1 = snd (detach lg)" using d detach_frame(1) [of lg] by simp_all
  show ?thesis
  proof (cases "batch = []")
    case True
    with assms(3,4) d have "res = None" "lg' = lg1" by (simp_all add: flush_context_def)
    moreover have "tl_pending lg = []" using True b by simp
    moreover have "tl_store lg1 = Some db" "tl_pending lg1 = []" using assms(3) by (simp_all add: l)
    ultimately show ?thesis by simp
  next
    case False
    with assms(3,4) d have s: "settle fio now db batch lg1 = (res, lg')" by (simp add: flush_context_def)
    show ?thesis
      using s
    proof (cases rule: settle_cases)
      case (failed err)
      have "pending_by f u n (tl_pending (restore batch lg1)) = pending_by f u n (tl_pending lg)" if "additive f" for f
        using pending_by_restored [OF that pending_ok_Nil p, of u n] by (simp add: restore_pending l b)
      note pend = this
      have "live_stats (restore batch lg1) u n = live_stats lg u n"
        unfolding b live_restore [OF assms(5) p] unfolding l live_detach [OF assms(5) p] by simp
      then have "live_stats lg' u n = live_stats lg u n" by (simp add: failed(2) live_stats_def)
      with pend [of tr_tx] pend [of tr_rx] show ?thesis by (simp add: failed)
    next
      case (stored db')
      have "tl_pending lg' = []" by (simp add: stored(3) l)
      moreover have "tl_store lg' = Some db'" by (simp add: stored(3))
      ultimately show ?thesis using stored_flushed [OF stored(2), of u n] stored(1) by (simp add: b)
    qed
  qed
qed

definition demo_transfer :: "tl_event list" where
  "demo_transfer = [Account False (zero_time + 2 * second) ''alice:n1'' 3 4]"

theorem flush_persists_or_keeps_witness:
  "\<exists>lg lg'. tl_run utc demo_transfer (demo_logger, Idle) = Some (lg, Idle) \<and>
     flush_context (\<lambda>n. n < 4) 0 lg = (Some (UpsertSummary ''alice'' ''n1''), lg') \<and>
     pending_by tr_tx ''alice'' ''n1'' (tl_pending lg') = 3"
proof -
  have "(case tl_run utc demo_transfer (demo_logger, Idle) of
      Some (lg, Idle) \<Rightarrow> tl_store lg = Some demo_store \<and> pending_by tr_tx ''alice'' ''n1'' (tl_pending lg) = 3 \<and>
        fst (flush_context (\<lambda>n. n < 4) 0 lg) = Some (UpsertSummary ''alice'' ''n1'')
    | _ \<Rightarrow> False)"
    by code_simp
  then obtain lg where run: "tl_run utc demo_transfer (demo_logger, Idle) = Some (lg, Idle)"
    and st: "tl_store lg = Some demo_store" "pending_by tr_tx ''alice'' ''n1'' (tl_pending lg) = 3"
    and fl: "fst (flush_context (\<lambda>n. n < 4) 0 lg) = Some (UpsertSummary ''alice'' ''n1'')"
    by (cases "tl_run utc demo_transfer (demo_logger, Idle)") (simp, auto split: prod.split_asm flush_phase.split_asm)
  from fl obtain lg' where f: "flush_context (\<lambda>n. n < 4) 0 lg = (Some (UpsertSummary ''alice'' ''n1''), lg')"
    by (metis prod.collapse)
  have "list_all clock_ok demo_transfer" by (simp add: demo_transfer_def clock_ok_def)
  from flush_persists_or_keeps [OF run [unfolded demo_logger_def] this st(1) f, of "''alice''" "''n1''"] run f st show ?thesis
    by (auto simp: pair_ok_def)
qed

end
