(* ===== verification/Outbound.thy ===== *)
theory Outbound
  imports Config_Types Go_Net Limiter "HOL-Library.Multiset"
begin

text \<open>
  The outbound factory of \<open>internal/outbound\<close>: one entry per configured node with a worker that
  connects, backs off and reconnects, the shared limit on concurrent connection attempts, the
  resolution of a node's address, and the routes a name can lead to.

  The worker, the callers that report a dead connection and the shutdown run concurrently.  Each
  locked section of an entry is a definition; the inductive relation \<open>factory_step\<close> interleaves
  the sections of all entries.  A connected client is a number; the log of \<open>Close\<close> calls is part of
  the state, so that leaks and double closes are visible.  The QUIC client, the resolver and the
  clock are arguments.
\<close>

section \<open>Errors of a client\<close>

text \<open>What the code distinguishes of an error: the core library's closed, authentication and
  configuration errors, \<open>io.EOF\<close>, \<open>net.ErrClosed\<close>, and the message.\<close>

datatype out_error = ClosedError string | AuthError string | ConfigError string | EofError | NetClosed | OtherError string

fun error_text :: "out_error \<Rightarrow> string" where
  "error_text (ClosedError s) = s"
| "error_text (AuthError s) = s"
| "error_text (ConfigError s) = s"
| "error_text EofError = ''EOF''"
| "error_text NetClosed = ''use of closed network connection''"
| "error_text (OtherError s) = s"

definition is_closed_connection :: "out_error option \<Rightarrow> bool" where
  "is_closed_connection err = (case err of Some (ClosedError _) \<Rightarrow> True | _ \<Rightarrow> False)"

section \<open>Resolution and connection\<close>

record udp_addr =
  ua_ip :: bytes
  ua_port :: nat
  ua_zone :: string

text \<open>A \<open>netip.Addr\<close>: invalid, or 4 or 16 bytes with a zone.\<close>

record netip_addr =
  np_valid :: bool
  np_bytes :: bytes
  np_zone :: string

definition netip_string :: "netip_addr \<Rightarrow> string" where
  "netip_string a =
     (if length (np_bytes a) = 4 then dotted_quad (np_bytes a)
      else (if take 12 (np_bytes a) = v4_prefix then ''::ffff:'' @ dotted_quad (drop 12 (np_bytes a))
            else print_ipv6 (np_bytes a)) @
        (if np_zone a = [] then [] else ''%'' @ np_zone a))"

definition parse_literal_ip :: "string \<Rightarrow> (bytes \<times> string) option" where
  "parse_literal_ip host =
     (case parse_ip host of
        Some ip \<Rightarrow> Some (ip, [])
      | None \<Rightarrow>
          (case last_index_byte host CHR ''%'' of
             None \<Rightarrow> None
           | Some index \<Rightarrow>
               if 0 < index then
                 (case parse_ip (take index host) of
                    Some ip \<Rightarrow> Some (ip, drop (index + 1) host)
                  | None \<Rightarrow> None)
               else None))"

datatype connect_error =
    MissingAddrOrAuth
  | BadAddress addr_error
  | InvalidPort string
  | LookupFailed string
  | NoRecords
  | ConnectFailed "(udp_addr \<times> out_error) list"

text \<open>The addresses to try: the valid answers of the resolver, one per textual form, in its order.\<close>

fun collect_addresses :: "nat \<Rightarrow> string list \<Rightarrow> netip_addr list \<Rightarrow> udp_addr list" where
  "collect_addresses port seen [] = []"
| "collect_addresses port seen (ip # ips) =
     (if \<not> np_valid ip then collect_addresses port seen ips
      else if netip_string ip \<in> set seen then collect_addresses port seen ips
      else \<lparr>ua_ip = np_bytes ip, ua_port = port, ua_zone = []\<rparr> # collect_addresses port (netip_string ip # seen) ips)"

definition resolve ::
  "(string \<Rightarrow> (string, netip_addr list) result) \<Rightarrow> hysteria2_outbound_config \<Rightarrow> (connect_error, udp_addr list \<times> string) result"
where
  "resolve lookup_ip cfg =
     (case split_host_port (h2_addr cfg) of
        Inl e \<Rightarrow> Inl (BadAddress e)
      | Inr (host, raw_port) \<Rightarrow>
          (case atoi raw_port of
             None \<Rightarrow> Inl (InvalidPort raw_port)
           | Some port \<Rightarrow>
               if port < 1 \<or> 65535 < port then Inl (InvalidPort raw_port)
               else
                 (case parse_literal_ip host of
                    Some (ip, zone) \<Rightarrow>
                      Inr ([\<lparr>ua_ip = ip, ua_port = nat port, ua_zone = zone\<rparr>], if h2_sni cfg = [] then ip_string ip else h2_sni cfg)
                  | None \<Rightarrow>
                      (case lookup_ip host of
                         Inl e \<Rightarrow> Inl (LookupFailed e)
                       | Inr ips \<Rightarrow>
                           (let addresses = collect_addresses (nat port) [] ips
                            in if addresses = [] then Inl NoRecords
                               else Inr (addresses, if h2_sni cfg = [] then host else h2_sni cfg))))))"

text \<open>Dialling in order; an authentication or configuration error ends the attempts.\<close>

definition fatal_dial :: "out_error \<Rightarrow> bool" where
  "fatal_dial e = (case e of AuthError _ \<Rightarrow> True | ConfigError _ \<Rightarrow> True | _ \<Rightarrow> False)"

fun dial_each ::
  "(udp_addr \<Rightarrow> (out_error, 'c) result) \<Rightarrow> udp_addr list \<Rightarrow> (udp_addr \<times> out_error) list \<Rightarrow> (connect_error, 'c \<times> udp_addr) result"
where
  "dial_each dial [] errs = Inl (ConnectFailed errs)"
| "dial_each dial (addr # addrs) errs =
     (case dial addr of
        Inr c \<Rightarrow> Inr (c, addr)
      | Inl e \<Rightarrow>
          if fatal_dial e then Inl (ConnectFailed (errs @ [(addr, e)]))
          else dial_each dial addrs (errs @ [(addr, e)]))"

definition connect ::
  "(string \<Rightarrow> (string, netip_addr list) result) \<Rightarrow> (string \<Rightarrow> udp_addr \<Rightarrow> (out_error, 'c) result) \<Rightarrow>
    hysteria2_outbound_config option \<Rightarrow> (connect_error, 'c \<times> udp_addr) result"
where
  "connect lookup_ip dial cfg =
     (case cfg of
        None \<Rightarrow> Inl MissingAddrOrAuth
      | Some c \<Rightarrow>
          if h2_addr c = [] \<or> h2_auth c = [] then Inl MissingAddrOrAuth
          else (case resolve lookup_ip c of
                  Inl e \<Rightarrow> Inl e
                | Inr (addresses, sni) \<Rightarrow> dial_each (dial sni) addresses []))"

section \<open>A node entry\<close>

datatype node_state = NodeConnecting | NodeReady | NodeUnavailable | NodeBackoff

fun node_state_text :: "node_state \<Rightarrow> string" where
  "node_state_text NodeConnecting = ''Connecting''"
| "node_state_text NodeReady = ''Ready''"
| "node_state_text NodeUnavailable = ''Unavailable''"
| "node_state_text NodeBackoff = ''Backoff''"

record node_status =
  ns_name :: string
  ns_state :: node_state
  ns_resolved :: string
  ns_last_error :: string
  ns_last_success :: go_time
  ns_next_retry :: go_time

record node_entry =
  ne_name :: string
  ne_cfg :: "hysteria2_outbound_config option"
  ne_client :: "nat option"
  ne_status :: node_status
  ne_reconnect :: bool
  ne_first :: bool

definition new_node_entry :: "string \<Rightarrow> hysteria2_outbound_config option \<Rightarrow> node_entry" where
  "new_node_entry name cfg =
     \<lparr>ne_name = name, ne_cfg = cfg, ne_client = None,
      ne_status = \<lparr>ns_name = name, ns_state = NodeConnecting, ns_resolved = [], ns_last_error = [],
        ns_last_success = zero_time, ns_next_retry = zero_time\<rparr>,
      ne_reconnect = False, ne_first = False\<rparr>"

definition update_status :: "node_state \<Rightarrow> string \<Rightarrow> go_time \<Rightarrow> node_entry \<Rightarrow> node_entry" where
  "update_status state last_error next_retry e =
     e\<lparr>ne_status := (ne_status e)\<lparr>ns_state := state,
       ns_last_error := (if last_error \<noteq> [] then last_error else ns_last_error (ne_status e)),
       ns_next_retry := next_retry\<rparr>\<rparr>"

text \<open>\<open>setReady\<close> with the client it replaces, which the caller then closes.\<close>

definition set_ready :: "nat \<Rightarrow> string \<Rightarrow> go_time \<Rightarrow> node_entry \<Rightarrow> nat option \<times> node_entry" where
  "set_ready client resolved now e =
     ((case ne_client e of None \<Rightarrow> None | Some old \<Rightarrow> if old = client then None else Some old),
      e\<lparr>ne_client := Some client,
        ne_status := (ne_status e)\<lparr>ns_state := NodeReady, ns_resolved := resolved, ns_last_error := [],
          ns_last_success := now, ns_next_retry := zero_time\<rparr>\<rparr>)"

text \<open>\<open>currentClient\<close>: the client, or the reason why there is none.\<close>

definition current_client :: "node_entry \<Rightarrow> (string, nat) result" where
  "current_client e =
     (case ne_client e of
        Some c \<Rightarrow>
          if ns_state (ne_status e) = NodeReady then Inr c
          else Inl (if ns_last_error (ne_status e) \<noteq> [] then ns_last_error (ne_status e) else node_state_text (ns_state (ne_status e)))
      | None \<Rightarrow>
          Inl (if ns_last_error (ne_status e) \<noteq> [] then ns_last_error (ne_status e) else node_state_text (ns_state (ne_status e))))"

text \<open>The locked section of \<open>markUnavailable\<close>; \<open>None\<close> when the client is not the current one.\<close>

definition mark_unavailable :: "nat \<Rightarrow> out_error \<Rightarrow> node_entry \<Rightarrow> node_entry option" where
  "mark_unavailable client err e =
     (if ne_client e \<noteq> Some client then None
      else Some (e\<lparr>ne_client := None,
        ne_status := (ne_status e)\<lparr>ns_state := NodeUnavailable, ns_last_error := error_text err, ns_next_retry := zero_time\<rparr>\<rparr>))"

definition close_client :: "node_entry \<Rightarrow> nat option \<times> node_entry" where
  "close_client e = (ne_client e, e\<lparr>ne_client := None\<rparr>)"

text \<open>
  \<open>TCPContext\<close> and \<open>UDPContext\<close> on the current client, with the outcome of the client's own call as
  an argument: the answer, and the client to report as dead.
\<close>

datatype 'a open_result = OpenUnavailable string | OpenFailed out_error | Opened 'a

definition entry_tcp ::
  "bool \<Rightarrow> (nat \<Rightarrow> (out_error, 'a) result) \<Rightarrow> node_entry \<Rightarrow> 'a open_result \<times> (nat \<times> out_error) option"
where
  "entry_tcp cancelled call e =
     (case current_client e of
        Inl reason \<Rightarrow> (OpenUnavailable reason, None)
      | Inr client \<Rightarrow>
          (case call client of
             Inr conn \<Rightarrow> (Opened conn, None)
           | Inl err \<Rightarrow> (OpenFailed err, if \<not> cancelled \<and> is_closed_connection (Some err) then Some (client, err) else None)))"

definition entry_udp ::
  "(nat \<Rightarrow> (out_error, 'a) result) \<Rightarrow> node_entry \<Rightarrow> ('a \<times> nat) open_result \<times> (nat \<times> out_error) option"
where
  "entry_udp call e =
     (case current_client e of
        Inl reason \<Rightarrow> (OpenUnavailable reason, None)
      | Inr client \<Rightarrow>
          (case call client of
             Inr conn \<Rightarrow> (Opened (conn, client), None)
           | Inl err \<Rightarrow> (OpenFailed err, if is_closed_connection (Some err) then Some (client, err) else None)))"

text \<open>What a UDP association reports after a read or a write, unless it was closed locally.\<close>

definition udp_read_report :: "bool \<Rightarrow> out_error option \<Rightarrow> out_error option" where
  "udp_read_report local_closed err =
     (if local_closed then None
      else if is_closed_connection err then err
      else if err = Some EofError \<or> err = Some NetClosed then Some (ClosedError (error_text (the err)))
      else None)"

definition udp_write_report :: "bool \<Rightarrow> out_error option \<Rightarrow> out_error option" where
  "udp_write_report local_closed err =
     (if \<not> local_closed \<and> (is_closed_connection err \<or> err = Some EofError \<or> err = Some NetClosed) then err else None)"

section \<open>Retry delay\<close>

text \<open>The exponential delay with a jitter between 0.8 and 1.2; \<open>r\<close> is the random number in \<open>[0, 1)\<close>.\<close>

definition base_delay :: "int \<Rightarrow> duration" where
  "base_delay failure =
     (let failure = (if failure < 0 then 0 else failure); failure = (if 6 < failure then 6 else failure);
          delay = second * 2 ^ nat failure
      in if minute < delay then minute else delay)"

definition default_retry_delay :: "rat \<Rightarrow> int \<Rightarrow> duration" where
  "default_retry_delay r failure =
     (let jitter = float64 (float64 (4 / 5) + float64 (r * float64 (2 / 5)));
          delay = \<lfloor>float64 (of_int (base_delay failure) * jitter)\<rfloor>
      in if minute < delay then minute else delay)"

section \<open>The worker and its environment\<close>

text \<open>
  Where the worker of an entry is: at the head of its loop with a number of failures, in the
  backoff timer, waiting for the semaphore, in \<open>Connect\<close>, serving with a client, leaving (with the
  client it still has to close) or gone.
\<close>

datatype worker = Unstarted | AtLoop nat | InBackoff nat | Acquiring nat | Dialing nat | Serving | Leaving "nat option" | Exited

text \<open>A goroutine inside \<open>markUnavailable\<close>: about to close the client it removed, or about to signal.\<close>

datatype marker = Closing nat | Signalling

record node =
  nd_entry :: node_entry
  nd_worker :: worker
  nd_markers :: "marker list"
  nd_opened :: nat
  nd_closed :: "nat list"

datatype node_action =
    LoopHead go_time rat
  | BackoffElapsed
  | Acquire
  | DialOk string go_time
  | DialErr string
  | TakeSignal
  | Cancelled
  | CloseLeaving
  | MarkClear nat out_error
  | MarkClose nat
  | MarkSignal

definition drop_client :: "node \<Rightarrow> node" where
  "drop_client nd =
     (let (c, e) = close_client (nd_entry nd) in nd\<lparr>nd_entry := e, nd_worker := Leaving c\<rparr>)"

fun node_exec :: "node_action \<Rightarrow> node \<Rightarrow> node option" where
  "node_exec (LoopHead now r) nd =
     (case nd_worker nd of
        AtLoop failures \<Rightarrow>
          if 0 < failures
          then Some (nd\<lparr>nd_worker := InBackoff failures,
            nd_entry := update_status NodeBackoff [] (now + default_retry_delay r (int failures - 1)) (nd_entry nd)\<rparr>)
          else Some (nd\<lparr>nd_worker := Acquiring failures, nd_entry := update_status NodeConnecting [] zero_time (nd_entry nd)\<rparr>)
      | _ \<Rightarrow> None)"
| "node_exec BackoffElapsed nd =
     (case nd_worker nd of
        InBackoff failures \<Rightarrow>
          Some (nd\<lparr>nd_worker := Acquiring failures, nd_entry := update_status NodeConnecting [] zero_time (nd_entry nd)\<rparr>)
      | _ \<Rightarrow> None)"
| "node_exec Acquire nd =
     (case nd_worker nd of Acquiring failures \<Rightarrow> Some (nd\<lparr>nd_worker := Dialing failures\<rparr>) | _ \<Rightarrow> None)"
| "node_exec (DialOk addr now) nd =
     (case nd_worker nd of
        Dialing failures \<Rightarrow>
          (let (old, e) = set_ready (nd_opened nd) addr now (nd_entry nd)
           in Some (nd\<lparr>nd_entry := e\<lparr>ne_first := True\<rparr>, nd_worker := Serving, nd_opened := Suc (nd_opened nd),
                nd_closed := (case old of None \<Rightarrow> nd_closed nd | Some c \<Rightarrow> c # nd_closed nd)\<rparr>))
      | _ \<Rightarrow> None)"
| "node_exec (DialErr msg) nd =
     (case nd_worker nd of
        Dialing failures \<Rightarrow>
          Some (nd\<lparr>nd_entry := (update_status NodeUnavailable msg zero_time (nd_entry nd))\<lparr>ne_first := True\<rparr>,
            nd_worker := AtLoop (Suc failures)\<rparr>)
      | _ \<Rightarrow> None)"
| "node_exec TakeSignal nd =
     (if nd_worker nd = Serving \<and> ne_reconnect (nd_entry nd)
      then Some (nd\<lparr>nd_worker := AtLoop 1, nd_entry := (nd_entry nd)\<lparr>ne_reconnect := False\<rparr>\<rparr>) else None)"
| "node_exec Cancelled nd =
     (case nd_worker nd of
        InBackoff _ \<Rightarrow> Some (drop_client nd)
      | Acquiring _ \<Rightarrow> Some (drop_client nd)
      | Serving \<Rightarrow> Some (drop_client nd)
      | _ \<Rightarrow> None)"
| "node_exec CloseLeaving nd =
     (case nd_worker nd of
        Leaving (Some c) \<Rightarrow> Some (nd\<lparr>nd_worker := Exited, nd_closed := c # nd_closed nd\<rparr>)
      | Leaving None \<Rightarrow> Some (nd\<lparr>nd_worker := Exited\<rparr>)
      | _ \<Rightarrow> None)"
| "node_exec (MarkClear c err) nd =
     (case mark_unavailable c err (nd_entry nd) of
        None \<Rightarrow> None
      | Some e \<Rightarrow> Some (nd\<lparr>nd_entry := e, nd_markers := Closing c # nd_markers nd\<rparr>))"
| "node_exec (MarkClose c) nd =
     (if Closing c \<in> set (nd_markers nd)
      then Some (nd\<lparr>nd_markers := Signalling # remove1 (Closing c) (nd_markers nd), nd_closed := c # nd_closed nd\<rparr>) else None)"
| "node_exec MarkSignal nd =
     (if Signalling \<in> set (nd_markers nd)
      then Some (nd\<lparr>nd_markers := remove1 Signalling (nd_markers nd), nd_entry := (nd_entry nd)\<lparr>ne_reconnect := True\<rparr>\<rparr>) else None)"

section \<open>The factory\<close>

definition max_connect_attempts :: nat where "max_connect_attempts = 8"

record outbound_factory =
  of_entries :: "(string, node) gomap"
  of_semaphore :: nat
  of_cancelled :: bool
  of_started :: bool

definition new_node :: "string \<Rightarrow> node_config \<Rightarrow> node" where
  "new_node name cfg =
     \<lparr>nd_entry = new_node_entry name (if nc_type cfg \<noteq> hysteria2_type then None else nc_hysteria2 cfg),
      nd_worker = Unstarted, nd_markers = [], nd_opened = 0, nd_closed = []\<rparr>"

definition new_outbound_factory :: "(string, node_config) gomap \<Rightarrow> outbound_factory" where
  "new_outbound_factory nodes =
     \<lparr>of_entries = gmap_values new_node nodes, of_semaphore = 0, of_cancelled = False, of_started = False\<rparr>"

definition factory_start :: "outbound_factory \<Rightarrow> outbound_factory" where
  "factory_start f =
     (if of_started f then f
      else f\<lparr>of_started := True, of_entries := gmap_values (\<lambda>_ nd. nd\<lparr>nd_worker := AtLoop 0\<rparr>) (of_entries f)\<rparr>)"

text \<open>\<open>Close\<close> cancels the context, starts the workers if they never ran, and waits for all of them to end.\<close>

definition factory_cancel :: "outbound_factory \<Rightarrow> outbound_factory" where
  "factory_cancel f = factory_start (f\<lparr>of_cancelled := True\<rparr>)"

definition factory_closed :: "outbound_factory \<Rightarrow> bool" where
  "factory_closed f \<longleftrightarrow> list_all (\<lambda>(_, nd). nd_worker nd = Exited) (of_entries f)"

text \<open>\<open>Warmup\<close> returns nil once every entry has made its first attempt.\<close>

definition warmup_done :: "outbound_factory \<Rightarrow> bool" where
  "warmup_done f \<longleftrightarrow> list_all (\<lambda>(_, nd). ne_first (nd_entry nd)) (of_entries f)"

definition node_statuses :: "outbound_factory \<Rightarrow> (string, node_status) gomap" where
  "node_statuses f = gmap_values (\<lambda>_ nd. ne_status (nd_entry nd)) (of_entries f)"

datatype outbound_route = DirectRoute | NodeRoute string

definition factory_get :: "outbound_factory \<Rightarrow> string \<Rightarrow> outbound_route option" where
  "factory_get f name =
     (if name = ''direct'' then Some DirectRoute
      else case map_of (of_entries f) name of None \<Rightarrow> None | Some _ \<Rightarrow> Some (NodeRoute name))"

text \<open>
  One step of the factory: a section of one entry.  Taking the semaphore needs a free slot, leaving
  \<open>Connect\<close> frees it, and a worker ends only when the context is cancelled.
\<close>

definition put_node :: "string \<Rightarrow> node \<Rightarrow> outbound_factory \<Rightarrow> outbound_factory" where
  "put_node name nd f = f\<lparr>of_entries := gput name nd (of_entries f)\<rparr>"

definition plain_action :: "node_action \<Rightarrow> bool" where
  "plain_action act =
     (case act of
        Acquire \<Rightarrow> False | DialOk _ _ \<Rightarrow> False | DialErr _ \<Rightarrow> False | Cancelled \<Rightarrow> False
      | LoopHead _ r \<Rightarrow> 0 \<le> r \<and> r < 1
      | _ \<Rightarrow> True)"

definition dial_action :: "node_action \<Rightarrow> bool" where
  "dial_action act = (case act of DialOk _ _ \<Rightarrow> True | DialErr _ \<Rightarrow> True | _ \<Rightarrow> False)"

inductive factory_step :: "outbound_factory \<Rightarrow> outbound_factory \<Rightarrow> bool" where
  fs_start: "factory_step f (factory_start f)"
| fs_cancel: "factory_step f (factory_cancel f)"
| fs_plain: "map_of (of_entries f) name = Some nd \<Longrightarrow> plain_action act \<Longrightarrow> node_exec act nd = Some nd' \<Longrightarrow>
    factory_step f (put_node name nd' f)"
| fs_acquire: "map_of (of_entries f) name = Some nd \<Longrightarrow> of_semaphore f < max_connect_attempts \<Longrightarrow>
    node_exec Acquire nd = Some nd' \<Longrightarrow> factory_step f (put_node name nd' (f\<lparr>of_semaphore := Suc (of_semaphore f)\<rparr>))"
| fs_dialled: "map_of (of_entries f) name = Some nd \<Longrightarrow> dial_action act \<Longrightarrow> node_exec act nd = Some nd' \<Longrightarrow>
    factory_step f (put_node name nd' (f\<lparr>of_semaphore := of_semaphore f - 1\<rparr>))"
| fs_cancelled: "map_of (of_entries f) name = Some nd \<Longrightarrow> of_cancelled f \<Longrightarrow> node_exec Cancelled nd = Some nd' \<Longrightarrow>
    factory_step f (put_node name nd' f)"

inductive_cases factory_stepE: "factory_step f f'"

inductive factory_reachable :: "(string, node_config) gomap \<Rightarrow> outbound_factory \<Rightarrow> bool" for nodes where
  fr_init: "factory_reachable nodes (new_outbound_factory nodes)"
| fr_step: "factory_reachable nodes f \<Longrightarrow> factory_step f f' \<Longrightarrow> factory_reachable nodes f'"

section \<open>The invariant of an entry\<close>

definition closing_clients :: "marker list \<Rightarrow> nat list" where
  "closing_clients ms = concat (map (\<lambda>m. case m of Closing c \<Rightarrow> [c] | Signalling \<Rightarrow> []) ms)"

definition opt_list :: "'a option \<Rightarrow> 'a list" where
  "opt_list x = (case x of None \<Rightarrow> [] | Some y \<Rightarrow> [y])"

definition leaving_clients :: "worker \<Rightarrow> nat list" where
  "leaving_clients w = (case w of Leaving c \<Rightarrow> opt_list c | _ \<Rightarrow> [])"

text \<open>The clients somebody is still responsible for: current, being removed, or held by a leaving worker.\<close>

definition held_clients :: "node \<Rightarrow> nat list" where
  "held_clients nd = opt_list (ne_client (nd_entry nd)) @ closing_clients (nd_markers nd) @ leaving_clients (nd_worker nd)"

definition ledger_ok :: "node \<Rightarrow> bool" where
  "ledger_ok nd \<longleftrightarrow> mset (nd_closed nd) + mset (held_clients nd) = mset [0..<nd_opened nd]"

text \<open>
  A client is current only while its worker serves and the entry is ready.  While the worker serves
  without a client, exactly one goroutine is about to signal it, or the signal is already there.
\<close>

definition signal_ok :: "node \<Rightarrow> bool" where
  "signal_ok nd \<longleftrightarrow>
     (case nd_worker nd of
        Serving \<Rightarrow>
          (if ne_client (nd_entry nd) \<noteq> None
           then ns_state (ne_status (nd_entry nd)) = NodeReady \<and> \<not> ne_reconnect (nd_entry nd) \<and> nd_markers nd = []
           else length (nd_markers nd) = (if ne_reconnect (nd_entry nd) then 0 else 1))
      | Leaving _ \<Rightarrow> ne_client (nd_entry nd) = None
      | Exited \<Rightarrow> ne_client (nd_entry nd) = None
      | _ \<Rightarrow> ne_client (nd_entry nd) = None \<and> \<not> ne_reconnect (nd_entry nd) \<and> nd_markers nd = [])"

definition node_ok :: "node \<Rightarrow> bool" where
  "node_ok nd \<longleftrightarrow> ledger_ok nd \<and> signal_ok nd"

definition is_dialing :: "node \<Rightarrow> bool" where
  "is_dialing nd = (case nd_worker nd of Dialing _ \<Rightarrow> True | _ \<Rightarrow> False)"

lemma opt_list_simps [simp]: "opt_list None = []" "opt_list (Some x) = [x]"
  by (simp_all add: opt_list_def)

lemma closing_clients_simps [simp]:
  "closing_clients [] = []"
  "closing_clients (Closing c # ms) = c # closing_clients ms"
  "closing_clients (Signalling # ms) = closing_clients ms"
  by (simp_all add: closing_clients_def)

lemma closing_clients_remove1:
  "Closing c \<in> set ms \<Longrightarrow> mset (closing_clients ms) = add_mset c (mset (closing_clients (remove1 (Closing c) ms)))"
  by (induction ms) (auto simp: closing_clients_def split: marker.split)

lemma closing_clients_remove_signal [simp]: "closing_clients (remove1 Signalling ms) = closing_clients ms"
  by (induction ms) (auto simp: closing_clients_def split: marker.split)

lemma entry_frame [simp, frame_simps]:
  "ne_client (update_status st msg next e) = ne_client e"
  "ne_reconnect (update_status st msg next e) = ne_reconnect e"
  by (simp_all add: update_status_def)

lemmas node_defs = node_ok_def ledger_ok_def signal_ok_def held_clients_def leaving_clients_def

lemma node_exec_ok:
  assumes "node_ok nd" "node_exec act nd = Some nd'"
  shows "node_ok nd'"
proof (cases act)
  case (LoopHead now r)
  with assms show ?thesis by (auto simp: node_defs split: worker.split_asm if_split_asm)
next
  case BackoffElapsed
  with assms show ?thesis by (auto simp: node_defs split: worker.split_asm)
next
  case Acquire
  with assms show ?thesis by (auto simp: node_defs split: worker.split_asm)
next
  case (DialOk addr now)
  with assms show ?thesis by (auto simp: node_defs set_ready_def Let_def atLeast0_lessThan_Suc split: worker.split_asm)
next
  case (DialErr msg)
  with assms show ?thesis by (auto simp: node_defs split: worker.split_asm)
next
  case TakeSignal
  with assms show ?thesis by (auto simp: node_defs split: if_split_asm)
next
  case Cancelled
  with assms show ?thesis by (auto simp: node_defs drop_client_def close_client_def ac_simps split: worker.split_asm)
next
  case CloseLeaving
  with assms show ?thesis by (auto simp: node_defs split: worker.split_asm option.split_asm)
next
  case (MarkClear c err)
  with assms show ?thesis
    by (auto simp: node_defs mark_unavailable_def split: if_split_asm worker.split_asm option.split_asm)
next
  case (MarkClose c)
  with assms show ?thesis
    by (auto simp: node_defs closing_clients_remove1 length_remove1 split: if_split_asm worker.split_asm option.split_asm)
next
  case MarkSignal
  with assms show ?thesis
    by (auto simp: node_defs length_remove1 split: if_split_asm worker.split_asm option.split_asm)
qed

section \<open>The invariant of the factory\<close>

definition dialing_count :: "(string, node) gomap \<Rightarrow> int" where
  "dialing_count m = gsum (\<lambda>_ nd. if is_dialing nd then 1 else 0) m"

definition factory_ok :: "outbound_factory \<Rightarrow> bool" where
  "factory_ok f \<longleftrightarrow> gall (\<lambda>_ nd. node_ok nd) (of_entries f) \<and> int (of_semaphore f) = dialing_count (of_entries f) \<and>
     of_semaphore f \<le> max_connect_attempts \<and>
     (\<not> of_started f \<longrightarrow> gall (\<lambda>_ nd. nd_worker nd = Unstarted) (of_entries f))"

lemma dialing_count_put:
  "map_of m name = Some nd \<Longrightarrow> dialing_count (gput name nd' m) =
     dialing_count m - (if is_dialing nd then 1 else 0) + (if is_dialing nd' then 1 else 0)"
  by (simp add: dialing_count_def gsum_gput_present)

lemma exec_started: "node_exec act nd = Some nd' \<Longrightarrow> node_ok nd \<Longrightarrow> nd_worker nd \<noteq> Unstarted"
  by (cases act) (auto simp: node_defs mark_unavailable_def split: worker.split_asm option.split_asm if_split_asm)

lemma exec_plain_dialing: "plain_action act \<Longrightarrow> node_exec act nd = Some nd' \<Longrightarrow> is_dialing nd' = is_dialing nd"
  by (cases act) (auto simp: plain_action_def is_dialing_def split: worker.split_asm option.split_asm if_split_asm)

lemma exec_acquire_dialing: "node_exec Acquire nd = Some nd' \<Longrightarrow> \<not> is_dialing nd \<and> is_dialing nd'"
  by (auto simp: is_dialing_def split: worker.split_asm)

lemma exec_dialled_dialing: "dial_action act \<Longrightarrow> node_exec act nd = Some nd' \<Longrightarrow> is_dialing nd \<and> \<not> is_dialing nd'"
  by (cases act) (auto simp: dial_action_def is_dialing_def set_ready_def Let_def split: worker.split_asm)

lemma exec_cancelled_dialing: "node_exec Cancelled nd = Some nd' \<Longrightarrow> \<not> is_dialing nd \<and> \<not> is_dialing nd'"
  by (auto simp: is_dialing_def drop_client_def close_client_def split: worker.split_asm)

lemma factory_put_ok:
  assumes ok: "factory_ok f" and nd: "map_of (of_entries f) name = Some nd" and ex: "node_exec act nd = Some nd'"
    and sem: "int n = int (of_semaphore f) - (if is_dialing nd then 1 else 0) + (if is_dialing nd' then 1 else 0)"
    and le: "n \<le> max_connect_attempts"
  shows "factory_ok (put_node name nd' (f\<lparr>of_semaphore := n\<rparr>))"
proof -
  have "node_ok nd" using ok gall_lookup [OF _ nd] by (auto simp: factory_ok_def)
  then have "node_ok nd'" "nd_worker nd \<noteq> Unstarted"
    using node_exec_ok [OF _ ex] exec_started [OF ex] by blast+
  moreover have "of_started f"
    using calculation(2) ok gall_lookup [OF _ nd] by (auto simp: factory_ok_def)
  ultimately show ?thesis
    using ok sem le by (auto simp: factory_ok_def put_node_def dialing_count_put [OF nd] intro: gall_gput)
qed

lemma factory_start_ok:
  assumes "factory_ok f"
  shows "factory_ok (factory_start f)"
proof (cases "of_started f")
  case False
  have "gall (\<lambda>_ nd. node_ok nd) (gmap_values (\<lambda>_ nd. nd\<lparr>nd_worker := AtLoop 0\<rparr>) m) \<and>
      dialing_count (gmap_values (\<lambda>_ nd. nd\<lparr>nd_worker := AtLoop 0\<rparr>) m) = dialing_count m"
    if "gall (\<lambda>_ nd. node_ok nd) m" "gall (\<lambda>_ nd. nd_worker nd = Unstarted) m" for m
    using that by (induction m) (auto simp: dialing_count_def is_dialing_def node_defs)
  from this [of "of_entries f"] False assms show ?thesis
    by (simp add: factory_ok_def factory_start_def)
qed (use assms in \<open>simp add: factory_start_def\<close>)

lemma factory_new_ok: "factory_ok (new_outbound_factory nodes)"
proof -
  have new: "node_ok (new_node name cfg)" "nd_worker (new_node name cfg) = Unstarted" "\<not> is_dialing (new_node name cfg)" for name cfg
    by (simp_all add: is_dialing_def new_node_def node_defs new_node_entry_def)
  have "gall (\<lambda>_ nd. node_ok nd \<and> nd_worker nd = Unstarted) (gmap_values new_node nodes) \<and> dialing_count (gmap_values new_node nodes) = 0"
    by (induction nodes) (auto simp: dialing_count_def new)
  then show ?thesis by (auto simp: factory_ok_def new_outbound_factory_def gall_def)
qed

lemma semaphore_id [simp]: "f\<lparr>of_semaphore := of_semaphore f\<rparr> = f"
  by simp

lemma factory_step_ok: "factory_step f f' \<Longrightarrow> factory_ok f \<Longrightarrow> factory_ok f'"
proof (induction rule: factory_step.induct)
  case (fs_cancel f)
  then have "factory_ok (f\<lparr>of_cancelled := True\<rparr>)" by (simp add: factory_ok_def)
  then show ?case by (simp add: factory_cancel_def factory_start_ok)
next
  case (fs_plain f name nd act nd')
  with factory_put_ok [of f name nd act nd' "of_semaphore f"] exec_plain_dialing [of act nd nd'] show ?case
    by (auto simp: factory_ok_def)
next
  case (fs_acquire f name nd nd')
  with factory_put_ok [of f name nd Acquire nd' "Suc (of_semaphore f)"] exec_acquire_dialing [of nd nd'] show ?case
    by (auto simp: max_connect_attempts_def)
next
  case (fs_dialled f name nd act nd')
  have d: "is_dialing nd" "\<not> is_dialing nd'" using exec_dialled_dialing fs_dialled by blast+
  have "0 < of_semaphore f"
  proof -
    have "dialing_count (gput name nd' (of_entries f)) = dialing_count (of_entries f) - 1"
      using d fs_dialled(1) by (simp add: dialing_count_put)
    moreover have "0 \<le> dialing_count m" for m
      by (induction m) (auto simp: dialing_count_def)
    from this [of "gput name nd' (of_entries f)"] calculation have "1 \<le> dialing_count (of_entries f)" by linarith
    with fs_dialled.prems show ?thesis by (simp add: factory_ok_def)
  qed
  with fs_dialled factory_put_ok [of f name nd act nd' "of_semaphore f - 1"] d show ?case
    by (auto simp: factory_ok_def)
next
  case (fs_cancelled f name nd nd')
  with factory_put_ok [of f name nd Cancelled nd' "of_semaphore f"] exec_cancelled_dialing [of nd nd'] show ?case
    by (auto simp: factory_ok_def)
qed (rule factory_start_ok)

lemma factory_reachable_ok: "factory_reachable nodes f \<Longrightarrow> factory_ok f"
  by (induction rule: factory_reachable.induct) (auto intro: factory_new_ok factory_step_ok)

lemma reachable_node_ok:
  assumes "factory_reachable nodes f" "map_of (of_entries f) name = Some nd"
  shows "node_ok nd"
  using factory_reachable_ok [OF assms(1)] gall_lookup [OF _ assms(2)] by (auto simp: factory_ok_def)

text \<open>C6: Connections are neither leaked nor closed twice, and a request is served only by a live one.
  In every reachable state of the factory: \<open>currentClient\<close> yields a client only if the node is
  ready, and that client has not been closed; no client is closed twice; at most eight connection
  attempts are in progress; and once every worker has ended and every report of a dead connection
  has completed, every client that was ever connected has been closed exactly once.\<close>

theorem clients_closed_once:
  assumes "factory_reachable nodes f" and "map_of (of_entries f) name = Some nd"
  shows "(\<forall>c. current_client (nd_entry nd) = Inr c \<longrightarrow> ns_state (ne_status (nd_entry nd)) = NodeReady \<and> c < nd_opened nd \<and> c \<notin> set (nd_closed nd)) \<and>
    distinct (nd_closed nd) \<and>
    length (filter (\<lambda>(_, nd). is_dialing nd) (of_entries f)) \<le> max_connect_attempts \<and>
    (nd_worker nd = Exited \<and> nd_markers nd = [] \<longrightarrow> set (nd_closed nd) = {0..<nd_opened nd})"
proof -
  have ok: "node_ok nd" using reachable_node_ok [OF assms] .
  then have led: "mset (nd_closed nd) + mset (held_clients nd) = mset [0..<nd_opened nd]"
    by (simp add: node_ok_def ledger_ok_def)
  have "mset (nd_closed nd @ held_clients nd) = mset [0..<nd_opened nd]" using led by simp
  then have d: "distinct (nd_closed nd @ held_clients nd)" and set: "set (nd_closed nd @ held_clients nd) = {0..<nd_opened nd}"
    by (metis distinct_upt mset_eq_imp_distinct_iff, metis atLeast_upt mset_eq_setD set_upt)
  have cur: "ns_state (ne_status (nd_entry nd)) = NodeReady \<and> c \<in> set (held_clients nd)" if "current_client (nd_entry nd) = Inr c" for c
    using that by (auto simp: current_client_def held_clients_def split: option.split_asm if_split_asm)
  have "int (length (filter (\<lambda>(_, nd). is_dialing nd) m)) = dialing_count m" for m :: "(string, node) gomap"
    by (induction m) (auto simp: dialing_count_def)
  from this [of "of_entries f"] have "length (filter (\<lambda>(_, nd). is_dialing nd) (of_entries f)) \<le> max_connect_attempts"
    using factory_reachable_ok [OF assms(1)] by (simp add: factory_ok_def)
  moreover have "held_clients nd = []" if "nd_worker nd = Exited" "nd_markers nd = []"
    using ok that by (simp add: node_defs)
  ultimately show ?thesis
    using d set cur by (fastforce simp: set_eq_iff)
qed

text \<open>C7: A lost connection is always replaced.  Whenever the worker of an entry is serving and there is no
  client, either the reconnect signal is already in the channel or exactly one goroutine is still on
  its way to send it into the empty channel: the signal cannot be dropped, and no signal is left
  over from an earlier connection.\<close>

theorem no_lost_reconnect:
  assumes "factory_reachable nodes f" and "map_of (of_entries f) name = Some nd" and "nd_worker nd = Serving"
  shows "case ne_client (nd_entry nd) of
      Some c \<Rightarrow> \<not> ne_reconnect (nd_entry nd) \<and> nd_markers nd = []
    | None \<Rightarrow> (ne_reconnect (nd_entry nd) \<and> nd_markers nd = []) \<or> (\<not> ne_reconnect (nd_entry nd) \<and> length (nd_markers nd) = 1)"
  using reachable_node_ok [OF assms(1,2)] assms(3) by (auto simp: node_ok_def signal_ok_def split: option.split if_split_asm)

definition demo_nodes :: "(string, node_config) gomap" where
  "demo_nodes = [(''n1'', \<lparr>nc_type = ''hysteria2'', nc_alias = [], nc_hysteria2 = None\<rparr>)]"

text \<open>The node connects, serves, and its connection is found dead.\<close>

lemma demo_reachable:
  "\<exists>f nd. factory_reachable demo_nodes f \<and> map_of (of_entries f) ''n1'' = Some nd \<and> nd_worker nd = Serving \<and>
     ne_client (nd_entry nd) = None \<and> nd_closed nd = [0] \<and> nd_opened nd = 1"
proof -
  define cfg where "cfg = \<lparr>nc_type = ''hysteria2'', nc_alias = [], nc_hysteria2 = None\<rparr>"
  define f0 where "f0 = factory_start (new_outbound_factory demo_nodes)"
  define n0 where "n0 = (new_node ''n1'' cfg)\<lparr>nd_worker := AtLoop 0\<rparr>"
  define n1 where "n1 = the (node_exec (LoopHead 0 0) n0)"
  define n2 where "n2 = the (node_exec Acquire n1)"
  define n3 where "n3 = the (node_exec (DialOk ''192.0.2.1:443'' 5) n2)"
  define n4 where "n4 = the (node_exec (MarkClear 0 (ClosedError ''gone'')) n3)"
  define n5 where "n5 = the (node_exec (MarkClose 0) n4)"
  note ns = n5_def n4_def n3_def n2_def n1_def n0_def
  have ex: "node_exec (LoopHead 0 0) n0 = Some n1" "node_exec Acquire n1 = Some n2" "node_exec (DialOk ''192.0.2.1:443'' 5) n2 = Some n3"
    "node_exec (MarkClear 0 (ClosedError ''gone'')) n3 = Some n4" "node_exec (MarkClose 0) n4 = Some n5"
    by (simp_all add: ns new_node_def new_node_entry_def set_ready_def mark_unavailable_def update_status_def)
  define f1 f2 where "f1 = put_node ''n1'' n1 f0" and "f2 = put_node ''n1'' n2 (f1\<lparr>of_semaphore := Suc (of_semaphore f1)\<rparr>)"
  define f3 where "f3 = put_node ''n1'' n3 (f2\<lparr>of_semaphore := of_semaphore f2 - 1\<rparr>)"
  define f4 f5 where "f4 = put_node ''n1'' n4 f3" and "f5 = put_node ''n1'' n5 f4"
  have look: "map_of (of_entries f0) ''n1'' = Some n0"
    by (simp add: f0_def factory_start_def new_outbound_factory_def demo_nodes_def n0_def cfg_def)
  have "factory_reachable demo_nodes f0" unfolding f0_def by (intro fr_step [OF fr_init] fs_start)
  then have "factory_reachable demo_nodes f1"
    unfolding f1_def by (rule fr_step) (rule fs_plain [OF look _ ex(1)], simp add: plain_action_def)
  then have "factory_reachable demo_nodes f2"
    unfolding f2_def
    by (rule fr_step) (rule fs_acquire [OF _ _ ex(2)],
        simp_all add: f1_def put_node_def f0_def factory_start_def new_outbound_factory_def max_connect_attempts_def)
  then have "factory_reachable demo_nodes f3"
    unfolding f3_def by (rule fr_step) (rule fs_dialled [OF _ _ ex(3)], simp_all add: f2_def put_node_def dial_action_def)
  then have "factory_reachable demo_nodes f4"
    unfolding f4_def by (rule fr_step) (rule fs_plain [OF _ _ ex(4)], simp_all add: f3_def put_node_def plain_action_def)
  then have "factory_reachable demo_nodes f5"
    unfolding f5_def by (rule fr_step) (rule fs_plain [OF _ _ ex(5)], simp_all add: f4_def put_node_def plain_action_def)
  moreover have "map_of (of_entries f5) ''n1'' = Some n5" by (simp add: f5_def put_node_def)
  moreover have "nd_worker n5 = Serving" "ne_client (nd_entry n5) = None" "nd_closed n5 = [0]" "nd_opened n5 = 1"
    by (simp_all add: ns new_node_def new_node_entry_def set_ready_def mark_unavailable_def update_status_def)
  ultimately show ?thesis by blast
qed

theorem clients_closed_once_witness:
  "\<exists>f nd. factory_reachable demo_nodes f \<and> map_of (of_entries f) ''n1'' = Some nd \<and> nd_closed nd = [0] \<and> distinct (nd_closed nd)"
  using demo_reachable clients_closed_once [of demo_nodes _ "''n1''"] by blast

theorem no_lost_reconnect_witness:
  "\<exists>f nd. factory_reachable demo_nodes f \<and> map_of (of_entries f) ''n1'' = Some nd \<and> ne_client (nd_entry nd) = None \<and>
     (ne_reconnect (nd_entry nd) \<or> length (nd_markers nd) = 1)"
proof -
  obtain f nd where r: "factory_reachable demo_nodes f" "map_of (of_entries f) ''n1'' = Some nd" "nd_worker nd = Serving"
    and c: "ne_client (nd_entry nd) = None"
    using demo_reachable by blast
  from no_lost_reconnect [OF r] c have "ne_reconnect (nd_entry nd) \<or> length (nd_markers nd) = 1" by auto
  with r c show ?thesis by blast
qed

section \<open>Connecting\<close>

lemma dial_each_Inr:
  "dial_each dial addrs errs = Inr (c, a) \<longleftrightarrow>
     (\<exists>pre post. addrs = pre @ a # post \<and> dial a = Inr c \<and> (\<forall>p \<in> set pre. \<exists>e. dial p = Inl e \<and> \<not> fatal_dial e))"
proof (induction addrs arbitrary: errs)
  case (Cons x addrs)
  show ?case
  proof (cases "dial x")
    case (Inl e)
    show ?thesis
    proof
      assume "dial_each dial (x # addrs) errs = Inr (c, a)"
      with Inl Cons.IH [of "errs @ [(x, e)]"] obtain pre post where "addrs = pre @ a # post" "dial a = Inr c"
        "\<forall>p \<in> set pre. \<exists>e. dial p = Inl e \<and> \<not> fatal_dial e" "\<not> fatal_dial e"
        by (auto split: if_split_asm)
      with Inl show "\<exists>pre post. x # addrs = pre @ a # post \<and> dial a = Inr c \<and> (\<forall>p \<in> set pre. \<exists>e. dial p = Inl e \<and> \<not> fatal_dial e)"
        by (intro exI [of _ "x # pre"] exI [of _ post]) simp
    next
      assume "\<exists>pre post. x # addrs = pre @ a # post \<and> dial a = Inr c \<and> (\<forall>p \<in> set pre. \<exists>e. dial p = Inl e \<and> \<not> fatal_dial e)"
      with Inl Cons.IH [of "errs @ [(x, e)]"] show "dial_each dial (x # addrs) errs = Inr (c, a)"
        by (auto simp: Cons_eq_append_conv)
    qed
  next
    case (Inr d)
    then show ?thesis by (auto simp: Cons_eq_append_conv)
  qed
qed simp

text \<open>A node is dialled at its addresses in order.  \<open>Connect\<close> succeeds exactly when the node has an
  address and a credential, the address resolves, and some resolved address accepts the connection
  while every address before it refused with an error that is neither an authentication nor a
  configuration error; the connection returned is the one of that address.\<close>

theorem connect_first_success:
  "connect lookup_ip dial (Some cfg) = Inr (c, a) \<longleftrightarrow>
     h2_addr cfg \<noteq> [] \<and> h2_auth cfg \<noteq> [] \<and>
     (\<exists>pre post sni. resolve lookup_ip cfg = Inr (pre @ a # post, sni) \<and> dial sni a = Inr c \<and>
        (\<forall>p \<in> set pre. \<exists>e. dial sni p = Inl e \<and> \<not> fatal_dial e))"
proof
  assume "connect lookup_ip dial (Some cfg) = Inr (c, a)"
  then show "h2_addr cfg \<noteq> [] \<and> h2_auth cfg \<noteq> [] \<and> (\<exists>pre post sni. resolve lookup_ip cfg = Inr (pre @ a # post, sni) \<and>
      dial sni a = Inr c \<and> (\<forall>p \<in> set pre. \<exists>e. dial sni p = Inl e \<and> \<not> fatal_dial e))"
    by (auto simp: connect_def dial_each_Inr split: sum.split_asm if_split_asm)
next
  assume "h2_addr cfg \<noteq> [] \<and> h2_auth cfg \<noteq> [] \<and> (\<exists>pre post sni. resolve lookup_ip cfg = Inr (pre @ a # post, sni) \<and>
      dial sni a = Inr c \<and> (\<forall>p \<in> set pre. \<exists>e. dial sni p = Inl e \<and> \<not> fatal_dial e))"
  then obtain pre post sni where r: "h2_addr cfg \<noteq> []" "h2_auth cfg \<noteq> []" "resolve lookup_ip cfg = Inr (pre @ a # post, sni)"
    and d: "dial sni a = Inr c" "\<forall>p \<in> set pre. \<exists>e. dial sni p = Inl e \<and> \<not> fatal_dial e"
    by blast
  from d have "dial_each (dial sni) (pre @ a # post) [] = Inr (c, a)"
    unfolding dial_each_Inr by blast
  with r show "connect lookup_ip dial (Some cfg) = Inr (c, a)" by (simp add: connect_def)
qed

definition demo_lookup :: "string \<Rightarrow> (string, netip_addr list) result" where
  "demo_lookup host = Inr (map (\<lambda>b. \<lparr>np_valid = True, np_bytes = [192, 0, 2, b], np_zone = []\<rparr>) [1, 1, 2])"

definition demo_dial :: "string \<Rightarrow> udp_addr \<Rightarrow> (out_error, nat) result" where
  "demo_dial sni a = (if ua_ip a = [192, 0, 2, 2] then Inr 7 else Inl (OtherError ''timeout''))"

theorem connect_first_success_witness:
  "connect demo_lookup demo_dial (Some \<lparr>h2_addr = ''node.example:443'', h2_auth = ''s'', h2_insecure = False, h2_sni = []\<rparr>) =
     Inr (7, \<lparr>ua_ip = [192, 0, 2, 2], ua_port = 443, ua_zone = []\<rparr>)"
proof -
  let ?cfg = "\<lparr>h2_addr = ''node.example:443'', h2_auth = ''s'', h2_insecure = False, h2_sni = []\<rparr>"
  let ?a = "\<lambda>b. \<lparr>ua_ip = [192, 0, 2, b], ua_port = 443, ua_zone = []\<rparr>"
  have "resolve demo_lookup ?cfg = Inr ([?a 1] @ ?a 2 # [], ''node.example'')"
    by code_simp
  moreover have "demo_dial ''node.example'' (?a 2) = Inr 7"
    "\<forall>p \<in> set [?a 1]. \<exists>e. demo_dial ''node.example'' p = Inl e \<and> \<not> fatal_dial e"
    by (simp_all add: demo_dial_def fatal_dial_def)
  moreover have "h2_addr ?cfg \<noteq> []" "h2_auth ?cfg \<noteq> []" by simp_all
  ultimately show ?thesis
    unfolding connect_first_success by blast
qed

section \<open>The retry delay\<close>

lemma base_delay_bounds: "second \<le> base_delay failure \<and> base_delay failure \<le> minute"
proof -
  have "(1::int) \<le> 2 ^ n" for n by simp
  then show ?thesis by (auto simp: base_delay_def Let_def)
qed

lemma float_jitter_lower:
  assumes "0 < B"
  shows "B * (4 / 5) * (1 - 1 / 2 ^ 50) \<le> float64 (B * float64 (float64 (4 / 5) + float64 x))"
proof -
  define k :: rat where "k = 1 - 1 / 2 ^ 53"
  have k: "0 < k" by (simp add: k_def)
  note f45 = float64_range [of "4 / 5", folded k_def]
  have "4 / 5 * k \<le> float64 (4 / 5) + float64 x" using f45(1) float64_nonneg [of x] by simp
  then have pos: "0 < float64 (4 / 5) + float64 x" using k by (metis less_le_trans mult_pos_pos zero_less_divide_iff zero_less_numeral)
  have "4 / 5 * k * k \<le> (float64 (4 / 5) + float64 x) * k"
    using \<open>4 / 5 * k \<le> float64 (4 / 5) + float64 x\<close> k by (simp add: mult_right_mono less_imp_le)
  also have "\<dots> \<le> float64 (float64 (4 / 5) + float64 x)"
    using float64_range(1) [OF pos] by (simp only: k_def)
  finally have j: "4 / 5 * k * k \<le> float64 (float64 (4 / 5) + float64 x)" .
  have jpos: "0 < B * float64 (float64 (4 / 5) + float64 x)" using assms float64_range(3) [OF pos] by simp
  have "B * (4 / 5 * k * k) * k \<le> B * float64 (float64 (4 / 5) + float64 x) * k"
    using j assms k by (intro mult_right_mono mult_left_mono) simp_all
  also have "\<dots> \<le> float64 (B * float64 (float64 (4 / 5) + float64 x))"
    using float64_range(1) [OF jpos] by (simp only: k_def)
  finally have "B * (4 / 5) * (k * k * k) \<le> float64 (B * float64 (float64 (4 / 5) + float64 x))" by (simp only: ac_simps)
  moreover have "B * (4 / 5) * (1 - 1 / 2 ^ 50) \<le> B * (4 / 5) * (k * k * k)"
    by (rule mult_left_mono) (use assms in \<open>simp_all add: k_def\<close>)
  ultimately show ?thesis by linarith
qed

text \<open>The delay before a reconnection is bounded on both sides.  For every number of failures and every
  random number it is at most one minute, and at least four fifths of the exponential base delay (one
  second, doubled per failure, capped at one minute), up to the rounding of \<open>float64\<close> and one
  nanosecond: a node that keeps failing is never retried in a tight loop.\<close>

theorem retry_delay_bounds:
  "default_retry_delay r failure \<le> minute \<and>
   of_int (base_delay failure) * (4 / 5) * (1 - 1 / 2 ^ 50) - 1 \<le> rat_of_int (default_retry_delay r failure) \<and>
   second div 2 < default_retry_delay r failure"
proof -
  define F where "F = float64 (of_int (base_delay failure) * float64 (float64 (4 / 5) + float64 (r * float64 (2 / 5))))"
  have B: "rat_of_int second \<le> of_int (base_delay failure)" "rat_of_int (base_delay failure) \<le> of_int minute"
    using base_delay_bounds [of failure] by (simp_all only: of_int_le_iff)
  have F: "of_int (base_delay failure) * (4 / 5) * (1 - 1 / 2 ^ 50) \<le> F"
    unfolding F_def by (rule float_jitter_lower) (use B(1) in simp)
  have d: "default_retry_delay r failure = (if minute < \<lfloor>F\<rfloor> then minute else \<lfloor>F\<rfloor>)"
    by (simp add: default_retry_delay_def F_def)
  have fl: "F - 1 \<le> of_int \<lfloor>F\<rfloor>" by linarith
  have le: "of_int (base_delay failure) * (4 / 5) * (1 - 1 / 2 ^ 50) - 1 \<le> rat_of_int (default_retry_delay r failure)"
  proof (cases "minute < \<lfloor>F\<rfloor>")
    case True
    have "of_int (base_delay failure) * (4 / 5) * (1 - 1 / 2 ^ 50) \<le> rat_of_int minute * (4 / 5) * (1 - 1 / 2 ^ 50)"
      using B(2) by (intro mult_right_mono) simp_all
    with True show ?thesis by (simp add: d)
  qed (use F fl d in simp)
  moreover have "rat_of_int (second div 2) < of_int (base_delay failure) * (4 / 5) * (1 - 1 / 2 ^ 50) - 1"
    using B(1) by simp
  ultimately have "rat_of_int (second div 2) < of_int (default_retry_delay r failure)" by linarith
  then have "second div 2 < default_retry_delay r failure" by (simp only: of_int_less_iff)
  with le show ?thesis by (simp add: d)
qed

end
