(* ===== verification/Kernel.thy ===== *)
theory Kernel
  imports Tracker Traffic_Quota Outbound
begin

text \<open>
  The policy kernel (\<open>policy/kernel.go\<close>), the route resolution of \<open>internal/router\<close> and the
  Hysteria2 adapter (\<open>inbound/hysteria2/adapter.go\<close>).  The kernel owns the authenticator, the
  traffic logger, the outbound factory and the connection tracker; an inbound holds only opaque
  sessions.  A session carries the identity of the kernel that issued it (the \<open>owner\<close> pointer),
  here a number.
\<close>

section \<open>State\<close>

record psession =
  ks_owner :: nat
  ks_id :: string
  ks_route :: string
  ks_inbound :: string

record kernel =
  kn_self :: nat
  kn_auth :: authenticator
  kn_traffic :: traffic_logger
  kn_outbounds :: outbound_factory
  kn_tracker :: tracker
  kn_startup :: "(string, user_config) gomap"
  kn_next :: u64

definition copy_users :: "(string, user_config) gomap \<Rightarrow> (string, user_config) gomap" where
  "copy_users users = gmap_values (\<lambda>_ u. u\<lparr>uc_routes := uc_routes u\<rparr>) users"

definition new_kernel ::
  "nat \<Rightarrow> (string \<Rightarrow> bytes) \<Rightarrow> month_fn \<Rightarrow> bool \<Rightarrow> (string \<Rightarrow> string \<Rightarrow> bool) \<Rightarrow> go_time \<Rightarrow>
    (string, user_config) gomap \<Rightarrow> (string, node_config) gomap \<Rightarrow> traffic_db option \<Rightarrow> kernel"
where
  "new_kernel self sha224 mb io ios now users nodes store =
     (let a = new_authenticator sha224 users
      in \<lparr>kn_self = self, kn_auth = a, kn_traffic = new_traffic_logger mb io ios now a store,
          kn_outbounds = new_outbound_factory nodes, kn_tracker = new_tracker, kn_startup = copy_users users, kn_next = 0\<rparr>)"

section \<open>Sessions\<close>

definition new_session :: "string \<Rightarrow> string \<Rightarrow> kernel \<Rightarrow> psession \<times> kernel" where
  "new_session inb rid k =
     (let sequence = kn_next k + 1
      in (\<lparr>ks_owner = kn_self k, ks_id = inb @ ''/'' @ format_uint (unat sequence), ks_route = rid, ks_inbound = inb\<rparr>,
          k\<lparr>kn_next := sequence\<rparr>))"

definition kernel_authenticate :: "go_time \<Rightarrow> string \<Rightarrow> string \<Rightarrow> kernel \<Rightarrow> psession option \<times> kernel" where
  "kernel_authenticate now inb proof_text k =
     (case authenticate now (kn_auth k) proof_text of
        Inl _ \<Rightarrow> (None, k)
      | Inr rid \<Rightarrow> (let (s, k') = new_session inb rid k in (Some s, k')))"

definition kernel_authenticate_trojan :: "go_time \<Rightarrow> string \<Rightarrow> string \<Rightarrow> kernel \<Rightarrow> psession option \<times> kernel" where
  "kernel_authenticate_trojan now inb credential k =
     (case authenticate_trojan now (kn_auth k) credential of
        None \<Rightarrow> (None, k)
      | Some rid \<Rightarrow> (let (s, k') = new_session inb rid k in (Some s, k')))"

definition owns :: "kernel \<Rightarrow> psession option \<Rightarrow> bool" where
  "owns k session = (case session of None \<Rightarrow> False | Some s \<Rightarrow> ks_owner s = kn_self k)"

datatype route_error = InvalidSession | NoAuthorizedRoute | UnknownNode string

definition outbound_for :: "kernel \<Rightarrow> psession \<Rightarrow> (route_error, outbound_route) result" where
  "outbound_for k s =
     (let node = snd (parse_id (ks_route s))
      in if node = [] then Inl NoAuthorizedRoute
         else case factory_get (kn_outbounds k) node of None \<Rightarrow> Inl (UnknownNode node) | Some r \<Rightarrow> Inr r)"

text \<open>
  \<open>OpenTCP\<close> and \<open>OpenUDP\<close>.  What the direct dialer and the clients of the nodes answer are arguments;
  a client found dead is reported with the name of its node.
\<close>

datatype 'a open_outcome = RouteRefused route_error | DirectFailed out_error | NodeUnavailableNow string | NodeFailed out_error | Connection 'a

definition open_tcp ::
  "bool \<Rightarrow> (string \<Rightarrow> (out_error, 'a) result) \<Rightarrow> (string \<Rightarrow> nat \<Rightarrow> string \<Rightarrow> (out_error, 'a) result) \<Rightarrow>
    psession option \<Rightarrow> string \<Rightarrow> kernel \<Rightarrow> 'a open_outcome \<times> (string \<times> nat \<times> out_error) option"
where
  "open_tcp cancelled direct node_tcp session target k =
     (case session of
        None \<Rightarrow> (RouteRefused InvalidSession, None)
      | Some s \<Rightarrow>
          if \<not> owns k session then (RouteRefused InvalidSession, None)
          else
            (case outbound_for k s of
               Inl e \<Rightarrow> (RouteRefused e, None)
             | Inr DirectRoute \<Rightarrow> ((case direct target of Inl e \<Rightarrow> DirectFailed e | Inr c \<Rightarrow> Connection c), None)
             | Inr (NodeRoute name) \<Rightarrow>
                 (case map_of (of_entries (kn_outbounds k)) name of
                    None \<Rightarrow> (RouteRefused (UnknownNode name), None)
                  | Some nd \<Rightarrow>
                      (case entry_tcp cancelled (\<lambda>client. node_tcp name client target) (nd_entry nd) of
                         (OpenUnavailable why, _) \<Rightarrow> (NodeUnavailableNow why, None)
                       | (OpenFailed e, dead) \<Rightarrow> (NodeFailed e, map_option (\<lambda>d. (name, d)) dead)
                       | (Opened c, _) \<Rightarrow> (Connection c, None)))))"

definition open_udp ::
  "(string \<Rightarrow> (out_error, 'a) result) \<Rightarrow> (string \<Rightarrow> nat \<Rightarrow> string \<Rightarrow> (out_error, 'a) result) \<Rightarrow>
    psession option \<Rightarrow> string \<Rightarrow> kernel \<Rightarrow> 'a open_outcome \<times> (string \<times> nat \<times> out_error) option"
where
  "open_udp direct node_udp session target k =
     (case session of
        None \<Rightarrow> (RouteRefused InvalidSession, None)
      | Some s \<Rightarrow>
          if \<not> owns k session then (RouteRefused InvalidSession, None)
          else
            (case outbound_for k s of
               Inl e \<Rightarrow> (RouteRefused e, None)
             | Inr DirectRoute \<Rightarrow> ((case direct target of Inl e \<Rightarrow> DirectFailed e | Inr c \<Rightarrow> Connection c), None)
             | Inr (NodeRoute name) \<Rightarrow>
                 (case map_of (of_entries (kn_outbounds k)) name of
                    None \<Rightarrow> (RouteRefused (UnknownNode name), None)
                  | Some nd \<Rightarrow>
                      (case entry_udp (\<lambda>client. node_udp name client target) (nd_entry nd) of
                         (OpenUnavailable why, _) \<Rightarrow> (NodeUnavailableNow why, None)
                       | (OpenFailed e, dead) \<Rightarrow> (NodeFailed e, map_option (\<lambda>d. (name, d)) dead)
                       | (Opened (c, _), _) \<Rightarrow> (Connection c, None)))))"

section \<open>Accounting and tracking\<close>

definition admit ::
  "month_fn \<Rightarrow> log_env \<Rightarrow> psession option \<Rightarrow> u64 \<Rightarrow> u64 \<Rightarrow> kernel \<Rightarrow> bool option \<times> kernel"
where
  "admit mb env session tx rx k =
     (case session of
        None \<Rightarrow> (Some False, k)
      | Some s \<Rightarrow>
          if \<not> owns k session then (Some False, k)
          else (let (answer, lg) = log_traffic mb env (kn_auth k) (ks_route s) tx rx (kn_traffic k)
                in (answer, k\<lparr>kn_traffic := lg\<rparr>)))"

definition set_online :: "psession option \<Rightarrow> bool \<Rightarrow> kernel \<Rightarrow> kernel" where
  "set_online session online k =
     (case session of
        Some s \<Rightarrow> if owns k session then k\<lparr>kn_traffic := log_online_state (ks_route s) online (kn_traffic k)\<rparr> else k
      | None \<Rightarrow> k)"

definition connected :: "go_time \<Rightarrow> psession option \<Rightarrow> string \<Rightarrow> kernel \<Rightarrow> kernel" where
  "connected now session address k =
     (case session of
        Some s \<Rightarrow>
          if owns k session then k\<lparr>kn_tracker := connect_session now (ks_id s) (ks_inbound s) address (ks_route s) (kn_tracker k)\<rparr> else k
      | None \<Rightarrow> k)"

definition disconnected :: "psession option \<Rightarrow> kernel \<Rightarrow> kernel" where
  "disconnected session k =
     (case session of
        Some s \<Rightarrow> if owns k session then k\<lparr>kn_tracker := disconnect_session (ks_id s) (kn_tracker k)\<rparr> else k
      | None \<Rightarrow> k)"

definition kernel_start_request :: "go_time \<Rightarrow> psession option \<Rightarrow> u64 \<Rightarrow> string \<Rightarrow> string \<Rightarrow> kernel \<Rightarrow> kernel" where
  "kernel_start_request now session request_id protocol target k =
     (case session of
        Some s \<Rightarrow>
          if owns k session then k\<lparr>kn_tracker := start_request now (ks_id s) request_id protocol target (kn_tracker k)\<rparr> else k
      | None \<Rightarrow> k)"

definition kernel_stop_request :: "psession option \<Rightarrow> u64 \<Rightarrow> kernel \<Rightarrow> kernel" where
  "kernel_stop_request session request_id k =
     (case session of
        Some s \<Rightarrow> if owns k session then k\<lparr>kn_tracker := stop_request (ks_id s) request_id (kn_tracker k)\<rparr> else k
      | None \<Rightarrow> k)"

section \<open>Publishing users\<close>

definition refresh_snapshot ::
  "(string, user_config) gomap \<Rightarrow> (string, user_config) gomap \<Rightarrow> (string, user_config) gomap"
where
  "refresh_snapshot startup loaded =
     gmap_values (\<lambda>username startup_user.
       case map_of loaded username of
         Some user \<Rightarrow> user\<lparr>uc_routes := uc_routes startup_user\<rparr>
       | None \<Rightarrow> startup_user\<lparr>uc_disabled := True\<rparr>) startup"

definition kernel_update_users :: "(string \<Rightarrow> bytes) \<Rightarrow> (string, user_config) gomap \<Rightarrow> kernel \<Rightarrow> kernel" where
  "kernel_update_users sha224 loaded k =
     (let previous = auth_snapshot (kn_auth k); updated = refresh_snapshot (kn_startup k) loaded
      in k\<lparr>kn_auth := auth_update_users sha224 updated (kn_auth k),
           kn_traffic := notify_users_updated previous updated (kn_traffic k)\<rparr>)"

definition kernel_stop_admission :: "kernel \<Rightarrow> kernel" where
  "kernel_stop_admission k = k\<lparr>kn_traffic := stop_admission (kn_traffic k)\<rparr>"

section \<open>The router service\<close>

datatype router_error = InvalidAuthenticatedID string | RouterUnknownNode string

definition get_route :: "string \<Rightarrow> (router_error, string) result" where
  "get_route rid =
     (let (username, node) = parse_id rid
      in if username = [] \<or> node = [] then Inl (InvalidAuthenticatedID rid) else Inr node)"

definition outbound_for_id :: "outbound_factory \<Rightarrow> string \<Rightarrow> (router_error, outbound_route) result" where
  "outbound_for_id f rid =
     (case get_route rid of
        Inl e \<Rightarrow> Inl e
      | Inr route \<Rightarrow> (case factory_get f route of None \<Rightarrow> Inl (RouterUnknownNode route) | Some r \<Rightarrow> Inr r))"

section \<open>The Hysteria2 adapter\<close>

text \<open>
  A value the Hysteria2 library hands back: one of this adapter's sessions (never nil) or anything
  else.  A session closes its transport once.
\<close>

record hy2_session =
  hs_core :: psession
  hs_closed :: bool

datatype hy2_value = Hy2 hy2_session | OtherValue

definition session_from :: "hy2_value \<Rightarrow> psession option" where
  "session_from v = (case v of Hy2 s \<Rightarrow> Some (hs_core s) | OtherValue \<Rightarrow> None)"

definition hy2_close :: "hy2_session \<Rightarrow> bool \<times> hy2_session" where
  "hy2_close s = (\<not> hs_closed s, s\<lparr>hs_closed := True\<rparr>)"

definition authenticate_session :: "go_time \<Rightarrow> string \<Rightarrow> string \<Rightarrow> kernel \<Rightarrow> hy2_session option \<times> kernel" where
  "authenticate_session now inb proof_text k =
     (case kernel_authenticate now inb proof_text k of
        (None, k') \<Rightarrow> (None, k')
      | (Some s, k') \<Rightarrow> (Some \<lparr>hs_core = s, hs_closed = False\<rparr>, k'))"

definition adapter_tcp ::
  "bool \<Rightarrow> (string \<Rightarrow> (out_error, 'a) result) \<Rightarrow> (string \<Rightarrow> nat \<Rightarrow> string \<Rightarrow> (out_error, 'a) result) \<Rightarrow>
    hy2_value \<Rightarrow> string \<Rightarrow> kernel \<Rightarrow> 'a open_outcome \<times> (string \<times> nat \<times> out_error) option"
where
  "adapter_tcp cancelled direct node_tcp v target k =
     (case session_from v of
        None \<Rightarrow> (RouteRefused InvalidSession, None)
      | Some s \<Rightarrow> open_tcp cancelled direct node_tcp (Some s) target k)"

definition adapter_udp ::
  "(string \<Rightarrow> (out_error, 'a) result) \<Rightarrow> (string \<Rightarrow> nat \<Rightarrow> string \<Rightarrow> (out_error, 'a) result) \<Rightarrow>
    hy2_value \<Rightarrow> string \<Rightarrow> kernel \<Rightarrow> 'a open_outcome \<times> (string \<times> nat \<times> out_error) option"
where
  "adapter_udp direct node_udp v target k =
     (case session_from v of
        None \<Rightarrow> (RouteRefused InvalidSession, None)
      | Some s \<Rightarrow> open_udp direct node_udp (Some s) target k)"

definition adapter_log_traffic :: "month_fn \<Rightarrow> log_env \<Rightarrow> hy2_value \<Rightarrow> u64 \<Rightarrow> u64 \<Rightarrow> kernel \<Rightarrow> bool option \<times> kernel" where
  "adapter_log_traffic mb env v tx rx k =
     (case session_from v of None \<Rightarrow> (Some False, k) | Some s \<Rightarrow> admit mb env (Some s) tx rx k)"

definition adapter_online :: "hy2_value \<Rightarrow> bool \<Rightarrow> kernel \<Rightarrow> kernel" where
  "adapter_online v online k = (case session_from v of None \<Rightarrow> k | Some s \<Rightarrow> set_online (Some s) online k)"

definition adapter_connect :: "go_time \<Rightarrow> string \<Rightarrow> hy2_value \<Rightarrow> kernel \<Rightarrow> kernel" where
  "adapter_connect now address v k = (case session_from v of None \<Rightarrow> k | Some s \<Rightarrow> connected now (Some s) address k)"

definition adapter_disconnect :: "hy2_value \<Rightarrow> kernel \<Rightarrow> kernel" where
  "adapter_disconnect v k = (case session_from v of None \<Rightarrow> k | Some s \<Rightarrow> disconnected (Some s) k)"

definition adapter_start_request :: "go_time \<Rightarrow> hy2_value \<Rightarrow> u64 \<Rightarrow> string \<Rightarrow> string \<Rightarrow> kernel \<Rightarrow> kernel" where
  "adapter_start_request now v request_id protocol target k =
     (case session_from v of None \<Rightarrow> k | Some s \<Rightarrow> kernel_start_request now (Some s) request_id protocol target k)"

definition adapter_stop_request :: "hy2_value \<Rightarrow> u64 \<Rightarrow> kernel \<Rightarrow> kernel" where
  "adapter_stop_request v request_id k =
     (case session_from v of None \<Rightarrow> k | Some s \<Rightarrow> kernel_stop_request (Some s) request_id k)"

definition tcp_request_session :: "go_time \<Rightarrow> hy2_value \<Rightarrow> u64 \<Rightarrow> string \<Rightarrow> kernel \<Rightarrow> kernel" where
  "tcp_request_session now v request_id target k = adapter_start_request now v request_id ''TCP'' target k"

definition udp_request_session :: "go_time \<Rightarrow> hy2_value \<Rightarrow> u64 \<Rightarrow> string \<Rightarrow> kernel \<Rightarrow> kernel" where
  "udp_request_session now v request_id target k = adapter_start_request now v request_id ''UDP'' target k"

definition tcp_error_session :: "hy2_value \<Rightarrow> u64 \<Rightarrow> kernel \<Rightarrow> kernel" where
  "tcp_error_session = adapter_stop_request"

definition udp_error_session :: "hy2_value \<Rightarrow> u64 \<Rightarrow> kernel \<Rightarrow> kernel" where
  "udp_error_session = adapter_stop_request"

section \<open>Reachable kernels\<close>

text \<open>
  The kernel with the sessions it has issued, newest first.  An inbound can call any method, with
  sessions issued by this kernel or others; the outbound factory takes its own steps.
\<close>

type_synonym kernel_state = "kernel \<times> psession list"

definition issue :: "psession option \<times> kernel \<Rightarrow> psession list \<Rightarrow> kernel_state" where
  "issue r issued = (snd r, case fst r of None \<Rightarrow> issued | Some s \<Rightarrow> s # issued)"

inductive kernel_step :: "(string \<Rightarrow> bytes) \<Rightarrow> month_fn \<Rightarrow> kernel_state \<Rightarrow> kernel_state \<Rightarrow> bool" for sha224 mb where
  kst_auth: "kernel_step sha224 mb (k, issued) (issue (kernel_authenticate now inb proof_text k) issued)"
| kst_trojan: "kernel_step sha224 mb (k, issued) (issue (kernel_authenticate_trojan now inb credential k) issued)"
| kst_update: "kernel_step sha224 mb (k, issued) (kernel_update_users sha224 loaded k, issued)"
| kst_admit: "kernel_step sha224 mb (k, issued) (snd (admit mb env session tx rx k), issued)"
| kst_online: "kernel_step sha224 mb (k, issued) (set_online session online k, issued)"
| kst_connected: "kernel_step sha224 mb (k, issued) (connected now session address k, issued)"
| kst_disconnected: "kernel_step sha224 mb (k, issued) (disconnected session k, issued)"
| kst_start: "kernel_step sha224 mb (k, issued) (kernel_start_request now session request_id protocol target k, issued)"
| kst_stop: "kernel_step sha224 mb (k, issued) (kernel_stop_request session request_id k, issued)"
| kst_stopping: "kernel_step sha224 mb (k, issued) (kernel_stop_admission k, issued)"
| kst_traffic: "kernel_step sha224 mb (k, issued) (k\<lparr>kn_traffic := lg\<rparr>, issued)"
| kst_outbound: "factory_step (kn_outbounds k) f \<Longrightarrow> kernel_step sha224 mb (k, issued) (k\<lparr>kn_outbounds := f\<rparr>, issued)"

inductive kernel_reachable ::
  "(string \<Rightarrow> bytes) \<Rightarrow> month_fn \<Rightarrow> (string, user_config) gomap \<Rightarrow> (string, node_config) gomap \<Rightarrow> nat \<Rightarrow> kernel_state \<Rightarrow> bool"
for sha224 mb users nodes self where
  kr_init: "kernel_reachable sha224 mb users nodes self (new_kernel self sha224 mb io ios now users nodes store, [])"
| kr_step: "kernel_reachable sha224 mb users nodes self s \<Longrightarrow> kernel_step sha224 mb s s' \<Longrightarrow> kernel_reachable sha224 mb users nodes self s'"

section \<open>The published policy keeps the topology of the start\<close>

lemma map_of_refresh_snapshot:
  "map_of (refresh_snapshot startup loaded) u =
     map_option (\<lambda>c. case map_of loaded u of Some user \<Rightarrow> user\<lparr>uc_routes := uc_routes c\<rparr> | None \<Rightarrow> c\<lparr>uc_disabled := True\<rparr>)
       (map_of startup u)"
  by (simp add: refresh_snapshot_def)

lemma refresh_snapshot_self: "gmap_ok startup \<Longrightarrow> refresh_snapshot startup startup = startup"
  unfolding refresh_snapshot_def gmap_values_def by (rule map_idI) (auto simp: map_of_is_SomeI)

lemma copy_users_id [simp]: "copy_users users = users"
  by (simp add: copy_users_def gmap_values_def)

text \<open>What may change between a start and a restart: lifecycle, never who exists or where they may go.\<close>

definition topology_kept :: "(string, user_config) gomap \<Rightarrow> (string, user_config) gomap \<Rightarrow> bool" where
  "topology_kept startup users \<longleftrightarrow>
     (\<forall>u. map_option uc_routes (map_of users u) = map_option uc_routes (map_of startup u))"

lemma topology_refresh: "topology_kept startup (refresh_snapshot startup loaded)"
proof -
  have "map_option uc_routes (map_of (refresh_snapshot startup loaded) u) = map_option uc_routes (map_of startup u)" for u
    by (cases "map_of loaded u"; cases "map_of startup u") (simp_all add: map_of_refresh_snapshot)
  then show ?thesis by (simp add: topology_kept_def)
qed

definition policy_ok :: "(string \<Rightarrow> bytes) \<Rightarrow> (string, user_config) gomap \<Rightarrow> kernel \<Rightarrow> bool" where
  "policy_ok sha224 users k \<longleftrightarrow>
     kn_startup k = users \<and>
     (\<exists>published. kn_auth k = new_authenticator sha224 published \<and> topology_kept users published \<and> gkeys published = gkeys users)"

lemma new_session_simps [simp]:
  "fst (new_session inb rid k) = \<lparr>ks_owner = kn_self k, ks_id = inb @ ''/'' @ format_uint (unat (kn_next k + 1)), ks_route = rid, ks_inbound = inb\<rparr>"
  "snd (new_session inb rid k) = k\<lparr>kn_next := kn_next k + 1\<rparr>"
  by (simp_all add: new_session_def Let_def)

lemma kernel_authenticate_simps:
  "kernel_authenticate now inb p k =
     (case authenticate now (kn_auth k) p of Inl _ \<Rightarrow> (None, k)
      | Inr rid \<Rightarrow> (Some (fst (new_session inb rid k)), snd (new_session inb rid k)))"
  "kernel_authenticate_trojan now inb c k =
     (case authenticate_trojan now (kn_auth k) c of None \<Rightarrow> (None, k)
      | Some rid \<Rightarrow> (Some (fst (new_session inb rid k)), snd (new_session inb rid k)))"
  by (simp_all add: kernel_authenticate_def kernel_authenticate_trojan_def case_prod_beta split: sum.split option.split)

text \<open>The fields only authentication and publication change.\<close>

lemma kernel_frame [simp, frame_simps]:
  "kn_auth (snd (admit mb env session tx rx k)) = kn_auth k" "kn_startup (snd (admit mb env session tx rx k)) = kn_startup k"
  "kn_self (snd (admit mb env session tx rx k)) = kn_self k" "kn_next (snd (admit mb env session tx rx k)) = kn_next k"
  "kn_outbounds (snd (admit mb env session tx rx k)) = kn_outbounds k"
  "kn_auth (set_online session online k) = kn_auth k" "kn_startup (set_online session online k) = kn_startup k"
  "kn_self (set_online session online k) = kn_self k" "kn_next (set_online session online k) = kn_next k"
  "kn_outbounds (set_online session online k) = kn_outbounds k"
  "kn_auth (connected now session address k) = kn_auth k" "kn_startup (connected now session address k) = kn_startup k"
  "kn_self (connected now session address k) = kn_self k" "kn_next (connected now session address k) = kn_next k"
  "kn_outbounds (connected now session address k) = kn_outbounds k"
  "kn_auth (disconnected session k) = kn_auth k" "kn_startup (disconnected session k) = kn_startup k"
  "kn_self (disconnected session k) = kn_self k" "kn_next (disconnected session k) = kn_next k"
  "kn_outbounds (disconnected session k) = kn_outbounds k"
  "kn_auth (kernel_start_request now session i pr tg k) = kn_auth k" "kn_startup (kernel_start_request now session i pr tg k) = kn_startup k"
  "kn_self (kernel_start_request now session i pr tg k) = kn_self k" "kn_next (kernel_start_request now session i pr tg k) = kn_next k"
  "kn_outbounds (kernel_start_request now session i pr tg k) = kn_outbounds k"
  "kn_auth (kernel_stop_request session i k) = kn_auth k" "kn_startup (kernel_stop_request session i k) = kn_startup k"
  "kn_self (kernel_stop_request session i k) = kn_self k" "kn_next (kernel_stop_request session i k) = kn_next k"
  "kn_outbounds (kernel_stop_request session i k) = kn_outbounds k"
  by (simp_all add: admit_def set_online_def connected_def disconnected_def kernel_start_request_def kernel_stop_request_def
      Let_def case_prod_beta split: option.split)

lemma kernel_update_frame [simp, frame_simps]:
  "kn_startup (kernel_update_users sha224 loaded k) = kn_startup k" "kn_self (kernel_update_users sha224 loaded k) = kn_self k"
  "kn_next (kernel_update_users sha224 loaded k) = kn_next k" "kn_outbounds (kernel_update_users sha224 loaded k) = kn_outbounds k"
  "kn_auth (kernel_update_users sha224 loaded k) = new_authenticator sha224 (refresh_snapshot (kn_startup k) loaded)"
  "kn_auth (kernel_stop_admission k) = kn_auth k" "kn_startup (kernel_stop_admission k) = kn_startup k"
  "kn_self (kernel_stop_admission k) = kn_self k" "kn_next (kernel_stop_admission k) = kn_next k"
  "kn_outbounds (kernel_stop_admission k) = kn_outbounds k"
  by (simp_all add: kernel_update_users_def Let_def auth_update_eq_new kernel_stop_admission_def)

section \<open>Sessions are capabilities\<close>

text \<open>
  Every issued session belongs to its kernel and stands for a route that was granted to its user at
  the start; the identities count up.
\<close>

definition granted :: "(string, user_config) gomap \<Rightarrow> string \<Rightarrow> bool" where
  "granted users rid \<longleftrightarrow> (\<exists>u n c. map_of users u = Some c \<and> n \<in> set (uc_routes c) \<and> rid = route_id u n)"

definition sessions_ok :: "(string, user_config) gomap \<Rightarrow> nat \<Rightarrow> kernel_state \<Rightarrow> bool" where
  "sessions_ok users self s \<longleftrightarrow>
     kn_self (fst s) = self \<and> kn_next (fst s) = of_nat (length (snd s)) \<and>
     (\<forall>x \<in> set (snd s). ks_owner x = self \<and> granted users (ks_route x)) \<and>
     (\<forall>i < length (snd s). ks_id (snd s ! i) = ks_inbound (snd s ! i) @ ''/'' @ format_uint (unat (of_nat (length (snd s) - i) :: u64)))"

lemma granted_topology: "topology_kept users published \<Longrightarrow> granted published rid \<Longrightarrow> granted users rid"
proof -
  assume top: "topology_kept users published" and "granted published rid"
  then obtain u n c where g: "map_of published u = Some c" "n \<in> set (uc_routes c)" "rid = route_id u n"
    by (auto simp: granted_def)
  from top g(1) have "map_option uc_routes (map_of users u) = Some (uc_routes c)"
    unfolding topology_kept_def by (metis option.simps(9))
  then obtain c' where "map_of users u = Some c'" "uc_routes c' = uc_routes c" by auto
  with g have "map_of users u = Some c'" "n \<in> set (uc_routes c')" "rid = route_id u n" by simp_all
  then show ?thesis unfolding granted_def by blast
qed

lemma authenticate_granted: "authenticate now (new_authenticator sha224 users) p = Inr rid \<Longrightarrow> granted users rid"
  by (drule authenticate_InrD) (auto simp: granted_def)

lemma authenticate_trojan_granted:
  assumes "gmap_ok users" "authenticate_trojan now (new_authenticator sha224 users) c = Some rid"
  shows "granted users rid"
proof -
  from assms(2) have "map_of (au_trojan (new_authenticator sha224 users)) c = Some rid"
    by (auto simp: authenticate_trojan_def Let_def split: if_split_asm option.split_asm prod.split_asm)
  then have "(c, rid) \<in> set (credential_pairs sha224 users)"
    by (auto simp: new_authenticator_def build_trojan_credentials_def map_of_foldl_gput dest: map_of_SomeD)
  with credential_pairs_iff [OF assms(1)] show ?thesis by (auto simp: granted_def)
qed

lemma sessions_ok_issue:
  assumes "sessions_ok users self (k, issued)" "granted users rid"
  shows "sessions_ok users self (issue (Some (fst (new_session inb rid k)), snd (new_session inb rid k)) issued)"
proof -
  let ?s = "fst (new_session inb rid k)"
  have next': "kn_next k + 1 = (of_nat (Suc (length issued)) :: u64)" using assms(1) by (simp add: sessions_ok_def)
  have "ks_id ((?s # issued) ! i) = ks_inbound ((?s # issued) ! i) @ ''/'' @ format_uint (unat (of_nat (Suc (length issued) - i) :: u64))"
    if "i < Suc (length issued)" for i
    using assms(1) that by (cases i) (simp_all add: sessions_ok_def next' add.commute)
  with assms next' show ?thesis
    by (auto simp: sessions_ok_def issue_def)
qed

lemma granted_by_policy:
  assumes "policy_ok sha224 users k" "gmap_ok users"
  shows "authenticate now (kn_auth k) p = Inr rid \<Longrightarrow> granted users rid"
    and "authenticate_trojan now (kn_auth k) c = Some rid \<Longrightarrow> granted users rid"
  using assms authenticate_granted authenticate_trojan_granted granted_topology unfolding policy_ok_def by metis+

lemma policy_ok_frame: "policy_ok sha224 users k \<Longrightarrow> kn_auth k' = kn_auth k \<Longrightarrow> kn_startup k' = kn_startup k \<Longrightarrow> policy_ok sha224 users k'"
  by (simp add: policy_ok_def)

lemma sessions_ok_frame:
  "sessions_ok users self (k, issued) \<Longrightarrow> kn_self k' = kn_self k \<Longrightarrow> kn_next k' = kn_next k \<Longrightarrow> sessions_ok users self (k', issued)"
  by (simp add: sessions_ok_def)

lemma kernel_step_ok:
  assumes "kernel_step sha224 mb s s'" "gmap_ok users" "policy_ok sha224 users (fst s)" "sessions_ok users self s"
  shows "policy_ok sha224 users (fst s') \<and> sessions_ok users self s'"
  using assms
proof (induction rule: kernel_step.induct)
  case (kst_auth k issued now inb p)
  then show ?case
    using granted_by_policy(1) [of sha224 users k now p] sessions_ok_issue [of users self k issued _ inb]
    by (auto simp: kernel_authenticate_simps issue_def intro: policy_ok_frame split: sum.split)
next
  case (kst_trojan k issued now inb c)
  then show ?case
    using granted_by_policy(2) [of sha224 users k now c] sessions_ok_issue [of users self k issued _ inb]
    by (auto simp: kernel_authenticate_simps issue_def intro: policy_ok_frame split: option.split)
next
  case (kst_update k issued loaded)
  then have "policy_ok sha224 users (kernel_update_users sha224 loaded k)"
    by (auto simp: policy_ok_def refresh_snapshot_def intro!: exI [of _ "refresh_snapshot users loaded"] topology_refresh)
  with kst_update show ?case by (auto intro: sessions_ok_frame)
qed (auto intro: policy_ok_frame sessions_ok_frame)

lemma kernel_reachable_ok:
  assumes "kernel_reachable sha224 mb users nodes self s" "gmap_ok users"
  shows "policy_ok sha224 users (fst s) \<and> sessions_ok users self s"
  using assms
proof (induction rule: kernel_reachable.induct)
  case (kr_init io ios now store)
  then show ?case by (auto simp: policy_ok_def sessions_ok_def new_kernel_def Let_def topology_kept_def)
next
  case (kr_step s s')
  then show ?case using kernel_step_ok by blast
qed

text \<open>The names of the entries never change.\<close>

lemma gkeys_gput_present: "map_of m k = Some v \<Longrightarrow> gkeys (gput k w m) = gkeys m"
  by (induction m) (auto split: if_split_asm)

lemma factory_step_names: "factory_step f f' \<Longrightarrow> gkeys (of_entries f') = gkeys (of_entries f)"
  by (induction rule: factory_step.induct)
    (simp_all add: factory_start_def factory_cancel_def put_node_def gkeys_gput_present)

lemma kernel_step_names: "kernel_step sha224 mb s s' \<Longrightarrow> gkeys (of_entries (kn_outbounds (fst s'))) = gkeys (of_entries (kn_outbounds (fst s)))"
  by (induction rule: kernel_step.induct)
    (simp_all add: kernel_authenticate_simps issue_def factory_step_names split: sum.split option.split)

lemma kernel_reachable_names:
  "kernel_reachable sha224 mb users nodes self s \<Longrightarrow> gkeys (of_entries (kn_outbounds (fst s))) = gkeys nodes"
  by (induction rule: kernel_reachable.induct) (simp_all add: new_kernel_def Let_def new_outbound_factory_def kernel_step_names)

lemma factory_get_names: "factory_get f name =
    (if name = ''direct'' then Some DirectRoute else if name \<in> set (gkeys (of_entries f)) then Some (NodeRoute name) else None)"
proof (cases "map_of (of_entries f) name")
  case None
  then have "name \<notin> set (gkeys (of_entries f))" by (simp add: map_of_eq_None_iff)
  with None show ?thesis by (simp add: factory_get_def)
next
  case (Some nd)
  then have "name \<in> set (gkeys (of_entries f))" by (force dest: map_of_SomeD)
  with Some show ?thesis by (simp add: factory_get_def)
qed

text \<open>C1: A session is confined to the route it was authenticated for.  Whatever the kernel has done since
  (users republished, nodes reconnected), a session it issued stands for a (user, node) pair that
  was granted at the start, and its requests leave only through that node: the direct outbound if
  and only if the node is \<open>direct\<close>, otherwise the entry of exactly that node, or an error when there is
  no such node.  There is no fallback.\<close>

theorem session_confined:
  assumes "kernel_reachable sha224 mb users nodes self (k, issued)" and "gmap_ok users" and "names_ok users" and "s \<in> set issued"
  shows "\<exists>u n c. map_of users u = Some c \<and> n \<in> set (uc_routes c) \<and> parse_id (ks_route s) = (u, n) \<and> owns k (Some s) \<and>
    outbound_for k s =
      (if n = ''direct'' then Inr DirectRoute
       else if n \<in> set (gkeys nodes) then Inr (NodeRoute n) else Inl (UnknownNode n))"
proof -
  have ok: "sessions_ok users self (k, issued)" using kernel_reachable_ok [OF assms(1,2)] by simp
  then have own: "owns k (Some s)" and "granted users (ks_route s)"
    using assms(4) by (simp_all add: sessions_ok_def owns_def)
  then obtain u n c where g: "map_of users u = Some c" "n \<in> set (uc_routes c)" "ks_route s = route_id u n"
    by (auto simp: granted_def)
  have names: "CHR '':'' \<notin> set u" "n \<noteq> []"
    using names_okD(1) [OF assms(3) g(1)] names_okD(3) [OF assms(3) g(1,2)] by simp_all
  then have p: "parse_id (ks_route s) = (u, n)" using g(3) by simp
  have keys: "gkeys (of_entries (kn_outbounds k)) = gkeys nodes" using kernel_reachable_names [OF assms(1)] by simp
  have "outbound_for k s =
      (if n = ''direct'' then Inr DirectRoute
       else if n \<in> set (gkeys nodes) then Inr (NodeRoute n) else Inl (UnknownNode n))"
    unfolding outbound_for_def p factory_get_names keys using names(2) by simp
  with g p own show ?thesis by blast
qed

text \<open>Live updates change the lifecycle of users, never their reach.  After \<open>UpdateUsers\<close>, a proof is
  accepted if and only if it names a user of the start that is also in the loaded set, presents the
  loaded password while the loaded user is active, and names a route granted at the start; users
  that are new in the loaded set, and routes that are new, wait for a restart.\<close>

theorem update_keeps_topology:
  "authenticate now (kn_auth (kernel_update_users sha224 loaded k)) p = Inr rid \<longleftrightarrow>
     (\<exists>u n c0 c. map_of (kn_startup k) u = Some c0 \<and> map_of loaded u = Some c \<and> active_at now c \<and> n \<in> set (uc_routes c0) \<and>
        u \<noteq> [] \<and> n \<noteq> [] \<and> CHR '':'' \<notin> set u \<and> CHR '':'' \<notin> set n \<and>
        p = raw_password u n (uc_password c) \<and> rid = route_id u n)"
proof
  assume "authenticate now (kn_auth (kernel_update_users sha224 loaded k)) p = Inr rid"
  then obtain u n pw c1 where a: "p = raw_password u n pw" "CHR '':'' \<notin> set u" "CHR '':'' \<notin> set n" "u \<noteq> []" "n \<noteq> []"
    "map_of (refresh_snapshot (kn_startup k) loaded) u = Some c1" "active_at now c1" "pw = uc_password c1" "n \<in> set (uc_routes c1)"
    "rid = route_id u n"
    by (auto dest: authenticate_InrD)
  then obtain c0 c where "map_of (kn_startup k) u = Some c0" "map_of loaded u = Some c" "c1 = c\<lparr>uc_routes := uc_routes c0\<rparr>"
    by (cases "map_of loaded u") (auto simp: map_of_refresh_snapshot active_at_def)
  with a show "\<exists>u n c0 c. map_of (kn_startup k) u = Some c0 \<and> map_of loaded u = Some c \<and> active_at now c \<and> n \<in> set (uc_routes c0) \<and>
      u \<noteq> [] \<and> n \<noteq> [] \<and> CHR '':'' \<notin> set u \<and> CHR '':'' \<notin> set n \<and> p = raw_password u n (uc_password c) \<and> rid = route_id u n"
    by (intro exI [of _ u] exI [of _ n] exI [of _ c0] exI [of _ c]) (simp add: active_at_def)
qed (auto simp: authenticate_raw map_of_refresh_snapshot active_at_def)

lemma revoked_transfer_refused:
  assumes "parse_id (ks_route s) = (u, n)"
    and "case map_of loaded u of None \<Rightarrow> True | Some c \<Rightarrow> \<not> active_at (le_now env) c"
  shows "log_traffic mb env (kn_auth (kernel_update_users sha224 loaded k)) (ks_route s) tx rx lg = (Some False, lg)"
proof -
  have "\<not> may_transfer (kn_auth (kernel_update_users sha224 loaded k)) u (le_now env)"
    using assms(2)
    by (cases "map_of loaded u"; cases "map_of (kn_startup k) u")
      (simp_all add: may_transfer_def map_of_refresh_snapshot active_at_def)
  then show ?thesis using assms(1) by (simp add: log_traffic_def)
qed

text \<open>C8: Revocation reaches open connections.  After \<open>UpdateUsers\<close> with a loaded set in which a user is
  missing, disabled or expired, every further transfer on every session of that user is refused and
  nothing is accounted for it.\<close>

theorem revoked_user_cut_off:
  assumes "parse_id (ks_route s) = (u, n)"
    and "case map_of loaded u of None \<Rightarrow> True | Some c \<Rightarrow> \<not> active_at (le_now env) c"
  shows "let k' = kernel_update_users sha224 loaded k in admit mb env (Some s) tx rx k' = (Some False, k')"
  using revoked_transfer_refused [OF assms, of mb sha224 k tx rx "kn_traffic (kernel_update_users sha224 loaded k)"]
  by (simp add: Let_def admit_def)

lemma last_sep_inject:
  fixes a a' b b' :: string
  assumes "c \<notin> set b" "c \<notin> set b'" "a @ c # b = a' @ c # b'"
  shows "b = b'"
proof -
  have "rev b @ c # rev a = rev b' @ c # rev a'" using arg_cong [OF assms(3), of rev] by simp
  then have "rev b = rev b'" using append_sep_inject [of c "rev b" "rev b'" "rev a" "rev a'"] assms(1,2) by simp
  then show ?thesis by simp
qed

text \<open>Sessions cannot be confused.  As long as fewer than \<open>2^64\<close> sessions have been issued, no two of
  them share an identity, whatever the names of the inbounds.\<close>

theorem session_ids_distinct:
  assumes "kernel_reachable sha224 mb users nodes self (k, issued)" and "gmap_ok users" and "length issued < 2 ^ 64"
  shows "distinct (map ks_id issued)"
proof -
  have ok: "sessions_ok users self (k, issued)" using kernel_reachable_ok [OF assms(1,2)] by simp
  let ?L = "length issued"
  have seq: "unat (of_nat (?L - i) :: u64) = ?L - i" for i
    using assms(3) by (simp add: unat_of_nat del: of_nat_diff)
  have "i = j" if "i < ?L" "j < ?L" "ks_id (issued ! i) = ks_id (issued ! j)" for i j
  proof -
    have "ks_inbound (issued ! i) @ CHR ''/'' # format_uint (?L - i) = ks_inbound (issued ! j) @ CHR ''/'' # format_uint (?L - j)"
      using ok that by (simp add: sessions_ok_def seq del: of_nat_diff)
    moreover have "CHR ''/'' \<notin> set (format_uint m)" for m
      by (rule format_uint_notin) (simp add: is_digit_def char_le_def)
    ultimately have "format_uint (?L - i) = format_uint (?L - j)" by (metis last_sep_inject)
    then have "?L - i = ?L - j" by simp
    with that show ?thesis by linarith
  qed
  then show ?thesis by (auto simp: distinct_conv_nth)
qed

text \<open>A session of another kernel, or none at all, has no power.  Every operation refuses it and leaves
  the kernel exactly as it was.\<close>

theorem foreign_session_powerless:
  assumes "\<not> owns k session"
  shows "open_tcp cancelled direct node_tcp session target k = (RouteRefused InvalidSession, None) \<and>
    open_udp direct node_udp session target k = (RouteRefused InvalidSession, None) \<and>
    admit mb env session tx rx k = (Some False, k) \<and> set_online session online k = k \<and>
    connected now session address k = k \<and> disconnected session k = k \<and>
    kernel_start_request now session i protocol target k = k \<and> kernel_stop_request session i k = k"
  using assms
  by (cases session) (simp_all add: owns_def open_tcp_def open_udp_def admit_def set_online_def connected_def disconnected_def
      kernel_start_request_def kernel_stop_request_def)

text \<open>A failing node fails the request.  For a session routed through a node, \<open>OpenTCP\<close> never consults
  the direct dialer: the outcome is the connection or the error of that node's client, or that the
  node is unavailable, and the client is reported dead only if its own call failed with a closed
  connection while the request was still wanted.\<close>

theorem node_failure_stays_closed:
  assumes "owns k (Some s)" and "outbound_for k s = Inr (NodeRoute name)" and "map_of (of_entries (kn_outbounds k)) name = Some nd"
  shows "open_tcp cancelled direct node_tcp (Some s) target k =
    (case current_client (nd_entry nd) of
       Inl why \<Rightarrow> (NodeUnavailableNow why, None)
     | Inr client \<Rightarrow>
         (case node_tcp name client target of
            Inr c \<Rightarrow> (Connection c, None)
          | Inl e \<Rightarrow> (NodeFailed e, if \<not> cancelled \<and> is_closed_connection (Some e) then Some (name, client, e) else None)))"
  using assms by (simp add: open_tcp_def entry_tcp_def split: sum.split)

section \<open>The router and the kernel agree\<close>

lemma router_agrees:
  assumes "fst (parse_id (ks_route s)) \<noteq> []"
  shows "outbound_for_id (kn_outbounds k) (ks_route s) = Inr r \<longleftrightarrow> outbound_for k s = Inr r"
  using assms
  by (cases "parse_id (ks_route s)") (auto simp: outbound_for_id_def get_route_def outbound_for_def Let_def split: option.split)

section \<open>Requests of a Hysteria2 session\<close>

text \<open>The adapter keeps the tracker balanced.  When a session of this kernel is attached, runs a request
  to its end and is detached, the tracker shows for every session what it showed before, and nothing
  for this one.\<close>

theorem adapter_request_cycle:
  assumes "ks_owner (hs_core h) = kn_self k"
  shows "tracker_live (kn_tracker (adapter_disconnect (Hy2 h) (tcp_error_session (Hy2 h) i
      (tcp_request_session now2 (Hy2 h) i target (adapter_connect now1 address (Hy2 h) k))))) sid =
    (if sid = ks_id (hs_core h) then None else tracker_live (kn_tracker k) sid)"
proof -
  have tracker: "kn_tracker (adapter_disconnect (Hy2 h) (tcp_error_session (Hy2 h) i
      (tcp_request_session now2 (Hy2 h) i target (adapter_connect now1 address (Hy2 h) k)))) =
    disconnect_session (ks_id (hs_core h)) (stop_request (ks_id (hs_core h)) i
      (start_request now2 (ks_id (hs_core h)) i ''TCP'' target
        (connect_session now1 (ks_id (hs_core h)) (ks_inbound (hs_core h)) address (ks_route (hs_core h)) (kn_tracker k))))"
    using assms
    by (simp add: adapter_disconnect_def tcp_error_session_def adapter_stop_request_def tcp_request_session_def adapter_start_request_def
        adapter_connect_def session_from_def disconnected_def kernel_stop_request_def kernel_start_request_def connected_def owns_def)
  show ?thesis
    unfolding tracker
    using tracked.request_cycle [of "ks_id (hs_core h)" i "(''TCP'', target, now2)"
        "(now1, ks_inbound (hs_core h), address, ks_route (hs_core h))" "kn_tracker k" sid] by simp
qed

section \<open>Witnesses\<close>

text \<open>A kernel with one user, after one successful authentication.\<close>

definition demo_kernel :: kernel where
  "demo_kernel = new_kernel 1 demo_hash utc True (\<lambda>_ _. True) 5 demo_users demo_nodes None"

definition demo_session :: psession where
  "demo_session = \<lparr>ks_owner = 1, ks_id = ''in/1'', ks_route = ''bob:direct'', ks_inbound = ''in''\<rparr>"

lemma demo_names: "gmap_ok demo_users" "names_ok demo_users"
  by (simp_all add: demo_users_def names_ok_def is_valid_name_def contains_any_def)

lemma demo_kernel_simps [simp]:
  "kn_self demo_kernel = 1" "kn_auth demo_kernel = new_authenticator demo_hash demo_users" "kn_next demo_kernel = 0"
  "kn_startup demo_kernel = demo_users" "kn_outbounds demo_kernel = new_outbound_factory demo_nodes"
  by (simp_all add: demo_kernel_def new_kernel_def Let_def)

lemma demo_session_reachable:
  "kernel_reachable demo_hash utc demo_users demo_nodes 1 (demo_kernel\<lparr>kn_next := 1\<rparr>, [demo_session])"
proof -
  have "authenticate 7 (new_authenticator demo_hash demo_users) ''bob:direct:pw'' = Inr ''bob:direct''"
    by code_simp
  then have "issue (kernel_authenticate 7 ''in'' ''bob:direct:pw'' demo_kernel) [] = (demo_kernel\<lparr>kn_next := 1\<rparr>, [demo_session])"
    by (simp add: kernel_authenticate_simps issue_def demo_session_def) code_simp
  then show ?thesis
    using kr_step [OF kr_init [of demo_hash utc demo_users demo_nodes 1 True "\<lambda>_ _. True" 5 None, folded demo_kernel_def] kst_auth,
        of 7 "''in''" "''bob:direct:pw''"] by simp
qed

theorem session_confined_witness:
  "outbound_for (demo_kernel\<lparr>kn_next := 1\<rparr>) demo_session = Inr DirectRoute"
proof -
  have p: "parse_id (ks_route demo_session) = (''bob'', ''direct'')" by code_simp
  have "demo_session \<in> set [demo_session]" by simp
  from session_confined [OF demo_session_reachable demo_names this] p show ?thesis by auto
qed

text \<open>A second session on an inbound whose name looks like an identity.\<close>

definition demo_session2 :: psession where
  "demo_session2 = demo_session\<lparr>ks_id := ''in/1/2'', ks_inbound := ''in/1''\<rparr>"

lemma demo_sessions_reachable:
  "kernel_reachable demo_hash utc demo_users demo_nodes 1 (demo_kernel\<lparr>kn_next := 2\<rparr>, [demo_session2, demo_session])"
proof -
  have "authenticate 7 (new_authenticator demo_hash demo_users) ''bob:direct:pw'' = Inr ''bob:direct''"
    by code_simp
  then have "issue (kernel_authenticate 7 ''in/1'' ''bob:direct:pw'' (demo_kernel\<lparr>kn_next := 1\<rparr>)) [demo_session] =
      (demo_kernel\<lparr>kn_next := 2\<rparr>, [demo_session2, demo_session])"
    by (simp add: kernel_authenticate_simps issue_def demo_session2_def demo_session_def) code_simp
  then show ?thesis
    using kr_step [OF demo_session_reachable kst_auth, of 7 "''in/1''" "''bob:direct:pw''"] by simp
qed

theorem session_ids_distinct_witness:
  "distinct (map ks_id [demo_session2, demo_session])"
  using session_ids_distinct [OF demo_sessions_reachable demo_names(1)] by simp

theorem revoked_user_cut_off_witness:
  "let k' = kernel_update_users demo_hash [] demo_kernel in admit utc demo_env (Some demo_session) 1 1 k' = (Some False, k')"
proof (rule revoked_user_cut_off)
  show "parse_id (ks_route demo_session) = (''bob'', ''direct'')" by code_simp
  show "case map_of [] ''bob'' of None \<Rightarrow> True | Some c \<Rightarrow> \<not> active_at (le_now demo_env) c" by simp
qed

theorem foreign_session_powerless_witness:
  "admit utc demo_env (Some (demo_session\<lparr>ks_owner := 2\<rparr>)) 1 1 demo_kernel = (Some False, demo_kernel)"
proof -
  have "\<not> owns demo_kernel (Some (demo_session\<lparr>ks_owner := 2\<rparr>))" by (simp add: owns_def)
  from foreign_session_powerless [OF this] show ?thesis by blast
qed

theorem node_failure_stays_closed_witness:
  "fst (open_tcp False (\<lambda>_. Inr (1 :: nat)) (\<lambda>_ _ _. Inr 2) (Some (demo_session\<lparr>ks_route := ''bob:n1''\<rparr>)) ''example.com:80'' demo_kernel) =
     NodeUnavailableNow ''Connecting''"
proof -
  let ?s = "demo_session\<lparr>ks_route := ''bob:n1''\<rparr>"
  have own: "owns demo_kernel (Some ?s)" by (simp add: owns_def demo_session_def)
  have p: "parse_id ''bob:n1'' = (''bob'', ''n1'')" by code_simp
  have entry: "map_of (of_entries (kn_outbounds demo_kernel)) ''n1'' = Some (new_node ''n1'' (snd (hd demo_nodes)))"
    by (simp add: new_outbound_factory_def demo_nodes_def)
  have route: "outbound_for demo_kernel ?s = Inr (NodeRoute ''n1'')"
    using entry by (simp add: outbound_for_def p factory_get_def)
  have cur: "current_client (nd_entry (new_node ''n1'' (snd (hd demo_nodes)))) = Inl ''Connecting''"
    by (simp add: current_client_def new_node_def new_node_entry_def)
  show ?thesis by (subst node_failure_stays_closed [OF own route entry]) (simp add: cur)
qed

theorem adapter_request_cycle_witness:
  "let v = Hy2 \<lparr>hs_core = demo_session, hs_closed = False\<rparr>
   in tracker_live (kn_tracker (adapter_disconnect v (tcp_error_session v 9
        (tcp_request_session 20 v 9 ''example.com:80'' (adapter_connect 10 ''198.51.100.7:5000'' v demo_kernel))))) ''in/1'' = None"
  using adapter_request_cycle [of "\<lparr>hs_core = demo_session, hs_closed = False\<rparr>" demo_kernel]
  by (simp add: demo_session_def)

end
