(* ===== verification/Trojan_Protocol.thy ===== *)
theory Trojan_Protocol
  imports Auth
begin

text \<open>
  The wire protocol of the Trojan inbound (\<open>inbound/trojan/protocol.go\<close>): the credential line, the
  request header and the UDP packets.  A parser consumes a byte stream and yields a value or an
  error together with what is left of the stream.  The facts are the round trips of the encodings,
  the bound on what a header can consume, the exact classification of malformed headers, and that
  the target handed to the kernel is unambiguous.
\<close>

section \<open>Constants and errors\<close>

definition credential_length :: nat where "credential_length = sha224_size * 2"

definition max_initial_header_size :: nat where
  "max_initial_header_size = credential_length + 2 + 1 + 1 + 1 + 255 + 2 + 2"

definition command_connect :: byte where "command_connect = 1"
definition command_udp_associate :: byte where "command_udp_associate = 3"
definition address_ipv4 :: byte where "address_ipv4 = 1"
definition address_domain :: byte where "address_domain = 3"
definition address_ipv6 :: byte where "address_ipv6 = 4"

definition max_udp_payload_size :: nat where "max_udp_payload_size = 65535"
definition max_packet_header_size :: nat where "max_packet_header_size = 1 + 1 + 255 + 2 + 2 + 2"

text \<open>
  The sentinel an error wraps; \<open>InvalidTarget\<close> marks a complete request that local validation
  rejects, \<open>StreamError\<close> an error of the stream itself.
\<close>

datatype trojan_error =
    InvalidCredential
  | InvalidCommand
  | InvalidAddress
  | InvalidPort
  | InvalidDelimiter
  | InvalidPacket
  | InvalidTarget trojan_error
  | StreamError io_error

abbreviation cr :: byte where "cr \<equiv> 13"
abbreviation lf :: byte where "lf \<equiv> 10"

section \<open>Parsers\<close>

type_synonym 'a parser = "reader \<Rightarrow> (trojan_error, 'a) result \<times> reader"

definition preturn :: "'a \<Rightarrow> 'a parser" where
  "preturn a r = (Inr a, r)"

definition pfail :: "trojan_error \<Rightarrow> 'a parser" where
  "pfail e r = (Inl e, r)"

definition pbind :: "'a parser \<Rightarrow> ('a \<Rightarrow> 'b parser) \<Rightarrow> 'b parser" where
  "pbind p f r = (case p r of (Inl e, r') \<Rightarrow> (Inl e, r') | (Inr a, r') \<Rightarrow> f a r')"

definition pread :: "nat \<Rightarrow> (io_error \<Rightarrow> trojan_error) \<Rightarrow> bytes parser" where
  "pread n wrap r = (case read_full n r of (Inl e, r') \<Rightarrow> (Inl (wrap e), r') | (Inr bs, r') \<Rightarrow> (Inr bs, r'))"

definition pguard :: "bool \<Rightarrow> trojan_error \<Rightarrow> unit parser" where
  "pguard c e = (if c then preturn () else pfail e)"

section \<open>Reading\<close>

definition valid_credential :: "string \<Rightarrow> bool" where
  "valid_credential credential \<longleftrightarrow> length credential = credential_length \<and> list_all is_lower_hex credential"

definition read_credential :: "string parser" where
  "read_credential =
     pbind (pread (credential_length + 2) (\<lambda>_. InvalidCredential)) (\<lambda>encoded.
     pbind (pguard (encoded ! credential_length = cr \<and> encoded ! (credential_length + 1) = lf) InvalidDelimiter) (\<lambda>_.
     let credential = string_of_bytes (take credential_length encoded)
     in pbind (pguard (valid_credential credential) InvalidCredential) (\<lambda>_. preturn credential)))"

text \<open>\<open>validDomain\<close>: no control character and nothing that is special in a joined address.\<close>

definition bad_domain_char :: "char \<Rightarrow> bool" where
  "bad_domain_char c \<longleftrightarrow>
     char_le c CHR '' '' \<or> c = CHR 0x7F \<or> c \<in> {CHR '':'', CHR ''['', CHR '']'', CHR ''/'', CHR 0x5C, CHR ''?'', CHR ''#'', CHR ''@'', CHR ''%''}"

definition valid_domain :: "string \<Rightarrow> bool" where
  "valid_domain host \<longleftrightarrow> host \<noteq> [] \<and> list_all (\<lambda>c. \<not> bad_domain_char c) host"

definition read_host :: "byte \<Rightarrow> string parser" where
  "read_host address_type =
     (if address_type = address_ipv4
      then pbind (pread 4 (\<lambda>_. InvalidAddress)) (\<lambda>raw. preturn (ip_string raw))
      else if address_type = address_ipv6
      then pbind (pread 16 (\<lambda>_. InvalidAddress)) (\<lambda>raw. preturn (ip_string raw))
      else if address_type = address_domain
      then pbind (pread 1 (\<lambda>_. InvalidAddress)) (\<lambda>len.
           pbind (pguard (hd len \<noteq> 0) InvalidAddress) (\<lambda>_.
           pbind (pread (unat (hd len)) (\<lambda>_. InvalidAddress)) (\<lambda>raw. preturn (string_of_bytes raw))))
      else pfail InvalidAddress)"

record trojan_request =
  tq_command :: byte
  tq_target :: string

definition udp_associate :: "trojan_request \<Rightarrow> bool" where
  "udp_associate r \<longleftrightarrow> tq_command r = command_udp_associate"

definition read_request :: "trojan_request parser" where
  "read_request =
     pbind (pread 2 (\<lambda>_. InvalidCommand)) (\<lambda>prefix.
     pbind (pguard (prefix ! 0 = command_connect \<or> prefix ! 0 = command_udp_associate) InvalidCommand) (\<lambda>_.
     pbind (read_host (prefix ! 1)) (\<lambda>host.
     pbind (pread 4 (\<lambda>_. InvalidAddress)) (\<lambda>suffix.
     let port = be16 (suffix ! 0) (suffix ! 1)
     in pbind (pguard (suffix ! 2 = cr \<and> suffix ! 3 = lf) InvalidDelimiter) (\<lambda>_.
        pbind (pguard (\<not> (prefix ! 1 = address_domain \<and> \<not> valid_domain host)) (InvalidTarget InvalidAddress)) (\<lambda>_.
        pbind (pguard (\<not> (port = 0 \<and> prefix ! 0 = command_connect)) (InvalidTarget InvalidPort)) (\<lambda>_.
        preturn \<lparr>tq_command = prefix ! 0, tq_target = join_host_port host (format_uint port)\<rparr>)))))))"

definition read_connect_target :: "string parser" where
  "read_connect_target =
     pbind read_request (\<lambda>request.
     pbind (pguard (tq_command request = command_connect) InvalidCommand) (\<lambda>_. preturn (tq_target request)))"

text \<open>\<open>ReadPacket\<close> with a buffer of \<open>buf_size\<close> bytes: destination and payload.\<close>

definition read_packet :: "nat \<Rightarrow> (string \<times> bytes) parser" where
  "read_packet buf_size =
     pbind (pread 1 StreamError) (\<lambda>address_type.
     pbind (read_host (hd address_type)) (\<lambda>host.
     pbind (pguard (\<not> (hd address_type = address_domain \<and> \<not> valid_domain host)) InvalidAddress) (\<lambda>_.
     pbind (pread 6 (\<lambda>_. InvalidPacket)) (\<lambda>header.
     let port = be16 (header ! 0) (header ! 1); len = be16 (header ! 2) (header ! 3)
     in pbind (pguard (port \<noteq> 0) InvalidPort) (\<lambda>_.
        pbind (pguard (header ! 4 = cr \<and> header ! 5 = lf) InvalidDelimiter) (\<lambda>_.
        pbind (pguard (len \<le> buf_size) InvalidPacket) (\<lambda>_.
        pbind (pread len (\<lambda>_. InvalidPacket)) (\<lambda>payload.
        preturn (join_host_port host (format_uint port), payload)))))))))"

section \<open>Writing\<close>

definition encode_host :: "string \<Rightarrow> (trojan_error, bytes) result" where
  "encode_host host =
     (case parse_ip host of
        Some ip \<Rightarrow> (case to4 ip of Some v4 \<Rightarrow> Inr (address_ipv4 # v4) | None \<Rightarrow> Inr (address_ipv6 # ip))
      | None \<Rightarrow>
          if host = [] \<or> 255 < length host \<or> CHR 0x00 \<in> set host then Inl InvalidAddress
          else Inr (address_domain # of_nat (length host) # bytes_of_string host))"

definition cut_zone :: "string \<Rightarrow> string" where
  "cut_zone host = (case index_byte host CHR ''%'' of None \<Rightarrow> host | Some zone \<Rightarrow> take zone host)"

definition append_packet :: "bytes \<Rightarrow> string \<Rightarrow> bytes \<Rightarrow> (trojan_error, bytes) result" where
  "append_packet dst source payload =
     (case split_host_port source of
        Inl _ \<Rightarrow> Inl InvalidAddress
      | Inr (host, port_text) \<Rightarrow>
          (case parse_uint 16 port_text of
             None \<Rightarrow> Inl InvalidPort
           | Some port \<Rightarrow>
               if port = 0 then Inl InvalidPort
               else if max_udp_payload_size < length payload then Inl InvalidPacket
               else (case encode_host (cut_zone host) of
                       Inl e \<Rightarrow> Inl e
                     | Inr address \<Rightarrow>
                         Inr (dst @ address @ put_be16 port @ put_be16 (length payload) @ [cr, lf] @ payload))))"

section \<open>Running parsers\<close>

lemma preturn_run [simp]: "preturn a r = (Inr a, r)"
  by (simp add: preturn_def)

lemma pfail_run [simp]: "pfail e r = (Inl e, r)"
  by (simp add: pfail_def)

lemma pguard_run [simp]: "pguard c e r = (if c then (Inr (), r) else (Inl e, r))"
  by (simp add: pguard_def)

lemma pbind_Inr: "p r = (Inr a, r') \<Longrightarrow> pbind p f r = f a r'"
  by (simp add: pbind_def)

lemma pbind_Inl: "p r = (Inl e, r') \<Longrightarrow> pbind p f r = (Inl e, r')"
  by (simp add: pbind_def)

lemma pbind_pguard [simp]: "pbind (pguard c e) f r = (if c then f () r else (Inl e, r))"
  by (simp add: pbind_def)

lemma pbind_preturn [simp]: "pbind (preturn a) f = f a"
  by (simp add: pbind_def fun_eq_iff)

lemma pbind_pfail [simp]: "pbind (pfail e) f = pfail e"
  by (simp add: pbind_def pfail_def fun_eq_iff)

lemma pbind_assoc: "pbind (pbind p f) g = pbind p (\<lambda>a. pbind (f a) g)"
  by (auto simp: pbind_def fun_eq_iff split: prod.split sum.split)

lemma pread_append:
  assumes "length bs = n"
  shows "pread n wrap \<lparr>rd_data = bs @ rest, rd_end = e\<rparr> = (Inr bs, \<lparr>rd_data = rest, rd_end = e\<rparr>)"
  using assms by (simp add: pread_def read_full_exact)

lemma pbind_pread:
  "pbind (pread n wrap) f r =
     (if n \<le> length (rd_data r) then f (take n (rd_data r)) (r\<lparr>rd_data := drop n (rd_data r)\<rparr>)
      else (Inl (wrap (if rd_data r = [] then rd_end r else if rd_end r = EOF then ErrUnexpectedEOF else rd_end r)), r\<lparr>rd_data := []\<rparr>))"
  by (auto simp: pbind_def pread_def read_full_def)

section \<open>What a parser consumes\<close>

definition consumes :: "nat \<Rightarrow> 'a parser \<Rightarrow> bool" where
  "consumes n p \<longleftrightarrow> (\<forall>r res r'. p r = (res, r') \<longrightarrow> (\<exists>ys. rd_data r = ys @ rd_data r' \<and> length ys \<le> n))"

lemma consumesD:
  assumes "consumes n p" "p r = (res, r')"
  obtains ys where "rd_data r = ys @ rd_data r'" "length ys \<le> n"
  using assms unfolding consumes_def by blast

lemma consumes_preturn [simp]: "consumes n (preturn a)" and consumes_pfail [simp]: "consumes n (pfail e)"
  and consumes_pguard [simp]: "consumes n (pguard c e)"
  by (auto simp: consumes_def split: if_split_asm)

lemma consumes_pread: "k \<le> n \<Longrightarrow> consumes n (pread k wrap)"
  unfolding consumes_def pread_def
proof (intro allI impI)
  fix r res r'
  assume "k \<le> n" "(case read_full k r of (Inl e, r') \<Rightarrow> (Inl (wrap e), r') | (Inr bs, r') \<Rightarrow> (Inr bs, r')) = (res, r')"
  then obtain x where "read_full k r = (x, r')" by (auto split: prod.split_asm sum.split_asm)
  from read_full_suffix [OF this] \<open>k \<le> n\<close> show "\<exists>ys. rd_data r = ys @ rd_data r' \<and> length ys \<le> n" by fastforce
qed

lemma consumes_pbind:
  assumes "consumes n p" "\<And>a. consumes m (f a)"
  shows "consumes (n + m) (pbind p f)"
  unfolding consumes_def
proof (intro allI impI)
  fix r res r'
  assume run: "pbind p f r = (res, r')"
  obtain x r1 where p: "p r = (x, r1)" by fastforce
  obtain ys where ys: "rd_data r = ys @ rd_data r1" "length ys \<le> n" using consumesD [OF assms(1) p] .
  show "\<exists>ys. rd_data r = ys @ rd_data r' \<and> length ys \<le> n + m"
  proof (cases x)
    case (Inl e)
    with run p ys show ?thesis by (auto simp: pbind_def)
  next
    case (Inr a)
    with run p have "f a r1 = (res, r')" by (simp add: pbind_def)
    from consumesD [OF assms(2) this] obtain zs where "rd_data r1 = zs @ rd_data r'" "length zs \<le> m" .
    with ys show ?thesis by (intro exI [of _ "ys @ zs"]) simp
  qed
qed

lemma consumes_mono: "consumes n p \<Longrightarrow> n \<le> m \<Longrightarrow> consumes m p"
  by (fastforce simp: consumes_def)

lemma consumes_guard: "consumes n (f ()) \<Longrightarrow> consumes n (pbind (pguard c e) f)"
  by (cases c) (auto simp: pguard_def)

lemma consumes_read_host: "consumes 256 (read_host t)"
proof -
  have "consumes (4 + 0) (pbind (pread 4 (\<lambda>_. InvalidAddress)) (\<lambda>raw. preturn (ip_string raw)))"
    "consumes (16 + 0) (pbind (pread 16 (\<lambda>_. InvalidAddress)) (\<lambda>raw. preturn (ip_string raw)))"
    by (rule consumes_pbind; simp add: consumes_pread)+
  moreover have "consumes (1 + 255) (pbind (pread 1 (\<lambda>_. InvalidAddress)) (\<lambda>len.
      pbind (pguard (hd len \<noteq> 0) InvalidAddress) (\<lambda>_.
      pbind (pread (unat (hd len)) (\<lambda>_. InvalidAddress)) (\<lambda>raw. preturn (string_of_bytes raw)))))"
  proof (rule consumes_pbind, simp add: consumes_pread, rule consumes_guard)
    fix len :: bytes
    have "unat (hd len) \<le> 255" using unat_byte_less [of "hd len"] by linarith
    then have "consumes (255 + 0) (pbind (pread (unat (hd len)) (\<lambda>_. InvalidAddress)) (\<lambda>raw. preturn (string_of_bytes raw)))"
      by (intro consumes_pbind) (simp_all add: consumes_pread)
    then show "consumes 255 (pbind (pread (unat (hd len)) (\<lambda>_. InvalidAddress)) (\<lambda>raw. preturn (string_of_bytes raw)))" by simp
  qed
  ultimately show ?thesis
    by (auto simp: read_host_def intro: consumes_mono)
qed

lemma consumes_read_request: "consumes 262 read_request"
proof -
  have "consumes (2 + (256 + (4 + 0))) read_request"
    unfolding read_request_def Let_def
    by (intro consumes_pbind consumes_guard consumes_read_host) (simp_all add: consumes_pread)
  then show ?thesis by simp
qed

lemma consumes_read_credential: "consumes 58 read_credential"
proof -
  have "consumes ((credential_length + 2) + 0) read_credential"
    unfolding read_credential_def Let_def
    by (intro consumes_pbind consumes_guard) (simp_all add: consumes_pread)
  then show ?thesis by (simp add: credential_length_def sha224_size_def)
qed

text \<open>A client cannot make the server read an unbounded header.  Whatever it sends, reading the
  credential and the request takes at most \<open>maxInitialHeaderSize\<close> bytes (320) from the connection, and
  takes them from the front of the stream.\<close>

theorem initial_header_bounded:
  assumes "pbind read_credential (\<lambda>credential. pbind read_request (\<lambda>request. preturn (credential, request))) r = (res, r')"
  shows "\<exists>header. rd_data r = header @ rd_data r' \<and> length header \<le> max_initial_header_size"
proof -
  have "consumes (58 + (262 + 0)) (pbind read_credential (\<lambda>credential. pbind read_request (\<lambda>request. preturn (credential, request))))"
    by (intro consumes_pbind consumes_read_credential consumes_read_request) simp
  from consumesD [OF this assms] obtain ys where "rd_data r = ys @ rd_data r'" "length ys \<le> 58 + (262 + 0)" .
  then show ?thesis by (auto simp: max_initial_header_size_def credential_length_def sha224_size_def)
qed

theorem initial_header_bounded_witness:
  "\<exists>header res r'. pbind read_credential (\<lambda>credential. pbind read_request (\<lambda>request. preturn (credential, request)))
       \<lparr>rd_data = replicate 400 65, rd_end = EOF\<rparr> = (res, r') \<and>
     replicate 400 65 = header @ rd_data r' \<and> length header \<le> 320"
proof -
  obtain res r' where run: "pbind read_credential (\<lambda>credential. pbind read_request (\<lambda>request. preturn (credential, request)))
      \<lparr>rd_data = replicate 400 65, rd_end = EOF\<rparr> = (res, r')" by fastforce
  from initial_header_bounded [OF this] run show ?thesis
    by (auto simp: max_initial_header_size_def credential_length_def sha224_size_def)
qed

section \<open>The wire format\<close>

text \<open>
  The structure of an address and of a request on the wire, independent of the parser: an IPv4
  address, an IPv6 address or a length-prefixed domain of 1 to 255 bytes.
\<close>

datatype host_wire = WireV4 bytes | WireV6 bytes | WireDomain bytes

fun host_wire_ok :: "host_wire \<Rightarrow> bool" where
  "host_wire_ok (WireV4 b) \<longleftrightarrow> length b = 4"
| "host_wire_ok (WireV6 b) \<longleftrightarrow> length b = 16"
| "host_wire_ok (WireDomain b) \<longleftrightarrow> b \<noteq> [] \<and> length b \<le> 255"

fun host_type :: "host_wire \<Rightarrow> byte" where
  "host_type (WireV4 b) = address_ipv4"
| "host_type (WireV6 b) = address_ipv6"
| "host_type (WireDomain b) = address_domain"

fun host_body :: "host_wire \<Rightarrow> bytes" where
  "host_body (WireV4 b) = b"
| "host_body (WireV6 b) = b"
| "host_body (WireDomain b) = of_nat (length b) # b"

fun host_text :: "host_wire \<Rightarrow> string" where
  "host_text (WireV4 b) = ip_string b"
| "host_text (WireV6 b) = ip_string b"
| "host_text (WireDomain b) = string_of_bytes b"

definition request_wire :: "byte \<Rightarrow> host_wire \<Rightarrow> nat \<Rightarrow> bytes" where
  "request_wire cmd h port = [cmd, host_type h] @ host_body h @ put_be16 port @ [cr, lf]"

text \<open>What local validation says about a complete request.\<close>

definition judge_request :: "byte \<Rightarrow> host_wire \<Rightarrow> nat \<Rightarrow> (trojan_error, trojan_request) result" where
  "judge_request cmd h port =
     (if (case h of WireDomain b \<Rightarrow> \<not> valid_domain (string_of_bytes b) | _ \<Rightarrow> False) then Inl (InvalidTarget InvalidAddress)
      else if port = 0 \<and> cmd = command_connect then Inl (InvalidTarget InvalidPort)
      else Inr \<lparr>tq_command = cmd, tq_target = join_host_port (host_text h) (format_uint port)\<rparr>)"

definition known_command :: "byte \<Rightarrow> bool" where
  "known_command cmd \<longleftrightarrow> cmd = command_connect \<or> cmd = command_udp_associate"

lemmas address_types = address_ipv4_def address_ipv6_def address_domain_def

lemma unat_length_byte: "length b \<le> 255 \<Longrightarrow> unat (of_nat (length b) :: byte) = length b"
  by (simp add: unat_of_nat)

lemma of_nat_byte_zero: "length b \<le> 255 \<Longrightarrow> (of_nat (length b) :: byte) = 0 \<longleftrightarrow> b = []"
  using unat_length_byte [of b] by (cases "b = []") auto

lemma read_host_wire:
  assumes "host_wire_ok h"
  shows "read_host (host_type h) \<lparr>rd_data = host_body h @ rest, rd_end = e\<rparr> = (Inr (host_text h), \<lparr>rd_data = rest, rd_end = e\<rparr>)"
proof (cases h)
  case (WireDomain b)
  with assms have b: "b \<noteq> []" "length b \<le> 255" by simp_all
  then have "(of_nat (length b) :: byte) \<noteq> 0" by (simp add: of_nat_byte_zero)
  moreover have "unat (of_nat (length b) :: byte) = length b" using b by (simp add: unat_length_byte)
  ultimately show ?thesis
    unfolding WireDomain by (simp add: read_host_def address_types pbind_pread del: of_nat_eq_0_iff)
qed (use assms in \<open>simp_all add: read_host_def address_types pbind_pread\<close>)

lemma read_host_InrD:
  assumes "read_host t r = (Inr host, r')"
  shows "\<exists>h. host_wire_ok h \<and> host_type h = t \<and> host_text h = host \<and> r = r'\<lparr>rd_data := host_body h @ rd_data r'\<rparr>"
proof -
  consider (v4) "t = address_ipv4" | (v6) "t = address_ipv6" | (dom) "t = address_domain"
    using assms by (auto simp: read_host_def split: if_split_asm)
  then show ?thesis
  proof cases
    case v4
    with assms have "4 \<le> length (rd_data r)" "host = ip_string (take 4 (rd_data r))" "r' = r\<lparr>rd_data := drop 4 (rd_data r)\<rparr>"
      by (auto simp: read_host_def pbind_pread split: if_split_asm)
    with v4 show ?thesis by (intro exI [of _ "WireV4 (take 4 (rd_data r))"]) simp
  next
    case v6
    with assms have "16 \<le> length (rd_data r)" "host = ip_string (take 16 (rd_data r))" "r' = r\<lparr>rd_data := drop 16 (rd_data r)\<rparr>"
      by (auto simp: read_host_def pbind_pread address_types split: if_split_asm)
    with v6 show ?thesis by (intro exI [of _ "WireV6 (take 16 (rd_data r))"]) simp
  next
    case dom
    with assms obtain b bs where d: "rd_data r = b # bs" "b \<noteq> 0" "unat b \<le> length bs" "host = string_of_bytes (take (unat b) bs)"
      "r' = r\<lparr>rd_data := drop (unat b) bs\<rparr>"
      by (cases "rd_data r") (auto simp: read_host_def pbind_pread address_types split: if_split_asm)
    have "unat b \<le> 255" "unat b \<noteq> 0" using unat_byte_less [of b] d(2) by (linarith, simp add: unat_eq_0)
    with dom d show ?thesis by (intro exI [of _ "WireDomain (take (unat b) bs)"]) (auto simp: min_def)
  qed
qed

lemma be16_put_be16_nth: "n < 65536 \<Longrightarrow> be16 (put_be16 n ! 0) (put_be16 n ! Suc 0) = n"
  by (simp add: put_be16_def be16_put_be16)

lemma put_be16_be16: "put_be16 (be16 hi lo) = [hi, lo]"
  by (simp add: put_be16_def be16_def)

lemma read_request_wire:
  assumes "known_command cmd" "host_wire_ok h" "port < 65536"
  shows "read_request \<lparr>rd_data = request_wire cmd h port @ rest, rd_end = e\<rparr> = (judge_request cmd h port, \<lparr>rd_data = rest, rd_end = e\<rparr>)"
proof -
  obtain a b where port: "put_be16 port = [a, b]" "be16 a b = port"
    using be16_put_be16_nth [OF assms(3)] by (auto simp: put_be16_def)
  have "host_type h = address_domain \<longleftrightarrow> (\<exists>b. h = WireDomain b)" by (cases h) (simp_all add: address_types)
  then show ?thesis
    using assms(1) read_host_wire [OF assms(2), of "[a, b, cr, lf] @ rest" e]
    by (cases h) (simp_all add: read_request_def request_wire_def pbind_pread pbind_Inr known_command_def port judge_request_def)
qed

lemma read_host_InlD: "read_host t r = (Inl e, r') \<Longrightarrow> e = InvalidAddress"
  by (auto simp: read_host_def pbind_pread split: if_split_asm)

text \<open>An outcome that is not a structural error: a request, or a target that local validation rejects.\<close>

definition well_formed :: "(trojan_error, 'a) result \<Rightarrow> bool" where
  "well_formed res = (case res of Inr _ \<Rightarrow> True | Inl (InvalidTarget _) \<Rightarrow> True | _ \<Rightarrow> False)"

lemma read_request_wfD:
  assumes "read_request r = (res, r')" "well_formed res"
  shows "\<exists>cmd h port. known_command cmd \<and> host_wire_ok h \<and> port < 65536 \<and> r = r'\<lparr>rd_data := request_wire cmd h port @ rd_data r'\<rparr>"
proof -
  obtain cmd t bs where r: "rd_data r = cmd # t # bs" "known_command cmd"
  proof (cases "2 \<le> length (rd_data r)")
    case True
    then obtain cmd t bs where d: "rd_data r = cmd # t # bs" by (cases "rd_data r"; cases "tl (rd_data r)") auto
    have "known_command cmd"
      using assms d by (auto simp: read_request_def pbind_pread well_formed_def known_command_def split: if_split_asm)
    with d that show ?thesis by blast
  next
    case False
    with assms show ?thesis by (auto simp: read_request_def pbind_pread well_formed_def)
  qed
  obtain x r1 where h: "read_host t (r\<lparr>rd_data := bs\<rparr>) = (x, r1)" by fastforce
  obtain host where x: "x = Inr host"
  proof (cases x)
    case (Inl e)
    with h have "e = InvalidAddress" by (auto dest: read_host_InlD)
    with assms r h Inl show ?thesis
      by (auto simp: read_request_def pbind_pread pbind_Inl known_command_def well_formed_def)
  qed
  from read_host_InrD [OF h [unfolded x]] obtain hw where hw: "host_wire_ok hw" "host_type hw = t"
    "r\<lparr>rd_data := bs\<rparr> = r1\<lparr>rd_data := host_body hw @ rd_data r1\<rparr>" by blast
  have rest: "(pbind (pread 4 (\<lambda>_. InvalidAddress)) (\<lambda>suffix.
     let port = be16 (suffix ! 0) (suffix ! 1)
     in pbind (pguard (suffix ! 2 = cr \<and> suffix ! 3 = lf) InvalidDelimiter) (\<lambda>_.
        pbind (pguard (\<not> (t = address_domain \<and> \<not> valid_domain host)) (InvalidTarget InvalidAddress)) (\<lambda>_.
        pbind (pguard (\<not> (port = 0 \<and> cmd = command_connect)) (InvalidTarget InvalidPort)) (\<lambda>_.
        preturn \<lparr>tq_command = cmd, tq_target = join_host_port host (format_uint port)\<rparr>))))) r1 = (res, r')"
    using assms(1) r h x by (simp add: read_request_def pbind_pread pbind_Inr known_command_def)
  with assms(2) have four: "4 \<le> length (rd_data r1)"
    by (auto simp: pbind_pread well_formed_def split: if_split_asm)
  then obtain a b c d es where e: "rd_data r1 = a # b # c # d # es"
    by (metis Suc_le_length_iff numeral_eq_Suc pred_numeral_simps(2) pred_numeral_simps(3) BitM.simps(1) BitM.simps(2))
  have "c = cr" "d = lf" "r' = r1\<lparr>rd_data := es\<rparr>"
    using rest assms(2) e by (auto simp: pbind_pread well_formed_def Let_def split: if_split_asm)
  then have "r = r'\<lparr>rd_data := request_wire cmd hw (be16 a b) @ rd_data r'\<rparr>"
    using hw r e by (cases r; cases r1) (simp add: request_wire_def put_be16_be16)
  then show ?thesis using r(2) hw(1) be16_bound by blast
qed

text \<open>Malformed headers and rejected targets are told apart exactly.  Reading a request yields a
  request or a rejected target if and only if the stream starts with a complete request of the wire
  format (a known command, an address, a port, CRLF); it then consumes exactly that request and the
  outcome is what local validation says about it.  In every other case the error is structural, so
  an authenticated request with a forbidden target is never mistaken for other traffic.\<close>

theorem request_classification:
  "read_request r = (res, r') \<and> well_formed res \<longleftrightarrow>
     (\<exists>cmd h port. known_command cmd \<and> host_wire_ok h \<and> port < 65536 \<and>
        r = r'\<lparr>rd_data := request_wire cmd h port @ rd_data r'\<rparr> \<and> res = judge_request cmd h port)"
proof
  assume a: "read_request r = (res, r') \<and> well_formed res"
  then obtain cmd h port where w: "known_command cmd" "host_wire_ok h" "port < 65536"
    "r = r'\<lparr>rd_data := request_wire cmd h port @ rd_data r'\<rparr>"
    using read_request_wfD by blast
  then have "r = \<lparr>rd_data = request_wire cmd h port @ rd_data r', rd_end = rd_end r'\<rparr>" by (cases r') simp
  with read_request_wire [OF w(1,2,3), of "rd_data r'" "rd_end r'"] a have "res = judge_request cmd h port" by simp
  with w show "\<exists>cmd h port. known_command cmd \<and> host_wire_ok h \<and> port < 65536 \<and>
      r = r'\<lparr>rd_data := request_wire cmd h port @ rd_data r'\<rparr> \<and> res = judge_request cmd h port" by blast
next
  assume "\<exists>cmd h port. known_command cmd \<and> host_wire_ok h \<and> port < 65536 \<and>
      r = r'\<lparr>rd_data := request_wire cmd h port @ rd_data r'\<rparr> \<and> res = judge_request cmd h port"
  then obtain cmd h port where w: "known_command cmd" "host_wire_ok h" "port < 65536"
    "r = r'\<lparr>rd_data := request_wire cmd h port @ rd_data r'\<rparr>" "res = judge_request cmd h port" by blast
  then have "r = \<lparr>rd_data = request_wire cmd h port @ rd_data r', rd_end = rd_end r'\<rparr>"
    "\<lparr>rd_data = rd_data r', rd_end = rd_end r'\<rparr> = r'" by (cases r'; simp)+
  with read_request_wire [OF w(1,2,3), of "rd_data r'" "rd_end r'"] w(5) show "read_request r = (res, r') \<and> well_formed res"
    by (auto simp: judge_request_def well_formed_def)
qed

section \<open>Targets\<close>

lemma valid_domain_notin: "valid_domain host \<Longrightarrow> bad_domain_char c \<Longrightarrow> c \<notin> set host"
  by (auto simp: valid_domain_def list_all_iff)

lemma valid_domain_plain:
  assumes "valid_domain host"
  shows "CHR '':'' \<notin> set host" "CHR ''['' \<notin> set host" "CHR '']'' \<notin> set host" "CHR ''%'' \<notin> set host" "CHR 0x00 \<notin> set host"
  by (rule valid_domain_notin [OF assms]; simp add: bad_domain_char_def char_le_def)+

lemma format_uint_plain: "CHR '':'' \<notin> set (format_uint n)" "CHR ''['' \<notin> set (format_uint n)" "CHR '']'' \<notin> set (format_uint n)"
  by (rule format_uint_notin; simp add: is_digit_def char_le_def)+

lemma split_target:
  assumes "valid_domain host \<or> (\<exists>ip. host = ip_string ip)"
  shows "split_host_port (join_host_port host (format_uint port)) = Inr (host, format_uint port)"
  using assms valid_domain_plain by (intro split_join_host_port) (auto simp: format_uint_plain)

text \<open>C28: The target handed to the kernel is unambiguous.  The bytes that an accepted request consumed are its command,
  an address of the named type with its length, the port in big-endian order and a line end, and the target splits into
  exactly that host (an address in its canonical text, a domain byte for byte) and that port in decimal, which
  for \<open>CONNECT\<close> is not zero; a host that is a domain contains no control character and no address syntax.\<close>

theorem request_target_unambiguous:
  assumes "read_request r = (Inr req, r')"
  shows "\<exists>h port. rd_data r = [tq_command req, host_type h] @ host_body h @ [of_nat (port div 256), of_nat (port mod 256), cr, lf] @ rd_data r' \<and>
    rd_end r = rd_end r' \<and> host_wire_ok h \<and> split_host_port (tq_target req) = Inr (host_text h, format_uint port) \<and> port < 65536 \<and>
    (tq_command req = command_connect \<longrightarrow> port \<noteq> 0) \<and> known_command (tq_command req) \<and>
    (case h of WireDomain b \<Rightarrow> valid_domain (string_of_bytes b) | _ \<Rightarrow> True)"
proof -
  have wf: "well_formed (Inr req :: (trojan_error, trojan_request) result)" by (simp add: well_formed_def)
  from read_request_wfD [OF assms wf] obtain cmd h port where w: "known_command cmd" "host_wire_ok h" "port < 65536"
    "r = r'\<lparr>rd_data := request_wire cmd h port @ rd_data r'\<rparr>" by blast
  then have "r = \<lparr>rd_data = request_wire cmd h port @ rd_data r', rd_end = rd_end r'\<rparr>" by (cases r') simp
  with read_request_wire [OF w(1,2,3), of "rd_data r'" "rd_end r'"] assms have j: "judge_request cmd h port = Inr req" by simp
  have host: "valid_domain (host_text h) \<or> (\<exists>ip. host_text h = ip_string ip)"
    using j by (cases h) (auto simp: judge_request_def split: if_split_asm)
  have "case h of WireDomain b \<Rightarrow> valid_domain (string_of_bytes b) | _ \<Rightarrow> True"
    using j by (cases h) (auto simp: judge_request_def split: if_split_asm)
  moreover have "tq_target req = join_host_port (host_text h) (format_uint port)" "tq_command req = cmd"
    "tq_command req = command_connect \<longrightarrow> port \<noteq> 0"
    using j by (auto simp: judge_request_def split: if_split_asm)
  ultimately show ?thesis
    using split_target [OF host, of port] w
    by (intro exI [of _ h] exI [of _ port]) (simp add: request_wire_def put_be16_def)
qed

section \<open>UDP packets\<close>

lemma encode_host_wire:
  assumes "encode_host host = Inr bs"
  shows "\<exists>h. host_wire_ok h \<and> bs = host_type h # host_body h \<and>
    host_text h = (case parse_ip host of Some ip \<Rightarrow> ip_string ip | None \<Rightarrow> host) \<and>
    (host_type h = address_domain \<longleftrightarrow> parse_ip host = None)"
proof (cases "parse_ip host")
  case None
  with assms have "host \<noteq> []" "length host \<le> 255" "bs = address_domain # of_nat (length host) # bytes_of_string host"
    by (auto simp: encode_host_def split: if_split_asm)
  with None show ?thesis by (intro exI [of _ "WireDomain (bytes_of_string host)"]) simp
next
  case (Some ip)
  note len = parse_ip_length [OF Some]
  show ?thesis
  proof (cases "to4 ip")
    case None
    with Some assms len show ?thesis by (intro exI [of _ "WireV6 ip"]) (simp add: encode_host_def address_types)
  next
    case (Some q)
    from to4_length [OF Some] to4_ip_string [OF Some] Some \<open>parse_ip host = Some ip\<close> assms show ?thesis
      by (intro exI [of _ "WireV4 q"]) (simp add: encode_host_def address_types)
  qed
qed

text \<open>The source of a packet as its reader sees it: the zone dropped, an address in canonical form.\<close>

definition canonical_host :: "string \<Rightarrow> string" where
  "canonical_host host = (case parse_ip (cut_zone host) of Some ip \<Rightarrow> ip_string ip | None \<Rightarrow> cut_zone host)"

lemma read_packet_append:
  assumes "append_packet [] source payload = Inr packet" and "split_host_port source = Inr (host, port_text)"
    and "parse_ip (cut_zone host) \<noteq> None \<or> valid_domain (cut_zone host)" and "length payload \<le> buf_size"
  shows "\<exists>port. parse_uint 16 port_text = Some port \<and>
    read_packet buf_size \<lparr>rd_data = packet @ rest, rd_end = e\<rparr> =
      (Inr (join_host_port (canonical_host host) (format_uint port), payload), \<lparr>rd_data = rest, rd_end = e\<rparr>)"
proof -
  from assms(1,2) obtain port address where port: "parse_uint 16 port_text = Some port" "port \<noteq> 0"
    and len: "length payload \<le> max_udp_payload_size"
    and enc: "encode_host (cut_zone host) = Inr address"
    and packet: "packet = address @ put_be16 port @ put_be16 (length payload) @ [cr, lf] @ payload"
    by (auto simp: append_packet_def not_less split: option.split_asm if_split_asm sum.split_asm)
  from encode_host_wire [OF enc] obtain h where h: "host_wire_ok h" "address = host_type h # host_body h"
    "host_text h = canonical_host host" "host_type h = address_domain \<longleftrightarrow> parse_ip (cut_zone host) = None"
    by (auto simp: canonical_host_def)
  have p: "port < 65536" using parse_uint_bound [OF port(1)] by simp
  have l: "length payload < 65536" using len by (simp add: max_udp_payload_size_def)
  obtain a b c d where ab: "put_be16 port = [a, b]" "be16 a b = port" and cd: "put_be16 (length payload) = [c, d]" "be16 c d = length payload"
    using be16_put_be16_nth [OF p] be16_put_be16_nth [OF l] by (auto simp: put_be16_def)
  have "\<not> (host_type h = address_domain \<and> \<not> valid_domain (host_text h))"
    using h(3,4) assms(3) by (auto simp: canonical_host_def)
  then have "read_packet buf_size \<lparr>rd_data = packet @ rest, rd_end = e\<rparr> =
      (Inr (join_host_port (host_text h) (format_uint port), payload), \<lparr>rd_data = rest, rd_end = e\<rparr>)"
    using read_host_wire [OF h(1), of "[a, b, c, d, cr, lf] @ payload @ rest" e] port(2) assms(4)
    by (simp add: packet h(2) ab cd read_packet_def pbind_pread pbind_Inr Let_def)
  with port(1) h(3) show ?thesis by auto
qed

text \<open>C27: UDP packets round-trip.  A packet that \<open>AppendPacket\<close> writes for an address or a valid domain is
  read back by \<open>ReadPacket\<close> with the same payload and the source in canonical form, and the reader
  stops exactly where the packet ends, whatever follows it.\<close>

theorem packet_roundtrip:
  assumes "append_packet [] source payload = Inr packet" and "split_host_port source = Inr (host, port_text)"
    and "parse_ip (cut_zone host) \<noteq> None \<or> valid_domain (cut_zone host)" and "length payload \<le> buf_size"
  shows "\<exists>port. parse_uint 16 port_text = Some port \<and>
    read_packet buf_size \<lparr>rd_data = packet @ rest, rd_end = e\<rparr> =
      (Inr (join_host_port (canonical_host host) (format_uint port), payload), \<lparr>rd_data = rest, rd_end = e\<rparr>)"
  using assms by (rule read_packet_append)

text \<open>The end of a UDP association is clean only between packets.  \<open>ReadPacket\<close> reports \<open>io.EOF\<close> only when not
  a single byte of a further packet has arrived; a packet cut short is an error of its own.\<close>

theorem packet_clean_eof:
  assumes "read_packet buf_size r = (Inl (StreamError EOF), r')"
  shows "rd_data r = [] \<and> rd_end r = EOF"
proof (cases "rd_data r")
  case Nil
  with assms show ?thesis by (simp add: read_packet_def pbind_pread)
next
  case (Cons t bs)
  have no: "fst (pbind (read_host t) f r1) \<noteq> Inl (StreamError EOF)" if "\<And>host r2. fst (f host r2) \<noteq> Inl (StreamError EOF)" for f :: "string \<Rightarrow> (string \<times> bytes) parser" and r1
    using that by (cases "read_host t r1"; cases "fst (read_host t r1)") (auto simp: pbind_def dest: read_host_InlD)
  have "fst (read_packet buf_size r) \<noteq> Inl (StreamError EOF)"
    using Cons by (simp add: read_packet_def pbind_pread) (rule no, simp add: pbind_pread Let_def)
  with assms show ?thesis by simp
qed

theorem packet_clean_eof_witness:
  "read_packet 10 \<lparr>rd_data = [], rd_end = EOF\<rparr> = (Inl (StreamError EOF), \<lparr>rd_data = [], rd_end = EOF\<rparr>) \<and>
   rd_data \<lparr>rd_data = [], rd_end = EOF\<rparr> = []"
proof -
  have run: "read_packet 10 \<lparr>rd_data = [], rd_end = EOF\<rparr> = (Inl (StreamError EOF), \<lparr>rd_data = [], rd_end = EOF\<rparr>)"
    by (simp add: read_packet_def pbind_pread)
  from packet_clean_eof [OF run] run show ?thesis by simp
qed

theorem packet_roundtrip_witness:
  "\<exists>packet. append_packet [] ''a.b:5'' [7, 8] = Inr packet \<and>
     fst (read_packet 9 \<lparr>rd_data = packet @ [99], rd_end = EOF\<rparr>) = Inr (''a.b:5'', [7, 8])"
proof -
  have sp: "split_host_port ''a.b:5'' = Inr (''a.b'', ''5'')" by code_simp
  have cz: "cut_zone ''a.b'' = ''a.b''" "valid_domain ''a.b''" "parse_ip ''a.b'' = None"
    by code_simp+
  have f: "format_uint 5 = ''5''" by code_simp
  have num: "parse_uint 16 ''5'' = Some 5" using parse_uint_format_uint [of 5 16] by (simp add: f)
  obtain packet where pk: "append_packet [] ''a.b:5'' [7, 8] = Inr packet"
    by (simp add: append_packet_def sp cz num encode_host_def max_udp_payload_size_def)
  from packet_roundtrip [OF pk sp, of 9 "[99]" EOF] cz num f pk show ?thesis
    by (simp add: canonical_host_def join_host_port_def)
qed

definition demo_header :: bytes where
  "demo_header = request_wire command_connect (WireDomain (bytes_of_string ''example.com'')) 443"

theorem request_target_unambiguous_witness:
  "\<exists>req h port. read_request \<lparr>rd_data = demo_header, rd_end = EOF\<rparr> = (Inr req, \<lparr>rd_data = [], rd_end = EOF\<rparr>) \<and>
     tq_target req = ''example.com:443'' \<and> demo_header = [command_connect, host_type h] @ host_body h @ [of_nat (port div 256), of_nat (port mod 256), cr, lf] \<and>
     split_host_port (tq_target req) = Inr (host_text h, format_uint port) \<and> host_text h = ''example.com'' \<and> format_uint port = ''443''"
proof -
  let ?req = "\<lparr>tq_command = command_connect, tq_target = ''example.com:443''\<rparr>"
  have j: "judge_request command_connect (WireDomain (bytes_of_string ''example.com'')) 443 = Inr ?req" by code_simp
  have run: "read_request \<lparr>rd_data = demo_header, rd_end = EOF\<rparr> = (Inr ?req, \<lparr>rd_data = [], rd_end = EOF\<rparr>)"
    using read_request_wire [of command_connect "WireDomain (bytes_of_string ''example.com'')" 443 "[]" EOF] j
    by (simp add: demo_header_def known_command_def)
  have parts: "split_host_port ''example.com:443'' = Inr (''example.com'', ''443'')" by code_simp
  from request_target_unambiguous [OF run] obtain h port where
    "demo_header = [command_connect, host_type h] @ host_body h @ [of_nat (port div 256), of_nat (port mod 256), cr, lf]"
    "split_host_port (tq_target ?req) = Inr (host_text h, format_uint port)" by auto
  with run parts show ?thesis by (intro exI [of _ ?req] exI [of _ h] exI [of _ port]) simp
qed

end
