(* ===== verification/Trojan_Relay.thy ===== *)
theory Trojan_Relay
  imports Kernel Trojan_Protocol "HOL-Library.Sublist"
begin

text \<open>
  The copy loops of the Trojan inbound (\<open>inbound/trojan/service.go\<close>, \<open>fallback.go\<close>): the metered
  byte relay, the website relay that refreshes an idle deadline, the two packet loops of a UDP
  association and its idle watchdog.

  A loop runs over a script: one entry per iteration with what its calls observe (the chunk and
  error of \<open>Read\<close>, the outcome of \<open>Write\<close>, what the admission call sees).  The result is \<open>None\<close> when
  the script is used up and the loop is still waiting for its next call.  Beside its result a loop
  yields what it wrote.  The admission of a payload is an interface, stated as the locale
  \<open>admission\<close> and interpreted on the policy kernel for both directions.  Other goroutines run between the
  admission calls of a loop: the environment of a call begins with what they have done to the kernel since the last one.
\<close>

section \<open>Relay errors\<close>

definition relay_buffer_size :: nat where "relay_buffer_size = 32 * 1024"

datatype relay_error = TrafficRejected | AssociationIdle | ShortWrite | RelayIO io_error | RelayProtocol trojan_error | RelayCancelled

text \<open>What one iteration of a byte loop sees; the environment \<open>'e\<close> is that of its admission call.\<close>

record 'e copy_step =
  cs_chunk :: bytes
  cs_error :: "io_error option"
  cs_env :: 'e
  cs_written :: nat
  cs_write_error :: "io_error option"

text \<open>The contracts of \<open>io.Reader\<close> and \<open>io.Writer\<close>.\<close>

definition copy_step_ok :: "'e copy_step \<Rightarrow> bool" where
  "copy_step_ok st \<longleftrightarrow> length (cs_chunk st) \<le> relay_buffer_size \<and> cs_written st \<le> length (cs_chunk st)"

section \<open>The metered byte relay\<close>

fun copy_metered ::
  "('e \<Rightarrow> u64 \<Rightarrow> 's \<Rightarrow> bool option \<times> 's) \<Rightarrow> 'e copy_step list \<Rightarrow> 's \<Rightarrow> relay_error option option \<times> bytes \<times> 's"
where
  "copy_metered admit_bytes [] s = (None, [], s)"
| "copy_metered admit_bytes (st # script) s =
     (let continue = (\<lambda>out s1.
            case cs_error st of
              Some EOF \<Rightarrow> (Some None, out, s1)
            | Some e \<Rightarrow> (Some (Some (RelayIO e)), out, s1)
            | None \<Rightarrow> (let (res, sent, s2) = copy_metered admit_bytes script s1 in (res, out @ sent, s2)))
      in if 0 < length (cs_chunk st)
         then (case admit_bytes (cs_env st) (of_nat (length (cs_chunk st))) s of
                 (None, s1) \<Rightarrow> (None, [], s1)
               | (Some False, s1) \<Rightarrow> (Some (Some TrafficRejected), [], s1)
               | (Some True, s1) \<Rightarrow>
                   (case cs_write_error st of
                      Some e \<Rightarrow> (Some (Some (RelayIO e)), take (cs_written st) (cs_chunk st), s1)
                    | None \<Rightarrow>
                        if cs_written st \<noteq> length (cs_chunk st)
                        then (Some (Some ShortWrite), take (cs_written st) (cs_chunk st), s1)
                        else continue (take (cs_written st) (cs_chunk st)) s1))
         else continue [] s)"

text \<open>\<open>relayMetered\<close> and \<open>relayUDPMetered\<close> report the first error of the two directions.\<close>

definition relay_result :: "relay_error option \<Rightarrow> relay_error option \<Rightarrow> relay_error option" where
  "relay_result earlier later = (if earlier \<noteq> None then earlier else later)"

definition udp_relay_result :: "bool \<Rightarrow> relay_error option \<Rightarrow> relay_error option \<Rightarrow> relay_error option" where
  "udp_relay_result idle earlier later = (if idle then Some AssociationIdle else relay_result earlier later)"

text \<open>The loop among others: the environment of an iteration is what the rest of the process did before its admission call.\<close>

definition interleaved :: "('e \<Rightarrow> u64 \<Rightarrow> 's \<Rightarrow> bool option \<times> 's) \<Rightarrow> ('s \<Rightarrow> 's) \<times> 'e \<Rightarrow> u64 \<Rightarrow> 's \<Rightarrow> bool option \<times> 's" where
  "interleaved admit_bytes e n s = admit_bytes (snd e) n (fst e s)"

definition client_to_target ::
  "month_fn \<Rightarrow> psession option \<Rightarrow> ((kernel \<Rightarrow> kernel) \<times> log_env) copy_step list \<Rightarrow> kernel \<Rightarrow> relay_error option option \<times> bytes \<times> kernel"
where
  "client_to_target mb session = copy_metered (interleaved (\<lambda>env n. admit mb env session n 0))"

definition target_to_client ::
  "month_fn \<Rightarrow> psession option \<Rightarrow> ((kernel \<Rightarrow> kernel) \<times> log_env) copy_step list \<Rightarrow> kernel \<Rightarrow> relay_error option option \<times> bytes \<times> kernel"
where
  "target_to_client mb session = copy_metered (interleaved (\<lambda>env n. admit mb env session 0 n))"

section \<open>The website relay\<close>

text \<open>
  \<open>copyRefreshingIdle\<close>: the deadlines of the two connections are pushed to \<open>now + idle\<close> before and
  after each transfer; the environment of an iteration is the clock at the two calls.
\<close>

type_synonym deadlines = "go_time \<times> go_time"

definition extend_deadlines :: "duration \<Rightarrow> go_time \<Rightarrow> deadlines \<Rightarrow> deadlines" where
  "extend_deadlines idle now _ = (now + idle, now + idle)"

fun copy_refreshing_idle ::
  "duration \<Rightarrow> (go_time \<times> go_time) copy_step list \<Rightarrow> deadlines \<Rightarrow> relay_error option option \<times> bytes \<times> deadlines"
where
  "copy_refreshing_idle idle [] d = (None, [], d)"
| "copy_refreshing_idle idle (st # script) d =
     (let continue = (\<lambda>out d1.
            case cs_error st of
              Some EOF \<Rightarrow> (Some None, out, d1)
            | Some e \<Rightarrow> (Some (Some (RelayIO e)), out, d1)
            | None \<Rightarrow> (let (res, sent, d2) = copy_refreshing_idle idle script d1 in (res, out @ sent, d2)));
          d0 = extend_deadlines idle (fst (cs_env st)) d
      in if 0 < length (cs_chunk st)
         then (case cs_write_error st of
                 Some e \<Rightarrow> (Some (Some (RelayIO e)), take (cs_written st) (cs_chunk st), d0)
               | None \<Rightarrow>
                   if cs_written st \<noteq> length (cs_chunk st)
                   then (Some (Some ShortWrite), take (cs_written st) (cs_chunk st), d0)
                   else continue (take (cs_written st) (cs_chunk st)) (extend_deadlines idle (snd (cs_env st)) d0))
         else continue [] d)"

text \<open>
  \<open>io.MultiReader(bytes.NewReader(prefix), client)\<close> in the client-to-backend loop of \<open>serveFallback\<close>:
  the recorded prefix is one chunk (it is shorter than the buffer), then the client is read.
\<close>

definition replay_prefix :: "bytes \<Rightarrow> 'e \<Rightarrow> nat \<Rightarrow> io_error option \<Rightarrow> 'e copy_step list \<Rightarrow> 'e copy_step list" where
  "replay_prefix pre env written write_error script =
     (if pre = [] then script
      else \<lparr>cs_chunk = pre, cs_error = None, cs_env = env, cs_written = written, cs_write_error = write_error\<rparr> # script)"

section \<open>The packet loops\<close>

record 'e client_packet_step =
  cp_now :: go_time
  cp_env :: 'e
  cp_write_error :: "io_error option"
  cp_cancelled :: bool

text \<open>\<open>copyClientPackets\<close>: results, forwarded datagrams, stream and state, with the activity stamp.\<close>

fun copy_client_packets ::
  "('e \<Rightarrow> u64 \<Rightarrow> 's \<Rightarrow> bool option \<times> 's) \<Rightarrow> 'e client_packet_step list \<Rightarrow> reader \<Rightarrow> go_time \<Rightarrow> 's \<Rightarrow>
    relay_error option option \<times> (string \<times> bytes) list \<times> go_time \<times> 's"
where
  "copy_client_packets admit_bytes [] r activity s = (None, [], activity, s)"
| "copy_client_packets admit_bytes (st # script) r activity s =
     (case read_packet max_udp_payload_size r of
        (Inl (StreamError e), r1) \<Rightarrow> (Some (Some (RelayIO e)), [], activity, s)
      | (Inl e, r1) \<Rightarrow> (Some (Some (RelayProtocol e)), [], activity, s)
      | (Inr (target, payload), r1) \<Rightarrow>
          (case admit_bytes (cp_env st) (of_nat (length payload)) s of
             (None, s1) \<Rightarrow> (None, [], cp_now st, s1)
           | (Some False, s1) \<Rightarrow> (Some (Some TrafficRejected), [], cp_now st, s1)
           | (Some True, s1) \<Rightarrow>
               (case cp_write_error st of
                  None \<Rightarrow>
                    (let (res, sent, act, s2) = copy_client_packets admit_bytes script r1 (cp_now st) s1
                     in (res, (target, payload) # sent, act, s2))
                | Some e \<Rightarrow>
                    if cp_cancelled st then (Some (Some RelayCancelled), [], cp_now st, s1)
                    else if e = ErrClosed then (Some (Some (RelayIO e)), [], cp_now st, s1)
                    else copy_client_packets admit_bytes script r1 (cp_now st) s1)))"

record 'e association_step =
  ap_read :: "(io_error, string \<times> bytes) result"
  ap_now :: go_time
  ap_env :: 'e
  ap_write_error :: "io_error option"

fun copy_association_packets ::
  "('e \<Rightarrow> u64 \<Rightarrow> 's \<Rightarrow> bool option \<times> 's) \<Rightarrow> 'e association_step list \<Rightarrow> go_time \<Rightarrow> 's \<Rightarrow>
    relay_error option option \<times> bytes list \<times> go_time \<times> 's"
where
  "copy_association_packets admit_bytes [] activity s = (None, [], activity, s)"
| "copy_association_packets admit_bytes (st # script) activity s =
     (case ap_read st of
        Inl e \<Rightarrow> (Some (Some (RelayIO e)), [], activity, s)
      | Inr (source, payload) \<Rightarrow>
          (case admit_bytes (ap_env st) (of_nat (length payload)) s of
             (None, s1) \<Rightarrow> (None, [], ap_now st, s1)
           | (Some False, s1) \<Rightarrow> (Some (Some TrafficRejected), [], ap_now st, s1)
           | (Some True, s1) \<Rightarrow>
               (case append_packet [] source payload of
                  Inl _ \<Rightarrow> copy_association_packets admit_bytes script (ap_now st) s1
                | Inr packet \<Rightarrow>
                    (case ap_write_error st of
                       Some e \<Rightarrow> (Some (Some (RelayIO e)), [], ap_now st, s1)
                     | None \<Rightarrow>
                         (let (res, sent, act, s2) = copy_association_packets admit_bytes script (ap_now st) s1
                          in (res, packet # sent, act, s2))))))"

section \<open>The idle watchdog\<close>

datatype watch_event = WatchDone | WatchTick go_time go_time

definition watch_interval :: "duration \<Rightarrow> duration" where
  "watch_interval timeout = (if timeout div 2 \<le> 0 then timeout else timeout div 2)"

text \<open>
  \<open>watchIdle\<close>: each tick carries its time and the activity stamp it loads.  A timeout that is not
  positive disables the watch.  \<open>None\<close> while it is still waiting.
\<close>

fun watch_idle :: "duration \<Rightarrow> watch_event list \<Rightarrow> bool option" where
  "watch_idle timeout [] = None"
| "watch_idle timeout (WatchDone # events) = Some False"
| "watch_idle timeout (WatchTick now activity # events) =
     (if 0 < timeout \<and> timeout \<le> now - activity then Some True else watch_idle timeout events)"

section \<open>The admission interface\<close>

text \<open>
  What a relay relies on: an admitted payload is charged with its length, a refused one at most
  so, and one whose admission is still pending not at all.  \<open>quiet\<close> restricts the environment of a
  call to those in which nobody else charges the same counter meanwhile.
\<close>

locale admission =
  fixes admit_bytes :: "'e \<Rightarrow> u64 \<Rightarrow> 's \<Rightarrow> bool option \<times> 's"
    and charged :: "'s \<Rightarrow> u64"
    and quiet :: "'e \<Rightarrow> bool"
    and valid :: "'s \<Rightarrow> bool"
  assumes admitted_charged: "quiet e \<Longrightarrow> valid s \<Longrightarrow> admit_bytes e n s = (Some True, s') \<Longrightarrow> charged s' = charged s + n"
    and refused_charged: "quiet e \<Longrightarrow> valid s \<Longrightarrow> admit_bytes e n s = (Some False, s') \<Longrightarrow> charged s' = charged s \<or> charged s' = charged s + n"
    and pending_uncharged: "quiet e \<Longrightarrow> valid s \<Longrightarrow> admit_bytes e n s = (None, s') \<Longrightarrow> charged s' = charged s"
    and valid_kept: "quiet e \<Longrightarrow> valid s \<Longrightarrow> admit_bytes e n s = (a, s') \<Longrightarrow> valid s'"
begin

lemma admit_charge_cases:
  assumes "quiet e" "valid s" "admit_bytes e n s = (a, s')"
  obtains "charged s' = charged s" "a \<noteq> Some True" | "charged s' = charged s + n" "a \<noteq> None"
proof (cases a)
  case None
  with assms pending_uncharged that(1) show ?thesis by auto
next
  case (Some b)
  with assms admitted_charged refused_charged that show ?thesis by (cases b) (fastforce+)
qed

text \<open>
  The bytes a run wrote are a prefix of the bytes it was admitted to write, these are the chunks of
  its first \<open>k\<close> reads, and the counter grew by their number and, when the run ended in a refusal, at
  most by the refused chunk.
\<close>

lemma copy_metered_charged:
  assumes "copy_metered admit_bytes script s = (res, sent, s')" and "valid s"
    and "\<forall>st \<in> set script. copy_step_ok st \<and> quiet (cs_env st)"
  shows "\<exists>k extra. k \<le> length script \<and> prefix sent (concat (map cs_chunk (take k script))) \<and>
    charged s' = charged s + of_nat (length (concat (map cs_chunk (take k script)))) + of_nat extra \<and>
    (extra \<noteq> 0 \<longrightarrow> res = Some (Some TrafficRejected) \<and> k < length script \<and> extra = length (cs_chunk (script ! k))) \<and>
    (res = Some None \<longrightarrow> sent = concat (map cs_chunk (take k script)) \<and> 0 < k \<and> cs_error (script ! (k - 1)) = Some EOF)"
  using assms
proof (induction script arbitrary: s sent)
  case Nil
  then show ?case by simp
next
  case (Cons st script)
  let ?n = "of_nat (length (cs_chunk st)) :: u64"
  have ok: "copy_step_ok st" "quiet (cs_env st)" using Cons.prems(3) by auto
  have go: ?case if run: "copy_metered admit_bytes script s1 = (res, rest, s')" and v: "valid s1"
    and ch: "charged s1 = charged s + ?n" and out: "sent = cs_chunk st @ rest" for s1 rest
  proof -
    from Cons.IH [OF run v] Cons.prems(3) obtain k extra where "k \<le> length script"
      "prefix rest (concat (map cs_chunk (take k script)))"
      "charged s' = charged s1 + of_nat (length (concat (map cs_chunk (take k script)))) + of_nat extra"
      "extra \<noteq> 0 \<longrightarrow> res = Some (Some TrafficRejected) \<and> k < length script \<and> extra = length (cs_chunk (script ! k))"
      "res = Some None \<longrightarrow> rest = concat (map cs_chunk (take k script)) \<and> 0 < k \<and> cs_error (script ! (k - 1)) = Some EOF"
      by auto
    then show ?thesis using ch out by (intro exI [of _ "Suc k"] exI [of _ extra]) (auto simp: nth_Cons' algebra_simps)
  qed
  have stop: ?case if "charged s' = charged s + ?n" "prefix sent (cs_chunk st)"
    "res = Some None \<Longrightarrow> sent = cs_chunk st \<and> cs_error st = Some EOF"
    using that by (intro exI [of _ "Suc 0"] exI [of _ "0"]) auto
  show ?case
  proof (cases "cs_chunk st = []")
    case True
    show ?thesis
    proof (cases "cs_error st")
      case None
      with True Cons.prems(1) have "copy_metered admit_bytes script s = (res, sent, s')" by (auto split: prod.split_asm)
      then show ?thesis using True Cons.prems(2) by (intro go) auto
    next
      case (Some e)
      with True Cons.prems(1) show ?thesis by (intro stop) (auto split: io_error.split_asm)
    qed
  next
    case False
    obtain a s1 where adm: "admit_bytes (cs_env st) ?n s = (a, s1)" by fastforce
    note v = valid_kept [OF ok(2) Cons.prems(2) adm]
    show ?thesis
    proof (cases "a = Some True")
      case True
      note ch = admitted_charged [OF ok(2) Cons.prems(2) adm [unfolded True]]
      show ?thesis
      proof (cases "cs_write_error st = None \<and> cs_written st = length (cs_chunk st) \<and> cs_error st = None")
        case True
        with Cons.prems(1) False adm \<open>a = Some True\<close> obtain rest
          where "copy_metered admit_bytes script s1 = (res, rest, s')" "sent = cs_chunk st @ rest"
          by (auto split: prod.split_asm)
        then show ?thesis by (intro go [OF _ v ch])
      next
        case halt: False
        with Cons.prems(1) False adm \<open>a = Some True\<close>
        have "s' = s1 \<and> prefix sent (cs_chunk st) \<and> (res = Some None \<longrightarrow> sent = cs_chunk st \<and> cs_error st = Some EOF)"
          by (auto simp: Let_def take_is_prefix split: option.split_asm if_split_asm io_error.split_asm)
        with ch show ?thesis by (intro stop) auto
      qed
    next
      case nt: False
      show ?thesis
      proof (rule admit_charge_cases [OF ok(2) Cons.prems(2) adm])
        assume "charged s1 = charged s"
        with Cons.prems(1) False adm nt show ?thesis
          by (intro exI [of _ 0] exI [of _ "0::nat"]) (cases a, auto)
      next
        assume "charged s1 = charged s + ?n" "a \<noteq> None"
        with nt have "a = Some False" by auto
        with Cons.prems(1) False adm \<open>charged s1 = charged s + ?n\<close> show ?thesis
          by (intro exI [of _ 0] exI [of _ "length (cs_chunk st)"]) auto
      qed
    qed
  qed
qed

end

text \<open>
  The run of a loop among others, with a second component that adds up by how much the others moved the counter.  The
  first component is the run itself.
\<close>

definition observed ::
  "('s \<Rightarrow> u64) \<Rightarrow> ('e \<Rightarrow> u64 \<Rightarrow> 's \<Rightarrow> bool option \<times> 's) \<Rightarrow> ('s \<Rightarrow> 's) \<times> 'e \<Rightarrow> u64 \<Rightarrow> 's \<times> u64 \<Rightarrow> bool option \<times> 's \<times> u64"
where
  "observed charged admit_bytes e n sg =
     (case admit_bytes (snd e) n (fst e (fst sg)) of (a, s') \<Rightarrow> (a, s', snd sg + (charged (fst e (fst sg)) - charged (fst sg))))"

definition charged_by_others ::
  "('s \<Rightarrow> u64) \<Rightarrow> ('e \<Rightarrow> u64 \<Rightarrow> 's \<Rightarrow> bool option \<times> 's) \<Rightarrow> (('s \<Rightarrow> 's) \<times> 'e) copy_step list \<Rightarrow> 's \<Rightarrow> u64"
where
  "charged_by_others charged admit_bytes script s = snd (snd (snd (copy_metered (observed charged admit_bytes) script (s, 0))))"

lemma observed_projects:
  "copy_metered (observed charged admit_bytes) script (s, g) = (res, sent, s', g') \<Longrightarrow>
     copy_metered (interleaved admit_bytes) script s = (res, sent, s')"
proof (induction script arbitrary: s g res sent s' g')
  case (Cons st script)
  obtain a s1 where adm: "admit_bytes (snd (cs_env st)) (of_nat (length (cs_chunk st))) (fst (cs_env st) s) = (a, s1)" by fastforce
  let ?g = "g + (charged (fst (cs_env st) s) - charged s)"
  have obs: "observed charged admit_bytes (cs_env st) (of_nat (length (cs_chunk st))) (s, g) = (a, s1, ?g)"
    and int: "interleaved admit_bytes (cs_env st) (of_nat (length (cs_chunk st))) s = (a, s1)"
    using adm by (simp_all add: observed_def interleaved_def)
  obtain r0 b0 t0 h0 where r0: "copy_metered (observed charged admit_bytes) script (s, g) = (r0, b0, t0, h0)" by (metis prod.exhaust)
  obtain r1 b1 t1 h1 where r1: "copy_metered (observed charged admit_bytes) script (s1, ?g) = (r1, b1, t1, h1)" by (metis prod.exhaust)
  note runs = r0 r1 Cons.IH [OF r0] Cons.IH [OF r1]
  show ?case
    using Cons.prems by (cases "cs_chunk st = []"; cases "cs_error st"; cases a)
      (auto simp: obs int runs Let_def split: io_error.split_asm bool.split_asm option.split_asm if_split_asm)
qed simp

lemma observed_iff:
  "observed charged admit_bytes e n s = (a, s') \<longleftrightarrow>
     admit_bytes (snd e) n (fst e (fst s)) = (a, fst s') \<and> snd s' = snd s + (charged (fst e (fst s)) - charged (fst s))"
  by (cases s') (auto simp: observed_def split: prod.split)

text \<open>
  An admission contract among others is again one, on the counter without what the others charged.  What the others do must
  keep the states valid.
\<close>

locale shared_admission = admission admit_bytes charged quiet valid
  for admit_bytes :: "'e \<Rightarrow> u64 \<Rightarrow> 's \<Rightarrow> bool option \<times> 's"
    and charged :: "'s \<Rightarrow> u64"
    and quiet :: "'e \<Rightarrow> bool"
    and valid :: "'s \<Rightarrow> bool"

sublocale shared_admission < shared: admission "observed charged admit_bytes" "\<lambda>sg. charged (fst sg) - snd sg"
  "\<lambda>e. quiet (snd e) \<and> (\<forall>s. valid s \<longrightarrow> valid (fst e s))" "\<lambda>sg. valid (fst sg)"
proof (unfold_locales, goal_cases)
  case (1 e s n s')
  with admitted_charged [of "snd e" "fst e (fst s)" n "fst s'"] show ?case by (auto simp: observed_iff)
next
  case (2 e s n s')
  with refused_charged [of "snd e" "fst e (fst s)" n "fst s'"] show ?case by (auto simp: observed_iff)
next
  case (3 e s n s')
  with pending_uncharged [of "snd e" "fst e (fst s)" n "fst s'"] show ?case by (auto simp: observed_iff)
next
  case (4 e s n a s')
  with valid_kept [of "snd e" "fst e (fst s)" n a "fst s'"] show ?case by (auto simp: observed_iff)
qed

context shared_admission
begin

lemma interleaved_charged:
  assumes "copy_metered (interleaved admit_bytes) script s = (res, sent, s')" and "valid s"
    and "\<forall>st \<in> set script. copy_step_ok st \<and> quiet (snd (cs_env st)) \<and> (\<forall>s. valid s \<longrightarrow> valid (fst (cs_env st) s))"
  shows "\<exists>k extra. k \<le> length script \<and> prefix sent (concat (map cs_chunk (take k script))) \<and>
    charged s' = charged s + of_nat (length (concat (map cs_chunk (take k script)))) + of_nat extra +
      charged_by_others charged admit_bytes script s \<and>
    (extra \<noteq> 0 \<longrightarrow> res = Some (Some TrafficRejected) \<and> k < length script \<and> extra = length (cs_chunk (script ! k))) \<and>
    (res = Some None \<longrightarrow> sent = concat (map cs_chunk (take k script)) \<and> 0 < k \<and> cs_error (script ! (k - 1)) = Some EOF)"
proof -
  obtain res1 sent1 s1 g where obs: "copy_metered (observed charged admit_bytes) script (s, 0) = (res1, sent1, s1, g)"
    by (metis prod.exhaust)
  with observed_projects [OF obs] assms(1) have obs: "copy_metered (observed charged admit_bytes) script (s, 0) = (res, sent, s', g)" by simp
  then have g: "g = charged_by_others charged admit_bytes script s" by (simp add: charged_by_others_def)
  have "\<forall>st \<in> set script. copy_step_ok st \<and> quiet (snd (cs_env st)) \<and> (\<forall>s. valid s \<longrightarrow> valid (fst (cs_env st) s))" by (rule assms(3))
  with shared.copy_metered_charged [OF obs] assms(2) obtain k extra where k: "k \<le> length script" "prefix sent (concat (map cs_chunk (take k script)))"
    "charged s' - g = charged s + of_nat (length (concat (map cs_chunk (take k script)))) + of_nat extra"
    "extra \<noteq> 0 \<longrightarrow> res = Some (Some TrafficRejected) \<and> k < length script \<and> extra = length (cs_chunk (script ! k))"
    "res = Some None \<longrightarrow> sent = concat (map cs_chunk (take k script)) \<and> 0 < k \<and> cs_error (script ! (k - 1)) = Some EOF"
    by auto
  from k(3) have "charged s' = charged s + of_nat (length (concat (map cs_chunk (take k script)))) + of_nat extra + g"
    by (simp add: diff_eq_eq)
  with k show ?thesis unfolding g by blast
qed

end

section \<open>The policy kernel admits\<close>

definition route_totals :: "string \<Rightarrow> traffic_logger \<Rightarrow> u64 \<times> u64" where
  "route_totals rid lg = (let st = gget zero_stats (tl_stats lg) rid in (us_tx st, us_rx st))"

text \<open>Nobody else touches the counters of the route while the call waits in the limiter.\<close>

definition quiet_route :: "string \<Rightarrow> log_env \<Rightarrow> bool" where
  "quiet_route rid env \<longleftrightarrow> (\<forall>ro \<in> set (le_rounds env). \<forall>lg. route_totals rid (ro_others ro lg) = route_totals rid lg)"

lemma route_totals_limiters [simp]: "route_totals rid (lg\<lparr>tl_limiters := ls\<rparr>) = route_totals rid lg"
  by (simp add: route_totals_def)

lemma route_totals_get_or_create [simp]: "route_totals rid (get_or_create rid' lg) = route_totals rid lg"
  by (auto simp: route_totals_def get_or_create_def gget_def zero_stats_def Let_def split: option.split)

lemma route_totals_limit:
  assumes "limit_download rounds username n lg = (res, lg')"
    and "\<forall>ro \<in> set rounds. \<forall>lg. route_totals rid (ro_others ro lg) = route_totals rid lg"
  shows "route_totals rid lg' = route_totals rid lg"
  using assms
  by (induction rounds username n lg rule: limit_download.induct)
    (auto simp: Let_def split: if_split_asm prod.split_asm wait_end.split_asm)

lemma route_totals_ensure: "ensure_monthly_usage mb io now lg = (e, lg') \<Longrightarrow> route_totals rid lg' = route_totals rid lg"
  by (auto simp: ensure_monthly_usage_def publish_month_def route_totals_def split: if_split_asm sum.split_asm)

lemma route_totals_account:
  "account mb cancelled now rid tx rx lg = Some (used, lg') \<Longrightarrow>
     route_totals rid lg' = (fst (route_totals rid lg) + tx, snd (route_totals rid lg) + rx)"
  by (auto simp: account_def route_totals_def update_stats_def Let_def split: prod.split_asm if_split_asm)

lemma log_traffic_charge:
  assumes log: "log_traffic mb env a rid tx rx lg = (ans, lg')" and quiet: "rx = 0 \<or> quiet_route rid env"
  shows "route_totals rid lg' = route_totals rid lg \<and> ans \<noteq> Some True \<or>
    route_totals rid lg' = (fst (route_totals rid lg) + tx, snd (route_totals rid lg) + rx) \<and> ans \<noteq> None"
proof -
  obtain username node where p: "parse_id rid = (username, node)" by fastforce
  obtain limited lg1 where l: "(if 0 < rx then limit_download (le_rounds env) username rx (get_or_create rid lg)
      else (Some True, get_or_create rid lg)) = (limited, lg1)" by fastforce
  have t1: "route_totals rid lg1 = route_totals rid lg"
  proof (cases "0 < rx")
    case True
    then have "route_totals rid lg1 = route_totals rid (get_or_create rid lg)"
      using l quiet by (intro route_totals_limit) (auto simp: quiet_route_def)
    then show ?thesis by simp
  qed (use l in auto)
  obtain e lg2 where en: "ensure_monthly_usage mb (le_io env) (le_now_account env) lg1 = (e, lg2)" by fastforce
  note t2 = route_totals_ensure [OF en, of rid]
  show ?thesis
    using log t1 t2
    by (auto simp: log_traffic_def p l en Let_def split: if_split_asm option.split_asm bool.split_asm
        dest!: route_totals_account)
qed

definition charged_tx :: "psession \<Rightarrow> kernel \<Rightarrow> u64" where
  "charged_tx ss k = fst (route_totals (ks_route ss) (kn_traffic k))"

definition charged_rx :: "psession \<Rightarrow> kernel \<Rightarrow> u64" where
  "charged_rx ss k = snd (route_totals (ks_route ss) (kn_traffic k))"

lemma admit_owned:
  assumes "admit mb env (Some ss) tx rx k = (ans, k')" "ks_owner ss = kn_self k"
  obtains lg' where "log_traffic mb env (kn_auth k) (ks_route ss) tx rx (kn_traffic k) = (ans, lg')" "k' = k\<lparr>kn_traffic := lg'\<rparr>"
  using assms by (auto simp: admit_def owns_def split: prod.split_asm)

interpretation uplink: shared_admission "\<lambda>env n. admit mb env (Some ss) n 0" "charged_tx ss" "\<lambda>_. True" "\<lambda>k. ks_owner ss = kn_self k"
  for mb ss
proof
  fix e s n s' a
  assume own: "ks_owner ss = kn_self s" and adm: "admit mb e (Some ss) n 0 s = (a, s')"
  then show "ks_owner ss = kn_self s'" by (auto elim: admit_owned)
qed (auto simp: charged_tx_def elim!: admit_owned dest!: log_traffic_charge)

interpretation downlink: shared_admission "\<lambda>env n. admit mb env (Some ss) 0 n" "charged_rx ss" "quiet_route (ks_route ss)" "\<lambda>k. ks_owner ss = kn_self k"
  for mb ss
proof
  fix e s n s' a
  assume own: "ks_owner ss = kn_self s" and adm: "admit mb e (Some ss) 0 n s = (a, s')"
  then show "ks_owner ss = kn_self s'" by (auto elim: admit_owned)
qed (auto simp: charged_rx_def elim!: admit_owned dest!: log_traffic_charge)

section \<open>What the relays guarantee\<close>

text \<open>C20: Nothing reaches a target without having been charged.  Run the client-to-target loop of a
  session of this kernel over any reads, writes and admission calls, with other streams and any other part of the process
  working on the same kernel between its calls: what was written is a prefix of the first \<open>n\<close> chunks read from the client,
  and the uplink counter of the session's route has grown (modulo \<open>2 ^ 64\<close>) by exactly these chunks, by what the others
  charged to it meanwhile and, if the loop was stopped by a refusal, possibly by the refused chunk, which is charged
  when accounting it broke the quota.  When the loop ends without an error, every byte up to the end of the
  stream was written.\<close>

theorem relayed_bytes_charged:
  assumes "client_to_target mb (Some ss) script k = (res, sent, k')" and "ks_owner ss = kn_self k"
    and "\<forall>st \<in> set script. copy_step_ok st \<and> (\<forall>k. kn_self (fst (cs_env st) k) = kn_self k)"
  shows "\<exists>n extra. n \<le> length script \<and> prefix sent (concat (map cs_chunk (take n script))) \<and>
    charged_tx ss k' = charged_tx ss k + of_nat (length (concat (map cs_chunk (take n script)))) + of_nat extra +
      charged_by_others (charged_tx ss) (\<lambda>env n. admit mb env (Some ss) n 0) script k \<and>
    (extra \<noteq> 0 \<longrightarrow> res = Some (Some TrafficRejected) \<and> n < length script \<and> extra = length (cs_chunk (script ! n))) \<and>
    (res = Some None \<longrightarrow> sent = concat (map cs_chunk (take n script)) \<and> 0 < n \<and> cs_error (script ! (n - 1)) = Some EOF)"
  using assms uplink.interleaved_charged [of mb ss script k res sent k'] by (simp add: client_to_target_def)

text \<open>Another stream of the route that transfers three bytes, and the loop with its two.\<close>

definition relay_others :: "kernel \<Rightarrow> kernel" where
  "relay_others k = k\<lparr>kn_traffic := snd (log_traffic utc demo_env demo_auth ''alice:n1'' 3 0 (kn_traffic k))\<rparr>"

definition demo_copy :: "((kernel \<Rightarrow> kernel) \<times> log_env) copy_step" where
  "demo_copy = \<lparr>cs_chunk = [104, 105], cs_error = Some EOF, cs_env = (relay_others, demo_env), cs_written = 2, cs_write_error = None\<rparr>"

definition relay_kernel :: kernel where
  "relay_kernel = demo_kernel\<lparr>kn_auth := demo_auth, kn_traffic := demo_logger\<rparr>"

definition relay_session :: psession where
  "relay_session = demo_session\<lparr>ks_route := ''alice:n1''\<rparr>"

lemma relay_others_charge: "charged_tx relay_session (relay_others relay_kernel) - charged_tx relay_session relay_kernel = 3"
proof -
  have "fst (log_traffic utc demo_env demo_auth ''alice:n1'' 3 0 demo_logger) = Some True" by code_simp
  then obtain lg where "log_traffic utc demo_env demo_auth ''alice:n1'' 3 0 demo_logger = (Some True, lg)"
    by (metis prod.collapse)
  with log_traffic_charge [OF this] show ?thesis
    by (simp add: charged_tx_def relay_others_def relay_kernel_def relay_session_def)
qed

theorem relayed_bytes_charged_witness:
  "\<exists>res sent k'. client_to_target utc (Some relay_session) [demo_copy] relay_kernel = (res, sent, k') \<and>
     (res, sent) = (Some None, [104, 105]) \<and> charged_tx relay_session k' = charged_tx relay_session relay_kernel + 5"
proof -
  obtain res sent k' where run: "client_to_target utc (Some relay_session) [demo_copy] relay_kernel = (res, sent, k')"
    by (metis prod_cases3)
  have "fst (log_traffic utc demo_env demo_auth ''alice:n1'' 2 0 (snd (log_traffic utc demo_env demo_auth ''alice:n1'' 3 0 demo_logger))) = Some True"
    by code_simp
  then have "(\<lambda>(r, b, _). r = Some None \<and> b = [104, 105]) (client_to_target utc (Some relay_session) [demo_copy] relay_kernel)"
    by (auto simp: client_to_target_def interleaved_def admit_def owns_def relay_kernel_def relay_session_def relay_others_def demo_session_def
        demo_copy_def split: prod.split)
  with run have out: "res = Some None" "sent = [104, 105]" by auto
  have others: "charged_by_others (charged_tx relay_session) (\<lambda>env n. admit utc env (Some relay_session) n 0) [demo_copy] relay_kernel = 3"
    using relay_others_charge
    by (simp add: charged_by_others_def observed_def demo_copy_def split: prod.split option.split bool.split)
  have ok: "ks_owner relay_session = kn_self relay_kernel"
    "\<forall>st \<in> set [demo_copy]. copy_step_ok st \<and> (\<forall>k. kn_self (fst (cs_env st) k) = kn_self k)"
    by (simp_all add: demo_copy_def copy_step_ok_def relay_buffer_size_def relay_others_def relay_session_def relay_kernel_def demo_session_def)
  from relayed_bytes_charged [OF run ok, unfolded others out] obtain n extra where n: "n \<le> 1" "0 < n" "extra = 0"
    "charged_tx relay_session k' = charged_tx relay_session relay_kernel + of_nat (length (concat (map cs_chunk (take n [demo_copy])))) +
       of_nat extra + 3"
    by auto
  from n(1,2) have "n = 1" by simp
  with n(3,4) have "charged_tx relay_session k' = charged_tx relay_session relay_kernel + 5" by (simp add: demo_copy_def)
  with run out show ?thesis by blast
qed

lemma relayed_down_charged:
  assumes "target_to_client mb (Some ss) script k = (res, sent, k')" and "ks_owner ss = kn_self k"
    and "\<forall>st \<in> set script. copy_step_ok st \<and> quiet_route (ks_route ss) (snd (cs_env st)) \<and> (\<forall>k. kn_self (fst (cs_env st) k) = kn_self k)"
  shows "\<exists>n extra. n \<le> length script \<and> prefix sent (concat (map cs_chunk (take n script))) \<and>
    charged_rx ss k' = charged_rx ss k + of_nat (length (concat (map cs_chunk (take n script)))) + of_nat extra +
      charged_by_others (charged_rx ss) (\<lambda>env n. admit mb env (Some ss) 0 n) script k \<and>
    (extra \<noteq> 0 \<longrightarrow> res = Some (Some TrafficRejected) \<and> n < length script \<and> extra = length (cs_chunk (script ! n))) \<and>
    (res = Some None \<longrightarrow> sent = concat (map cs_chunk (take n script)) \<and> 0 < n \<and> cs_error (script ! (n - 1)) = Some EOF)"
  using assms downlink.interleaved_charged [of mb ss script k res sent k'] by (simp add: target_to_client_def)

subsection \<open>The website relay\<close>

lemma copy_refreshing_exact:
  assumes "copy_refreshing_idle idle script d = (Some None, sent, d')"
  shows "\<exists>k. 0 < k \<and> k \<le> length script \<and> sent = concat (map cs_chunk (take k script)) \<and> cs_error (script ! (k - 1)) = Some EOF"
  using assms
proof (induction script arbitrary: d sent)
  case (Cons st script)
  show ?case
  proof (cases "cs_error st")
    case None
    with Cons.prems obtain d1 rest where "copy_refreshing_idle idle script d1 = (Some None, rest, d')" "sent = cs_chunk st @ rest"
      by (auto simp: Let_def split: if_split_asm option.split_asm prod.split_asm)
    from Cons.IH [OF this(1)] obtain k where "0 < k" "k \<le> length script" "rest = concat (map cs_chunk (take k script))"
      "cs_error (script ! (k - 1)) = Some EOF" by blast
    with \<open>sent = cs_chunk st @ rest\<close> show ?thesis by (intro exI [of _ "Suc k"]) (simp add: nth_Cons')
  next
    case (Some e)
    with Cons.prems show ?thesis
      by (intro exI [of _ "1"]) (auto simp: Let_def split: if_split_asm option.split_asm io_error.split_asm)
  qed
qed simp

subsection \<open>The idle watchdog\<close>

lemma watch_idle_hit:
  assumes "\<forall>e \<in> set events. e \<noteq> WatchDone" "WatchTick now activity \<in> set events" "0 < timeout" "timeout \<le> now - activity"
  shows "watch_idle timeout events = Some True"
  using assms by (induction timeout events rule: watch_idle.induct) auto

lemma watch_idle_sound:
  assumes "watch_idle timeout events = Some True"
  shows "\<exists>now activity. WatchTick now activity \<in> set events \<and> timeout \<le> now - activity"
  using assms by (induction timeout events rule: watch_idle.induct) (auto split: if_split_asm)

lemma watch_interval_bounds: "0 < timeout \<Longrightarrow> 0 < watch_interval timeout \<and> watch_interval timeout \<le> timeout"
  by (auto simp: watch_interval_def)

definition ticker_events :: "go_time \<Rightarrow> duration \<Rightarrow> (nat \<Rightarrow> go_time) \<Rightarrow> nat \<Rightarrow> watch_event list" where
  "ticker_events start interval activity n = map (\<lambda>i. WatchTick (start + int (Suc i) * interval) (activity i)) [0..<n]"

text \<open>A silent UDP association is reclaimed in time.  If no datagram moves after time \<open>a\<close>, then the
  watchdog, whose ticker fires every half of the timeout, declares the association idle at a tick
  before \<open>a + timeout + interval\<close>; the interval is at most the timeout.\<close>

theorem idle_association_reclaimed:
  assumes "0 < timeout" and "start \<le> a" and "\<forall>i. activity i \<le> a"
  shows "\<exists>n. start + int n * watch_interval timeout < a + timeout + watch_interval timeout \<and>
    watch_idle timeout (ticker_events start (watch_interval timeout) activity n) = Some True"
proof -
  let ?iv = "watch_interval timeout"
  have iv: "0 < ?iv" using watch_interval_bounds [OF assms(1)] by simp
  define q where "q = (a + timeout - start - 1) div ?iv"
  have q: "0 \<le> q" using assms(1,2) iv by (simp add: q_def pos_imp_zdiv_nonneg_iff)
  have hi: "q * ?iv \<le> a + timeout - start - 1" and lo: "a + timeout - start - 1 < q * ?iv + ?iv"
    using div_mult_mod_eq [of "a + timeout - start - 1" ?iv] pos_mod_bound [OF iv, of "a + timeout - start - 1"]
      pos_mod_sign [OF iv, of "a + timeout - start - 1"] unfolding q_def by linarith+
  define n where "n = Suc (nat q)"
  have n: "int n * ?iv = q * ?iv + ?iv" using q by (simp add: n_def algebra_simps)
  have "WatchTick (start + int n * ?iv) (activity (nat q)) \<in> set (ticker_events start ?iv activity n)"
    by (auto simp: ticker_events_def n_def)
  moreover have "timeout \<le> start + int n * ?iv - activity (nat q)" using lo n assms(3) [rule_format, of "nat q"] by linarith
  ultimately have "watch_idle timeout (ticker_events start ?iv activity n) = Some True"
    by (intro watch_idle_hit) (auto simp: ticker_events_def assms(1))
  moreover have "start + int n * ?iv < a + timeout + ?iv" using hi n by linarith
  ultimately show ?thesis by blast
qed

theorem idle_association_reclaimed_witness:
  "\<exists>n. 0 + int n * 5 < 7 + 10 + 5 \<and> watch_idle 10 (ticker_events 0 5 (\<lambda>i. min (int i) 7) n) = Some True"
  using idle_association_reclaimed [of 10 0 7 "\<lambda>i. min (int i) 7"] by (simp add: watch_interval_def)

subsection \<open>The packet loops\<close>

text \<open>A datagram that has an encoding, and what its reader makes of it.\<close>

definition datagram_ok :: "string \<times> bytes \<Rightarrow> bool" where
  "datagram_ok d = (case split_host_port (fst d) of
     Inl _ \<Rightarrow> False
   | Inr (host, port) \<Rightarrow> (parse_ip (cut_zone host) \<noteq> None \<or> valid_domain (cut_zone host)) \<and>
       (case append_packet [] (fst d) (snd d) of Inl _ \<Rightarrow> False | Inr _ \<Rightarrow> True))"

definition datagram_wire :: "string \<times> bytes \<Rightarrow> bytes" where
  "datagram_wire d = (case append_packet [] (fst d) (snd d) of Inl _ \<Rightarrow> [] | Inr packet \<Rightarrow> packet)"

definition datagram_seen :: "string \<times> bytes \<Rightarrow> string \<times> bytes" where
  "datagram_seen d = (case split_host_port (fst d) of
     Inl _ \<Rightarrow> d
   | Inr (host, port) \<Rightarrow>
       (join_host_port (canonical_host host) (format_uint (case parse_uint 16 port of None \<Rightarrow> 0 | Some p \<Rightarrow> p)), snd d))"

lemma append_packet_length: "append_packet [] source payload = Inr packet \<Longrightarrow> length payload \<le> max_udp_payload_size"
  by (auto simp: append_packet_def not_less split: sum.split_asm option.split_asm if_split_asm)

lemma read_datagram:
  assumes "datagram_ok d"
  shows "read_packet max_udp_payload_size \<lparr>rd_data = datagram_wire d @ rest, rd_end = e\<rparr> =
    (Inr (datagram_seen d), \<lparr>rd_data = rest, rd_end = e\<rparr>)"
proof -
  from assms obtain host port packet where sp: "split_host_port (fst d) = Inr (host, port)"
    and v: "parse_ip (cut_zone host) \<noteq> None \<or> valid_domain (cut_zone host)"
    and ap: "append_packet [] (fst d) (snd d) = Inr packet"
    by (auto simp: datagram_ok_def split: sum.split_asm prod.split_asm)
  from read_packet_append [OF ap sp v append_packet_length [OF ap], of rest e] sp ap show ?thesis
    by (auto simp: datagram_wire_def datagram_seen_def)
qed

text \<open>C29: The datagrams of an association are forwarded faithfully.  If the client's stream is a sequence of
  encoded datagrams, then whatever the admission policy answers and whichever writes to the outbound
  fail, what the loop forwards is a subsequence of these datagrams: each to its own destination and
  with its own payload, in order, none invented or duplicated.\<close>

theorem datagrams_forwarded_faithfully:
  assumes "copy_client_packets admit_bytes script \<lparr>rd_data = concat (map datagram_wire ds), rd_end = e\<rparr> activity s = (res, sent, activity', s')"
    and "list_all datagram_ok ds"
  shows "subseq sent (map datagram_seen ds)"
  using assms
proof (induction script arbitrary: ds activity s sent)
  case (Cons st script)
  show ?case
  proof (cases ds)
    case Nil
    have "read_packet max_udp_payload_size \<lparr>rd_data = [], rd_end = e\<rparr> = (Inl (StreamError e), \<lparr>rd_data = [], rd_end = e\<rparr>)"
      by (simp add: read_packet_def pbind_pread)
    with Nil Cons.prems(1) show ?thesis by simp
  next
    case (Cons d ds')
    let ?r = "\<lparr>rd_data = concat (map datagram_wire ds'), rd_end = e\<rparr>"
    have "read_packet max_udp_payload_size \<lparr>rd_data = concat (map datagram_wire ds), rd_end = e\<rparr> = (Inr (datagram_seen d), ?r)"
      using Cons.prems(2) Cons by (simp add: read_datagram)
    note run = Cons.prems(1) [unfolded copy_client_packets.simps this prod.case sum.case]
    have again: "subseq sent' (map datagram_seen ds')"
      if "copy_client_packets admit_bytes script ?r act t = (res, sent', activity', s')" for act t sent'
      using Cons.IH [OF that] Cons.prems(2) Cons by simp
    from run Cons again show ?thesis
      by (cases "datagram_seen d") (auto simp: Let_def split: prod.split_asm option.split_asm bool.split_asm if_split_asm)
  qed
qed simp

theorem datagrams_forwarded_faithfully_witness:
  "\<exists>sent. fst (snd (copy_client_packets (\<lambda>_ n (s :: nat). (Some True, s))
       [\<lparr>cp_now = 1, cp_env = (), cp_write_error = None, cp_cancelled = False\<rparr>]
       \<lparr>rd_data = concat (map datagram_wire [(''a.b:5'', [7, 8])]), rd_end = EOF\<rparr> 0 0)) = sent \<and>
     sent = [(''a.b:5'', [7, 8])] \<and> subseq sent (map datagram_seen [(''a.b:5'', [7, 8])])"
proof -
  let ?d = "(''a.b:5'', [7, 8] :: bytes)"
  have sp: "split_host_port ''a.b:5'' = Inr (''a.b'', ''5'')" by code_simp
  have cz: "cut_zone ''a.b'' = ''a.b''" "valid_domain ''a.b''" "parse_ip ''a.b'' = None"
    by code_simp+
  have f: "format_uint 5 = ''5''" by code_simp
  have num: "parse_uint 16 ''5'' = Some 5" using parse_uint_format_uint [of 5 16] by (simp add: f)
  have ok: "datagram_ok ?d"
    by (simp add: datagram_ok_def append_packet_def sp cz num encode_host_def max_udp_payload_size_def)
  have seen: "datagram_seen ?d = ?d"
    by (simp add: datagram_seen_def sp num f canonical_host_def cz join_host_port_def)
  have run: "copy_client_packets (\<lambda>_ n (s :: nat). (Some True, s))
       [\<lparr>cp_now = 1, cp_env = (), cp_write_error = None, cp_cancelled = False\<rparr>]
       \<lparr>rd_data = concat (map datagram_wire [?d]), rd_end = EOF\<rparr> 0 0 = (None, [?d], 1, 0)"
    using read_datagram [OF ok, of "[]" EOF] seen by simp
  from datagrams_forwarded_faithfully [OF run] ok run show ?thesis by simp
qed

end
