(* ===== verification/Config_Schema.thy ===== *)
theory Config_Schema
  imports Config_Types
begin

text \<open>
  Validation of the runtime schema (\<open>config/inbound_schema.go\<close>, \<open>config/trojan_fallback.go\<close>):
  listener addresses and their conflicts, the limits of each section, and the normalisation that
  fills in defaults.  The timezone database (\<open>known_zone\<close>) and \<open>url.Parse\<close> (\<open>parse_url\<close>) are
  arguments.  The validator is compared with a declarative description of the accepted
  configurations.
\<close>

section \<open>Errors\<close>

datatype config_reason =
    MustBeConfigured | EmptyList | BadName | DuplicateOf string | UnsupportedValue
  | InvalidAddr addr_error | BadPort | OnlyHysteria2 | OnlyTrojan | ConflictsWith string
  | OutOfRange | NegativeValue | TooSmall | UnknownZone | NotLoopback | MixedSyntax
  | UnknownInbound | NotReachable | NotFixedBackend | PointsAtItself
  | InvalidUrl | UrlScheme | UrlHost | UrlCredentials | UrlQuery

datatype config_error = ConfigError string config_reason

section \<open>Listener addresses\<close>

record listener_address =
  la_host :: string
  la_port :: nat
  la_wildcard :: bool
  la_family :: nat

type_synonym named_listener = "string \<times> listener_address"

definition is_bracket :: "char \<Rightarrow> bool" where
  "is_bracket c \<longleftrightarrow> c = CHR ''['' \<or> c = CHR '']''"

definition parse_listener :: "string \<Rightarrow> string \<Rightarrow> (config_error, listener_address) result" where
  "parse_listener path value =
     (if value = [] then Inl (ConfigError path MustBeConfigured)
      else
        (case split_host_port value of
           Inl e \<Rightarrow> Inl (ConfigError path (InvalidAddr e))
         | Inr (host, port_text) \<Rightarrow>
             (case parse_uint 16 port_text of
                None \<Rightarrow> Inl (ConfigError path BadPort)
              | Some port \<Rightarrow>
                  if port = 0 then Inl (ConfigError path BadPort)
                  else
                    let (normalized, family) =
                          (case parse_ip (trim is_bracket host) of
                             None \<Rightarrow> (to_lower (trim_suffix host ''.''), 0)
                           | Some ip \<Rightarrow> (ip_string ip, if to4 ip \<noteq> None then 4 else 6))
                    in Inr \<lparr>la_host = normalized, la_port = port,
                         la_wildcard = (normalized = [] \<or> normalized = ''0.0.0.0'' \<or> normalized = ''::''), la_family = family\<rparr>)))"

definition listeners_conflict :: "listener_address \<Rightarrow> listener_address \<Rightarrow> bool" where
  "listeners_conflict a b \<longleftrightarrow>
     (if la_port a \<noteq> la_port b then False
      else if la_host a = la_host b then True
      else if la_host a = [] \<or> la_host b = [] then True
      else (la_wildcard a \<or> la_wildcard b) \<and> la_family a \<noteq> 0 \<and> la_family a = la_family b)"

definition is_loopback :: "listener_address \<Rightarrow> bool" where
  "is_loopback a \<longleftrightarrow>
     la_host a = ''localhost'' \<or> (case parse_ip (la_host a) of None \<Rightarrow> False | Some ip \<Rightarrow> ip_is_loopback ip)"

section \<open>Sections\<close>

definition default_duration :: "duration \<Rightarrow> duration \<Rightarrow> duration" where
  "default_duration d x = (if x = 0 then d else x)"

definition fallback_with_defaults :: "trojan_fallback_config \<Rightarrow> (config_error, trojan_fallback_config) result" where
  "fallback_with_defaults c0 =
     rbind (parse_listener ''fallback.addr'' (fb_addr c0)) (\<lambda>address.
     let host = (case split_host_port (fb_addr c0) of Inl _ \<Rightarrow> [] | Inr (h, _) \<Rightarrow> h)
     in rbind (guard_ok (\<not> (la_wildcard address \<or> contains_any host [CHR '' '', CHR ''/'', CHR 0x5C, CHR ''?'', CHR ''#'', CHR ''@'', CHR 0x09, CHR 0x0D, CHR 0x0A]))
          (ConfigError ''fallback.addr'' NotFixedBackend)) (\<lambda>_.
        let c = c0\<lparr>fb_probe_timeout := default_duration second (fb_probe_timeout c0),
                   fb_dial_timeout := default_duration (3 * second) (fb_dial_timeout c0),
                   fb_idle_timeout := default_duration (30 * second) (fb_idle_timeout c0),
                   fb_max_connections := (if fb_max_connections c0 = 0 then 128 else fb_max_connections c0)\<rparr>
        in rbind (guard_ok (50 * millisecond \<le> fb_probe_timeout c \<and> fb_probe_timeout c \<le> 10 * second)
                (ConfigError ''fallback.probeTimeout'' OutOfRange)) (\<lambda>_.
           rbind (guard_ok (50 * millisecond \<le> fb_dial_timeout c \<and> fb_dial_timeout c \<le> 30 * second)
                (ConfigError ''fallback.dialTimeout'' OutOfRange)) (\<lambda>_.
           rbind (guard_ok (second \<le> fb_idle_timeout c \<and> fb_idle_timeout c \<le> 10 * minute)
                (ConfigError ''fallback.idleTimeout'' OutOfRange)) (\<lambda>_.
           rbind (guard_ok (1 \<le> fb_max_connections c \<and> fb_max_connections c \<le> 65535)
                (ConfigError ''fallback.maxConnections'' OutOfRange)) (\<lambda>_. Inr c))))))"

definition validate_trojan_inbound ::
  "string \<Rightarrow> trojan_inbound_config \<Rightarrow> listener_address \<Rightarrow> (config_error, unit) result"
where
  "validate_trojan_inbound path t listen =
     rbind (case ti_fallback t of
              None \<Rightarrow> Inr ()
            | Some f \<Rightarrow>
                (case fallback_with_defaults f of
                   Inl (ConfigError p r) \<Rightarrow> Inl (ConfigError (path @ ''.'' @ p) r)
                 | Inr fb \<Rightarrow>
                     rbind (parse_listener (path @ ''.fallback.addr'') (fb_addr fb)) (\<lambda>backend.
                     guard_ok (\<not> listeners_conflict listen backend) (ConfigError (path @ ''.fallback.addr'') PointsAtItself)))) (\<lambda>_.
     rbind (guard_ok (0 \<le> ti_handshake_timeout t) (ConfigError (path @ ''.handshakeTimeout'') NegativeValue)) (\<lambda>_.
     rbind (guard_ok (\<not> (ti_handshake_timeout t \<noteq> 0 \<and> (ti_handshake_timeout t < second \<or> 2 * minute < ti_handshake_timeout t)))
        (ConfigError (path @ ''.handshakeTimeout'') OutOfRange)) (\<lambda>_.
     rbind (guard_ok (\<not> (ti_max_pending t < 0 \<or> 65535 < ti_max_pending t))
        (ConfigError (path @ ''.maxPendingConnections'') OutOfRange)) (\<lambda>_.
     rbind (guard_ok (0 \<le> ti_udp_idle_timeout t) (ConfigError (path @ ''.udpIdleTimeout'') NegativeValue)) (\<lambda>_.
     guard_ok (\<not> (ti_udp_idle_timeout t \<noteq> 0 \<and> (ti_udp_idle_timeout t < 5 * second \<or> 30 * minute < ti_udp_idle_timeout t)))
        (ConfigError (path @ ''.udpIdleTimeout'') OutOfRange))))))"

text \<open>What the validation reads of a parsed URL.\<close>

record parsed_url =
  pu_scheme :: string
  pu_host :: string
  pu_user :: bool
  pu_query :: string
  pu_fragment :: string

definition masquerade_proxy_type :: string where "masquerade_proxy_type = ''proxy''"

definition validate_inbound_masquerade ::
  "(string \<Rightarrow> parsed_url option) \<Rightarrow> string \<Rightarrow> inbound_masquerade_config \<Rightarrow> (config_error, unit) result"
where
  "validate_inbound_masquerade parse_url path m =
     (if im_type m \<noteq> masquerade_proxy_type then Inl (ConfigError (path @ ''.type'') UnsupportedValue)
      else
        (case im_proxy m of
           None \<Rightarrow> Inl (ConfigError (path @ ''.proxy.url'') MustBeConfigured)
         | Some proxy \<Rightarrow>
             if mp_url proxy = [] then Inl (ConfigError (path @ ''.proxy.url'') MustBeConfigured)
             else
               (case parse_url (mp_url proxy) of
                  None \<Rightarrow> Inl (ConfigError (path @ ''.proxy.url'') InvalidUrl)
                | Some target \<Rightarrow>
                    if pu_scheme target \<noteq> ''http'' \<and> pu_scheme target \<noteq> ''https'' then Inl (ConfigError (path @ ''.proxy.url'') UrlScheme)
                    else if pu_host target = [] then Inl (ConfigError (path @ ''.proxy.url'') UrlHost)
                    else if pu_user target then Inl (ConfigError (path @ ''.proxy.url'') UrlCredentials)
                    else if pu_query target \<noteq> [] \<or> pu_fragment target \<noteq> [] then Inl (ConfigError (path @ ''.proxy.url'') UrlQuery)
                    else Inr ())))"

definition validate_inbound_quic :: "string \<Rightarrow> quic_config \<Rightarrow> (config_error, unit) result" where
  "validate_inbound_quic path q =
     rbind (each_ok (\<lambda>(name, value). guard_ok (\<not> (value \<noteq> 0 \<and> value < 16384)) (ConfigError (path @ ''.'' @ name) TooSmall))
        [(''initStreamReceiveWindow'', init_stream_receive_window q), (''maxStreamReceiveWindow'', max_stream_receive_window q),
         (''initConnReceiveWindow'', init_conn_receive_window q), (''maxConnReceiveWindow'', max_conn_receive_window q)]) (\<lambda>_.
     rbind (guard_ok (\<not> (max_idle_timeout q \<noteq> 0 \<and> (max_idle_timeout q < 4 * second \<or> 120 * second < max_idle_timeout q)))
        (ConfigError (path @ ''.maxIdleTimeout'') OutOfRange)) (\<lambda>_.
     guard_ok (\<not> (max_incoming_streams q \<noteq> 0 \<and> max_incoming_streams q < 8)) (ConfigError (path @ ''.maxIncomingStreams'') TooSmall)))"

definition validate_subscription_endpoint ::
  "string \<Rightarrow> subscription_endpoint \<Rightarrow> string list \<Rightarrow> (config_error, unit) result"
where
  "validate_subscription_endpoint path endpoint inbounds =
     (if se_inbound endpoint = [] then Inl (ConfigError (path @ ''.inbound'') MustBeConfigured)
      else if se_inbound endpoint \<notin> set inbounds then Inl (ConfigError (path @ ''.inbound'') UnknownInbound)
      else if se_server_addr endpoint = [] then Inl (ConfigError (path @ ''.serverAddr'') MustBeConfigured)
      else rbind (parse_listener (path @ ''.serverAddr'') (se_server_addr endpoint)) (\<lambda>address.
           guard_ok (\<not> la_wildcard address) (ConfigError (path @ ''.serverAddr'') NotReachable)))"

section \<open>The document\<close>

text \<open>The loop over the inbounds carries the paths of the names seen and the listeners of both kinds.\<close>

record validation_state =
  vs_names :: "(string, string) gomap"
  vs_udp :: "named_listener list"
  vs_tcp :: "named_listener list"

definition indexed :: "string \<Rightarrow> nat \<Rightarrow> string" where
  "indexed base i = base @ ''['' @ format_uint i @ '']''"

definition check_conflicts :: "string \<Rightarrow> listener_address \<Rightarrow> named_listener list \<Rightarrow> (config_error, unit) result" where
  "check_conflicts path l existing =
     each_ok (\<lambda>(name, other). guard_ok (\<not> listeners_conflict other l) (ConfigError (path @ ''.listen'') (ConflictsWith name))) existing"

definition validate_inbound ::
  "(string \<Rightarrow> parsed_url option) \<Rightarrow> string \<Rightarrow> inbound \<Rightarrow> validation_state \<Rightarrow> (config_error, validation_state) result"
where
  "validate_inbound parse_url path ib vs =
     (if ib_name ib = [] \<or> trim_space (ib_name ib) \<noteq> ib_name ib then Inl (ConfigError (path @ ''.name'') BadName)
      else
        (case map_of (vs_names vs) (ib_name ib) of
           Some previous \<Rightarrow> Inl (ConfigError (path @ ''.name'') (DuplicateOf previous))
         | None \<Rightarrow>
             let vs1 = vs\<lparr>vs_names := gput (ib_name ib) path (vs_names vs)\<rparr>
             in if ib_type ib \<noteq> hysteria2_type \<and> ib_type ib \<noteq> trojan_type then Inl (ConfigError (path @ ''.type'') UnsupportedValue)
                else
                  rbind (parse_listener (path @ ''.listen'') (ib_listen ib)) (\<lambda>listener.
                  rbind (case ib_masquerade ib of
                           None \<Rightarrow> Inr ()
                         | Some m \<Rightarrow>
                             if ib_type ib \<noteq> hysteria2_type then Inl (ConfigError (path @ ''.masquerade'') OnlyHysteria2)
                             else validate_inbound_masquerade parse_url (path @ ''.masquerade'') m) (\<lambda>_.
                  if ib_type ib = hysteria2_type
                  then
                    rbind (guard_ok (ib_trojan ib = None) (ConfigError (path @ ''.trojan'') OnlyTrojan)) (\<lambda>_.
                    rbind (check_conflicts path listener (vs_udp vs1)) (\<lambda>_.
                    let vs2 = vs1\<lparr>vs_udp := vs_udp vs1 @ [(path, listener)]\<rparr>
                    in rbind (case ib_quic ib of None \<Rightarrow> Inr () | Some q \<Rightarrow> validate_inbound_quic (path @ ''.quic'') q) (\<lambda>_. Inr vs2)))
                  else
                    rbind (guard_ok (ib_quic ib = None) (ConfigError (path @ ''.quic'') OnlyHysteria2)) (\<lambda>_.
                    rbind (case ib_trojan ib of None \<Rightarrow> Inr () | Some t \<Rightarrow> validate_trojan_inbound (path @ ''.trojan'') t listener) (\<lambda>_.
                    rbind (check_conflicts path listener (vs_tcp vs1)) (\<lambda>_.
                    Inr (vs1\<lparr>vs_tcp := vs_tcp vs1 @ [(path, listener)]\<rparr>))))))))"

fun validate_inbounds ::
  "(string \<Rightarrow> parsed_url option) \<Rightarrow> nat \<Rightarrow> inbound list \<Rightarrow> validation_state \<Rightarrow> (config_error, validation_state) result"
where
  "validate_inbounds parse_url i [] vs = Inr vs"
| "validate_inbounds parse_url i (ib # ibs) vs =
     rbind (validate_inbound parse_url (indexed ''inbounds'' i) ib vs) (\<lambda>vs'. validate_inbounds parse_url (Suc i) ibs vs')"

fun validate_endpoints ::
  "nat \<Rightarrow> subscription_endpoint list \<Rightarrow> string list \<Rightarrow> string list \<Rightarrow> (config_error, unit) result"
where
  "validate_endpoints i [] names seen = Inr ()"
| "validate_endpoints i (endpoint # endpoints) names seen =
     rbind (validate_subscription_endpoint (indexed ''sub.endpoints'' i) endpoint names) (\<lambda>_.
     if se_inbound endpoint \<in> set seen
     then Inl (ConfigError (indexed ''sub.endpoints'' i @ ''.inbound'') (DuplicateOf (se_inbound endpoint)))
     else validate_endpoints (Suc i) endpoints names (se_inbound endpoint # seen))"

definition empty_endpoint :: subscription_endpoint where
  "empty_endpoint = \<lparr>se_inbound = [], se_server_addr = [], se_sni = [], se_insecure = False\<rparr>"

definition validate_sub ::
  "inbound_sub_config \<Rightarrow> string list \<Rightarrow> named_listener list \<Rightarrow> (config_error, unit) result"
where
  "validate_sub sub names tcp =
     rbind (case is_endpoints sub of
              Some endpoints \<Rightarrow>
                if endpoints = [] then Inl (ConfigError ''sub.endpoints'' EmptyList)
                else if is_single sub \<noteq> None then Inl (ConfigError ''sub.endpoints'' MixedSyntax)
                else validate_endpoints 0 endpoints names []
            | None \<Rightarrow>
                validate_subscription_endpoint ''sub'' (case is_single sub of None \<Rightarrow> empty_endpoint | Some e \<Rightarrow> e) names) (\<lambda>_.
     if is_listen sub = [] then Inr ()
     else rbind (parse_listener ''sub.listen'' (is_listen sub)) (\<lambda>listener. check_conflicts ''sub'' listener tcp))"

text \<open>The defaults that \<open>validate\<close> writes into the document.\<close>

definition with_runtime_defaults :: "inbound_config \<Rightarrow> inbound_config" where
  "with_runtime_defaults c =
     c\<lparr>ic_timezone := (if ic_timezone c = [] then ''UTC'' else ic_timezone c),
       ic_flush_interval := default_duration (10 * second) (ic_flush_interval c),
       ic_db_path := (if ic_db_path c = [] then ''proxy-gateway.db'' else ic_db_path c),
       ic_systemd := map_option (\<lambda>s. if sd_unit s = [] then s\<lparr>sd_unit := ''proxy-gateway.service''\<rparr> else s) (ic_systemd c)\<rparr>"

definition empty_validation :: validation_state where
  "empty_validation = \<lparr>vs_names = [], vs_udp = [], vs_tcp = []\<rparr>"

definition validate_admin :: "string \<Rightarrow> named_listener list \<Rightarrow> (config_error, named_listener list) result" where
  "validate_admin admin tcp =
     (if admin = [] then Inr tcp
      else rbind (parse_listener ''admin.listen'' admin) (\<lambda>listener.
           rbind (guard_ok (is_loopback listener) (ConfigError ''admin.listen'' NotLoopback)) (\<lambda>_.
           Inr (tcp @ [(''admin'', listener)]))))"

definition validate_config ::
  "(string \<Rightarrow> parsed_url option) \<Rightarrow> (string \<Rightarrow> bool) \<Rightarrow> inbound_config \<Rightarrow> (config_error, inbound_config) result"
where
  "validate_config parse_url known_zone c =
     rbind (guard_ok (ic_inbounds c \<noteq> []) (ConfigError ''inbounds'' EmptyList)) (\<lambda>_.
     rbind (validate_inbounds parse_url 0 (ic_inbounds c) empty_validation) (\<lambda>vs.
     rbind (guard_ok (tls_cert (ic_tls c) \<noteq> [] \<and> tls_key (ic_tls c) \<noteq> []) (ConfigError ''tls'' MustBeConfigured)) (\<lambda>_.
     let c' = with_runtime_defaults c
     in rbind (guard_ok (known_zone (ic_timezone c')) (ConfigError ''timezone'' UnknownZone)) (\<lambda>_.
        rbind (guard_ok (0 \<le> ic_flush_interval c) (ConfigError ''trafficFlushInterval'' NegativeValue)) (\<lambda>_.
        rbind (validate_admin (ic_admin_listen c) (vs_tcp vs)) (\<lambda>tcp.
        rbind (case ic_sub c of None \<Rightarrow> Inr () | Some sub \<Rightarrow> validate_sub sub (gkeys (vs_names vs)) tcp) (\<lambda>_. Inr c')))))))"

section \<open>The accepted configurations\<close>

text \<open>What the operator is promised, without the order of the checks and the paths of the errors.\<close>

definition listener_of :: "string \<Rightarrow> listener_address option" where
  "listener_of value = (case parse_listener [] value of Inl _ \<Rightarrow> None | Inr l \<Rightarrow> Some l)"

definition unset_or :: "(int \<Rightarrow> bool) \<Rightarrow> int \<Rightarrow> bool" where
  "unset_or P x \<longleftrightarrow> x = 0 \<or> P x"

definition fallback_spec :: "listener_address \<Rightarrow> trojan_fallback_config \<Rightarrow> bool" where
  "fallback_spec listen f \<longleftrightarrow>
     (\<exists>l. listener_of (fb_addr f) = Some l \<and> \<not> la_wildcard l \<and> \<not> listeners_conflict listen l) \<and>
     (\<forall>h p. split_host_port (fb_addr f) = Inr (h, p) \<longrightarrow> set h \<inter> {CHR '' '', CHR ''/'', CHR 0x5C, CHR ''?'', CHR ''#'', CHR ''@'', CHR 0x09, CHR 0x0D, CHR 0x0A} = {}) \<and>
     unset_or (\<lambda>d. 50 * millisecond \<le> d \<and> d \<le> 10 * second) (fb_probe_timeout f) \<and>
     unset_or (\<lambda>d. 50 * millisecond \<le> d \<and> d \<le> 30 * second) (fb_dial_timeout f) \<and>
     unset_or (\<lambda>d. second \<le> d \<and> d \<le> 10 * minute) (fb_idle_timeout f) \<and>
     unset_or (\<lambda>n. 1 \<le> n \<and> n \<le> 65535) (fb_max_connections f)"

definition trojan_spec :: "listener_address \<Rightarrow> trojan_inbound_config \<Rightarrow> bool" where
  "trojan_spec listen t \<longleftrightarrow>
     (\<forall>f. ti_fallback t = Some f \<longrightarrow> fallback_spec listen f) \<and>
     unset_or (\<lambda>d. second \<le> d \<and> d \<le> 2 * minute) (ti_handshake_timeout t) \<and>
     unset_or (\<lambda>n. 1 \<le> n \<and> n \<le> 65535) (ti_max_pending t) \<and>
     unset_or (\<lambda>d. 5 * second \<le> d \<and> d \<le> 30 * minute) (ti_udp_idle_timeout t)"

definition masquerade_spec :: "(string \<Rightarrow> parsed_url option) \<Rightarrow> inbound_masquerade_config \<Rightarrow> bool" where
  "masquerade_spec parse_url m \<longleftrightarrow>
     im_type m = ''proxy'' \<and>
     (\<exists>proxy u. im_proxy m = Some proxy \<and> mp_url proxy \<noteq> [] \<and> parse_url (mp_url proxy) = Some u \<and>
        pu_scheme u \<in> {''http'', ''https''} \<and> pu_host u \<noteq> [] \<and> \<not> pu_user u \<and> pu_query u = [] \<and> pu_fragment u = [])"

definition quic_spec :: "quic_config \<Rightarrow> bool" where
  "quic_spec q \<longleftrightarrow>
     (\<forall>w \<in> {init_stream_receive_window q, max_stream_receive_window q, init_conn_receive_window q, max_conn_receive_window q}. w = 0 \<or> 16384 \<le> w) \<and>
     unset_or (\<lambda>d. 4 * second \<le> d \<and> d \<le> 120 * second) (max_idle_timeout q) \<and>
     unset_or (\<lambda>n. 8 \<le> n) (max_incoming_streams q)"

definition inbound_spec :: "(string \<Rightarrow> parsed_url option) \<Rightarrow> inbound \<Rightarrow> bool" where
  "inbound_spec parse_url ib \<longleftrightarrow>
     ib_name ib \<noteq> [] \<and> trim_space (ib_name ib) = ib_name ib \<and>
     (\<exists>l. listener_of (ib_listen ib) = Some l \<and>
       (ib_type ib = hysteria2_type \<and> ib_trojan ib = None \<and>
          (\<forall>m. ib_masquerade ib = Some m \<longrightarrow> masquerade_spec parse_url m) \<and> (\<forall>q. ib_quic ib = Some q \<longrightarrow> quic_spec q) \<or>
        ib_type ib = trojan_type \<and> ib_masquerade ib = None \<and> ib_quic ib = None \<and>
          (\<forall>t. ib_trojan ib = Some t \<longrightarrow> trojan_spec l t)))"

definition listeners_of_type :: "string \<Rightarrow> inbound list \<Rightarrow> listener_address list" where
  "listeners_of_type ty ibs = map (\<lambda>ib. the (listener_of (ib_listen ib))) (filter (\<lambda>ib. ib_type ib = ty) ibs)"

definition no_conflicts :: "listener_address list \<Rightarrow> bool" where
  "no_conflicts = sorted_wrt (\<lambda>a b. \<not> listeners_conflict a b)"

definition endpoint_spec :: "string list \<Rightarrow> subscription_endpoint \<Rightarrow> bool" where
  "endpoint_spec names e \<longleftrightarrow>
     se_inbound e \<noteq> [] \<and> se_inbound e \<in> set names \<and> (\<exists>l. listener_of (se_server_addr e) = Some l \<and> \<not> la_wildcard l)"

text \<open>The endpoints a subscription section publishes; none for the two ways of mixing its syntax.\<close>

definition published_endpoints :: "inbound_sub_config \<Rightarrow> subscription_endpoint list" where
  "published_endpoints sub =
     (case is_endpoints sub of
        Some es \<Rightarrow> if is_single sub = None then es else []
      | None \<Rightarrow> [case is_single sub of None \<Rightarrow> empty_endpoint | Some e \<Rightarrow> e])"

definition admin_listeners :: "inbound_config \<Rightarrow> listener_address list" where
  "admin_listeners c = (if ic_admin_listen c = [] then [] else [the (listener_of (ic_admin_listen c))])"

definition sub_spec :: "string list \<Rightarrow> listener_address list \<Rightarrow> inbound_sub_config \<Rightarrow> bool" where
  "sub_spec names tcp sub \<longleftrightarrow>
     published_endpoints sub \<noteq> [] \<and> list_all (endpoint_spec names) (published_endpoints sub) \<and>
     distinct (map se_inbound (published_endpoints sub)) \<and>
     (is_listen sub \<noteq> [] \<longrightarrow> (\<exists>l. listener_of (is_listen sub) = Some l \<and> (\<forall>other \<in> set tcp. \<not> listeners_conflict other l)))"

definition config_spec :: "(string \<Rightarrow> parsed_url option) \<Rightarrow> (string \<Rightarrow> bool) \<Rightarrow> inbound_config \<Rightarrow> bool" where
  "config_spec parse_url known_zone c \<longleftrightarrow>
     ic_inbounds c \<noteq> [] \<and> list_all (inbound_spec parse_url) (ic_inbounds c) \<and> distinct (map ib_name (ic_inbounds c)) \<and>
     no_conflicts (listeners_of_type hysteria2_type (ic_inbounds c)) \<and>
     no_conflicts (listeners_of_type trojan_type (ic_inbounds c)) \<and>
     tls_cert (ic_tls c) \<noteq> [] \<and> tls_key (ic_tls c) \<noteq> [] \<and>
     known_zone (if ic_timezone c = [] then ''UTC'' else ic_timezone c) \<and> 0 \<le> ic_flush_interval c \<and>
     (ic_admin_listen c \<noteq> [] \<longrightarrow> (\<exists>l. listener_of (ic_admin_listen c) = Some l \<and> is_loopback l)) \<and>
     (\<forall>sub. ic_sub c = Some sub \<longrightarrow>
        sub_spec (map ib_name (ic_inbounds c)) (listeners_of_type trojan_type (ic_inbounds c) @ admin_listeners c) sub)"

text \<open>
  The same with the conflict check that the design documents ask for: all TCP listeners, those of the Trojan
  inbounds, of the management web and of the subscription service, are compared with each other.
\<close>

definition sub_listeners :: "inbound_config \<Rightarrow> listener_address list" where
  "sub_listeners c =
     (case ic_sub c of None \<Rightarrow> [] | Some sub \<Rightarrow> if is_listen sub = [] then [] else [the (listener_of (is_listen sub))])"

definition documented_spec :: "(string \<Rightarrow> parsed_url option) \<Rightarrow> (string \<Rightarrow> bool) \<Rightarrow> inbound_config \<Rightarrow> bool" where
  "documented_spec parse_url known_zone c \<longleftrightarrow>
     ic_inbounds c \<noteq> [] \<and> list_all (inbound_spec parse_url) (ic_inbounds c) \<and> distinct (map ib_name (ic_inbounds c)) \<and>
     no_conflicts (listeners_of_type hysteria2_type (ic_inbounds c)) \<and>
     no_conflicts (listeners_of_type trojan_type (ic_inbounds c) @ admin_listeners c @ sub_listeners c) \<and>
     tls_cert (ic_tls c) \<noteq> [] \<and> tls_key (ic_tls c) \<noteq> [] \<and>
     known_zone (if ic_timezone c = [] then ''UTC'' else ic_timezone c) \<and> 0 \<le> ic_flush_interval c \<and>
     (ic_admin_listen c \<noteq> [] \<longrightarrow> (\<exists>l. listener_of (ic_admin_listen c) = Some l \<and> is_loopback l)) \<and>
     (\<forall>sub. ic_sub c = Some sub \<longrightarrow> sub_spec (map ib_name (ic_inbounds c)) [] sub)"

section \<open>The validator decides the specification\<close>

lemma parse_listener_ok: "parse_listener path value = Inr l \<longleftrightarrow> listener_of value = Some l"
  by (auto simp: listener_of_def parse_listener_def Let_def split: sum.split option.split prod.split)

lemma listener_of_Nil [simp]: "listener_of [] = None"
  by (simp add: listener_of_def parse_listener_def)

lemma guard_bind_eq_Inr: "rbind (guard_ok c e) f = Inr x \<longleftrightarrow> c \<and> f () = Inr x"
  by (cases c) simp_all

lemma optional_ok: "(case x of None \<Rightarrow> Inr () | Some y \<Rightarrow> f y) = Inr u \<longleftrightarrow> (\<forall>y. x = Some y \<longrightarrow> f y = Inr ())"
  by (cases x) auto

lemmas validation_simps = rbind_eq_Inr guard_bind_eq_Inr parse_listener_ok

lemma fallback_with_defaults_ok:
  "(\<exists>fb. fallback_with_defaults f = Inr fb \<and> (\<exists>l. listener_of (fb_addr fb) = Some l \<and> \<not> listeners_conflict listen l)) \<longleftrightarrow>
     fallback_spec listen f"
proof (cases "listener_of (fb_addr f)")
  case None
  then show ?thesis by (auto simp: fallback_with_defaults_def fallback_spec_def validation_simps)
next
  case (Some l)
  then obtain h p where hp: "split_host_port (fb_addr f) = Inr (h, p)"
    by (auto simp: listener_of_def parse_listener_def split: if_split_asm sum.split_asm)
  have ca: "contains_any h cs = (set h \<inter> set cs \<noteq> {})" for cs by (auto simp: contains_any_def)
  show ?thesis
    unfolding fallback_with_defaults_def fallback_spec_def validation_simps Let_def Some hp sum.case prod.case
    by (auto simp: ca Some unset_or_def default_duration_def split: if_split_asm)
qed

lemma validate_trojan_ok: "validate_trojan_inbound path t listen = Inr () \<longleftrightarrow> trojan_spec listen t"
proof (cases "ti_fallback t")
  case None
  then show ?thesis by (auto simp: validate_trojan_inbound_def trojan_spec_def validation_simps unset_or_def)
next
  case (Some f)
  have fb: "(case fallback_with_defaults f of
        Inl (ConfigError p r) \<Rightarrow> Inl (ConfigError (path @ ''.'' @ p) r)
      | Inr fb \<Rightarrow> rbind (parse_listener (path @ ''.fallback.addr'') (fb_addr fb)) (\<lambda>backend.
          guard_ok (\<not> listeners_conflict listen backend) (ConfigError (path @ ''.fallback.addr'') PointsAtItself))) = Inr () \<longleftrightarrow> fallback_spec listen f"
    unfolding fallback_with_defaults_ok [symmetric]
    by (auto simp: validation_simps split: sum.split config_error.split)
  show ?thesis
    unfolding validate_trojan_inbound_def trojan_spec_def Some option.case validation_simps
    by (auto simp: fb unset_or_def)
qed

lemma validate_masquerade_ok: "validate_inbound_masquerade parse_url path m = Inr () \<longleftrightarrow> masquerade_spec parse_url m"
  by (auto simp: validate_inbound_masquerade_def masquerade_spec_def masquerade_proxy_type_def split: option.split)

lemma validate_quic_ok: "validate_inbound_quic path q = Inr () \<longleftrightarrow> quic_spec q"
  unfolding validate_inbound_quic_def validation_simps each_ok_eq_Inr
  by (auto simp: quic_spec_def unset_or_def not_less)

lemma validate_endpoint_ok: "validate_subscription_endpoint path e names = Inr () \<longleftrightarrow> endpoint_spec names e"
  by (auto simp: validate_subscription_endpoint_def endpoint_spec_def validation_simps)

lemma check_conflicts_ok: "check_conflicts path l existing = Inr () \<longleftrightarrow> (\<forall>other \<in> set (map snd existing). \<not> listeners_conflict other l)"
  by (auto simp: check_conflicts_def each_ok_eq_Inr)

lemma validate_endpoints_ok:
  "validate_endpoints i es names seen = Inr () \<longleftrightarrow>
     list_all (endpoint_spec names) es \<and> distinct (map se_inbound es) \<and> set seen \<inter> set (map se_inbound es) = {}"
  by (induction i es names seen rule: validate_endpoints.induct) (auto simp: rbind_eq_Inr validate_endpoint_ok)

lemma validate_sub_ok:
  "validate_sub sub names tcp = Inr () \<longleftrightarrow> sub_spec names (map snd tcp) sub"
  by (auto simp: validate_sub_def sub_spec_def published_endpoints_def validation_simps validate_endpoints_ok
      validate_endpoint_ok check_conflicts_ok split: option.split)

text \<open>One inbound, and the loop.\<close>

definition after_inbound :: "string \<Rightarrow> inbound \<Rightarrow> validation_state \<Rightarrow> validation_state" where
  "after_inbound path ib vs =
     (let l = the (listener_of (ib_listen ib)); vs1 = vs\<lparr>vs_names := gput (ib_name ib) path (vs_names vs)\<rparr>
      in if ib_type ib = hysteria2_type then vs1\<lparr>vs_udp := vs_udp vs @ [(path, l)]\<rparr> else vs1\<lparr>vs_tcp := vs_tcp vs @ [(path, l)]\<rparr>)"

lemma types_differ [simp]: "hysteria2_type \<noteq> trojan_type" "trojan_type \<noteq> hysteria2_type"
  by (simp_all add: hysteria2_type_def trojan_type_def)

lemma validate_inbound_ok:
  "validate_inbound parse_url path ib vs = Inr vs' \<longleftrightarrow>
     inbound_spec parse_url ib \<and> ib_name ib \<notin> set (gkeys (vs_names vs)) \<and> vs' = after_inbound path ib vs \<and>
     (\<forall>other \<in> set (map snd (if ib_type ib = hysteria2_type then vs_udp vs else vs_tcp vs)).
        \<not> listeners_conflict other (the (listener_of (ib_listen ib))))"
proof (cases "ib_name ib = [] \<or> trim_space (ib_name ib) \<noteq> ib_name ib \<or> map_of (vs_names vs) (ib_name ib) \<noteq> None \<or> listener_of (ib_listen ib) = None")
  case True
  then show ?thesis
    by (auto simp: validate_inbound_def inbound_spec_def validation_simps Let_def map_of_eq_None_iff split: option.split)
next
  case False
  then obtain l where l: "listener_of (ib_listen ib) = Some l" by auto
  from False have n: "ib_name ib \<noteq> []" "trim_space (ib_name ib) = ib_name ib" "map_of (vs_names vs) (ib_name ib) = None"
    "ib_name ib \<notin> set (gkeys (vs_names vs))" by (auto simp: map_of_eq_None_iff)
  show ?thesis
  proof (cases "ib_type ib = hysteria2_type")
    case True
    show ?thesis
      using True n l
      by (auto simp: validate_inbound_def inbound_spec_def validation_simps Let_def check_conflicts_ok optional_ok validate_quic_ok
        validate_masquerade_ok after_inbound_def)
  next
    case False
    show ?thesis
      using False n l
      by (auto simp: validate_inbound_def inbound_spec_def validation_simps Let_def check_conflicts_ok optional_ok validate_trojan_ok
        after_inbound_def)
  qed
qed

lemma gkeys_gput_fresh: "k \<notin> set (gkeys m) \<Longrightarrow> gkeys (gput k v m) = gkeys m @ [k]"
  by (induction m) auto

lemma after_inbound_simps:
  "ib_name ib \<notin> set (gkeys (vs_names vs)) \<Longrightarrow> gkeys (vs_names (after_inbound path ib vs)) = gkeys (vs_names vs) @ [ib_name ib]"
  "map snd (vs_udp (after_inbound path ib vs)) = map snd (vs_udp vs) @ (if ib_type ib = hysteria2_type then [the (listener_of (ib_listen ib))] else [])"
  "map snd (vs_tcp (after_inbound path ib vs)) = map snd (vs_tcp vs) @ (if ib_type ib = hysteria2_type then [] else [the (listener_of (ib_listen ib))])"
  by (simp_all add: after_inbound_def Let_def gkeys_gput_fresh)

lemma inbound_spec_type: "inbound_spec parse_url ib \<Longrightarrow> ib_type ib = hysteria2_type \<or> ib_type ib = trojan_type"
  by (auto simp: inbound_spec_def)

lemma listeners_of_type_Cons:
  "listeners_of_type ty (ib # ibs) = (if ib_type ib = ty then [the (listener_of (ib_listen ib))] else []) @ listeners_of_type ty ibs"
  by (simp add: listeners_of_type_def)

definition state_after :: "inbound list \<Rightarrow> validation_state \<Rightarrow> validation_state \<Rightarrow> bool" where
  "state_after ibs vs vs' \<longleftrightarrow>
     gkeys (vs_names vs') = gkeys (vs_names vs) @ map ib_name ibs \<and>
     map snd (vs_udp vs') = map snd (vs_udp vs) @ listeners_of_type hysteria2_type ibs \<and>
     map snd (vs_tcp vs') = map snd (vs_tcp vs) @ listeners_of_type trojan_type ibs"

definition state_ok :: "validation_state \<Rightarrow> bool" where
  "state_ok vs \<longleftrightarrow> distinct (gkeys (vs_names vs)) \<and> no_conflicts (map snd (vs_udp vs)) \<and> no_conflicts (map snd (vs_tcp vs))"

lemma no_conflicts_snoc: "no_conflicts (xs @ [l]) \<longleftrightarrow> no_conflicts xs \<and> (\<forall>x \<in> set xs. \<not> listeners_conflict x l)"
  by (simp add: no_conflicts_def sorted_wrt_append)

lemma no_conflicts_append: "no_conflicts (xs @ ys) \<Longrightarrow> no_conflicts xs"
  by (simp add: no_conflicts_def sorted_wrt_append)

lemma after_inbound_ok:
  assumes "state_ok vs" "inbound_spec parse_url ib"
  shows "(\<exists>vs'. validate_inbound parse_url path ib vs = Inr vs') \<longleftrightarrow> ib_name ib \<notin> set (gkeys (vs_names vs)) \<and> state_ok (after_inbound path ib vs)"
  using assms by (auto simp: validate_inbound_ok state_ok_def after_inbound_simps no_conflicts_snoc)

lemma validate_inbounds_sound:
  assumes "validate_inbounds parse_url i ibs vs = Inr vs'" "state_ok vs"
  shows "list_all (inbound_spec parse_url) ibs \<and> state_after ibs vs vs' \<and> state_ok vs'"
  using assms
proof (induction parse_url i ibs vs rule: validate_inbounds.induct)
  case (2 parse_url i ib ibs vs)
  from "2.prems"(1) obtain vs1 where one: "validate_inbound parse_url (indexed ''inbounds'' i) ib vs = Inr vs1"
    and rest: "validate_inbounds parse_url (Suc i) ibs vs1 = Inr vs'" by (auto simp: rbind_eq_Inr)
  from one have v: "inbound_spec parse_url ib" "ib_name ib \<notin> set (gkeys (vs_names vs))" "vs1 = after_inbound (indexed ''inbounds'' i) ib vs"
    by (auto simp: validate_inbound_ok)
  then have "state_ok vs1" using after_inbound_ok [OF "2.prems"(2) v(1)] one by auto
  from "2.IH" [OF rest this] v inbound_spec_type [OF v(1)] show ?case
    by (auto simp: state_after_def after_inbound_simps listeners_of_type_Cons)
qed (simp add: state_after_def listeners_of_type_def)

lemma state_after_ok:
  assumes "state_after ibs vs vs'"
  shows "state_ok vs' \<longleftrightarrow> distinct (gkeys (vs_names vs) @ map ib_name ibs) \<and>
    no_conflicts (map snd (vs_udp vs) @ listeners_of_type hysteria2_type ibs) \<and>
    no_conflicts (map snd (vs_tcp vs) @ listeners_of_type trojan_type ibs)"
  using assms by (simp add: state_after_def state_ok_def)

lemma validate_inbounds_complete:
  assumes "list_all (inbound_spec parse_url) ibs" "distinct (gkeys (vs_names vs) @ map ib_name ibs)"
    and "no_conflicts (map snd (vs_udp vs) @ listeners_of_type hysteria2_type ibs)"
    and "no_conflicts (map snd (vs_tcp vs) @ listeners_of_type trojan_type ibs)"
  shows "\<exists>vs'. validate_inbounds parse_url i ibs vs = Inr vs'"
  using assms
proof (induction ibs arbitrary: i vs)
  case (Cons ib ibs)
  let ?vs1 = "after_inbound (indexed ''inbounds'' i) ib vs"
  have ty: "ib_type ib = hysteria2_type \<or> ib_type ib = trojan_type" and spec: "inbound_spec parse_url ib"
    using Cons.prems(1) inbound_spec_type by auto
  have fresh: "ib_name ib \<notin> set (gkeys (vs_names vs))" using Cons.prems(2) by auto
  have dist: "distinct (gkeys (vs_names ?vs1) @ map ib_name ibs)" using Cons.prems(2) fresh by (auto simp: after_inbound_simps)
  have nc: "no_conflicts (map snd (vs_udp ?vs1) @ listeners_of_type hysteria2_type ibs)"
    "no_conflicts (map snd (vs_tcp ?vs1) @ listeners_of_type trojan_type ibs)"
    using Cons.prems(3,4) ty by (auto simp: after_inbound_simps listeners_of_type_Cons)
  obtain vs' where go: "validate_inbounds parse_url (Suc i) ibs ?vs1 = Inr vs'"
    using Cons.IH [OF _ dist nc] Cons.prems(1) by auto
  have "state_ok ?vs1"
    using dist nc no_conflicts_append by (auto simp: state_ok_def)
  moreover have "state_ok vs" using Cons.prems no_conflicts_append by (auto simp: state_ok_def)
  ultimately obtain v where one: "validate_inbound parse_url (indexed ''inbounds'' i) ib vs = Inr v" using after_inbound_ok [OF _ spec] fresh by blast
  then have "v = ?vs1" by (simp add: validate_inbound_ok)
  with one go show ?case by auto
qed simp

lemma state_ok_empty: "state_ok empty_validation"
  by (simp add: state_ok_def empty_validation_def no_conflicts_def)

lemma validate_inbounds_iff:
  "(\<exists>vs. validate_inbounds parse_url 0 ibs empty_validation = Inr vs) \<longleftrightarrow>
     list_all (inbound_spec parse_url) ibs \<and> distinct (map ib_name ibs) \<and>
     no_conflicts (listeners_of_type hysteria2_type ibs) \<and> no_conflicts (listeners_of_type trojan_type ibs)"
proof
  assume "\<exists>vs. validate_inbounds parse_url 0 ibs empty_validation = Inr vs"
  then obtain vs where run: "validate_inbounds parse_url 0 ibs empty_validation = Inr vs" ..
  note sound = validate_inbounds_sound [OF run state_ok_empty]
  from sound state_after_ok [of ibs empty_validation vs]
  show "list_all (inbound_spec parse_url) ibs \<and> distinct (map ib_name ibs) \<and>
     no_conflicts (listeners_of_type hysteria2_type ibs) \<and> no_conflicts (listeners_of_type trojan_type ibs)"
    by (simp add: empty_validation_def)
next
  assume "list_all (inbound_spec parse_url) ibs \<and> distinct (map ib_name ibs) \<and>
     no_conflicts (listeners_of_type hysteria2_type ibs) \<and> no_conflicts (listeners_of_type trojan_type ibs)"
  then show "\<exists>vs. validate_inbounds parse_url 0 ibs empty_validation = Inr vs"
    by (intro validate_inbounds_complete) (simp_all add: empty_validation_def)
qed

lemma validate_admin_ok:
  "validate_admin admin tcp = Inr tcp' \<longleftrightarrow>
     (admin \<noteq> [] \<longrightarrow> (\<exists>l. listener_of admin = Some l \<and> is_loopback l)) \<and>
     tcp' = tcp @ (if admin = [] then [] else [(''admin'', the (listener_of admin))])"
  by (auto simp: validate_admin_def validation_simps)

lemma validate_config_spec:
  "validate_config parse_url known_zone c = Inr c' \<longleftrightarrow> config_spec parse_url known_zone c \<and> c' = with_runtime_defaults c"
proof (cases "\<exists>vs. validate_inbounds parse_url 0 (ic_inbounds c) empty_validation = Inr vs")
  case False
  then have "\<not> config_spec parse_url known_zone c" unfolding validate_inbounds_iff config_spec_def by blast
  with False show ?thesis by (auto simp: validate_config_def validation_simps)
next
  case True
  then obtain vs where run: "validate_inbounds parse_url 0 (ic_inbounds c) empty_validation = Inr vs" ..
  have after: "gkeys (vs_names vs) = map ib_name (ic_inbounds c)" "map snd (vs_tcp vs) = listeners_of_type trojan_type (ic_inbounds c)"
    using validate_inbounds_sound [OF run state_ok_empty] by (auto simp: state_after_def empty_validation_def)
  have ins: "list_all (inbound_spec parse_url) (ic_inbounds c) \<and> distinct (map ib_name (ic_inbounds c)) \<and>
     no_conflicts (listeners_of_type hysteria2_type (ic_inbounds c)) \<and> no_conflicts (listeners_of_type trojan_type (ic_inbounds c))"
    using True unfolding validate_inbounds_iff .
  have adm: "map snd (if ic_admin_listen c = [] then [] else [(''admin'', the (listener_of (ic_admin_listen c)))]) = admin_listeners c"
    by (simp add: admin_listeners_def)
  have tz: "ic_timezone (with_runtime_defaults c) = (if ic_timezone c = [] then ''UTC'' else ic_timezone c)"
    by (simp add: with_runtime_defaults_def)
  show ?thesis
    unfolding validate_config_def validation_simps Let_def validate_admin_ok optional_ok validate_sub_ok tz config_spec_def
    using run ins by (auto simp: after adm)
qed

lemma listeners_conflict_commute: "listeners_conflict a b \<longleftrightarrow> listeners_conflict b a"
  by (auto simp: listeners_conflict_def)

lemma config_spec_defaults: "config_spec parse_url known_zone c \<Longrightarrow> config_spec parse_url known_zone (with_runtime_defaults c)"
  by (auto simp: config_spec_def with_runtime_defaults_def admin_listeners_def default_duration_def)

lemma with_runtime_defaults_idem [simp]: "with_runtime_defaults (with_runtime_defaults c) = with_runtime_defaults c"
  by (cases "ic_systemd c") (simp_all add: with_runtime_defaults_def default_duration_def)

lemma sub_spec_conflicts:
  "sub_spec names tcp sub \<longleftrightarrow> sub_spec names [] sub \<and>
     (is_listen sub = [] \<or> (\<forall>other \<in> set tcp. \<not> listeners_conflict other (the (listener_of (is_listen sub)))))"
  by (auto simp: sub_spec_def)

lemma documented_spec_iff:
  "documented_spec parse_url known_zone c \<longleftrightarrow>
     config_spec parse_url known_zone c \<and> no_conflicts (listeners_of_type trojan_type (ic_inbounds c) @ admin_listeners c)"
proof -
  let ?tcp = "listeners_of_type trojan_type (ic_inbounds c) @ admin_listeners c" and ?names = "map ib_name (ic_inbounds c)"
  have "no_conflicts (?tcp @ sub_listeners c) \<and> (\<forall>sub. ic_sub c = Some sub \<longrightarrow> sub_spec ?names [] sub) \<longleftrightarrow>
      no_conflicts ?tcp \<and> (\<forall>sub. ic_sub c = Some sub \<longrightarrow> sub_spec ?names ?tcp sub)"
  proof (cases "ic_sub c")
    case (Some sub)
    then show ?thesis using sub_spec_conflicts [of ?names ?tcp sub]
      by (cases "is_listen sub = []") (auto simp: sub_listeners_def no_conflicts_snoc [of ?tcp, simplified])
  qed (simp add: sub_listeners_def)
  moreover have "no_conflicts ?tcp \<Longrightarrow> no_conflicts (listeners_of_type trojan_type (ic_inbounds c))" by (rule no_conflicts_append)
  ultimately show ?thesis unfolding documented_spec_def config_spec_def append_assoc [symmetric] by blast
qed

text \<open>C25: The validator decides a declarative schema.  \<open>validate\<close> accepts a document if and only if it meets the
  description \<open>config_spec\<close>: named and distinct inbounds with the sections of their type within
  bounds, no two Hysteria2 listeners and no two Trojan listeners in conflict, a certificate, a known timezone, a loopback
  admin listener, and a subscription that publishes known inbounds under reachable addresses on a
  listener that conflicts with no Trojan listener and not with the admin listener; and what it returns is the document with
  its defaults.  That is the schema of the design documents with one difference: the documents also compare
  the admin listener with the Trojan listeners.\<close>

theorem validator_decides_schema:
  "(validate_config parse_url known_zone c = Inr c' \<longleftrightarrow> config_spec parse_url known_zone c \<and> c' = with_runtime_defaults c) \<and>
   (documented_spec parse_url known_zone c \<longleftrightarrow>
      config_spec parse_url known_zone c \<and> no_conflicts (listeners_of_type trojan_type (ic_inbounds c) @ admin_listeners c))"
  by (simp add: validate_config_spec documented_spec_iff)

text \<open>Normalisation is stable.  A validated document is accepted again and left unchanged, so a normalised
  configuration can be stored and loaded without drifting.\<close>

theorem validated_config_stable:
  assumes "validate_config parse_url known_zone c = Inr c'"
  shows "validate_config parse_url known_zone c' = Inr c'"
  using assms by (simp add: validate_config_spec config_spec_defaults)

definition demo_inbound :: inbound where
  "demo_inbound = \<lparr>ib_name = ''hy2'', ib_type = ''hysteria2'', ib_listen = '':5'', ib_quic = None, ib_trojan = None, ib_masquerade = None\<rparr>"

definition demo_config :: inbound_config where
  "demo_config = \<lparr>ic_inbounds = [demo_inbound], ic_tls = \<lparr>tls_cert = ''c.pem'', tls_key = ''k.pem''\<rparr>, ic_admin_listen = [],
     ic_sub = None, ic_db_path = [], ic_flush_interval = 0, ic_timezone = [], ic_systemd = None\<rparr>"

lemma demo_listener: "listener_of '':5'' = Some \<lparr>la_host = [], la_port = 5, la_wildcard = True, la_family = 0\<rparr>"
proof -
  have "split_host_port '':5'' = Inr ([], ''5'')" "parse_ip (trim is_bracket []) = None" "to_lower (trim_suffix [] ''.'') = []"
    "format_uint 5 = ''5''" by code_simp+
  with parse_uint_format_uint [of 5 16] show ?thesis by (simp add: listener_of_def parse_listener_def)
qed

lemma demo_config_ok: "config_spec (\<lambda>_. None) (\<lambda>z. z = ''UTC'') demo_config"
proof -
  have "trim_space ''hy2'' = ''hy2''" by code_simp
  then show ?thesis
    by (simp add: config_spec_def demo_config_def demo_inbound_def inbound_spec_def hysteria2_type_def trojan_type_def
        listeners_of_type_def no_conflicts_def demo_listener)
qed

theorem validated_config_stable_witness:
  "\<exists>c'. validate_config (\<lambda>_. None) (\<lambda>z. z = ''UTC'') demo_config = Inr c' \<and> ic_timezone c' = ''UTC'' \<and>
     validate_config (\<lambda>_. None) (\<lambda>z. z = ''UTC'') c' = Inr c'"
proof -
  have run: "validate_config (\<lambda>_. None) (\<lambda>z. z = ''UTC'') demo_config = Inr (with_runtime_defaults demo_config)"
    by (simp add: validate_config_spec demo_config_ok)
  from validated_config_stable [OF run] run show ?thesis by (auto simp: with_runtime_defaults_def demo_config_def)
qed

text \<open>The difference is real: a management web on the very address of a Trojan inbound is accepted.\<close>

definition shared_address :: string where
  "shared_address = ''localhost:5''"

definition conflicting_config :: inbound_config where
  "conflicting_config = demo_config\<lparr>
     ic_inbounds := [\<lparr>ib_name = ''hy2'', ib_type = trojan_type, ib_listen = shared_address, ib_quic = None, ib_trojan = None, ib_masquerade = None\<rparr>],
     ic_admin_listen := shared_address\<rparr>"

lemma shared_listener: "\<exists>l. listener_of shared_address = Some l \<and> is_loopback l \<and> listeners_conflict l l"
proof -
  have split: "split_host_port shared_address = Inr (''localhost'', ''5'')" by code_simp
  have trim: "trim is_bracket ''localhost'' = ''localhost''" by code_simp
  have ip: "parse_ip ''localhost'' = None" by code_simp
  have lower: "to_lower (trim_suffix ''localhost'' ''.'') = ''localhost''" by code_simp
  have port: "parse_uint 16 ''5'' = Some 5" by (simp add: parse_uint_def decimal_value_def digit_value_def is_digit_def char_le_def)
  have "shared_address \<noteq> []" by (simp add: shared_address_def)
  then show ?thesis
    by (simp add: listener_of_def parse_listener_def split trim ip lower port is_loopback_def listeners_conflict_def)
qed

lemma admin_conflict_accepted:
  "\<exists>c'. validate_config (\<lambda>_. None) (\<lambda>z. z = ''UTC'') conflicting_config = Inr c' \<and> \<not> documented_spec (\<lambda>_. None) (\<lambda>z. z = ''UTC'') conflicting_config"
proof -
  have "trim_space ''hy2'' = ''hy2''" by code_simp
  moreover obtain l where l: "listener_of shared_address = Some l" "is_loopback l" "listeners_conflict l l" using shared_listener by blast
  moreover have "trojan_type \<noteq> hysteria2_type" "shared_address \<noteq> []" by (simp_all add: trojan_type_def hysteria2_type_def shared_address_def)
  ultimately show ?thesis
    by (simp add: validate_config_spec documented_spec_iff config_spec_def conflicting_config_def demo_config_def inbound_spec_def
        listeners_of_type_def no_conflicts_def admin_listeners_def)
qed

end
