(* ===== verification/Trojan_Service.thy ===== *)
theory Trojan_Service
  imports Trojan_Relay Config_Schema
begin

text \<open>
  The Trojan listener (\<open>inbound/trojan/service.go\<close>, \<open>fallback.go\<close>): construction, the accept loop, the
  classification of a connection by its first bytes, the website fallback, the requests it serves
  through the kernel, and its shutdown.  A connection is a number; the bytes a client sends are a
  \<open>reader\<close>.  The TLS handshake, deadlines and dials are observed through arguments.

  The first half classifies one connection; the second half lets the goroutines of the service run
  in any order as an inductive step relation over its shared state.
\<close>

section \<open>Reading a limited header\<close>

text \<open>\<open>io.LimitReader(client, n)\<close>.\<close>

definition limit_reader :: "nat \<Rightarrow> reader \<Rightarrow> reader" where
  "limit_reader n r = \<lparr>rd_data = take n (rd_data r), rd_end = (if length (rd_data r) < n then rd_end r else EOF)\<rparr>"

text \<open>A parser that asks for at most \<open>n\<close> bytes does not notice a limit of at least \<open>n\<close>.\<close>

definition asks :: "nat \<Rightarrow> 'a parser \<Rightarrow> bool" where
  "asks n p \<longleftrightarrow> (\<forall>r m. n \<le> m \<longrightarrow>
     (\<exists>ys. length ys \<le> n \<and> rd_data r = ys @ rd_data (snd (p r)) \<and> rd_end (snd (p r)) = rd_end r \<and>
       p (limit_reader m r) = (fst (p r), limit_reader (m - length ys) (snd (p r)))))"

lemma asksD:
  assumes "asks n p" "n \<le> m"
  obtains ys where "length ys \<le> n" "rd_data r = ys @ rd_data (snd (p r))" "rd_end (snd (p r)) = rd_end r"
    "p (limit_reader m r) = (fst (p r), limit_reader (m - length ys) (snd (p r)))"
  using assms unfolding asks_def by blast

lemma asks_preturn: "asks n (preturn a)" and asks_pfail: "asks n (pfail e)" and asks_pguard: "asks n (pguard c e)"
  by (auto simp: asks_def intro!: exI [of _ "[]"])

lemma asks_pread:
  assumes "k \<le> n"
  shows "asks n (pread k wrap)"
  unfolding asks_def
proof (intro allI impI)
  fix r :: reader and m
  assume "n \<le> m"
  let ?d = "rd_data r"
  show "\<exists>ys. length ys \<le> n \<and> ?d = ys @ rd_data (snd (pread k wrap r)) \<and> rd_end (snd (pread k wrap r)) = rd_end r \<and>
       pread k wrap (limit_reader m r) = (fst (pread k wrap r), limit_reader (m - length ys) (snd (pread k wrap r)))"
  proof (cases "k \<le> length ?d")
    case True
    with assms \<open>n \<le> m\<close> show ?thesis
      by (intro exI [of _ "take k ?d"]) (auto simp: pread_def read_full_def limit_reader_def drop_take min_def)
  next
    case False
    with assms \<open>n \<le> m\<close> show ?thesis
      by (intro exI [of _ ?d]) (auto simp: pread_def read_full_def limit_reader_def)
  qed
qed

lemma asks_pbind:
  assumes "asks n p" "\<And>a. asks k (f a)"
  shows "asks (n + k) (pbind p f)"
  unfolding asks_def
proof (intro allI impI)
  fix r :: reader and m
  assume m: "n + k \<le> m"
  have "n \<le> m" using m by simp
  from asksD [OF assms(1) this, of r] obtain ys where ys: "length ys \<le> n" "rd_data r = ys @ rd_data (snd (p r))"
    "rd_end (snd (p r)) = rd_end r" "p (limit_reader m r) = (fst (p r), limit_reader (m - length ys) (snd (p r)))" by blast
  show "\<exists>ys. length ys \<le> n + k \<and> rd_data r = ys @ rd_data (snd (pbind p f r)) \<and> rd_end (snd (pbind p f r)) = rd_end r \<and>
     pbind p f (limit_reader m r) = (fst (pbind p f r), limit_reader (m - length ys) (snd (pbind p f r)))"
  proof (cases "p r")
    case (Pair res r1)
    show ?thesis
    proof (cases res)
      case (Inl e)
      with Pair ys show ?thesis by (intro exI [of _ ys]) (auto simp: pbind_def)
    next
      case (Inr a)
      have "k \<le> m - length ys" using ys(1) m by simp
      from asksD [OF assms(2) [of a] this, of r1] obtain zs where "length zs \<le> k" "rd_data r1 = zs @ rd_data (snd (f a r1))" "rd_end (snd (f a r1)) = rd_end r1"
        "f a (limit_reader (m - length ys) r1) = (fst (f a r1), limit_reader (m - length ys - length zs) (snd (f a r1)))"
        by blast
      with Pair Inr ys show ?thesis by (intro exI [of _ "ys @ zs"]) (auto simp: pbind_def)
    qed
  qed
qed

lemma asks_guard: "asks n (f ()) \<Longrightarrow> asks n (pbind (pguard c e) f)"
  using asks_pbind [OF asks_pguard [of 0 c e], of n f] by simp

lemma asks_mono:
  assumes "asks n p" "n \<le> k"
  shows "asks k p"
  unfolding asks_def
proof (intro allI impI)
  fix r :: reader and m
  assume "k \<le> m"
  then have "n \<le> m" using assms(2) by simp
  from asksD [OF assms(1) this, of r] obtain ys where ys: "length ys \<le> n" "rd_data r = ys @ rd_data (snd (p r))"
    "rd_end (snd (p r)) = rd_end r" "p (limit_reader m r) = (fst (p r), limit_reader (m - length ys) (snd (p r)))" by blast
  with assms(2) show "\<exists>ys. length ys \<le> k \<and> rd_data r = ys @ rd_data (snd (p r)) \<and> rd_end (snd (p r)) = rd_end r \<and>
       p (limit_reader m r) = (fst (p r), limit_reader (m - length ys) (snd (p r)))" by (intro exI [of _ ys]) simp
qed

lemmas asks_intros = asks_pbind asks_guard asks_preturn asks_pfail

lemma asks_read_host: "asks 256 (read_host t)"
proof -
  have raw: "asks (k + 0) (pbind (pread k (\<lambda>_. InvalidAddress)) (\<lambda>raw. preturn (g raw)))" for k and g :: "bytes \<Rightarrow> string"
    by (intro asks_intros) (simp add: asks_pread)
  have "asks (1 + 255) (pbind (pread 1 (\<lambda>_. InvalidAddress)) (\<lambda>len.
      pbind (pguard (hd len \<noteq> 0) InvalidAddress) (\<lambda>_.
      pbind (pread (unat (hd len)) (\<lambda>_. InvalidAddress)) (\<lambda>raw. preturn (string_of_bytes raw)))))"
  proof (rule asks_pbind, simp add: asks_pread, rule asks_guard)
    fix len :: bytes
    have "unat (hd len) \<le> 255" using unat_byte_less [of "hd len"] by linarith
    then show "asks 255 (pbind (pread (unat (hd len)) (\<lambda>_. InvalidAddress)) (\<lambda>raw. preturn (string_of_bytes raw)))"
      using asks_mono [OF raw [of "unat (hd len)" string_of_bytes], of 255] by simp
  qed
  with asks_mono [OF raw, of 4 256] asks_mono [OF raw, of 16 256] show ?thesis
    by (auto simp: read_host_def asks_pfail)
qed

lemma asks_read_request: "asks 262 read_request"
proof -
  have "asks (2 + (256 + (4 + 0))) read_request"
    unfolding read_request_def Let_def by (intro asks_intros asks_read_host) (simp_all add: asks_pread)
  then show ?thesis by simp
qed

lemma asks_read_credential: "asks 58 read_credential"
proof -
  have "asks ((credential_length + 2) + 0) read_credential"
    unfolding read_credential_def Let_def by (intro asks_intros) (simp_all add: asks_pread)
  then show ?thesis by (simp add: credential_length_def sha224_size_def)
qed

section \<open>The service\<close>

definition default_handshake_timeout :: duration where "default_handshake_timeout = 10 * second"
definition default_max_pending :: int where "default_max_pending = 256"
definition default_udp_idle_timeout :: duration where "default_udp_idle_timeout = 60 * second"
definition initial_accept_backoff :: duration where "initial_accept_backoff = 5 * millisecond"
definition maximum_accept_backoff :: duration where "maximum_accept_backoff = second"

text \<open>The slots of a channel used as a semaphore are the number of its elements.\<close>

record fallback =
  fl_config :: trojan_fallback_config
  fl_slots :: nat

definition fallback_acquire :: "fallback \<Rightarrow> bool \<times> fallback" where
  "fallback_acquire f =
     (if int (fl_slots f) < fb_max_connections (fl_config f) then (True, f\<lparr>fl_slots := Suc (fl_slots f)\<rparr>) else (False, f))"

definition fallback_release :: "fallback \<Rightarrow> fallback" where
  "fallback_release f = f\<lparr>fl_slots := fl_slots f - 1\<rparr>"

record trojan_service =
  sv_name :: string
  sv_next_protos :: "string list"
  sv_handshake_timeout :: duration
  sv_udp_idle_timeout :: duration
  sv_max_pending :: int
  sv_pending :: nat
  sv_fallback :: "fallback option"
  sv_connections :: "(nat, nat option) gomap"
  sv_handlers :: nat
  sv_started :: bool
  sv_closed :: bool

datatype service_error = RequiresKernel | BadFallback config_error | ListenFailed | AlreadyServing | AcceptFailed io_error

definition new_service :: "bool \<Rightarrow> bool \<Rightarrow> inbound \<Rightarrow> (service_error, trojan_service) result" where
  "new_service has_kernel listens ib =
     (if \<not> has_kernel then Inl RequiresKernel
      else
        let pick = (\<lambda>get d. case ib_trojan ib of None \<Rightarrow> d | Some t \<Rightarrow> if get t \<noteq> 0 then get t else d)
        in rbind (case ib_trojan ib of
                    None \<Rightarrow> Inr None
                  | Some t \<Rightarrow>
                      (case ti_fallback t of
                         None \<Rightarrow> Inr None
                       | Some f \<Rightarrow>
                           (case fallback_with_defaults f of
                              Inl e \<Rightarrow> Inl (BadFallback e)
                            | Inr configured \<Rightarrow> Inr (Some \<lparr>fl_config = configured, fl_slots = 0\<rparr>)))) (\<lambda>website.
           if \<not> listens then Inl ListenFailed
           else Inr \<lparr>sv_name = ib_name ib, sv_next_protos = (if website \<noteq> None then [''http/1.1''] else []),
                  sv_handshake_timeout = pick ti_handshake_timeout default_handshake_timeout,
                  sv_udp_idle_timeout = pick ti_udp_idle_timeout default_udp_idle_timeout,
                  sv_max_pending = pick ti_max_pending default_max_pending, sv_pending = 0, sv_fallback = website,
                  sv_connections = [], sv_handlers = 0, sv_started = False, sv_closed = False\<rparr>))"

subsection \<open>The accept loop\<close>

definition next_backoff :: "duration \<Rightarrow> duration" where
  "next_backoff backoff =
     (if backoff = 0 then initial_accept_backoff
      else if maximum_accept_backoff < backoff * 2 then maximum_accept_backoff else backoff * 2)"

text \<open>
  What an iteration of \<open>Serve\<close> sees: a connection, a temporary error after which the timer fires or
  the context is cancelled, another error, or an error with the service closed.
\<close>

datatype accept_event = Accepted nat | TemporaryError bool | FatalError io_error | ClosedError

text \<open>The delays taken and the connections accepted; \<open>None\<close> while the loop still runs.\<close>

fun serve_loop :: "duration \<Rightarrow> accept_event list \<Rightarrow> service_error option option \<times> duration list \<times> nat list" where
  "serve_loop backoff [] = (None, [], [])"
| "serve_loop backoff (Accepted c # events) = (let (res, ds, cs) = serve_loop 0 events in (res, ds, c # cs))"
| "serve_loop backoff (ClosedError # events) = (Some None, [], [])"
| "serve_loop backoff (FatalError e # events) = (Some (Some (AcceptFailed e)), [], [])"
| "serve_loop backoff (TemporaryError fired # events) =
     (let b = next_backoff backoff
      in if fired then (let (res, ds, cs) = serve_loop b events in (res, b # ds, cs)) else (Some None, [b], []))"

definition serve :: "accept_event list \<Rightarrow> trojan_service \<Rightarrow> service_error option option \<times> duration list \<times> nat list \<times> trojan_service" where
  "serve events sv =
     (if sv_started sv then (Some (Some AlreadyServing), [], [], sv)
      else (let (res, ds, cs) = serve_loop 0 events in (res, ds, cs, sv\<lparr>sv_started := True\<rparr>)))"

text \<open>
  An accepted connection takes a pending slot without waiting and is then registered under the
  lock, unless the service has been closed meanwhile.
\<close>

definition take_pending :: "trojan_service \<Rightarrow> bool \<times> trojan_service" where
  "take_pending sv =
     (if int (sv_pending sv) < sv_max_pending sv then (True, sv\<lparr>sv_pending := Suc (sv_pending sv)\<rparr>) else (False, sv))"

definition release_pending :: "trojan_service \<Rightarrow> trojan_service" where
  "release_pending sv = sv\<lparr>sv_pending := sv_pending sv - 1\<rparr>"

definition register_connection :: "nat \<Rightarrow> trojan_service \<Rightarrow> bool \<times> trojan_service" where
  "register_connection c sv =
     (if sv_closed sv then (False, release_pending sv)
      else (True, sv\<lparr>sv_connections := gput c None (sv_connections sv), sv_handlers := Suc (sv_handlers sv)\<rparr>))"

section \<open>Classifying a connection\<close>

datatype verdict =
    Dropped
  | SilentProbe
  | Visitor bytes
  | RefusedTarget psession
  | Proxied psession trojan_request

text \<open>
  The header as \<open>handle\<close> reads it: with a fallback both parsers run on a limited, recorded reader and
  only a structurally complete header counts; without one the credential is read first.
\<close>

definition probe_header :: "reader \<Rightarrow> (trojan_error, string \<times> trojan_request option) result \<times> reader" where
  "probe_header r =
     (case read_credential r of
        (Inl e, r1) \<Rightarrow> (Inl e, r1)
      | (Inr credential, r1) \<Rightarrow>
          (case read_request r1 of
             (Inr request, r2) \<Rightarrow> (Inr (credential, Some request), r2)
           | (Inl (InvalidTarget e), r2) \<Rightarrow> (Inr (credential, None), r2)
           | (Inl e, r2) \<Rightarrow> (Inl e, r2)))"

definition visitor :: "bytes \<Rightarrow> verdict" where
  "visitor recorded = (if recorded = [] then SilentProbe else Visitor recorded)"

definition classify_probe :: "go_time \<Rightarrow> string \<Rightarrow> reader \<Rightarrow> kernel \<Rightarrow> verdict \<times> reader \<times> kernel" where
  "classify_probe now name r k =
     (let limited = limit_reader max_initial_header_size r;
          (outcome, after) = probe_header limited;
          consumed = length (rd_data limited) - length (rd_data after);
          recorded = take consumed (rd_data r);
          rest = r\<lparr>rd_data := drop consumed (rd_data r)\<rparr>
      in case outcome of
           Inl _ \<Rightarrow> (visitor recorded, rest, k)
         | Inr (credential, request) \<Rightarrow>
             (case kernel_authenticate_trojan now name credential k of
                (None, k') \<Rightarrow> (visitor recorded, rest, k')
              | (Some ss, k') \<Rightarrow>
                  ((case request of None \<Rightarrow> RefusedTarget ss | Some q \<Rightarrow> Proxied ss q), rest, k')))"

definition classify_plain :: "go_time \<Rightarrow> string \<Rightarrow> reader \<Rightarrow> kernel \<Rightarrow> verdict \<times> reader \<times> kernel" where
  "classify_plain now name r k =
     (case read_credential r of
        (Inl e, r1) \<Rightarrow> (Dropped, r1, k)
      | (Inr credential, r1) \<Rightarrow>
          (case kernel_authenticate_trojan now name credential k of
             (None, k') \<Rightarrow> (Dropped, r1, k')
           | (Some ss, k') \<Rightarrow>
               (case read_request r1 of
                  (Inl e, r2) \<Rightarrow> (RefusedTarget ss, r2, k')
                | (Inr request, r2) \<Rightarrow> (Proxied ss request, r2, k'))))"

section \<open>Handling a connection\<close>

datatype disposition =
    CloseIt
  | Website bytes reader
  | OverCapacity
  | ServeTCP psession string reader
  | ServeUDP psession string reader

text \<open>Which of the calls on the connection succeed.\<close>

record handle_env =
  he_now :: go_time
  he_deadline :: bool
  he_handshake :: bool
  he_probe_deadline :: bool
  he_clear_deadline :: bool

definition over_capacity_response :: string where
  "over_capacity_response =
     ''HTTP/1.1 404 Not Found'' @ [CHR 0x0D, CHR 0x0A] @ ''Content-Length: 0'' @ [CHR 0x0D, CHR 0x0A] @
     ''Connection: close'' @ [CHR 0x0D, CHR 0x0A, CHR 0x0D, CHR 0x0A]"

definition handle :: "handle_env \<Rightarrow> reader \<Rightarrow> trojan_service \<Rightarrow> kernel \<Rightarrow> disposition \<times> trojan_service \<times> kernel" where
  "handle he r sv k =
     (if \<not> he_deadline he \<or> \<not> he_handshake he then (CloseIt, sv, k)
      else if sv_fallback sv \<noteq> None \<and> \<not> he_probe_deadline he then (CloseIt, sv, k)
      else
        let (v, rest, k') = (if sv_fallback sv \<noteq> None then classify_probe (he_now he) (sv_name sv) r k
                             else classify_plain (he_now he) (sv_name sv) r k)
        in case v of
             Visitor recorded \<Rightarrow>
               (case sv_fallback sv of
                  None \<Rightarrow> (CloseIt, sv, k')
                | Some f \<Rightarrow>
                    (case fallback_acquire f of
                       (True, f') \<Rightarrow> (Website recorded rest, release_pending (sv\<lparr>sv_fallback := Some f'\<rparr>), k')
                     | (False, _) \<Rightarrow> (OverCapacity, sv, k')))
           | Proxied ss q \<Rightarrow>
               if \<not> he_clear_deadline he then (CloseIt, sv, k')
               else (if udp_associate q then ServeUDP ss (tq_target q) rest else ServeTCP ss (tq_target q) rest, release_pending sv, k')
           | _ \<Rightarrow> (CloseIt, sv, k'))"

definition set_upstream :: "nat \<Rightarrow> nat \<Rightarrow> trojan_service \<Rightarrow> bool \<times> trojan_service" where
  "set_upstream c upstream sv =
     (if c \<notin> set (gkeys (sv_connections sv)) \<or> sv_closed sv then (False, sv)
      else (True, sv\<lparr>sv_connections := gput c (Some upstream) (sv_connections sv)\<rparr>))"

definition start_proxy_request :: "go_time \<Rightarrow> psession option \<Rightarrow> string \<Rightarrow> string \<Rightarrow> string \<Rightarrow> kernel \<Rightarrow> kernel" where
  "start_proxy_request now ss address protocol target k =
     kernel_start_request now ss 1 protocol target (set_online ss True (connected now ss address k))"

definition stop_proxy_request :: "psession option \<Rightarrow> kernel \<Rightarrow> kernel" where
  "stop_proxy_request ss k = disconnected ss (set_online ss False (kernel_stop_request ss 1 k))"

text \<open>\<open>serveTCPRequest\<close> and \<open>serveUDPAssociation\<close> around the relay, which is what happens in between.\<close>

definition serve_request ::
  "go_time \<Rightarrow> string \<Rightarrow> psession option \<Rightarrow> string \<Rightarrow> string \<Rightarrow> nat open_outcome \<Rightarrow> nat \<Rightarrow>
    (trojan_service \<times> kernel \<Rightarrow> trojan_service \<times> kernel) \<Rightarrow> trojan_service \<times> kernel \<Rightarrow> trojan_service \<times> kernel"
where
  "serve_request now address ss protocol target outcome c relay state =
     (case outcome of
        Connection upstream \<Rightarrow>
          (case set_upstream c upstream (fst state) of
             (False, sv) \<Rightarrow> (sv, snd state)
           | (True, sv) \<Rightarrow>
               (let (sv', k') = relay (sv, start_proxy_request now ss address protocol target (snd state))
                in (sv', stop_proxy_request ss k')))
      | _ \<Rightarrow> state)"

definition exit_handler :: "nat \<Rightarrow> bool \<Rightarrow> bool \<Rightarrow> trojan_service \<Rightarrow> trojan_service" where
  "exit_handler c slot pending sv =
     (let sv1 = (if slot then sv\<lparr>sv_fallback := map_option fallback_release (sv_fallback sv)\<rparr> else sv);
          sv2 = (if pending then release_pending sv1 else sv1)
      in sv2\<lparr>sv_connections := gdel c (sv_connections sv2), sv_handlers := sv_handlers sv2 - 1\<rparr>)"

text \<open>\<open>Close\<close> begins by marking the service closed, which also cancels its context.\<close>

definition close_begin :: "trojan_service \<Rightarrow> trojan_service" where
  "close_begin sv = sv\<lparr>sv_closed := True\<rparr>"

text \<open>The connections \<open>Close\<close> sweeps: every client and the upstreams attached to them.\<close>

definition swept_connections :: "trojan_service \<Rightarrow> nat list" where
  "swept_connections sv = concat (map (\<lambda>(c, up). c # (case up of None \<Rightarrow> [] | Some u \<Rightarrow> [u])) (sv_connections sv))"

text \<open>
  \<open>serveFallback\<close>: the calls before the relay, and the two loops with what they wrote to the backend
  and to the client.  When the client's direction ends first and cleanly the write side of the
  backend is closed and the response is awaited; otherwise both connections are closed at once.
\<close>

record website_env =
  we_deadline :: bool
  we_dial :: "nat option"
  we_replay :: "(go_time \<times> go_time) \<times> nat \<times> io_error option"
  we_up :: "(go_time \<times> go_time) copy_step list"
  we_down :: "(go_time \<times> go_time) copy_step list"
  we_half_close :: bool
  we_client_first :: bool

definition serve_fallback ::
  "website_env \<Rightarrow> duration \<Rightarrow> nat \<Rightarrow> bytes \<Rightarrow> deadlines \<Rightarrow> trojan_service \<Rightarrow> (relay_error option option \<times> bytes \<times> bytes \<times> bool) option \<times> trojan_service"
where
  "serve_fallback we idle c recorded d sv =
     (if \<not> we_deadline we then (None, sv)
      else
        (case we_dial we of
           None \<Rightarrow> (None, sv)
         | Some backend \<Rightarrow>
             (case set_upstream c backend sv of
                (False, sv1) \<Rightarrow> (None, sv1)
              | (True, sv1) \<Rightarrow>
                  (let (env, written, write_error) = we_replay we;
                       (up, to_backend, _) = copy_refreshing_idle idle (replay_prefix recorded env written write_error (we_up we)) d;
                       (_, to_client, _) = copy_refreshing_idle idle (we_down we) d;
                       graceful = (we_client_first we \<and> up = Some None \<and> we_half_close we)
                   in (Some (up, to_backend, to_client, \<not> graceful), sv1)))))"

section \<open>What a classification guarantees\<close>

lemma probe_header_limited:
  "\<exists>ys. length ys \<le> max_initial_header_size \<and> rd_data r = ys @ rd_data (snd (probe_header r)) \<and> rd_end (snd (probe_header r)) = rd_end r \<and>
     probe_header (limit_reader max_initial_header_size r) =
       (fst (probe_header r), limit_reader (max_initial_header_size - length ys) (snd (probe_header r)))"
proof -
  let ?m = max_initial_header_size
  have m: "?m = 320" by (simp add: max_initial_header_size_def credential_length_def sha224_size_def)
  have "58 \<le> ?m" by (simp add: m)
  from asksD [OF asks_read_credential this, of r] obtain ys where ys: "length ys \<le> 58" "rd_data r = ys @ rd_data (snd (read_credential r))"
    "rd_end (snd (read_credential r)) = rd_end r"
    "read_credential (limit_reader ?m r) = (fst (read_credential r), limit_reader (?m - length ys) (snd (read_credential r)))" by blast
  obtain c r1 where c: "read_credential r = (c, r1)" by fastforce
  show ?thesis
  proof (cases c)
    case (Inl e)
    with ys c m show ?thesis by (intro exI [of _ ys]) (simp add: probe_header_def)
  next
    case (Inr credential)
    have "262 \<le> ?m - length ys" using ys(1) m by simp
    from asksD [OF asks_read_request this, of r1] obtain zs where zs: "length zs \<le> 262" "rd_data r1 = zs @ rd_data (snd (read_request r1))"
      "rd_end (snd (read_request r1)) = rd_end r1"
      "read_request (limit_reader (?m - length ys) r1) = (fst (read_request r1), limit_reader (?m - length ys - length zs) (snd (read_request r1)))" by blast
    obtain q r2 where q: "read_request r1 = (q, r2)" by fastforce
    show ?thesis
      using ys zs c q Inr m
      by (intro exI [of _ "ys @ zs"]) (auto simp: probe_header_def split: sum.split trojan_error.split)
  qed
qed

lemma classify_probe_alt:
  "classify_probe now name r k =
     (let (outcome, rest) = probe_header r; recorded = take (length (rd_data r) - length (rd_data rest)) (rd_data r)
      in case outcome of
           Inl _ \<Rightarrow> (visitor recorded, rest, k)
         | Inr (credential, request) \<Rightarrow>
             (case kernel_authenticate_trojan now name credential k of
                (None, k') \<Rightarrow> (visitor recorded, rest, k')
              | (Some ss, k') \<Rightarrow> ((case request of None \<Rightarrow> RefusedTarget ss | Some q \<Rightarrow> Proxied ss q), rest, k')))"
proof -
  let ?m = max_initial_header_size
  obtain ys where ys: "length ys \<le> ?m" "rd_data r = ys @ rd_data (snd (probe_header r))" "rd_end (snd (probe_header r)) = rd_end r"
    "probe_header (limit_reader ?m r) = (fst (probe_header r), limit_reader (?m - length ys) (snd (probe_header r)))"
    using probe_header_limited [of r] by blast
  obtain outcome rest where p: "probe_header r = (outcome, rest)" by fastforce
  have consumed: "length (rd_data (limit_reader ?m r)) - length (rd_data (limit_reader (?m - length ys) rest)) = length ys"
    using ys(1,2) p by (simp add: limit_reader_def min_def)
  have rest: "r\<lparr>rd_data := drop (length ys) (rd_data r)\<rparr> = rest" using ys(2,3) p by (cases r; cases rest) simp
  have len: "length (rd_data r) - length (rd_data rest) = length ys" using ys(2) p by simp
  show ?thesis
    unfolding classify_probe_def Let_def ys(4) p fst_conv snd_conv prod.case consumed rest len ..
qed

text \<open>C22: Enabling the website does not change the service for proxy clients.  On the same bytes, the
  classification with a fallback (a limited, recorded reader, the request parsed before the
  credential is checked) hands a connection to the proxy in exactly the cases in which the
  classification without one does, with the same session, request and remaining stream.\<close>

theorem fallback_transparent_to_clients:
  "classify_probe now name r k = (Proxied ss q, rest, k') \<longleftrightarrow> classify_plain now name r k = (Proxied ss q, rest, k')"
proof -
  obtain c r1 where c: "read_credential r = (c, r1)" by fastforce
  obtain x r2 where q: "read_request r1 = (x, r2)" by fastforce
  show ?thesis
    unfolding classify_probe_alt classify_plain_def
    by (auto simp: probe_header_def c q visitor_def Let_def
        split: sum.split trojan_error.split prod.split option.split)
qed

lemma kernel_authenticate_trojan_None: "kernel_authenticate_trojan now name c k = (None, k') \<longleftrightarrow> authenticate_trojan now (kn_auth k) c = None \<and> k' = k"
  by (auto simp: kernel_authenticate_trojan_def split: option.split prod.split)

lemma classify_probe_visitor:
  assumes "classify_probe now name r k = (Visitor recorded, rest, k')"
  shows "recorded \<noteq> [] \<and> recorded @ rd_data rest = rd_data r \<and> k' = k \<and>
    (case fst (probe_header r) of Inl _ \<Rightarrow> True | Inr (c, _) \<Rightarrow> authenticate_trojan now (kn_auth k) c = None)"
proof -
  obtain ys where ys: "rd_data r = ys @ rd_data (snd (probe_header r))" using probe_header_limited [of r] by blast
  obtain outcome rest0 where p: "probe_header r = (outcome, rest0)" by fastforce
  from assms ys p show ?thesis
    unfolding classify_probe_alt
    by (auto simp: visitor_def kernel_authenticate_trojan_None split: sum.split_asm option.split_asm prod.split_asm if_split_asm)
qed

text \<open>C21: Only strangers see the website, and they see it unmodified.  When a connection is handed to the website
  relay, its header was malformed or carried a credential that authenticates nobody, the kernel was
  not touched, and the recorded bytes followed by the unread rest are exactly what the client sent;
  so if the client's direction ends cleanly, the backend has received the client's stream.\<close>

theorem strangers_reach_website_verbatim:
  assumes "handle he r sv k = (Website recorded rest, sv', k')"
    and "serve_fallback we idle c recorded d sv' = (Some (Some None, to_backend, to_client, early), sv'')"
    and "concat (map cs_chunk (we_up we)) = rd_data rest" and "\<forall>st \<in> set (butlast (we_up we)). cs_error st \<noteq> Some EOF"
  shows "to_backend = rd_data r \<and> k' = k \<and>
    (case fst (probe_header r) of Inl _ \<Rightarrow> True | Inr (credential, _) \<Rightarrow> authenticate_trojan (he_now he) (kn_auth k) credential = None)"
proof -
  from assms(1) have "classify_probe (he_now he) (sv_name sv) r k = (Visitor recorded, rest, k')"
    by (auto simp: handle_def Let_def visitor_def classify_plain_def
        split: if_split_asm prod.split_asm verdict.split_asm option.split_asm sum.split_asm bool.split_asm)
  note v = classify_probe_visitor [OF this]
  obtain env w e where rp: "we_replay we = (env, w, e)" by (metis prod_cases3)
  let ?script = "replay_prefix recorded env w e (we_up we)"
  from assms(2) obtain d' where run: "copy_refreshing_idle idle ?script d = (Some None, to_backend, d')"
    by (auto simp: serve_fallback_def rp Let_def split: if_split_asm option.split_asm prod.split_asm bool.split_asm)
  have script: "?script = \<lparr>cs_chunk = recorded, cs_error = None, cs_env = env, cs_written = w, cs_write_error = e\<rparr> # we_up we"
    using v by (simp add: replay_prefix_def)
  from copy_refreshing_exact [OF run] obtain n where n: "0 < n" "n \<le> length ?script"
    "to_backend = concat (map cs_chunk (take n ?script))" "cs_error (?script ! (n - 1)) = Some EOF" by blast
  have "n = length ?script"
  proof (rule ccontr)
    assume "n \<noteq> length ?script"
    with n(1,2) obtain i where i: "n = Suc i" "i < length (we_up we)" using script by (cases n) auto
    show False
    proof (cases i)
      case 0
      with n(4) i script show False by simp
    next
      case (Suc j)
      then have "we_up we ! j \<in> set (butlast (we_up we))"
        using i by (metis Suc_lessD in_set_conv_nth length_butlast less_diff_conv nth_butlast Suc_eq_plus1)
      with assms(4) n(4) i Suc script show False by auto
    qed
  qed
  with n(3) script assms(3) v show ?thesis by simp
qed

definition demo_service :: trojan_service where
  "demo_service = \<lparr>sv_name = ''tr'', sv_next_protos = [''http/1.1''], sv_handshake_timeout = 10 * second, sv_udp_idle_timeout = 60 * second,
     sv_max_pending = 256, sv_pending = 1,
     sv_fallback = Some \<lparr>fl_config = \<lparr>fb_addr = ''127.0.0.1:80'', fb_probe_timeout = second, fb_dial_timeout = second, fb_idle_timeout = second,
       fb_max_connections = 4\<rparr>, fl_slots = 0\<rparr>,
     sv_connections = [(7, None)], sv_handlers = 1, sv_started = True, sv_closed = False\<rparr>"

definition demo_handle :: handle_env where
  "demo_handle = \<lparr>he_now = 7, he_deadline = True, he_handshake = True, he_probe_deadline = True, he_clear_deadline = True\<rparr>"

definition demo_website :: website_env where
  "demo_website = \<lparr>we_deadline = True, we_dial = Some 8, we_replay = ((1, 2), 3, None),
     we_up = [\<lparr>cs_chunk = [], cs_error = Some EOF, cs_env = (3, 4), cs_written = 0, cs_write_error = None\<rparr>],
     we_down = [], we_half_close = True, we_client_first = True\<rparr>"

theorem strangers_reach_website_verbatim_witness:
  "\<exists>sv' sv''. handle demo_handle \<lparr>rd_data = [71, 69, 84], rd_end = EOF\<rparr> demo_service demo_kernel =
       (Website [71, 69, 84] \<lparr>rd_data = [], rd_end = EOF\<rparr>, sv', demo_kernel) \<and>
     serve_fallback demo_website second 7 [71, 69, 84] (0, 0) sv' = (Some (Some None, [71, 69, 84], [], False), sv'') \<and>
     [71, 69, 84] = rd_data \<lparr>rd_data = [71, 69, 84 :: byte], rd_end = EOF\<rparr>"
proof -
  let ?r = "\<lparr>rd_data = [71, 69, 84 :: byte], rd_end = EOF\<rparr>"
  have "probe_header ?r = (Inl InvalidCredential, \<lparr>rd_data = [], rd_end = EOF\<rparr>)"
    by (simp add: probe_header_def read_credential_def pbind_pread credential_length_def sha224_size_def)
  then obtain sv' where h: "handle demo_handle ?r demo_service demo_kernel = (Website [71, 69, 84] \<lparr>rd_data = [], rd_end = EOF\<rparr>, sv', demo_kernel)"
    and sv': "sv_connections sv' = [(7, None)]" "\<not> sv_closed sv'"
    by (simp add: handle_def demo_handle_def demo_service_def classify_probe_alt visitor_def fallback_acquire_def release_pending_def)
  from sv' obtain sv'' where w: "serve_fallback demo_website second 7 [71, 69, 84] (0, 0) sv' = (Some (Some None, [71, 69, 84], [], False), sv'')"
    by (simp add: serve_fallback_def demo_website_def set_upstream_def replay_prefix_def extend_deadlines_def)
  from strangers_reach_website_verbatim [OF h w] h w show ?thesis by (auto simp: demo_website_def)
qed

section \<open>The goroutines of the service\<close>

text \<open>
  A handler carries the local variable \<open>pending\<close> of \<open>handle\<close>, whether it holds a website slot, and the
  upstream it owns.  The world adds the connection for which the accept loop holds a pending slot,
  the connections closed so far, and whether \<open>Close\<close> has swept the registered connections.
\<close>

record handler =
  hl_pending :: bool
  hl_slot :: bool
  hl_upstream :: "nat option"

record service_world =
  sw_service :: trojan_service
  sw_accepting :: "nat option"
  sw_handlers :: "(nat, handler) gomap"
  sw_known :: "nat list"
  sw_shut :: "nat list"
  sw_swept :: bool

definition after_handle :: "disposition \<Rightarrow> handler \<Rightarrow> handler" where
  "after_handle disp h =
     (case disp of
        CloseIt \<Rightarrow> h
      | OverCapacity \<Rightarrow> h
      | Website _ _ \<Rightarrow> h\<lparr>hl_pending := False, hl_slot := True\<rparr>
      | ServeTCP _ _ _ \<Rightarrow> h\<lparr>hl_pending := False\<rparr>
      | ServeUDP _ _ _ \<Rightarrow> h\<lparr>hl_pending := False\<rparr>)"

definition owned_connections :: "nat \<Rightarrow> handler \<Rightarrow> nat list" where
  "owned_connections c h = c # (case hl_upstream h of None \<Rightarrow> [] | Some u \<Rightarrow> [u])"

inductive service_step :: "service_world \<Rightarrow> service_world \<Rightarrow> bool" where
  ss_accept: "\<lbrakk>sw_accepting w = None; c \<notin> set (sw_known w); take_pending (sw_service w) = (ok, sv)\<rbrakk> \<Longrightarrow>
    service_step w (if ok then w\<lparr>sw_service := sv, sw_accepting := Some c, sw_known := c # sw_known w\<rparr>
                    else w\<lparr>sw_known := c # sw_known w, sw_shut := c # sw_shut w\<rparr>)"
| ss_register: "\<lbrakk>sw_accepting w = Some c; register_connection c (sw_service w) = (ok, sv)\<rbrakk> \<Longrightarrow>
    service_step w (if ok then w\<lparr>sw_service := sv, sw_accepting := None,
                       sw_handlers := gput c \<lparr>hl_pending = True, hl_slot = False, hl_upstream = None\<rparr> (sw_handlers w)\<rparr>
                    else w\<lparr>sw_service := sv, sw_accepting := None, sw_shut := c # sw_shut w\<rparr>)"
| ss_handle: "\<lbrakk>map_of (sw_handlers w) c = Some h; hl_pending h; handle he r (sw_service w) k = (disp, sv, k')\<rbrakk> \<Longrightarrow>
    service_step w (w\<lparr>sw_service := sv, sw_handlers := gput c (after_handle disp h) (sw_handlers w)\<rparr>)"
| ss_upstream: "\<lbrakk>map_of (sw_handlers w) c = Some h; \<not> hl_pending h; hl_upstream h = None; u \<notin> set (sw_known w);
      set_upstream c u (sw_service w) = (ok, sv)\<rbrakk> \<Longrightarrow>
    service_step w (if ok then w\<lparr>sw_service := sv, sw_known := u # sw_known w, sw_handlers := gput c (h\<lparr>hl_upstream := Some u\<rparr>) (sw_handlers w)\<rparr>
                    else w\<lparr>sw_known := u # sw_known w, sw_shut := u # sw_shut w\<rparr>)"
| ss_exit: "map_of (sw_handlers w) c = Some h \<Longrightarrow>
    service_step w (w\<lparr>sw_service := exit_handler c (hl_slot h) (hl_pending h) (sw_service w),
                      sw_handlers := gdel c (sw_handlers w), sw_shut := owned_connections c h @ sw_shut w\<rparr>)"
| ss_close: "service_step w (w\<lparr>sw_service := close_begin (sw_service w)\<rparr>)"
| ss_sweep: "sv_closed (sw_service w) \<Longrightarrow>
    service_step w (w\<lparr>sw_shut := swept_connections (sw_service w) @ sw_shut w, sw_swept := True\<rparr>)"

inductive service_reachable :: "inbound \<Rightarrow> service_world \<Rightarrow> bool" for ib where
  sr_init: "new_service True True ib = Inr sv \<Longrightarrow>
    service_reachable ib \<lparr>sw_service = sv, sw_accepting = None, sw_handlers = [], sw_known = [], sw_shut = [], sw_swept = False\<rparr>"
| sr_step: "service_reachable ib w \<Longrightarrow> service_step w w' \<Longrightarrow> service_reachable ib w'"

inductive_cases service_stepE: "service_step w w'"

subsection \<open>The invariant\<close>

definition pending_count :: "(nat, handler) gomap \<Rightarrow> int" where
  "pending_count = gsum (\<lambda>_ h. of_bool (hl_pending h))"

definition slot_count :: "(nat, handler) gomap \<Rightarrow> int" where
  "slot_count = gsum (\<lambda>_ h. of_bool (hl_slot h))"

definition slots_of :: "trojan_service \<Rightarrow> int" where
  "slots_of sv = (case sv_fallback sv of None \<Rightarrow> 0 | Some f \<Rightarrow> int (fl_slots f))"

definition slots_bound :: "trojan_service \<Rightarrow> int" where
  "slots_bound sv = (case sv_fallback sv of None \<Rightarrow> 0 | Some f \<Rightarrow> fb_max_connections (fl_config f))"

definition world_ok :: "service_world \<Rightarrow> bool" where
  "world_ok w \<longleftrightarrow>
     gmap_ok (sw_handlers w) \<and> gmap_ok (sv_connections (sw_service w)) \<and>
     map_of (sv_connections (sw_service w)) = map_option hl_upstream \<circ> map_of (sw_handlers w) \<and>
     gall (\<lambda>c _. c \<in> set (sw_known w)) (sw_handlers w) \<and>
     (\<forall>c. sw_accepting w = Some c \<longrightarrow> c \<in> set (sw_known w) \<and> map_of (sw_handlers w) c = None) \<and>
     sv_handlers (sw_service w) = length (sw_handlers w) \<and>
     int (sv_pending (sw_service w)) = pending_count (sw_handlers w) + of_bool (sw_accepting w \<noteq> None) \<and>
     slots_of (sw_service w) = slot_count (sw_handlers w) \<and>
     int (sv_pending (sw_service w)) \<le> sv_max_pending (sw_service w) \<and>
     slots_of (sw_service w) \<le> slots_bound (sw_service w) \<and>
     gall (\<lambda>_ h. hl_pending h \<longrightarrow> \<not> hl_slot h \<and> hl_upstream h = None) (sw_handlers w) \<and>
     (sw_swept w \<longrightarrow> sv_closed (sw_service w) \<and> gall (\<lambda>c h. set (owned_connections c h) \<subseteq> set (sw_shut w)) (sw_handlers w))"

lemma gsum_gdel:
  fixes f :: "'k \<Rightarrow> 'v \<Rightarrow> 'n::ab_group_add"
  assumes "gmap_ok m" "map_of m k = Some v"
  shows "gsum f (gdel k m) = gsum f m - f k v"
  using assms
proof (induction m)
  case (Cons kv m)
  show ?case
  proof (cases "fst kv = k")
    case True
    with Cons.prems have "k \<notin> fst ` set m" by auto
    then have "gdel k m = m" by (simp add: delete_id)
    with True Cons.prems show ?thesis by (cases kv) simp
  next
    case False
    with Cons show ?thesis by (cases kv) (simp add: algebra_simps)
  qed
qed simp

lemma length_gput: "length (gput k v m) = (if map_of m k = None then Suc (length m) else length m)"
  by (induction m) auto

lemma length_gdel: "gmap_ok m \<Longrightarrow> map_of m k = Some v \<Longrightarrow> length (gdel k m) = length m - 1"
proof (induction m)
  case (Cons kv m)
  show ?case
  proof (cases "fst kv = k")
    case True
    with Cons.prems have "gdel k m = m" by (auto simp: delete_id)
    with True show ?thesis by (cases kv) simp
  next
    case False
    with Cons have "m \<noteq> []" "length (gdel k m) = length m - 1" by (cases kv; cases m; auto)+
    with False show ?thesis by (cases kv) (cases m, auto)
  qed
qed simp

lemma map_of_gput_fun: "map_of (gput k v m) = (map_of m)(k \<mapsto> v)"
  by (simp add: fun_eq_iff)

lemma map_of_gdel_fun: "map_of (gdel k m) = (map_of m)(k := None)"
  by (simp add: fun_eq_iff)

lemma handle_service:
  assumes "handle he r sv k = (disp, sv', k')"
  shows "case disp of
      CloseIt \<Rightarrow> sv' = sv
    | OverCapacity \<Rightarrow> sv' = sv
    | Website _ _ \<Rightarrow> \<exists>f. sv_fallback sv = Some f \<and> int (fl_slots f) < fb_max_connections (fl_config f) \<and>
        sv' = release_pending (sv\<lparr>sv_fallback := Some (f\<lparr>fl_slots := Suc (fl_slots f)\<rparr>)\<rparr>)
    | ServeTCP _ _ _ \<Rightarrow> sv' = release_pending sv
    | ServeUDP _ _ _ \<Rightarrow> sv' = release_pending sv"
  using assms
  by (auto simp: handle_def Let_def fallback_acquire_def
      split: if_split_asm prod.split_asm verdict.split_asm option.split_asm bool.split_asm)

lemmas world_defs = world_ok_def pending_count_def slot_count_def slots_of_def slots_bound_def

lemma pending_count_nonneg: "0 \<le> pending_count m" and slot_count_nonneg: "0 \<le> slot_count m"
  by (induction m) (auto simp: pending_count_def slot_count_def)

lemma pending_positive: "gmap_ok m \<Longrightarrow> map_of m c = Some h \<Longrightarrow> hl_pending h \<Longrightarrow> 1 \<le> pending_count m"
proof -
  assume "gmap_ok m" "map_of m c = Some h" "hl_pending h"
  then have "pending_count m = pending_count (gdel c m) + 1" by (simp add: pending_count_def gsum_gdel)
  with pending_count_nonneg [of "gdel c m"] show ?thesis by simp
qed

lemma slot_positive: "gmap_ok m \<Longrightarrow> map_of m c = Some h \<Longrightarrow> hl_slot h \<Longrightarrow> 1 \<le> slot_count m"
proof -
  assume "gmap_ok m" "map_of m c = Some h" "hl_slot h"
  then have "slot_count m = slot_count (gdel c m) + 1" by (simp add: slot_count_def gsum_gdel)
  with slot_count_nonneg [of "gdel c m"] show ?thesis by simp
qed

lemma world_accept:
  assumes "world_ok w" "sw_accepting w = None" "c \<notin> set (sw_known w)" "take_pending (sw_service w) = (ok, sv)"
  shows "world_ok (if ok then w\<lparr>sw_service := sv, sw_accepting := Some c, sw_known := c # sw_known w\<rparr>
                    else w\<lparr>sw_known := c # sw_known w, sw_shut := c # sw_shut w\<rparr>)"
proof -
  have "map_of (sw_handlers w) c = None"
  proof (rule ccontr)
    assume "map_of (sw_handlers w) c \<noteq> None"
    then obtain h where "map_of (sw_handlers w) c = Some h" by auto
    with assms(1,3) show False by (auto simp: world_ok_def dest: gall_lookup)
  qed
  with assms show ?thesis by (auto simp: world_defs take_pending_def gall_def split: if_split_asm)
qed

lemma world_register:
  assumes "world_ok w" "sw_accepting w = Some c" "register_connection c (sw_service w) = (ok, sv)"
  shows "world_ok (if ok then w\<lparr>sw_service := sv, sw_accepting := None,
                       sw_handlers := gput c \<lparr>hl_pending = True, hl_slot = False, hl_upstream = None\<rparr> (sw_handlers w)\<rparr>
                    else w\<lparr>sw_service := sv, sw_accepting := None, sw_shut := c # sw_shut w\<rparr>)"
proof (cases ok)
  case True
  let ?h = "\<lparr>hl_pending = True, hl_slot = False, hl_upstream = None\<rparr>"
  from assms have new: "map_of (sw_handlers w) c = None" "c \<in> set (sw_known w)" by (auto simp: world_ok_def)
  from assms True have sv: "sv = (sw_service w)\<lparr>sv_connections := gput c None (sv_connections (sw_service w)), sv_handlers := Suc (sv_handlers (sw_service w))\<rparr>"
    "\<not> sv_closed (sw_service w)" by (auto simp: register_connection_def split: if_split_asm)
  from assms new True sv show ?thesis
    unfolding world_defs
    by (auto simp: map_of_gput_fun gsum_gput_fresh length_gput fun_eq_iff intro: gall_gput)
next
  case False
  have "1 \<le> int (sv_pending (sw_service w))" using assms(1,2) pending_count_nonneg [of "sw_handlers w"] by (simp add: world_ok_def)
  then have "int (sv_pending (sw_service w) - 1) = int (sv_pending (sw_service w)) - 1" by linarith
  with assms False show ?thesis
    by (auto simp: world_defs register_connection_def release_pending_def gall_def split: if_split_asm)
qed

lemma world_handle:
  assumes ok: "world_ok w" and h: "map_of (sw_handlers w) c = Some h" "hl_pending h"
    and run: "handle he r (sw_service w) k = (disp, sv, k')"
  shows "world_ok (w\<lparr>sw_service := sv, sw_handlers := gput c (after_handle disp h) (sw_handlers w)\<rparr>)"
proof -
  let ?hs = "gput c (after_handle disp h) (sw_handlers w)"
  note hs = handle_service [OF run]
  have pos: "1 \<le> pending_count (sw_handlers w)" using ok h pending_positive by (auto simp: world_ok_def)
  have "\<not> hl_slot h" "hl_upstream h = None" using ok h by (auto simp: world_ok_def dest: gall_lookup)
  then have counts: "pending_count ?hs = pending_count (sw_handlers w) - of_bool (\<not> hl_pending (after_handle disp h))"
    "slot_count ?hs = slot_count (sw_handlers w) + of_bool (hl_slot (after_handle disp h))"
    "hl_upstream (after_handle disp h) = None"
    "owned_connections c (after_handle disp h) = owned_connections c h"
    "hl_pending (after_handle disp h) \<longrightarrow> \<not> hl_slot (after_handle disp h)"
    using h by (auto simp: pending_count_def slot_count_def gsum_gput_present after_handle_def owned_connections_def split: disposition.split)
  have lookup: "map_of (sv_connections (sw_service w)) c = Some None" using ok h \<open>hl_upstream h = None\<close> by (simp add: world_ok_def)
  have frame: "sv_connections sv = sv_connections (sw_service w)" "sv_handlers sv = sv_handlers (sw_service w)"
    "sv_closed sv = sv_closed (sw_service w)" "sv_max_pending sv = sv_max_pending (sw_service w)" "slots_bound sv = slots_bound (sw_service w)"
    using hs by (auto simp: release_pending_def slots_bound_def split: disposition.split_asm)
  have pend: "int (sv_pending sv) = int (sv_pending (sw_service w)) - of_bool (\<not> hl_pending (after_handle disp h))"
    using hs pos ok h(2) by (auto simp: release_pending_def after_handle_def world_ok_def split: disposition.split_asm)
  have slots: "slots_of sv = slots_of (sw_service w) + of_bool (hl_slot (after_handle disp h)) \<and> slots_of sv \<le> slots_bound sv"
    using hs ok \<open>\<not> hl_slot h\<close> by (auto simp: release_pending_def after_handle_def world_ok_def slots_of_def slots_bound_def split: disposition.split_asm)
  have shut: "set (owned_connections c h) \<subseteq> set (sw_shut w)" if "sw_swept w" using ok h(1) that by (auto simp: world_ok_def dest: gall_lookup)
  have known: "c \<in> set (sw_known w)" using ok h(1) by (auto simp: world_ok_def dest: gall_lookup)
  from ok h(1) counts frame pend slots shut known lookup show ?thesis
    unfolding world_ok_def
    by (auto simp: length_gput fun_eq_iff intro!: gall_gput)
qed

lemma world_upstream:
  assumes ok: "world_ok w" and h: "map_of (sw_handlers w) c = Some h" "\<not> hl_pending h" "hl_upstream h = None"
    and run: "u \<notin> set (sw_known w)" "set_upstream c u (sw_service w) = (b, sv)"
  shows "world_ok (if b then w\<lparr>sw_service := sv, sw_known := u # sw_known w, sw_handlers := gput c (h\<lparr>hl_upstream := Some u\<rparr>) (sw_handlers w)\<rparr>
                    else w\<lparr>sw_known := u # sw_known w, sw_shut := u # sw_shut w\<rparr>)"
proof (cases b)
  case True
  let ?h = "h\<lparr>hl_upstream := Some u\<rparr>"
  have counts: "pending_count (gput c ?h (sw_handlers w)) = pending_count (sw_handlers w)" "slot_count (gput c ?h (sw_handlers w)) = slot_count (sw_handlers w)"
    using h by (simp_all add: pending_count_def slot_count_def gsum_gput_present)
  have sv: "sv = (sw_service w)\<lparr>sv_connections := gput c (Some u) (sv_connections (sw_service w))\<rparr>" "\<not> sv_closed (sw_service w)"
    using run(2) True by (auto simp: set_upstream_def split: if_split_asm)
  have "\<not> sw_swept w" using ok sv(2) by (simp add: world_ok_def)
  moreover have "c \<in> set (sw_known w)" using ok h(1) by (auto simp: world_ok_def dest: gall_lookup)
  moreover have "gall (\<lambda>c _. c \<in> set (u # sw_known w)) (sw_handlers w)" using ok by (auto simp: world_ok_def gall_def)
  ultimately show ?thesis
    using ok h True sv counts
    by (auto simp: world_ok_def slots_of_def slots_bound_def length_gput fun_eq_iff intro!: gall_gput)
next
  case False
  have "gall (\<lambda>c _. c \<in> set (u # sw_known w)) (sw_handlers w)" using ok by (auto simp: world_ok_def gall_def)
  moreover have "gall (\<lambda>c h. set (owned_connections c h) \<subseteq> insert u (set (sw_shut w))) (sw_handlers w)" if "sw_swept w"
    using ok that by (auto simp: world_ok_def gall_def)
  ultimately show ?thesis using ok False by (auto simp: world_ok_def)
qed

lemma world_exit:
  assumes ok: "world_ok w" and h: "map_of (sw_handlers w) c = Some h"
  shows "world_ok (w\<lparr>sw_service := exit_handler c (hl_slot h) (hl_pending h) (sw_service w),
                      sw_handlers := gdel c (sw_handlers w), sw_shut := owned_connections c h @ sw_shut w\<rparr>)"
proof -
  let ?sv = "exit_handler c (hl_slot h) (hl_pending h) (sw_service w)"
  have g: "gmap_ok (sw_handlers w)" using ok by (simp add: world_ok_def)
  have counts: "pending_count (gdel c (sw_handlers w)) = pending_count (sw_handlers w) - of_bool (hl_pending h)"
    "slot_count (gdel c (sw_handlers w)) = slot_count (sw_handlers w) - of_bool (hl_slot h)"
    "length (gdel c (sw_handlers w)) = length (sw_handlers w) - 1"
    using h g by (simp_all add: pending_count_def slot_count_def gsum_gdel length_gdel)
  have pend: "int (sv_pending ?sv) = int (sv_pending (sw_service w)) - of_bool (hl_pending h)"
    using ok h pending_positive [OF g h] by (auto simp: exit_handler_def release_pending_def Let_def world_ok_def)
  have slots: "slots_of ?sv = slots_of (sw_service w) - of_bool (hl_slot h)"
    using ok h slot_positive [OF g h]
    by (auto simp: exit_handler_def release_pending_def Let_def world_ok_def slots_of_def fallback_release_def split: option.split option.split_asm)
  have frame: "sv_max_pending ?sv = sv_max_pending (sw_service w)" "slots_bound ?sv = slots_bound (sw_service w)" "sv_closed ?sv = sv_closed (sw_service w)"
    "sv_connections ?sv = gdel c (sv_connections (sw_service w))" "sv_handlers ?sv = sv_handlers (sw_service w) - 1"
    by (auto simp: exit_handler_def release_pending_def Let_def slots_bound_def fallback_release_def split: option.split)
  have shut: "gall (\<lambda>c' h'. set (owned_connections c' h') \<subseteq> set (owned_connections c h) \<union> set (sw_shut w)) (gdel c (sw_handlers w))" if "sw_swept w"
    using ok that by (intro gall_gdel) (auto simp: world_ok_def gall_def)
  from ok counts pend slots frame shut show ?thesis
    unfolding world_ok_def by (auto simp: fun_eq_iff intro: gall_gdel)
qed

lemma swept_covers:
  assumes "world_ok w" "map_of (sw_handlers w) c = Some h"
  shows "set (owned_connections c h) \<subseteq> set (swept_connections (sw_service w))"
proof -
  have "map_of (sv_connections (sw_service w)) c = Some (hl_upstream h)" using assms by (simp add: world_ok_def)
  then have "(c, hl_upstream h) \<in> set (sv_connections (sw_service w))" by (rule map_of_SomeD)
  then show ?thesis by (force simp: swept_connections_def owned_connections_def split: option.split)
qed

lemma world_sweep:
  assumes "world_ok w" "sv_closed (sw_service w)"
  shows "world_ok (w\<lparr>sw_shut := swept_connections (sw_service w) @ sw_shut w, sw_swept := True\<rparr>)"
proof -
  have "gall (\<lambda>c h. set (owned_connections c h) \<subseteq> set (swept_connections (sw_service w)) \<union> set (sw_shut w)) (sw_handlers w)"
    unfolding gall_def using swept_covers [OF assms(1)] assms(1) by (auto simp: world_ok_def)
  with assms show ?thesis by (simp add: world_ok_def)
qed

lemma world_step: "service_step w w' \<Longrightarrow> world_ok w \<Longrightarrow> world_ok w'"
proof (induction rule: service_step.induct)
  case (ss_accept w c ok sv)
  then show ?case by (intro world_accept)
next
  case (ss_register w c ok sv)
  then show ?case by (intro world_register)
next
  case (ss_handle w c h he r k disp sv k')
  then show ?case by (intro world_handle)
next
  case (ss_upstream w c h u ok sv)
  then show ?case by (intro world_upstream)
next
  case (ss_exit w c h)
  then show ?case by (intro world_exit)
next
  case (ss_close w)
  then show ?case by (auto simp: world_ok_def slots_of_def slots_bound_def close_begin_def)
next
  case (ss_sweep w)
  then show ?case by (intro world_sweep)
qed

lemma fallback_defaults_bound: "fallback_with_defaults f = Inr fb \<Longrightarrow> 1 \<le> fb_max_connections fb"
  by (auto simp: fallback_with_defaults_def rbind_eq_Inr Let_def guard_bind_eq_Inr)

lemma world_init:
  assumes "new_service True True ib = Inr sv" "inbound_spec parse_url ib"
  shows "world_ok \<lparr>sw_service = sv, sw_accepting = None, sw_handlers = [], sw_known = [], sw_shut = [], sw_swept = False\<rparr>"
proof -
  have "0 \<le> sv_max_pending sv"
  proof (cases "ib_trojan ib")
    case None
    with assms(1) show ?thesis by (auto simp: new_service_def default_max_pending_def Let_def)
  next
    case (Some t)
    with assms(2) obtain l where "trojan_spec l t" by (auto simp: inbound_spec_def)
    then have "0 \<le> ti_max_pending t" by (auto simp: trojan_spec_def unset_or_def)
    with Some assms(1) show ?thesis by (auto simp: new_service_def default_max_pending_def Let_def rbind_eq_Inr)
  qed
  moreover have "sv_pending sv = 0" "sv_connections sv = []" "sv_handlers sv = 0" "\<not> sv_closed sv"
    using assms(1) by (auto simp: new_service_def Let_def rbind_eq_Inr)
  moreover have "slots_of sv = 0 \<and> 0 \<le> slots_bound sv"
    using assms(1) fallback_defaults_bound
    by (fastforce simp: new_service_def Let_def rbind_eq_Inr slots_of_def slots_bound_def split: option.split_asm sum.split_asm)
  ultimately show ?thesis by (simp add: world_ok_def pending_count_def slot_count_def fun_eq_iff)
qed

lemma world_reachable:
  assumes "service_reachable ib w" "inbound_spec parse_url ib"
  shows "world_ok w"
  using assms(1) by induction (use assms(2) in \<open>auto intro: world_init world_step\<close>)

text \<open>C23: Slots are neither leaked nor overdrawn.  However the accept loop, the handlers and \<open>Close\<close> of a service
  built from an accepted inbound interleave, the pending slots in use are exactly the unclassified
  connections (and the one being accepted), the website slots exactly the connections being relayed
  to the website, and both stay within their configured bounds.\<close>

theorem service_slots_exact:
  assumes "service_reachable ib w" and "inbound_spec parse_url ib"
  shows "int (sv_pending (sw_service w)) = pending_count (sw_handlers w) + of_bool (sw_accepting w \<noteq> None) \<and>
    int (sv_pending (sw_service w)) \<le> sv_max_pending (sw_service w) \<and>
    slots_of (sw_service w) = slot_count (sw_handlers w) \<and> slots_of (sw_service w) \<le> slots_bound (sw_service w)"
  using world_reachable [OF assms] by (simp add: world_ok_def)

text \<open>C24: \<open>Close\<close> misses no connection.  Once it has swept the registered connections, every connection that a
  handler still owns, the client's and the upstream it attached, has been closed, in every
  interleaving with connections being accepted and upstreams being dialled: whatever arrives later
  is closed by its own goroutine instead of being registered.\<close>

theorem close_reaches_every_connection:
  assumes "service_reachable ib w" and "inbound_spec parse_url ib" and "sw_swept w" and "map_of (sw_handlers w) c = Some h"
  shows "set (owned_connections c h) \<subseteq> set (sw_shut w)"
  using world_reachable [OF assms(1,2)] assms(3,4) by (auto simp: world_ok_def dest: gall_lookup)

definition demo_trojan :: inbound where
  "demo_trojan = \<lparr>ib_name = ''tr'', ib_type = ''trojan'', ib_listen = '':5'', ib_quic = None, ib_trojan = None, ib_masquerade = None\<rparr>"

definition trojan_start :: trojan_service where
  "trojan_start = \<lparr>sv_name = ''tr'', sv_next_protos = [], sv_handshake_timeout = 10 * second, sv_udp_idle_timeout = 60 * second,
     sv_max_pending = 256, sv_pending = 0, sv_fallback = None, sv_connections = [], sv_handlers = 0, sv_started = False, sv_closed = False\<rparr>"

definition demo_world :: service_world where
  "demo_world = \<lparr>sw_service = trojan_start\<lparr>sv_pending := 1, sv_connections := [(1, None)], sv_handlers := 1\<rparr>, sw_accepting = None,
     sw_handlers = [(1, \<lparr>hl_pending = True, hl_slot = False, hl_upstream = None\<rparr>)], sw_known = [1], sw_shut = [], sw_swept = False\<rparr>"

lemma demo_trojan_spec: "inbound_spec (\<lambda>_. None) demo_trojan"
proof -
  have "trim_space ''tr'' = ''tr''" by code_simp
  then show ?thesis by (simp add: inbound_spec_def demo_trojan_def hysteria2_type_def trojan_type_def demo_listener)
qed

lemma demo_world_reachable: "service_reachable demo_trojan demo_world"
proof -
  have new: "new_service True True demo_trojan = Inr trojan_start"
    by (simp add: new_service_def demo_trojan_def trojan_start_def default_handshake_timeout_def default_udp_idle_timeout_def default_max_pending_def)
  note start = sr_init [OF new]
  let ?w = "\<lparr>sw_service = trojan_start, sw_accepting = None, sw_handlers = [], sw_known = [], sw_shut = [], sw_swept = False\<rparr>"
  let ?w1 = "?w\<lparr>sw_service := trojan_start\<lparr>sv_pending := 1\<rparr>, sw_accepting := Some 1, sw_known := [1]\<rparr>"
  have "service_step ?w ?w1"
    using ss_accept [of ?w 1 True "trojan_start\<lparr>sv_pending := 1\<rparr>"] by (simp add: take_pending_def trojan_start_def)
  from sr_step [OF start this] have "service_reachable demo_trojan ?w1" .
  moreover have "service_step ?w1 demo_world"
    using ss_register [of ?w1 1 True "trojan_start\<lparr>sv_pending := 1, sv_connections := [(1, None)], sv_handlers := 1\<rparr>"]
    by (simp add: register_connection_def trojan_start_def demo_world_def)
  ultimately show ?thesis by (rule sr_step)
qed

theorem service_slots_exact_witness:
  "int (sv_pending (sw_service demo_world)) = pending_count (sw_handlers demo_world) + 0 \<and> sv_pending (sw_service demo_world) = 1"
  using service_slots_exact [OF demo_world_reachable demo_trojan_spec] by (simp add: demo_world_def pending_count_def)

theorem close_reaches_every_connection_witness:
  "\<exists>w. service_reachable demo_trojan w \<and> sw_swept w \<and> map_of (sw_handlers w) 1 \<noteq> None \<and> 1 \<in> set (sw_shut w)"
proof -
  let ?h = "\<lparr>hl_pending = True, hl_slot = False, hl_upstream = None\<rparr>"
  let ?closed = "demo_world\<lparr>sw_service := close_begin (sw_service demo_world)\<rparr>"
  let ?w = "?closed\<lparr>sw_shut := swept_connections (sw_service ?closed) @ sw_shut ?closed, sw_swept := True\<rparr>"
  have "service_reachable demo_trojan ?closed" by (rule sr_step [OF demo_world_reachable ss_close])
  moreover have "service_step ?closed ?w" by (rule ss_sweep) (simp add: close_begin_def)
  ultimately have w: "service_reachable demo_trojan ?w" by (rule sr_step)
  have h: "map_of (sw_handlers ?w) 1 = Some ?h" by (simp add: demo_world_def)
  from close_reaches_every_connection [OF w demo_trojan_spec _ h] have "1 \<in> set (sw_shut ?w)"
    by (simp add: owned_connections_def)
  with w h show ?thesis by (intro exI [of _ ?w]) simp
qed

section \<open>Requests and backoff\<close>

lemma next_backoff_bounds:
  "0 \<le> b \<Longrightarrow> b \<le> maximum_accept_backoff \<Longrightarrow> b = 0 \<or> initial_accept_backoff \<le> b \<Longrightarrow>
     initial_accept_backoff \<le> next_backoff b \<and> next_backoff b \<le> maximum_accept_backoff"
  by (auto simp: next_backoff_def initial_accept_backoff_def maximum_accept_backoff_def)

lemma serve_loop_delays:
  assumes "serve_loop b events = (res, ds, cs)" "b = 0 \<or> initial_accept_backoff \<le> b" "b \<le> maximum_accept_backoff"
  shows "list_all (\<lambda>d. initial_accept_backoff \<le> d \<and> d \<le> maximum_accept_backoff) ds"
  using assms
proof (induction b events arbitrary: res ds cs rule: serve_loop.induct)
  case (2 b c events)
  then show ?case by (cases "serve_loop 0 events") (auto simp: maximum_accept_backoff_def)
next
  case (5 b fired events)
  have nb: "initial_accept_backoff \<le> next_backoff b \<and> next_backoff b \<le> maximum_accept_backoff"
    using 5(3,4) by (intro next_backoff_bounds) (auto simp: initial_accept_backoff_def)
  obtain r1 d1 c1 where rec: "serve_loop (next_backoff b) events = (r1, d1, c1)" by (metis prod_cases3)
  from 5 nb rec show ?case by (cases fired) auto
qed simp_all

lemma serve_loop_accepts: "serve_loop b events = (res, ds, cs) \<Longrightarrow> prefix cs [c. Accepted c \<leftarrow> events]"
proof (induction b events arbitrary: res ds cs rule: serve_loop.induct)
  case (2 b c events)
  then show ?case by (cases "serve_loop 0 events") auto
next
  case (5 b fired events)
  then show ?case by (cases "serve_loop (next_backoff b) events"; cases fired) auto
qed auto

end
