(* ===== verification/Inbound_Manager.thy ===== *)
theory Inbound_Manager
  imports Trojan_Service "HOL-Library.Multiset"
begin

text \<open>
  The lifecycle of the constructed inbounds (\<open>inbound/manager.go\<close>).  A service is given by its name
  and by what its methods return; \<open>errors.Join\<close> is the list of the errors that are not nil.
\<close>

record inbound_service =
  in_name :: string
  in_serve :: "string option"
  in_close :: "string option"
  in_wait :: "string option"

record manager =
  mg_services :: "inbound_service list"
  mg_started :: bool
  mg_closed :: bool
  mg_errs :: "(string \<times> string) list"
  mg_close_err :: "string list"
  mg_close_calls :: "string list"

definition new_manager :: "inbound_service list \<Rightarrow> manager" where
  "new_manager services =
     \<lparr>mg_services = services, mg_started = False, mg_closed = False, mg_errs = [], mg_close_err = [], mg_close_calls = []\<rparr>"

definition manager_add :: "inbound_service option \<Rightarrow> manager \<Rightarrow> manager" where
  "manager_add service m = (case service of None \<Rightarrow> m | Some s \<Rightarrow> m\<lparr>mg_services := mg_services m @ [s]\<rparr>)"

definition stop_reason :: "inbound_service \<Rightarrow> string \<times> string" where
  "stop_reason s = (in_name s, case in_serve s of None \<Rightarrow> ''serve loop stopped without an error'' | Some e \<Rightarrow> e)"

text \<open>The error channel once every serve loop has returned, in the order in which they return.\<close>

definition manager_start :: "(inbound_service list \<Rightarrow> inbound_service list) \<Rightarrow> manager \<Rightarrow> manager" where
  "manager_start order m =
     (if mg_started m then m else m\<lparr>mg_started := True, mg_errs := map stop_reason (order (mg_services m))\<rparr>)"

definition join_errors :: "string option list \<Rightarrow> string list" where
  "join_errors es = concat (map (\<lambda>e. case e of None \<Rightarrow> [] | Some x \<Rightarrow> [x]) es)"

definition manager_close :: "manager \<Rightarrow> string list \<times> manager" where
  "manager_close m =
     (if mg_closed m then (mg_close_err m, m)
      else (let errs = foldl (\<lambda>acc s. acc @ join_errors [in_close s]) (mg_close_err m) (mg_services m);
                m' = m\<lparr>mg_closed := True, mg_close_err := errs, mg_close_calls := mg_close_calls m @ map in_name (mg_services m)\<rparr>
            in (errs, m')))"

text \<open>\<open>Wait\<close>: the context may end before the services have.\<close>

definition manager_wait :: "string option \<Rightarrow> (inbound_service list \<Rightarrow> inbound_service list) \<Rightarrow> manager \<Rightarrow> string list" where
  "manager_wait ctx_err order m =
     (case ctx_err of Some e \<Rightarrow> [e] | None \<Rightarrow> join_errors (map in_wait (order (mg_services m))))"

definition manager_len :: "manager \<Rightarrow> nat" where "manager_len m = length (mg_services m)"

lemma foldl_join: "foldl (\<lambda>acc s. acc @ join_errors [in_close s]) acc ss = acc @ join_errors (map in_close ss)"
  by (induction ss arbitrary: acc) (simp_all add: join_errors_def)

text \<open>Every service is closed once, in order, whatever errors the others return, however often \<open>Close\<close> is called.\<close>

lemma manager_close_once:
  assumes "\<not> mg_closed m" "mg_close_calls m = []" "mg_close_err m = []"
  shows "manager_close m = (join_errors (map in_close (mg_services m)), snd (manager_close m)) \<and>
    mg_close_calls (snd (manager_close m)) = map in_name (mg_services m) \<and>
    manager_close (snd (manager_close m)) = manager_close m"
  using assms by (simp add: manager_close_def foldl_join Let_def)

text \<open>A serve loop that stops is always reported as an error, once per service.\<close>

lemma manager_start_reports:
  assumes "\<not> mg_started m" "\<And>ss. mset (order ss) = mset ss"
  shows "mset (mg_errs (manager_start order m)) = mset (map stop_reason (mg_services m)) \<and>
    manager_start order (manager_start order m) = manager_start order m"
  using assms by (simp add: manager_start_def)

lemma join_errors_Nil: "join_errors es = [] \<longleftrightarrow> (\<forall>e \<in> set es. e = None)"
  by (auto simp: join_errors_def split: option.split)

end
