(* ===== verification/Hysteria2_Service.thy ===== *)
theory Hysteria2_Service
  imports Config_Schema
begin

text \<open>
  The Hysteria2 inbound service (\<open>inbound/hysteria2/service.go\<close>) and its masquerade
  (\<open>inbound/hysteria2/masquerade.go\<close>).  The server of the Hysteria2 library and the sockets are arguments that say
  whether a call fails.  A request URL is what is sent on the wire: the path is the escaped one.
\<close>

section \<open>The reverse proxy of the masquerade\<close>

record target_url = parsed_url +
  tu_path :: string

record http_request =
  hr_scheme :: string
  hr_url_host :: string
  hr_path :: string
  hr_query :: string
  hr_host :: string
  hr_headers :: "(string, string list) gomap"

text \<open>\<open>httputil.ProxyRequest.SetURL\<close>: the paths are joined with one slash, the queries with an ampersand.\<close>

definition single_joining_slash :: "string \<Rightarrow> string \<Rightarrow> string" where
  "single_joining_slash a b =
     (if has_suffix a ''/'' \<and> has_prefix b ''/'' then a @ drop 1 b
      else if \<not> has_suffix a ''/'' \<and> \<not> has_prefix b ''/'' then a @ ''/'' @ b
      else a @ b)"

definition join_query :: "string \<Rightarrow> string \<Rightarrow> string" where
  "join_query a b = (if a = [] \<or> b = [] then a @ b else a @ ''&'' @ b)"

definition set_url :: "target_url \<Rightarrow> http_request \<Rightarrow> http_request" where
  "set_url target out =
     out\<lparr>hr_scheme := pu_scheme target, hr_url_host := pu_host target, hr_path := single_joining_slash (tu_path target) (hr_path out),
         hr_query := join_query (pu_query target) (hr_query out), hr_host := []\<rparr>"

definition del_header :: "string \<Rightarrow> http_request \<Rightarrow> http_request" where
  "del_header key out = out\<lparr>hr_headers := gdel key (hr_headers out)\<rparr>"

definition forwarding_headers :: "string list" where
  "forwarding_headers = [''X-Forwarded-For'', ''X-Forwarded-Host'', ''X-Forwarded-Proto'', ''Forwarded'']"

text \<open>The \<open>Rewrite\<close> function; \<open>out\<close> is the copy of the incoming request that the reverse proxy sends.\<close>

definition masquerade_rewrite :: "target_url \<Rightarrow> bool \<Rightarrow> http_request \<Rightarrow> http_request \<Rightarrow> http_request" where
  "masquerade_rewrite target rewrite_host inc out =
     (let original_host = hr_host inc;
          out1 = set_url target out;
          out2 = (if \<not> rewrite_host then out1\<lparr>hr_host := original_host\<rparr> else out1)
      in foldl (\<lambda>r key. del_header key r) out2 forwarding_headers)"

text \<open>The \<open>Host\<close> that is sent: the one of the request, or that of the URL when it is empty.\<close>

definition wire_host :: "http_request \<Rightarrow> string" where
  "wire_host r = (if hr_host r = [] then hr_url_host r else hr_host r)"

record http_response =
  hp_status :: nat
  hp_headers :: "(string, string list) gomap"
  hp_body :: bytes

text \<open>What the probe gets: the backend's answer, or a bare 502 (\<open>ErrorHandler\<close>).\<close>

definition masquerade_answer :: "http_response option \<Rightarrow> http_response" where
  "masquerade_answer backend =
     (case backend of Some r \<Rightarrow> r | None \<Rightarrow> \<lparr>hp_status = 502, hp_headers = [], hp_body = []\<rparr>)"

record masquerade =
  mq_target :: target_url
  mq_rewrite_host :: bool

datatype hy2_error =
    ResolveListen string string
  | MasqueradeUnsupported string string
  | MasqueradeUrl string
  | ListenUdp string string
  | ConstructServer string string

definition new_masquerade ::
  "(string \<Rightarrow> target_url option) \<Rightarrow> inbound_masquerade_config option \<Rightarrow> string \<Rightarrow> (hy2_error, masquerade option) result"
where
  "new_masquerade parse_target cfg inb =
     (case cfg of
        None \<Rightarrow> Inr None
      | Some c \<Rightarrow>
          (case im_proxy c of
             None \<Rightarrow> Inl (MasqueradeUnsupported inb (im_type c))
           | Some p \<Rightarrow>
               if im_type c \<noteq> masquerade_proxy_type then Inl (MasqueradeUnsupported inb (im_type c))
               else (case parse_target (mp_url p) of
                       None \<Rightarrow> Inl (MasqueradeUrl inb)
                     | Some target \<Rightarrow> Inr (Some \<lparr>mq_target = target, mq_rewrite_host = mp_rewrite_host p\<rparr>))))"

section \<open>The service\<close>

definition build_quic_config :: "quic_config option \<Rightarrow> quic_config" where
  "build_quic_config input =
     (case input of
        None \<Rightarrow> \<lparr>init_stream_receive_window = 0, max_stream_receive_window = 0, init_conn_receive_window = 0,
          max_conn_receive_window = 0, max_idle_timeout = 0, max_incoming_streams = 0, disable_path_mtu_discovery = False\<rparr>
      | Some q \<Rightarrow> \<lparr>init_stream_receive_window = init_stream_receive_window q, max_stream_receive_window = max_stream_receive_window q,
          init_conn_receive_window = init_conn_receive_window q, max_conn_receive_window = max_conn_receive_window q,
          max_idle_timeout = max_idle_timeout q, max_incoming_streams = max_incoming_streams q,
          disable_path_mtu_discovery = disable_path_mtu_discovery q\<rparr>)"

record hy2_service =
  hv_name :: string
  hv_addr :: string
  hv_quic :: quic_config
  hv_masquerade :: "masquerade option"

text \<open>
  The resolver of a listen address, the bind of a socket (its error, if any), the constructor of the server and what
  its \<open>Close\<close> returns.
\<close>

record hy2_env =
  he_resolve :: "string \<Rightarrow> (string, string) result"
  he_parse_target :: "string \<Rightarrow> target_url option"
  he_bind :: "string \<Rightarrow> string option"
  he_server :: "string \<Rightarrow> quic_config \<Rightarrow> bool \<Rightarrow> string option"

text \<open>\<open>NewService\<close>, with the UDP sockets that stay bound.\<close>

definition new_hy2_service :: "hy2_env \<Rightarrow> inbound \<Rightarrow> (hy2_error, hy2_service) result \<times> string list" where
  "new_hy2_service env ib =
     (case he_resolve env (ib_listen ib) of
        Inl e \<Rightarrow> (Inl (ResolveListen (ib_name ib) e), [])
      | Inr addr \<Rightarrow>
          (case new_masquerade (he_parse_target env) (ib_masquerade ib) (ib_name ib) of
             Inl e \<Rightarrow> (Inl e, [])
           | Inr masq \<Rightarrow>
               (case he_bind env addr of
                  Some e \<Rightarrow> (Inl (ListenUdp (ib_name ib) e), [])
                | None \<Rightarrow>
                    let bound = [addr]; quic = build_quic_config (ib_quic ib)
                    in case he_server env addr quic (masq \<noteq> None) of
                         Some e \<Rightarrow> (Inl (ConstructServer (ib_name ib) e), removeAll addr bound)
                       | None \<Rightarrow> (Inr \<lparr>hv_name = ib_name ib, hv_addr = addr, hv_quic = quic, hv_masquerade = masq\<rparr>, bound))))"

text \<open>\<open>Close\<close>: the error of the server, and the backends whose idle connections are dropped.\<close>

definition hy2_service_close :: "string option \<Rightarrow> hy2_service \<Rightarrow> string option \<times> string list" where
  "hy2_service_close server_close s =
     (server_close, case hv_masquerade s of None \<Rightarrow> [] | Some m \<Rightarrow> [pu_host (mq_target m)])"

section \<open>Properties\<close>

lemma foldl_del_header:
  "foldl (\<lambda>r key. del_header key r) r keys = r\<lparr>hr_headers := foldl (\<lambda>m key. gdel key m) (hr_headers r) keys\<rparr>"
  by (induction keys arbitrary: r) (simp_all add: del_header_def)

lemma map_of_foldl_gdel:
  "map_of (foldl (\<lambda>m key. gdel key m) m keys) k = (if k \<in> set keys then None else map_of m k)"
  by (induction keys arbitrary: m) (auto simp: delete_conv')

text \<open>The masquerade reveals no proxy: whatever a probe sends, the request that leaves goes to the
  configured backend, carries none of the four forwarding headers and the other headers unchanged, and its
  Host is the backend's when so configured and otherwise the one the probe used.\<close>

theorem masquerade_hides_probe:
  fixes target rewrite_host inc out
  defines "rewritten \<equiv> masquerade_rewrite target rewrite_host inc out"
  shows "hr_scheme rewritten = pu_scheme target \<and> hr_url_host rewritten = pu_host target \<and>
    (\<forall>k. map_of (hr_headers rewritten) k = (if k \<in> set forwarding_headers then None else map_of (hr_headers out) k)) \<and>
    wire_host rewritten = (if rewrite_host \<or> hr_host inc = [] then pu_host target else hr_host inc)"
  by (simp add: rewritten_def masquerade_rewrite_def foldl_del_header map_of_foldl_gdel set_url_def wire_host_def Let_def)

text \<open>A constructor that fails leaves no socket bound; one that succeeds owns exactly its own.\<close>

lemma new_hy2_service_sockets:
  "snd (new_hy2_service env ib) = (case fst (new_hy2_service env ib) of Inl _ \<Rightarrow> [] | Inr s \<Rightarrow> [hv_addr s])"
  by (simp add: new_hy2_service_def Let_def split: sum.split option.split)

text \<open>A masquerade that the validator accepted is always built; the two parse the same URL.\<close>

lemma validated_masquerade_built:
  assumes "validate_inbound_masquerade (\<lambda>s. map_option parsed_url.truncate (parse_target s)) path c = Inr ()"
  shows "\<exists>m. new_masquerade parse_target (Some c) inb = Inr (Some m)"
  using assms by (auto simp: validate_inbound_masquerade_def new_masquerade_def Let_def rbind_def guard_ok_def
      split: if_split_asm option.split_asm option.split sum.split_asm)

end
