(* ===== verification/Config_Load.thy ===== *)
theory Config_Load
  imports Config_Schema
begin

text \<open>
  Loading and migrating configurations (\<open>config/config.go\<close>, \<open>config/inbound_migration.go\<close> and the
  strict decoding of \<open>config/inbound_schema.go\<close>).  The YAML library is an argument: what it parses a
  document into (\<open>yaml_lib\<close>), the strict decoders of the two schemas and the encoder.  The file
  system of the migration command is a partial function from paths to contents, with the faults of
  the system calls as arguments.
\<close>

section \<open>YAML documents\<close>

datatype yaml_kind = DocumentNode | SequenceNode | MappingNode | ScalarNode | AliasNode

datatype yaml_node = YNode (yn_kind: yaml_kind) (yn_value: string) (yn_line: nat) (yn_content: "yaml_node list")

datatype yaml_error = YamlEOF | YamlInvalid string

text \<open>What a decoder yields for the first and the second document of a text.\<close>

record yaml_lib =
  yl_first :: "bytes \<Rightarrow> (yaml_error, yaml_node) result"
  yl_second :: "bytes \<Rightarrow> (yaml_error, yaml_node) result"

datatype decode_error =
  EmptyDocument | ParseFailed | DuplicateKey string nat nat | TrailingFailed | MultipleDocuments | StrictFailed

fun reject_duplicate_keys :: "yaml_node \<Rightarrow> (decode_error, unit) result"
  and reject_pairs :: "(string, nat) gomap \<Rightarrow> yaml_node list \<Rightarrow> (decode_error, unit) result"
  and reject_items :: "yaml_node list \<Rightarrow> (decode_error, unit) result"
where
  "reject_duplicate_keys (YNode kind val line content) =
     (case (kind, content) of
        (DocumentNode, [c]) \<Rightarrow> reject_duplicate_keys c
      | (MappingNode, _) \<Rightarrow> reject_pairs [] content
      | (SequenceNode, _) \<Rightarrow> reject_items content
      | _ \<Rightarrow> Inr ())"
| "reject_pairs seen (key # val # rest) =
     (if yn_kind key = ScalarNode
      then (case map_of seen (yn_value key) of
              Some previous \<Rightarrow> Inl (DuplicateKey (yn_value key) (yn_line key) previous)
            | None \<Rightarrow>
                (case reject_duplicate_keys val of
                   Inl e \<Rightarrow> Inl e
                 | Inr _ \<Rightarrow> reject_pairs (gput (yn_value key) (yn_line key) seen) rest))
      else (case reject_duplicate_keys val of Inl e \<Rightarrow> Inl e | Inr _ \<Rightarrow> reject_pairs seen rest))"
| "reject_pairs seen _ = Inr ()"
| "reject_items [] = Inr ()"
| "reject_items (child # children) =
     (case reject_duplicate_keys child of Inl e \<Rightarrow> Inl e | Inr _ \<Rightarrow> reject_items children)"

definition decode_strict_single ::
  "yaml_lib \<Rightarrow> (bytes \<Rightarrow> (yaml_error, 'a) result) \<Rightarrow> bytes \<Rightarrow> (decode_error, 'a) result"
where
  "decode_strict_single yl strict data =
     (case yl_first yl data of
        Inl YamlEOF \<Rightarrow> Inl EmptyDocument
      | Inl (YamlInvalid _) \<Rightarrow> Inl ParseFailed
      | Inr root \<Rightarrow>
          if yn_content root = [] then Inl EmptyDocument
          else rbind (reject_duplicate_keys root) (\<lambda>_.
            case yl_second yl data of
              Inr _ \<Rightarrow> Inl MultipleDocuments
            | Inl (YamlInvalid _) \<Rightarrow> Inl TrailingFailed
            | Inl YamlEOF \<Rightarrow> (case strict data of Inl _ \<Rightarrow> Inl StrictFailed | Inr out \<Rightarrow> Inr out)))"

fun pair_keys :: "yaml_node list \<Rightarrow> string list" where
  "pair_keys (key # _ # rest) = yn_value key # pair_keys rest"
| "pair_keys _ = []"

definition has_top_level_key :: "yaml_node \<Rightarrow> string \<Rightarrow> bool" where
  "has_top_level_key root0 key =
     (let root = (if yn_kind root0 = DocumentNode \<and> length (yn_content root0) = 1 then hd (yn_content root0) else root0)
      in yn_kind root = MappingNode \<and> key \<in> set (pair_keys (yn_content root)))"

section \<open>The gateway configuration\<close>

record masquerade_config =
  mc_type :: string
  mc_url :: string
  mc_rewrite_host :: bool

record api_config =
  ac_listen :: string
  ac_secret :: string

record sub_config =
  sb_secret :: string
  sb_listen :: string
  sb_public_url :: string
  sb_server_addr :: string
  sb_sni :: string
  sb_insecure :: bool
  sb_inbound :: string
  sb_endpoints :: "subscription_endpoint list option"

record gateway_config =
  gc_inbounds :: "inbound list"
  gc_listen :: string
  gc_tls :: tls_config
  gc_obfs :: bool
  gc_quic :: "quic_config option"
  gc_users :: "(string, user_config) gomap"
  gc_nodes :: "(string, node_config) gomap"
  gc_api :: api_config
  gc_admin_listen :: string
  gc_sub :: "sub_config option"
  gc_masquerade :: "masquerade_config option"
  gc_db_path :: string
  gc_flush_interval :: duration
  gc_timezone :: string
  gc_systemd :: "systemd_config option"

definition client_endpoints :: "sub_config option \<Rightarrow> subscription_endpoint list" where
  "client_endpoints sub =
     (case sub of
        None \<Rightarrow> []
      | Some s \<Rightarrow>
          (case sb_endpoints s of
             Some es \<Rightarrow> es
           | None \<Rightarrow> [\<lparr>se_inbound = sb_inbound s, se_server_addr = sb_server_addr s, se_sni = sb_sni s, se_insecure = sb_insecure s\<rparr>]))"

datatype load_error = ReadFailed io_error | NotDecoded decode_error | NotValid config_error | ObfsUnsupported | IndexPanic

definition parse_inbound_config ::
  "(string \<Rightarrow> parsed_url option) \<Rightarrow> (string \<Rightarrow> bool) \<Rightarrow> yaml_lib \<Rightarrow> (bytes \<Rightarrow> (yaml_error, inbound_config) result) \<Rightarrow>
    bytes \<Rightarrow> (load_error, inbound_config) result"
where
  "parse_inbound_config parse_url known_zone yl strict data =
     (case decode_strict_single yl strict data of
        Inl e \<Rightarrow> Inl (NotDecoded e)
      | Inr cfg \<Rightarrow> (case validate_config parse_url known_zone cfg of Inl e \<Rightarrow> Inl (NotValid e) | Inr c \<Rightarrow> Inr c))"

text \<open>\<open>append([]T(nil), xs...)\<close>: a copy, which is nil when there is nothing to copy.\<close>

definition copy_slice :: "'a list option \<Rightarrow> 'a list option" where
  "copy_slice xs = (case xs of Some (y # ys) \<Rightarrow> Some (y # ys) | _ \<Rightarrow> None)"

definition runtime_sub :: "inbound_sub_config \<Rightarrow> sub_config" where
  "runtime_sub sub =
     (let single = (case is_single sub of None \<Rightarrow> empty_endpoint | Some e \<Rightarrow> e)
      in \<lparr>sb_secret = [], sb_listen = is_listen sub, sb_public_url = is_public_url sub, sb_server_addr = se_server_addr single,
          sb_sni = se_sni single, sb_insecure = se_insecure single, sb_inbound = se_inbound single,
          sb_endpoints = copy_slice (is_endpoints sub)\<rparr>)"

definition project_inbound :: "inbound \<Rightarrow> gateway_config \<Rightarrow> gateway_config" where
  "project_inbound ib cfg = cfg\<lparr>gc_listen := ib_listen ib, gc_quic := ib_quic ib\<rparr>"

definition runtime_config :: "inbound_config \<Rightarrow> (load_error, gateway_config) result" where
  "runtime_config c =
     (let cfg0 = \<lparr>gc_inbounds = ic_inbounds c, gc_listen = [], gc_tls = ic_tls c, gc_obfs = False, gc_quic = None, gc_users = [],
            gc_nodes = [], gc_api = \<lparr>ac_listen = [], ac_secret = []\<rparr>, gc_admin_listen = ic_admin_listen c, gc_sub = None,
            gc_masquerade = None, gc_db_path = ic_db_path c, gc_flush_interval = ic_flush_interval c,
            gc_timezone = ic_timezone c, gc_systemd = ic_systemd c\<rparr>;
          cfg1 = (case ic_inbounds c of [] \<Rightarrow> cfg0 | ib # _ \<Rightarrow> project_inbound ib cfg0)
      in case ic_sub c of
           None \<Rightarrow> Inr cfg1
         | Some sub \<Rightarrow>
             (let cfg2 = cfg1\<lparr>gc_sub := Some (runtime_sub sub)\<rparr>
              in case client_endpoints (gc_sub cfg2) of
                   [] \<Rightarrow> Inl IndexPanic
                 | primary # _ \<Rightarrow>
                     Inr (case find (\<lambda>ib. ib_name ib = se_inbound primary) (gc_inbounds cfg2) of
                            None \<Rightarrow> cfg2
                          | Some ib \<Rightarrow> project_inbound ib cfg2)))"

definition load_runtime ::
  "(string \<Rightarrow> parsed_url option) \<Rightarrow> (string \<Rightarrow> bool) \<Rightarrow> yaml_lib \<Rightarrow> (bytes \<Rightarrow> (yaml_error, inbound_config) result) \<Rightarrow>
    (string \<Rightarrow> (io_error, bytes) result) \<Rightarrow> string \<Rightarrow> (load_error, gateway_config) result"
where
  "load_runtime parse_url known_zone yl strict read_file path =
     (case read_file path of
        Inl e \<Rightarrow> Inl (ReadFailed e)
      | Inr data \<Rightarrow> rbind (parse_inbound_config parse_url known_zone yl strict data) runtime_config)"

section \<open>The legacy configuration\<close>

definition validate_gateway :: "(string \<Rightarrow> bool) \<Rightarrow> gateway_config \<Rightarrow> (load_error, gateway_config) result" where
  "validate_gateway known_zone c =
     (if gc_obfs c then Inl ObfsUnsupported
      else
        let c1 = (if gc_listen c = [] then c\<lparr>gc_listen := '':443''\<rparr> else c)
        in if tls_cert (gc_tls c1) = [] \<or> tls_key (gc_tls c1) = [] then Inl (NotValid (ConfigError ''tls'' MustBeConfigured))
           else
             let c2 = (if gc_timezone c1 = [] then c1\<lparr>gc_timezone := ''UTC''\<rparr> else c1)
             in if \<not> known_zone (gc_timezone c2) then Inl (NotValid (ConfigError ''timezone'' UnknownZone))
                else
                  let c3 = c2\<lparr>gc_systemd := map_option (\<lambda>s. if sd_unit s = [] then s\<lparr>sd_unit := ''proxy-gateway.service''\<rparr> else s) (gc_systemd c2)\<rparr>;
                      c4 = c3\<lparr>gc_flush_interval := default_duration (10 * second) (gc_flush_interval c3)\<rparr>
                  in Inr (if gc_db_path c4 = [] then c4\<lparr>gc_db_path := ''proxy-gateway.db''\<rparr> else c4))"

definition load_legacy ::
  "(string \<Rightarrow> bool) \<Rightarrow> (bytes \<Rightarrow> (yaml_error, yaml_node) result) \<Rightarrow> (bytes \<Rightarrow> (yaml_error, gateway_config) result) \<Rightarrow>
    (string \<Rightarrow> (io_error, bytes) result) \<Rightarrow> string \<Rightarrow> (load_error, gateway_config) result"
where
  "load_legacy known_zone unmarshal_node unmarshal read_file path =
     (case read_file path of
        Inl e \<Rightarrow> Inl (ReadFailed e)
      | Inr data \<Rightarrow>
          (case unmarshal_node data of
             Inl _ \<Rightarrow> Inl (NotDecoded ParseFailed)
           | Inr root \<Rightarrow>
               if has_top_level_key root ''obfs'' then Inl ObfsUnsupported
               else (case unmarshal data of
                       Inl _ \<Rightarrow> Inl (NotDecoded ParseFailed)
                     | Inr cfg \<Rightarrow> validate_gateway known_zone cfg)))"

datatype legacy_error =
  NoLegacyUsers | UserWithoutPassword string | UserWithoutRoutes string | UserUnknownNode string string
  | NodeUnknownType string string | NodeIncomplete string

definition validate_legacy_user :: "(string, node_config) gomap \<Rightarrow> string \<times> user_config \<Rightarrow> (legacy_error, unit) result" where
  "validate_legacy_user nodes nu =
     (case nu of (name, user) \<Rightarrow>
        if uc_password user = [] then Inl (UserWithoutPassword name)
        else if uc_routes user = [] then Inl (UserWithoutRoutes name)
        else each_ok (\<lambda>route. guard_ok (route = ''direct'' \<or> route \<in> set (gkeys nodes)) (UserUnknownNode name route)) (uc_routes user))"

definition validate_legacy_node :: "string \<times> node_config \<Rightarrow> (legacy_error, unit) result" where
  "validate_legacy_node nn =
     (case nn of (name, node) \<Rightarrow>
        if nc_type node \<noteq> ''hysteria2'' then Inl (NodeUnknownType name (nc_type node))
        else (case nc_hysteria2 node of
                None \<Rightarrow> Inl (NodeIncomplete name)
              | Some h \<Rightarrow> guard_ok (h2_addr h \<noteq> [] \<and> h2_auth h \<noteq> []) (NodeIncomplete name)))"

definition validate_legacy :: "gateway_config \<Rightarrow> (legacy_error, unit) result" where
  "validate_legacy c =
     rbind (guard_ok (gc_users c \<noteq> []) NoLegacyUsers) (\<lambda>_.
     rbind (each_ok (validate_legacy_user (gc_nodes c)) (gc_users c)) (\<lambda>_.
     each_ok validate_legacy_node (gc_nodes c)))"

section \<open>Migration of the listeners\<close>

record legacy_trojan_config =
  lt_listen :: string
  lt_server_addr :: string
  lt_sni :: string
  lt_insecure :: bool

record legacy_inbound_config =
  li_listen :: string
  li_tls :: tls_config
  li_quic :: "quic_config option"
  li_users :: "(string, user_config) gomap"
  li_nodes :: "(string, node_config) gomap"
  li_api :: api_config
  li_admin_listen :: string
  li_sub :: "sub_config option"
  li_masquerade :: "masquerade_config option"
  li_trojan :: "legacy_trojan_config option"
  li_db_path :: string
  li_flush_interval :: duration
  li_timezone :: string
  li_systemd :: "systemd_config option"

datatype migration_error =
    LegacyNotDecoded decode_error | AlreadyInbounds | LegacyObfs | ManagementData | ManagementSecret | SubMixed | SubServerAddr
  | MasqueradeIncomplete | MasqueradeUnsupported | TrojanServerAddr | EncodeFailed | GeneratedInvalid load_error

datatype diagnostic = MasqueradeNowEnforced | AdminTakesPrecedence | TrojanMetadataDropped | TrojanMetadataMigrated

definition migrated_hysteria2_name :: string where "migrated_hysteria2_name = ''hy2-public''"
definition migrated_trojan_name :: string where "migrated_trojan_name = ''trojan-public''"

definition migrate_masquerade ::
  "bool \<Rightarrow> masquerade_config option \<Rightarrow> (migration_error, inbound_masquerade_config option) result"
where
  "migrate_masquerade has_masquerade m =
     (if \<not> has_masquerade then Inr None
      else (case m of
              None \<Rightarrow> Inl MasqueradeIncomplete
            | Some mc \<Rightarrow>
                if mc_type mc = [] then Inl MasqueradeIncomplete
                else if mc_type mc \<noteq> masquerade_proxy_type \<or> mc_url mc = [] then Inl MasqueradeUnsupported
                else Inr (Some \<lparr>im_type = masquerade_proxy_type,
                       im_proxy = Some \<lparr>mp_url = mc_url mc, mp_rewrite_host = mc_rewrite_host mc\<rparr>\<rparr>)))"

definition migrate_endpoint :: "sub_config \<Rightarrow> subscription_endpoint" where
  "migrate_endpoint s =
     \<lparr>se_inbound = migrated_hysteria2_name, se_server_addr = sb_server_addr s, se_sni = sb_sni s, se_insecure = sb_insecure s\<rparr>"

definition migrate_sub ::
  "sub_config option \<Rightarrow> legacy_trojan_config option \<Rightarrow> (migration_error, inbound_sub_config option \<times> diagnostic list) result"
where
  "migrate_sub sub trojan =
     (let plain = map_option (\<lambda>s. \<lparr>is_listen = sb_listen s, is_public_url = sb_public_url s,
            is_single = Some (migrate_endpoint s), is_endpoints = None\<rparr>) sub
      in case trojan of
           None \<Rightarrow> Inr (plain, [])
         | Some t \<Rightarrow>
             if lt_listen t \<noteq> [] \<and> (lt_server_addr t \<noteq> [] \<or> lt_sni t \<noteq> [] \<or> lt_insecure t)
             then (case sub of
                     None \<Rightarrow> Inr (plain, [TrojanMetadataDropped])
                   | Some s \<Rightarrow>
                       if lt_server_addr t = [] then Inl TrojanServerAddr
                       else Inr (Some \<lparr>is_listen = sb_listen s, is_public_url = sb_public_url s, is_single = None,
                              is_endpoints = Some [migrate_endpoint s,
                                \<lparr>se_inbound = migrated_trojan_name, se_server_addr = lt_server_addr t, se_sni = lt_sni t, se_insecure = lt_insecure t\<rparr>]\<rparr>,
                            [TrojanMetadataMigrated]))
             else Inr (plain, []))"

definition migrate_admin :: "legacy_inbound_config \<Rightarrow> string \<times> diagnostic list" where
  "migrate_admin l =
     (if li_admin_listen l = [] then (ac_listen (li_api l), [])
      else (li_admin_listen l, if ac_listen (li_api l) \<noteq> [] \<and> ac_listen (li_api l) \<noteq> li_admin_listen l then [AdminTakesPrecedence] else []))"

definition migrate_document :: "bool \<Rightarrow> legacy_inbound_config \<Rightarrow> (migration_error, inbound_config \<times> diagnostic list) result" where
  "migrate_document has_masquerade l =
     (if li_users l \<noteq> [] \<or> li_nodes l \<noteq> [] then Inl ManagementData
      else if ac_secret (li_api l) \<noteq> [] \<or> (case li_sub l of None \<Rightarrow> False | Some s \<Rightarrow> sb_secret s \<noteq> []) then Inl ManagementSecret
      else if (case li_sub l of None \<Rightarrow> False | Some s \<Rightarrow> sb_inbound s \<noteq> [] \<or> sb_endpoints s \<noteq> None) then Inl SubMixed
      else if (case li_sub l of None \<Rightarrow> False | Some s \<Rightarrow> sb_server_addr s = []) then Inl SubServerAddr
      else
        rbind (migrate_masquerade has_masquerade (li_masquerade l)) (\<lambda>masquerade.
        let hy2 = \<lparr>ib_name = migrated_hysteria2_name, ib_type = hysteria2_type, ib_listen = (if li_listen l = [] then '':443'' else li_listen l),
              ib_quic = li_quic l, ib_trojan = None, ib_masquerade = masquerade\<rparr>;
            trojans = (case li_trojan l of
                Some t \<Rightarrow> if lt_listen t \<noteq> []
                  then [\<lparr>ib_name = migrated_trojan_name, ib_type = trojan_type, ib_listen = lt_listen t, ib_quic = None, ib_trojan = None, ib_masquerade = None\<rparr>]
                  else []
              | None \<Rightarrow> []);
            (admin, admin_diagnostics) = migrate_admin l
        in rbind (migrate_sub (li_sub l) (li_trojan l)) (\<lambda>(sub, sub_diagnostics).
           Inr (\<lparr>ic_inbounds = hy2 # trojans, ic_tls = li_tls l, ic_admin_listen = admin, ic_sub = sub, ic_db_path = li_db_path l,
                 ic_flush_interval = li_flush_interval l, ic_timezone = li_timezone l, ic_systemd = li_systemd l\<rparr>,
                (if has_masquerade then [MasqueradeNowEnforced] else []) @ admin_diagnostics @ sub_diagnostics))))"

record migration_env =
  me_url :: "string \<Rightarrow> parsed_url option"
  me_zone :: "string \<Rightarrow> bool"
  me_yaml :: yaml_lib
  me_node :: "bytes \<Rightarrow> (yaml_error, yaml_node) result"
  me_legacy :: "bytes \<Rightarrow> (yaml_error, legacy_inbound_config) result"
  me_strict :: "bytes \<Rightarrow> (yaml_error, inbound_config) result"
  me_marshal :: "inbound_config \<Rightarrow> bytes option"

definition migrate_legacy_inbounds :: "migration_env \<Rightarrow> bytes \<Rightarrow> (migration_error, bytes \<times> diagnostic list) result" where
  "migrate_legacy_inbounds me data =
     (case decode_strict_single (me_yaml me) (me_node me) data of
        Inl e \<Rightarrow> Inl (LegacyNotDecoded e)
      | Inr root \<Rightarrow>
          if has_top_level_key root ''inbounds'' then Inl AlreadyInbounds
          else if has_top_level_key root ''obfs'' then Inl LegacyObfs
          else
            (case decode_strict_single (me_yaml me) (me_legacy me) data of
               Inl e \<Rightarrow> Inl (LegacyNotDecoded e)
             | Inr legacy \<Rightarrow>
                 rbind (migrate_document (has_top_level_key root ''masquerade'') legacy) (\<lambda>(output, diagnostics).
                 case me_marshal me output of
                   None \<Rightarrow> Inl EncodeFailed
                 | Some generated \<Rightarrow>
                     (case parse_inbound_config (me_url me) (me_zone me) (me_yaml me) (me_strict me) generated of
                        Inl e \<Rightarrow> Inl (GeneratedInvalid e)
                      | Inr _ \<Rightarrow> Inr (generated, diagnostics)))))"

section \<open>The migration command\<close>

text \<open>The faults of the system calls; a failed \<open>Write\<close> may have written some bytes.\<close>

record file_faults =
  ff_read :: bool
  ff_open :: bool
  ff_written :: nat
  ff_write :: bool
  ff_sync :: bool
  ff_close :: bool
  ff_remove :: bool

type_synonym files = "string \<rightharpoonup> bytes"

datatype file_error =
  PathsRequired | InputUnreadable | MigrationFailed migration_error | OutputExists | WriteFailed | WriteShort | SyncFailed | CloseFailed

definition remove_output :: "file_faults \<Rightarrow> string \<Rightarrow> files \<Rightarrow> files" where
  "remove_output ff path fs = (if ff_remove ff then fs else fs(path := None))"

definition migrate_legacy_file ::
  "migration_env \<Rightarrow> file_faults \<Rightarrow> string \<Rightarrow> string \<Rightarrow> files \<Rightarrow> (file_error, diagnostic list) result \<times> files"
where
  "migrate_legacy_file me ff input_path output_path fs =
     (if input_path = [] \<or> output_path = [] then (Inl PathsRequired, fs)
      else
        (case fs input_path of
           None \<Rightarrow> (Inl InputUnreadable, fs)
         | Some data \<Rightarrow>
             if ff_read ff then (Inl InputUnreadable, fs)
             else
               (case migrate_legacy_inbounds me data of
                  Inl e \<Rightarrow> (Inl (MigrationFailed e), fs)
                | Inr (yaml, diagnostics) \<Rightarrow>
                    if fs output_path \<noteq> None \<or> ff_open ff then (Inl OutputExists, fs)
                    else
                      (let fs1 = fs(output_path \<mapsto> take (ff_written ff) yaml)
                       in if ff_write ff then (Inl WriteFailed, remove_output ff output_path fs1)
                          else if min (ff_written ff) (length yaml) \<noteq> length yaml then (Inl WriteShort, remove_output ff output_path fs1)
                          else if ff_sync ff then (Inl SyncFailed, remove_output ff output_path fs1)
                          else if ff_close ff then (Inl CloseFailed, remove_output ff output_path fs1)
                          else (Inr diagnostics, fs1)))))"

section \<open>What loading guarantees\<close>

text \<open>Duplicate keys: the scalar keys of a mapping and its values.\<close>

fun scalar_keys :: "yaml_node list \<Rightarrow> string list" where
  "scalar_keys (key # _ # rest) = (if yn_kind key = ScalarNode then [yn_value key] else []) @ scalar_keys rest"
| "scalar_keys _ = []"

fun pair_values :: "yaml_node list \<Rightarrow> yaml_node list" where
  "pair_values (_ # val # rest) = val # pair_values rest"
| "pair_values _ = []"

lemma reject_pairs_ok:
  "reject_pairs seen content = Inr () \<longleftrightarrow>
     distinct (scalar_keys content) \<and> set (scalar_keys content) \<inter> set (gkeys seen) = {} \<and>
     (\<forall>v \<in> set (pair_values content). reject_duplicate_keys v = Inr ())"
proof (induction content arbitrary: seen rule: scalar_keys.induct)
  case (1 key val rest)
  have "map_of seen (yn_value key) = None \<longleftrightarrow> yn_value key \<notin> set (gkeys seen)" by (simp add: map_of_eq_None_iff)
  with 1 show ?case
    by (cases "reject_duplicate_keys val") (auto simp: dom_update split: option.split)
qed simp_all

lemma reject_items_ok: "reject_items cs = Inr () \<longleftrightarrow> (\<forall>c \<in> set cs. reject_duplicate_keys c = Inr ())"
  by (induction cs) (auto split: sum.split)

text \<open>A decoded mapping has no duplicate keys.  The scan accepts a mapping node exactly when its scalar keys are
  distinct and it accepts every value, so no setting of an accepted document is shadowed by a
  second occurrence of its key at any depth.\<close>

theorem mapping_keys_unique:
  "reject_duplicate_keys (YNode MappingNode val line content) = Inr () \<longleftrightarrow>
     distinct (scalar_keys content) \<and> list_all (\<lambda>v. reject_duplicate_keys v = Inr ()) (pair_values content)"
  by (simp add: reject_pairs_ok list_all_iff)

lemma reject_sequence: "reject_duplicate_keys (YNode SequenceNode val line content) = Inr () \<longleftrightarrow> (\<forall>v \<in> set content. reject_duplicate_keys v = Inr ())"
  by (simp add: reject_items_ok)

lemma client_endpoints_runtime:
  assumes "published_endpoints sub \<noteq> []"
  shows "client_endpoints (Some (runtime_sub sub)) = published_endpoints sub"
proof (cases "is_endpoints sub")
  case None
  then show ?thesis
    by (cases "is_single sub") (simp_all add: client_endpoints_def runtime_sub_def copy_slice_def published_endpoints_def empty_endpoint_def)
next
  case (Some es)
  with assms show ?thesis
    by (cases es) (auto simp: client_endpoints_def runtime_sub_def copy_slice_def published_endpoints_def Let_def split: if_split_asm)
qed

lemma find_name: "n \<in> ib_name ` set ibs \<Longrightarrow> \<exists>ib. find (\<lambda>ib. ib_name ib = n) ibs = Some ib \<and> ib \<in> set ibs \<and> ib_name ib = n"
  by (induction ibs) auto

text \<open>C26: An accepted document always loads, without the index into the endpoints going out of range: the
  compatibility fields describe one of its inbounds, the one of the first published endpoint when a
  subscription is configured, and the endpoints advertised to clients are those of the document.\<close>

theorem accepted_config_loads:
  assumes "validate_config parse_url known_zone c = Inr c'"
  shows "\<exists>cfg ib. runtime_config c' = Inr cfg \<and> ib \<in> set (ic_inbounds c) \<and> gc_listen cfg = ib_listen ib \<and> gc_quic cfg = ib_quic ib \<and>
    (case ic_sub c of
       None \<Rightarrow> client_endpoints (gc_sub cfg) = []
     | Some sub \<Rightarrow> client_endpoints (gc_sub cfg) = published_endpoints sub \<and> ib_name ib = se_inbound (hd (published_endpoints sub)))"
proof -
  from assms have spec: "config_spec parse_url known_zone c" and c': "c' = with_runtime_defaults c" by (simp_all add: validate_config_spec)
  then obtain ib0 ibs where ibs: "ic_inbounds c = ib0 # ibs" by (auto simp: config_spec_def neq_Nil_conv)
  have same: "ic_inbounds c' = ic_inbounds c" "ic_sub c' = ic_sub c" by (simp_all add: c' with_runtime_defaults_def)
  show ?thesis
  proof (cases "ic_sub c")
    case None
    with ibs same show ?thesis
      by (intro exI conjI) (auto simp: runtime_config_def project_inbound_def client_endpoints_def Let_def)
  next
    case (Some sub)
    with spec have sub: "sub_spec (map ib_name (ic_inbounds c)) (listeners_of_type trojan_type (ic_inbounds c) @ admin_listeners c) sub"
      by (simp add: config_spec_def)
    then obtain e es where pub: "published_endpoints sub = e # es" by (auto simp: sub_spec_def neq_Nil_conv)
    with sub have "se_inbound e \<in> ib_name ` set (ic_inbounds c)" by (auto simp: sub_spec_def endpoint_spec_def)
    from find_name [OF this] obtain ib where
      "find (\<lambda>ib. ib_name ib = se_inbound e) (ic_inbounds c) = Some ib" "ib \<in> set (ic_inbounds c)" "ib_name ib = se_inbound e" by blast
    with ibs same Some pub client_endpoints_runtime [of sub] show ?thesis
      by (intro exI [of _ "the (case runtime_config c' of Inl _ \<Rightarrow> None | Inr x \<Rightarrow> Some x)"] exI [of _ ib])
        (simp add: runtime_config_def project_inbound_def Let_def)
  qed
qed

theorem accepted_config_loads_witness:
  "\<exists>cfg. runtime_config (with_runtime_defaults demo_config) = Inr cfg \<and> gc_listen cfg = '':5''"
proof -
  have "validate_config (\<lambda>_. None) (\<lambda>z. z = ''UTC'') demo_config = Inr (with_runtime_defaults demo_config)"
    by (simp add: validate_config_spec demo_config_ok)
  from accepted_config_loads [OF this] show ?thesis by (auto simp: demo_config_def demo_inbound_def)
qed

text \<open>The migration command leaves all or nothing.  If removing a file works, then the command either reports
  an error and the file system is as before, or succeeds and has created the output, which did not
  exist, with exactly the validated document; no other file is touched and an existing output is
  never overwritten.\<close>

theorem migration_all_or_nothing:
  assumes "migrate_legacy_file me ff input_path output_path fs = (res, fs')" and "\<not> ff_remove ff"
  shows "case res of
      Inl _ \<Rightarrow> fs' = fs
    | Inr diagnostics \<Rightarrow> fs output_path = None \<and>
        (\<exists>data yaml. fs input_path = Some data \<and> migrate_legacy_inbounds me data = Inr (yaml, diagnostics) \<and> fs' = fs(output_path \<mapsto> yaml))"
proof -
  have undo: "fs(output_path := None) = fs" if "fs output_path = None"
    using that by auto
  show ?thesis
    using assms
    by (auto simp: migrate_legacy_file_def remove_output_def Let_def undo min_def
        split: if_split_asm option.split_asm sum.split_asm prod.split_asm)
qed

definition demo_root :: yaml_node where
  "demo_root = YNode DocumentNode [] 1 [YNode MappingNode [] 1 []]"

definition demo_legacy :: legacy_inbound_config where
  "demo_legacy = \<lparr>li_listen = '':5'', li_tls = ic_tls demo_config, li_quic = None, li_users = [], li_nodes = [],
     li_api = \<lparr>ac_listen = [], ac_secret = []\<rparr>, li_admin_listen = [], li_sub = None, li_masquerade = None, li_trojan = None,
     li_db_path = [], li_flush_interval = 0, li_timezone = [], li_systemd = None\<rparr>"

definition demo_migration :: migration_env where
  "demo_migration = \<lparr>me_url = (\<lambda>_. None), me_zone = (\<lambda>z. z = ''UTC''),
     me_yaml = \<lparr>yl_first = (\<lambda>_. Inr demo_root), yl_second = (\<lambda>_. Inl YamlEOF)\<rparr>, me_node = (\<lambda>_. Inr demo_root),
     me_legacy = (\<lambda>_. Inr demo_legacy), me_strict = (\<lambda>_. Inr demo_config), me_marshal = (\<lambda>_. Some [121, 58])\<rparr>"

definition no_faults :: file_faults where
  "no_faults = \<lparr>ff_read = False, ff_open = False, ff_written = 2, ff_write = False, ff_sync = False, ff_close = False, ff_remove = False\<rparr>"

lemma demo_migrates: "migrate_legacy_inbounds demo_migration data = Inr ([121, 58], [])"
proof -
  have "validate_config (\<lambda>_. None) (\<lambda>z. z = ''UTC'') demo_config = Inr (with_runtime_defaults demo_config)"
    by (simp add: validate_config_spec demo_config_ok)
  then show ?thesis
    by (simp add: migrate_legacy_inbounds_def demo_migration_def decode_strict_single_def demo_root_def has_top_level_key_def
        migrate_document_def demo_legacy_def migrate_masquerade_def migrate_admin_def migrate_sub_def parse_inbound_config_def)
qed

theorem migration_all_or_nothing_witness:
  "snd (migrate_legacy_file demo_migration no_faults ''old'' ''new'' [''old'' \<mapsto> []]) = [''old'' \<mapsto> [], ''new'' \<mapsto> [121, 58]] \<and>
   snd (migrate_legacy_file demo_migration (no_faults\<lparr>ff_sync := True\<rparr>) ''old'' ''new'' [''old'' \<mapsto> []]) = [''old'' \<mapsto> []]"
proof -
  have ok: "migrate_legacy_file demo_migration no_faults ''old'' ''new'' [''old'' \<mapsto> []] = (Inr [], [''old'' \<mapsto> [], ''new'' \<mapsto> [121, 58]])"
    by (simp add: migrate_legacy_file_def demo_migrates no_faults_def)
  obtain fs' where bad: "migrate_legacy_file demo_migration (no_faults\<lparr>ff_sync := True\<rparr>) ''old'' ''new'' [''old'' \<mapsto> []] = (Inl SyncFailed, fs')"
    by (simp add: migrate_legacy_file_def demo_migrates no_faults_def)
  from migration_all_or_nothing [OF bad] migration_all_or_nothing [OF ok] ok bad show ?thesis
    by (simp add: no_faults_def demo_migrates)
qed

end
