(* ===== verification/Management.thy ===== *)
theory Management
  imports Kernel Config_Load
begin

text \<open>
  The management tables of the SQLite store (\<open>storage/management.go\<close>, \<open>storage/runtime_snapshot.go\<close>):
  users with their subscription token hashes, nodes, grants, and the configuration revision.

  As in \<open>Traffic_Store\<close>, SQLite is used by the documented meaning of its statements; any statement
  may fail, and which ones do is the argument \<open>io\<close>, a predicate on the statements of a call.  The
  foreign key of \<open>user_nodes\<close> is not enforced, since the connection does not switch foreign keys on.
  SHA-256 (\<open>hash\<close>) and the JSON encoding of a node (\<open>enc\<close>, \<open>dec\<close>) are arguments.
\<close>

section \<open>Tables\<close>

record user_row =
  ur_password :: string
  ur_deleted :: "int option"
  ur_expires :: "int option"
  ur_monthly :: int
  ur_speed :: int
  ur_token :: bytes
  ur_created :: int
  ur_updated :: int

record node_row =
  nr_config :: string
  nr_enabled :: bool
  nr_created :: int
  nr_updated :: int

record management_db =
  md_users :: "(string, user_row) gomap"
  md_nodes :: "(string, node_row) gomap"
  md_grants :: "(string \<times> string) list"
  md_revision :: int
  md_active :: int
  md_migrations :: "string list"

text \<open>\<open>migrateManagement\<close> creates the tables and the single row of \<open>config_state\<close>.\<close>

definition empty_management :: management_db where
  "empty_management = \<lparr>md_users = [], md_nodes = [], md_grants = [], md_revision = 0, md_active = 0, md_migrations = []\<rparr>"

record managed_user =
  mu_username :: string
  mu_password :: string
  mu_deleted_at :: "go_time option"
  mu_expires_at :: "go_time option"
  mu_monthly_bytes :: u64
  mu_download_speed :: u64
  mu_token_hash :: bytes
  mu_created_at :: go_time
  mu_updated_at :: go_time
  mu_routes :: "string list"

record managed_node =
  mn_name :: string
  mn_config :: node_config
  mn_enabled :: bool
  mn_created_at :: go_time
  mn_updated_at :: go_time

record managed_user_input =
  mi_username :: string
  mi_password :: string
  mi_expires_at :: "go_time option"
  mi_monthly_bytes :: u64
  mi_download_speed :: u64
  mi_routes :: "string list"

record runtime_snapshot =
  rs_users :: "(string, user_config) gomap"
  rs_nodes :: "(string, node_config) gomap"
  rs_revision :: int

datatype management_error =
    LegacyInvalid legacy_error | TokenGeneratorRequired | UsersExist | AlreadyMigrated | InvalidNodeName string | InvalidUsername
  | NodeInvalid string | NodeEncode | EmptyToken string | PasswordRequired | TokenRequired | RoutesRequired
  | UnknownRoute string | DisabledRoute string | MissingRoute string string | UserNotFound string | NodeNotFound string
  | ConstraintFailed | SqlFailed | NodeDecode string

text \<open>The statements of the calls.\<close>

datatype stmt =
    BeginStmt | CommitStmt | CountUsers | CountMigrations | InsertNode string | InsertUser string | InsertGrant string string
  | SetRevision | InsertMigration | QueryRoute string | DeleteGrants | DeleteUsers | QueryGrants | UpdateUserRow | UpdateNodeRow
  | DeleteNodeRow | QueryUsers | QueryNodes | QueryState

type_synonym 'a mresult = "(management_error, 'a) result"

section \<open>Helpers\<close>

definition unix_time :: "int \<Rightarrow> go_time option" where
  "unix_time v = (if v = 0 then None else Some (v * second))"

definition time_unix :: "go_time option \<Rightarrow> int option" where
  "time_unix t = (case t of None \<Rightarrow> None | Some x \<Rightarrow> if is_zero_time x then None else Some (unix_seconds x))"

text \<open>A NULL column scans as zero where the code does not look at its validity.\<close>

definition null_time :: "int option \<Rightarrow> go_time option" where
  "null_time c = unix_time (case c of None \<Rightarrow> 0 | Some v \<Rightarrow> v)"

definition validate_node :: "string \<Rightarrow> node_config \<Rightarrow> unit mresult" where
  "validate_node name node =
     (if nc_type node = ''hysteria2''
      then (case nc_hysteria2 node of
              None \<Rightarrow> Inl (NodeInvalid name)
            | Some h \<Rightarrow> guard_ok (h2_addr h \<noteq> [] \<and> h2_auth h \<noteq> []) (NodeInvalid name))
      else Inl (NodeInvalid name))"

definition unique_routes :: "string list \<Rightarrow> string list" where
  "unique_routes routes = dedup_from [] routes"

definition run_stmt :: "(stmt \<Rightarrow> bool) \<Rightarrow> stmt \<Rightarrow> unit mresult" where
  "run_stmt io st = guard_ok (io st) SqlFailed"

text \<open>A transaction: the changes of its body become visible only if every statement and the commit succeed.\<close>

definition transact ::
  "(stmt \<Rightarrow> bool) \<Rightarrow> (management_db \<Rightarrow> ('a \<times> management_db) mresult) \<Rightarrow> management_db \<Rightarrow> 'a mresult \<times> management_db"
where
  "transact io body db =
     (if \<not> io BeginStmt then (Inl SqlFailed, db)
      else (case body db of
              Inl e \<Rightarrow> (Inl e, db)
            | Inr (a, db') \<Rightarrow> if io CommitStmt then (Inr a, db') else (Inl SqlFailed, db)))"

definition insert_user_row :: "string \<Rightarrow> user_row \<Rightarrow> management_db \<Rightarrow> management_db mresult" where
  "insert_user_row name row db =
     (if name \<in> set (gkeys (md_users db)) \<or> ur_token row \<in> ur_token ` set (map snd (md_users db)) then Inl ConstraintFailed
      else Inr (db\<lparr>md_users := gput name row (md_users db)\<rparr>))"

definition insert_grant :: "string \<Rightarrow> string \<Rightarrow> management_db \<Rightarrow> management_db mresult" where
  "insert_grant username route db =
     (if (username, route) \<in> set (md_grants db) then Inl ConstraintFailed
      else Inr (db\<lparr>md_grants := md_grants db @ [(username, route)]\<rparr>))"

fun insert_grants :: "(stmt \<Rightarrow> bool) \<Rightarrow> string \<Rightarrow> string list \<Rightarrow> management_db \<Rightarrow> management_db mresult" where
  "insert_grants io username [] db = Inr db"
| "insert_grants io username (route # routes) db =
     rbind (run_stmt io (InsertGrant username route)) (\<lambda>_.
     rbind (insert_grant username route db) (\<lambda>db'. insert_grants io username routes db'))"

definition bump_revision :: "management_db \<Rightarrow> management_db" where
  "bump_revision db = db\<lparr>md_revision := md_revision db + 1\<rparr>"

text \<open>A \<open>uint64\<close> argument of a statement; \<open>database/sql\<close> refuses one with its high bit set.\<close>

definition sql_limits :: "u64 \<Rightarrow> u64 \<Rightarrow> (int \<times> int) mresult" where
  "sql_limits a b =
     (case (sql_uint a, sql_uint b) of (Some x, Some y) \<Rightarrow> Inr (x, y) | _ \<Rightarrow> Inl SqlFailed)"

section \<open>Users\<close>

fun validate_routes_loop :: "(stmt \<Rightarrow> bool) \<Rightarrow> string list \<Rightarrow> management_db \<Rightarrow> unit mresult" where
  "validate_routes_loop io [] db = Inr ()"
| "validate_routes_loop io (route # routes) db =
     (if route = ''direct'' then validate_routes_loop io routes db
      else if \<not> io (QueryRoute route) then Inl SqlFailed
      else (case map_of (md_nodes db) route of
              None \<Rightarrow> Inl (UnknownRoute route)
            | Some row \<Rightarrow> if \<not> nr_enabled row then Inl (DisabledRoute route) else validate_routes_loop io routes db))"

definition validate_routes :: "(stmt \<Rightarrow> bool) \<Rightarrow> string list \<Rightarrow> management_db \<Rightarrow> unit mresult" where
  "validate_routes io routes db = validate_routes_loop io (unique_routes routes) db"

text \<open>
  \<open>CreateUser\<close>.  The routes are checked before the store's mutex is taken; \<open>others\<close> is what other
  calls do to the database in between.
\<close>

definition create_user_tx ::
  "(stmt \<Rightarrow> bool) \<Rightarrow> (string \<Rightarrow> bytes) \<Rightarrow> int \<Rightarrow> managed_user_input \<Rightarrow> string \<Rightarrow> management_db \<Rightarrow> (unit \<times> management_db) mresult"
where
  "create_user_tx io hash now inp token db =
     rbind (sql_limits (mi_monthly_bytes inp) (mi_download_speed inp)) (\<lambda>(monthly, speed).
     rbind (run_stmt io (InsertUser (mi_username inp))) (\<lambda>_.
     rbind (insert_user_row (mi_username inp)
        \<lparr>ur_password = mi_password inp, ur_deleted = None, ur_expires = time_unix (mi_expires_at inp), ur_monthly = monthly,
         ur_speed = speed, ur_token = hash token, ur_created = now, ur_updated = now\<rparr> db) (\<lambda>db1.
     rbind (insert_grants io (mi_username inp) (unique_routes (mi_routes inp)) db1) (\<lambda>db2.
     rbind (run_stmt io SetRevision) (\<lambda>_. Inr ((), bump_revision db2))))))"

definition create_user ::
  "(stmt \<Rightarrow> bool) \<Rightarrow> (string \<Rightarrow> bytes) \<Rightarrow> go_time \<Rightarrow> (management_db \<Rightarrow> management_db) \<Rightarrow> managed_user_input \<Rightarrow> string \<Rightarrow>
    management_db \<Rightarrow> unit mresult \<times> management_db"
where
  "create_user io hash now others inp token db =
     (if \<not> is_valid_name (mi_username inp) then (Inl InvalidUsername, db)
      else if mi_password inp = [] then (Inl PasswordRequired, db)
      else if token = [] then (Inl TokenRequired, db)
      else if mi_routes inp = [] then (Inl RoutesRequired, db)
      else (case validate_routes io (mi_routes inp) db of
              Inl e \<Rightarrow> (Inl e, db)
            | Inr _ \<Rightarrow> transact io (create_user_tx io hash (unix_seconds now) inp token) (others db)))"

definition user_routes :: "string \<Rightarrow> management_db \<Rightarrow> string list" where
  "user_routes username db = sort (map snd (filter (\<lambda>(u, _). u = username) (md_grants db)))"

definition update_user_tx ::
  "(stmt \<Rightarrow> bool) \<Rightarrow> int \<Rightarrow> managed_user_input \<Rightarrow> management_db \<Rightarrow> (unit \<times> management_db) mresult"
where
  "update_user_tx io now inp db =
     rbind (run_stmt io QueryGrants) (\<lambda>_.
     let existing = user_routes (mi_username inp) db;
         requested = sort (unique_routes (mi_routes inp));
         changed = (existing \<noteq> requested)
     in rbind (sql_limits (mi_monthly_bytes inp) (mi_download_speed inp)) (\<lambda>(monthly, speed).
        rbind (run_stmt io UpdateUserRow) (\<lambda>_.
        case map_of (md_users db) (mi_username inp) of
          None \<Rightarrow> Inl (UserNotFound (mi_username inp))
        | Some row \<Rightarrow>
            let db1 = db\<lparr>md_users := gput (mi_username inp)
                   (row\<lparr>ur_password := mi_password inp, ur_expires := time_unix (mi_expires_at inp), ur_monthly := monthly,
                       ur_speed := speed, ur_updated := now\<rparr>) (md_users db)\<rparr>
            in if \<not> changed then Inr ((), db1)
               else rbind (run_stmt io DeleteGrants) (\<lambda>_.
                    rbind (insert_grants io (mi_username inp) requested
                       (db1\<lparr>md_grants := filter (\<lambda>(u, _). u \<noteq> mi_username inp) (md_grants db1)\<rparr>)) (\<lambda>db2.
                    rbind (run_stmt io SetRevision) (\<lambda>_. Inr ((), bump_revision db2)))))))"

definition update_user ::
  "(stmt \<Rightarrow> bool) \<Rightarrow> go_time \<Rightarrow> (management_db \<Rightarrow> management_db) \<Rightarrow> managed_user_input \<Rightarrow> management_db \<Rightarrow> unit mresult \<times> management_db"
where
  "update_user io now others inp db =
     (if \<not> is_valid_name (mi_username inp) then (Inl InvalidUsername, db)
      else if mi_password inp = [] then (Inl PasswordRequired, db)
      else if mi_routes inp = [] then (Inl RoutesRequired, db)
      else (case validate_routes io (mi_routes inp) db of
              Inl e \<Rightarrow> (Inl e, db)
            | Inr _ \<Rightarrow> transact io (update_user_tx io (unix_seconds now) inp) (others db)))"

text \<open>The single-statement updates of a user row.\<close>

definition update_row :: "(stmt \<Rightarrow> bool) \<Rightarrow> string \<Rightarrow> (user_row \<Rightarrow> user_row) \<Rightarrow> management_db \<Rightarrow> unit mresult \<times> management_db" where
  "update_row io username f db =
     (if \<not> io UpdateUserRow then (Inl SqlFailed, db)
      else (case map_of (md_users db) username of
              None \<Rightarrow> (Inl (UserNotFound username), db)
            | Some row \<Rightarrow> (Inr (), db\<lparr>md_users := gput username (f row) (md_users db)\<rparr>)))"

definition set_user_deleted :: "(stmt \<Rightarrow> bool) \<Rightarrow> go_time \<Rightarrow> string \<Rightarrow> bool \<Rightarrow> management_db \<Rightarrow> unit mresult \<times> management_db" where
  "set_user_deleted io now username deleted db =
     update_row io username
       (\<lambda>row. row\<lparr>ur_deleted := (if deleted then Some (unix_seconds now) else None), ur_updated := unix_seconds now\<rparr>) db"

definition reset_user_password :: "(stmt \<Rightarrow> bool) \<Rightarrow> go_time \<Rightarrow> string \<Rightarrow> string \<Rightarrow> management_db \<Rightarrow> unit mresult \<times> management_db" where
  "reset_user_password io now username password db =
     (if password = [] then (Inl PasswordRequired, db)
      else update_row io username (\<lambda>row. row\<lparr>ur_password := password, ur_updated := unix_seconds now\<rparr>) db)"

text \<open>A new token must not collide with another user's (the column is unique).\<close>

definition reset_user_token ::
  "(stmt \<Rightarrow> bool) \<Rightarrow> (string \<Rightarrow> bytes) \<Rightarrow> go_time \<Rightarrow> string \<Rightarrow> string \<Rightarrow> management_db \<Rightarrow> unit mresult \<times> management_db"
where
  "reset_user_token io hash now username token db =
     (if token = [] then (Inl TokenRequired, db)
      else if username \<in> set (gkeys (md_users db)) \<and> hash token \<in> ur_token ` set (map snd (gdel username (md_users db)))
      then (Inl ConstraintFailed, db)
      else update_row io username (\<lambda>row. row\<lparr>ur_token := hash token, ur_updated := unix_seconds now\<rparr>) db)"

section \<open>Nodes\<close>

definition save_node ::
  "(stmt \<Rightarrow> bool) \<Rightarrow> (node_config \<Rightarrow> string option) \<Rightarrow> go_time \<Rightarrow> string \<Rightarrow> node_config \<Rightarrow> bool \<Rightarrow> management_db \<Rightarrow> unit mresult \<times> management_db"
where
  "save_node io enc now name node enabled db =
     (if \<not> is_valid_name name \<or> name = ''direct'' then (Inl (InvalidNodeName name), db)
      else (case validate_node name node of
              Inl e \<Rightarrow> (Inl e, db)
            | Inr _ \<Rightarrow>
                (case enc node of
                   None \<Rightarrow> (Inl NodeEncode, db)
                 | Some raw \<Rightarrow>
                     transact io (\<lambda>db.
                       rbind (run_stmt io (InsertNode name)) (\<lambda>_.
                       let created = (case map_of (md_nodes db) name of None \<Rightarrow> unix_seconds now | Some row \<Rightarrow> nr_created row);
                           db1 = db\<lparr>md_nodes := gput name \<lparr>nr_config = raw, nr_enabled = enabled, nr_created = created,
                                    nr_updated = unix_seconds now\<rparr> (md_nodes db)\<rparr>
                       in rbind (run_stmt io SetRevision) (\<lambda>_. Inr ((), bump_revision db1)))) db)))"

definition update_node ::
  "(stmt \<Rightarrow> bool) \<Rightarrow> (node_config \<Rightarrow> string option) \<Rightarrow> go_time \<Rightarrow> string \<Rightarrow> node_config \<Rightarrow> bool \<Rightarrow> management_db \<Rightarrow> unit mresult \<times> management_db"
where
  "update_node io enc now name node enabled db =
     (if \<not> is_valid_name name \<or> name = ''direct'' then (Inl (InvalidNodeName name), db)
      else (case validate_node name node of
              Inl e \<Rightarrow> (Inl e, db)
            | Inr _ \<Rightarrow>
                (case enc node of
                   None \<Rightarrow> (Inl NodeEncode, db)
                 | Some raw \<Rightarrow>
                     transact io (\<lambda>db.
                       rbind (run_stmt io UpdateNodeRow) (\<lambda>_.
                       case map_of (md_nodes db) name of
                         None \<Rightarrow> Inl (NodeNotFound name)
                       | Some row \<Rightarrow>
                           rbind (run_stmt io SetRevision) (\<lambda>_.
                           Inr ((), bump_revision (db\<lparr>md_nodes := gput name
                             (row\<lparr>nr_config := raw, nr_enabled := enabled, nr_updated := unix_seconds now\<rparr>) (md_nodes db)\<rparr>))))) db)))"

definition delete_node :: "(stmt \<Rightarrow> bool) \<Rightarrow> string \<Rightarrow> management_db \<Rightarrow> unit mresult \<times> management_db" where
  "delete_node io name db =
     (if \<not> is_valid_name name \<or> name = ''direct'' then (Inl (InvalidNodeName name), db)
      else transact io (\<lambda>db.
        rbind (run_stmt io DeleteGrants) (\<lambda>_.
        let db1 = db\<lparr>md_grants := filter (\<lambda>(_, n). n \<noteq> name) (md_grants db)\<rparr>
        in rbind (run_stmt io DeleteNodeRow) (\<lambda>_.
           if name \<notin> set (gkeys (md_nodes db1)) then Inl (NodeNotFound name)
           else rbind (run_stmt io SetRevision) (\<lambda>_.
                Inr ((), bump_revision (db1\<lparr>md_nodes := gdel name (md_nodes db1)\<rparr>)))))) db)"

definition set_active_revision :: "(stmt \<Rightarrow> bool) \<Rightarrow> int \<Rightarrow> management_db \<Rightarrow> unit mresult \<times> management_db" where
  "set_active_revision io revision db =
     (if io SetRevision then (Inr (), db\<lparr>md_active := revision\<rparr>) else (Inl SqlFailed, db))"

definition get_config_state :: "(stmt \<Rightarrow> bool) \<Rightarrow> management_db \<Rightarrow> (int \<times> int) mresult" where
  "get_config_state io db = (if io QueryState then Inr (md_revision db, md_active db) else Inl SqlFailed)"

section \<open>Legacy import\<close>

fun insert_legacy_loop ::
  "(stmt \<Rightarrow> bool) \<Rightarrow> (string \<Rightarrow> bytes) \<Rightarrow> (string \<Rightarrow> string) \<Rightarrow> int \<Rightarrow> (string, user_config) gomap \<Rightarrow> string list \<Rightarrow> management_db \<Rightarrow> management_db mresult"
where
  "insert_legacy_loop io hash token now users [] db = Inr db"
| "insert_legacy_loop io hash token now users (name # names) db =
     (if \<not> is_valid_name name then Inl InvalidUsername
      else if token name = [] then Inl (EmptyToken name)
      else (case map_of users name of
              None \<Rightarrow> insert_legacy_loop io hash token now users names db
            | Some user \<Rightarrow>
                rbind (sql_limits (uc_max_bytes user) (uc_speed_limit user)) (\<lambda>(monthly, speed).
                rbind (run_stmt io (InsertUser name)) (\<lambda>_.
                rbind (insert_user_row name
                   \<lparr>ur_password = uc_password user, ur_deleted = None, ur_expires = None, ur_monthly = monthly, ur_speed = speed,
                    ur_token = hash (token name), ur_created = now, ur_updated = now\<rparr> db) (\<lambda>db1.
                rbind (insert_grants io name (uc_routes user) db1) (\<lambda>db2.
                insert_legacy_loop io hash token now users names db2))))))"

definition insert_legacy_users ::
  "(stmt \<Rightarrow> bool) \<Rightarrow> (string \<Rightarrow> bytes) \<Rightarrow> (string \<Rightarrow> string) \<Rightarrow> int \<Rightarrow> (string, user_config) gomap \<Rightarrow> management_db \<Rightarrow> management_db mresult"
where
  "insert_legacy_users io hash token now users db = insert_legacy_loop io hash token now users (sort (gkeys users)) db"

fun insert_legacy_nodes ::
  "(stmt \<Rightarrow> bool) \<Rightarrow> (node_config \<Rightarrow> string option) \<Rightarrow> int \<Rightarrow> (string, node_config) gomap \<Rightarrow> string list \<Rightarrow> management_db \<Rightarrow> management_db mresult"
where
  "insert_legacy_nodes io enc now nodes [] db = Inr db"
| "insert_legacy_nodes io enc now nodes (name # names) db =
     (case map_of nodes name of
        None \<Rightarrow> insert_legacy_nodes io enc now nodes names db
      | Some node \<Rightarrow>
          if \<not> is_valid_name name then Inl (InvalidNodeName name)
          else rbind (validate_node name node) (\<lambda>_.
            case enc node of
              None \<Rightarrow> Inl NodeEncode
            | Some raw \<Rightarrow>
                rbind (run_stmt io (InsertNode name)) (\<lambda>_.
                if name \<in> set (gkeys (md_nodes db)) then Inl ConstraintFailed
                else insert_legacy_nodes io enc now nodes names
                  (db\<lparr>md_nodes := gput name \<lparr>nr_config = raw, nr_enabled = True, nr_created = now, nr_updated = now\<rparr> (md_nodes db)\<rparr>))))"

definition legacy_migration :: string where "legacy_migration = ''legacy-yaml-v1''"

definition migrate_legacy_tx ::
  "(stmt \<Rightarrow> bool) \<Rightarrow> (string \<Rightarrow> bytes) \<Rightarrow> (node_config \<Rightarrow> string option) \<Rightarrow> int \<Rightarrow> (string \<Rightarrow> string) \<Rightarrow> gateway_config \<Rightarrow> management_db \<Rightarrow>
    (unit \<times> management_db) mresult"
where
  "migrate_legacy_tx io hash enc now token cfg db =
     rbind (run_stmt io CountUsers) (\<lambda>_.
     rbind (guard_ok (md_users db = []) UsersExist) (\<lambda>_.
     rbind (run_stmt io CountMigrations) (\<lambda>_.
     rbind (guard_ok (legacy_migration \<notin> set (md_migrations db)) AlreadyMigrated) (\<lambda>_.
     rbind (insert_legacy_nodes io enc now (gc_nodes cfg) (sort (gkeys (gc_nodes cfg))) db) (\<lambda>db1.
     rbind (insert_legacy_users io hash token now (gc_users cfg) db1) (\<lambda>db2.
     rbind (run_stmt io SetRevision) (\<lambda>_.
     rbind (run_stmt io InsertMigration) (\<lambda>_.
     Inr ((), db2\<lparr>md_revision := 1, md_migrations := md_migrations db2 @ [legacy_migration]\<rparr>)))))))))"

definition migrate_legacy ::
  "(stmt \<Rightarrow> bool) \<Rightarrow> (string \<Rightarrow> bytes) \<Rightarrow> (node_config \<Rightarrow> string option) \<Rightarrow> go_time \<Rightarrow> gateway_config \<Rightarrow> (string \<Rightarrow> string) option \<Rightarrow>
    management_db \<Rightarrow> unit mresult \<times> management_db"
where
  "migrate_legacy io hash enc now cfg token db =
     (case validate_legacy cfg of
        Inl e \<Rightarrow> (Inl (LegacyInvalid e), db)
      | Inr _ \<Rightarrow>
          (case token of
             None \<Rightarrow> (Inl TokenGeneratorRequired, db)
           | Some tok \<Rightarrow> transact io (migrate_legacy_tx io hash enc (unix_seconds now) tok cfg) db))"

definition check_replacement :: "(stmt \<Rightarrow> bool) \<Rightarrow> management_db \<Rightarrow> string \<times> user_config \<Rightarrow> unit mresult" where
  "check_replacement io db nu =
     each_ok (\<lambda>route.
       if route = ''direct'' then Inr ()
       else if \<not> io (QueryRoute route) then Inl SqlFailed
       else (case map_of (md_nodes db) route of
               None \<Rightarrow> Inl (MissingRoute (fst nu) route)
             | Some row \<Rightarrow> guard_ok (nr_enabled row) (MissingRoute (fst nu) route))) (uc_routes (snd nu))"

definition replace_legacy_tx ::
  "(stmt \<Rightarrow> bool) \<Rightarrow> (string \<Rightarrow> bytes) \<Rightarrow> int \<Rightarrow> (string \<Rightarrow> string) \<Rightarrow> gateway_config \<Rightarrow> management_db \<Rightarrow> (unit \<times> management_db) mresult"
where
  "replace_legacy_tx io hash now token cfg db =
     rbind (each_ok (check_replacement io db) (gc_users cfg)) (\<lambda>_.
     rbind (run_stmt io DeleteGrants) (\<lambda>_.
     rbind (run_stmt io DeleteUsers) (\<lambda>_.
     rbind (insert_legacy_users io hash token now (gc_users cfg) (db\<lparr>md_grants := [], md_users := []\<rparr>)) (\<lambda>db1.
     rbind (run_stmt io SetRevision) (\<lambda>_. Inr ((), bump_revision db1))))))"

definition replace_legacy_users ::
  "(stmt \<Rightarrow> bool) \<Rightarrow> (string \<Rightarrow> bytes) \<Rightarrow> go_time \<Rightarrow> gateway_config \<Rightarrow> (string \<Rightarrow> string) option \<Rightarrow> management_db \<Rightarrow> unit mresult \<times> management_db"
where
  "replace_legacy_users io hash now cfg token db =
     (if gc_users cfg = [] then (Inl (LegacyInvalid NoLegacyUsers), db)
      else
        (case each_ok (\<lambda>(name, user). if uc_password user = [] then Inl (LegacyInvalid (UserWithoutPassword name))
                         else if uc_routes user = [] then Inl (LegacyInvalid (UserWithoutRoutes name)) else Inr ()) (gc_users cfg) of
           Inl e \<Rightarrow> (Inl e, db)
         | Inr _ \<Rightarrow>
             (case token of
                None \<Rightarrow> (Inl TokenGeneratorRequired, db)
              | Some tok \<Rightarrow> transact io (replace_legacy_tx io hash (unix_seconds now) tok cfg) db)))"

section \<open>Reading\<close>

definition runtime_user :: "user_row \<Rightarrow> user_config" where
  "runtime_user row =
     \<lparr>uc_password = ur_password row, uc_disabled = (ur_deleted row \<noteq> None),
      uc_expires_at = (case ur_expires row of None \<Rightarrow> None | Some v \<Rightarrow> unix_time v), uc_routes = [],
      uc_max_bytes = of_int (ur_monthly row), uc_speed_limit = of_int (ur_speed row)\<rparr>"

definition append_route :: "(string, user_config) gomap \<Rightarrow> string \<times> string \<Rightarrow> (string, user_config) gomap" where
  "append_route users grant =
     (case grant of (username, node) \<Rightarrow>
        (case map_of users username of
           None \<Rightarrow> users
         | Some user \<Rightarrow> gput username (user\<lparr>uc_routes := uc_routes user @ [node]\<rparr>) users))"

definition load_runtime_users :: "(stmt \<Rightarrow> bool) \<Rightarrow> management_db \<Rightarrow> (string, user_config) gomap mresult" where
  "load_runtime_users io db =
     (if \<not> io QueryUsers \<or> \<not> io QueryGrants then Inl SqlFailed
      else Inr (foldl append_route (gmap_values (\<lambda>_. runtime_user) (md_users db)) (sort (md_grants db))))"

fun decode_nodes :: "(string \<Rightarrow> node_config option) \<Rightarrow> (string \<times> node_row) list \<Rightarrow> (string, node_config) gomap \<Rightarrow> (string, node_config) gomap mresult" where
  "decode_nodes dec [] acc = Inr acc"
| "decode_nodes dec ((name, row) # rows) acc =
     (case dec (nr_config row) of
        None \<Rightarrow> Inl (NodeDecode name)
      | Some node \<Rightarrow> rbind (validate_node name node) (\<lambda>_. decode_nodes dec rows (gput name node acc)))"

definition rows_by_name :: "(string, 'a) gomap \<Rightarrow> (string \<times> 'a) list" where
  "rows_by_name rows = sort_key fst rows"

definition load_nodes :: "(stmt \<Rightarrow> bool) \<Rightarrow> (string \<Rightarrow> node_config option) \<Rightarrow> management_db \<Rightarrow> (string, node_config) gomap mresult" where
  "load_nodes io dec db =
     (if \<not> io QueryNodes then Inl SqlFailed
      else decode_nodes dec (filter (\<lambda>(_, row). nr_enabled row) (rows_by_name (md_nodes db))) [])"

text \<open>\<open>LoadRuntimeSnapshot\<close>: the same queries and the revision in one read transaction.\<close>

definition load_runtime_snapshot ::
  "(stmt \<Rightarrow> bool) \<Rightarrow> (string \<Rightarrow> node_config option) \<Rightarrow> management_db \<Rightarrow> runtime_snapshot mresult"
where
  "load_runtime_snapshot io dec db =
     (if \<not> io BeginStmt then Inl SqlFailed
      else rbind (load_runtime_users io db) (\<lambda>users.
           rbind (load_nodes io dec db) (\<lambda>nodes.
           if \<not> io QueryState \<or> \<not> io CommitStmt then Inl SqlFailed
           else Inr \<lparr>rs_users = users, rs_nodes = nodes, rs_revision = md_revision db\<rparr>)))"

definition managed_user_of :: "string \<times> user_row \<Rightarrow> managed_user" where
  "managed_user_of nu =
     (case nu of (name, row) \<Rightarrow>
        \<lparr>mu_username = name, mu_password = ur_password row, mu_deleted_at = null_time (ur_deleted row),
         mu_expires_at = null_time (ur_expires row), mu_monthly_bytes = of_int (ur_monthly row),
         mu_download_speed = of_int (ur_speed row), mu_token_hash = ur_token row, mu_created_at = ur_created row * second,
         mu_updated_at = ur_updated row * second, mu_routes = []\<rparr>)"

definition populate_user_routes :: "management_db \<Rightarrow> managed_user list \<Rightarrow> managed_user list" where
  "populate_user_routes db users =
     map (\<lambda>u. u\<lparr>mu_routes := mu_routes u @ map snd (filter (\<lambda>(n, _). n = mu_username u) (sort (md_grants db)))\<rparr>) users"

definition list_users :: "(stmt \<Rightarrow> bool) \<Rightarrow> management_db \<Rightarrow> managed_user list mresult" where
  "list_users io db =
     (if \<not> io QueryUsers \<or> \<not> io QueryGrants then Inl SqlFailed
      else Inr (populate_user_routes db (map managed_user_of (rows_by_name (md_users db)))))"

definition get_user :: "(stmt \<Rightarrow> bool) \<Rightarrow> string \<Rightarrow> management_db \<Rightarrow> managed_user option mresult" where
  "get_user io username db = rbind (list_users io db) (\<lambda>users. Inr (find (\<lambda>u. mu_username u = username) users))"

definition find_user_by_token ::
  "(stmt \<Rightarrow> bool) \<Rightarrow> (string \<Rightarrow> bytes) \<Rightarrow> string \<Rightarrow> management_db \<Rightarrow> managed_user option mresult"
where
  "find_user_by_token io hash token db =
     (if \<not> io QueryUsers then Inl SqlFailed
      else
        (case find (\<lambda>(_, row). ur_token row = hash token) (md_users db) of
           None \<Rightarrow> Inr None
         | Some nu \<Rightarrow>
             (let u = managed_user_of nu
              in if mu_deleted_at u \<noteq> None then Inr None
                 else if \<not> io QueryGrants then Inl SqlFailed
                 else Inr (Some (u\<lparr>mu_routes := user_routes (mu_username u) db\<rparr>)))))"

definition managed_node_of :: "(string \<Rightarrow> node_config option) \<Rightarrow> string \<times> node_row \<Rightarrow> managed_node mresult" where
  "managed_node_of dec nn =
     (case nn of (name, row) \<Rightarrow>
        (case dec (nr_config row) of
           None \<Rightarrow> Inl (NodeDecode name)
         | Some node \<Rightarrow>
             rbind (validate_node name node) (\<lambda>_.
             Inr \<lparr>mn_name = name, mn_config = node, mn_enabled = nr_enabled row, mn_created_at = nr_created row * second,
                  mn_updated_at = nr_updated row * second\<rparr>)))"

fun collect_ok :: "('a \<Rightarrow> 'b mresult) \<Rightarrow> 'a list \<Rightarrow> 'b list mresult" where
  "collect_ok f [] = Inr []"
| "collect_ok f (x # xs) = rbind (f x) (\<lambda>y. rbind (collect_ok f xs) (\<lambda>ys. Inr (y # ys)))"

definition list_nodes :: "(stmt \<Rightarrow> bool) \<Rightarrow> (string \<Rightarrow> node_config option) \<Rightarrow> management_db \<Rightarrow> managed_node list mresult" where
  "list_nodes io dec db =
     (if \<not> io QueryNodes then Inl SqlFailed else collect_ok (managed_node_of dec) (rows_by_name (md_nodes db)))"

definition get_node :: "(stmt \<Rightarrow> bool) \<Rightarrow> (string \<Rightarrow> node_config option) \<Rightarrow> string \<Rightarrow> management_db \<Rightarrow> managed_node option mresult" where
  "get_node io dec name db =
     (if \<not> io QueryNodes then Inl SqlFailed
      else (case map_of (md_nodes db) name of
              None \<Rightarrow> Inr None
            | Some row \<Rightarrow> rbind (managed_node_of dec (name, row)) (\<lambda>node. Inr (Some node))))"

section \<open>Operations as one type\<close>

datatype management_op =
    CreateUser managed_user_input string
  | UpdateUser managed_user_input
  | SetUserDeleted string bool
  | ResetUserPassword string string
  | ResetUserToken string string
  | SaveNode string node_config bool
  | UpdateNode string node_config bool
  | DeleteNode string
  | SetActiveRevision int
  | ReplaceLegacyUsers gateway_config "(string \<Rightarrow> string) option"
  | MigrateLegacy gateway_config "(string \<Rightarrow> string) option"

fun run_op ::
  "(stmt \<Rightarrow> bool) \<Rightarrow> (string \<Rightarrow> bytes) \<Rightarrow> (node_config \<Rightarrow> string option) \<Rightarrow> go_time \<Rightarrow> management_op \<Rightarrow> management_db \<Rightarrow> unit mresult \<times> management_db"
where
  "run_op io hash enc now (CreateUser inp token) db = create_user io hash now (\<lambda>db. db) inp token db"
| "run_op io hash enc now (UpdateUser inp) db = update_user io now (\<lambda>db. db) inp db"
| "run_op io hash enc now (SetUserDeleted name deleted) db = set_user_deleted io now name deleted db"
| "run_op io hash enc now (ResetUserPassword name password) db = reset_user_password io now name password db"
| "run_op io hash enc now (ResetUserToken name token) db = reset_user_token io hash now name token db"
| "run_op io hash enc now (SaveNode name node enabled) db = save_node io enc now name node enabled db"
| "run_op io hash enc now (UpdateNode name node enabled) db = update_node io enc now name node enabled db"
| "run_op io hash enc now (DeleteNode name) db = delete_node io name db"
| "run_op io hash enc now (SetActiveRevision revision) db = set_active_revision io revision db"
| "run_op io hash enc now (ReplaceLegacyUsers cfg token) db = replace_legacy_users io hash now cfg token db"
| "run_op io hash enc now (MigrateLegacy cfg token) db = migrate_legacy io hash enc now cfg token db"

lemmas op_defs = create_user_def update_user_def set_user_deleted_def reset_user_password_def reset_user_token_def save_node_def
  update_node_def delete_node_def set_active_revision_def replace_legacy_users_def migrate_legacy_def

lemma transact_Inl: "transact io body db = (Inl e, db') \<Longrightarrow> db' = db"
  by (auto simp: transact_def split: if_split_asm sum.split_asm prod.split_asm)

lemma transact_Inr: "transact io body db = (Inr a, db') \<longleftrightarrow> io BeginStmt \<and> io CommitStmt \<and> body db = Inr (a, db')"
  by (auto simp: transact_def split: sum.split)

lemma update_row_Inl: "update_row io name f db = (Inl e, db') \<Longrightarrow> db' = db"
  by (auto simp: update_row_def split: if_split_asm option.split_asm)

lemma update_row_Inr:
  "update_row io name f db = (Inr u, db') \<Longrightarrow> \<exists>row. map_of (md_users db) name = Some row \<and> db' = db\<lparr>md_users := gput name (f row) (md_users db)\<rparr>"
  by (auto simp: update_row_def split: if_split_asm option.split_asm)

lemma run_op_Inl: "run_op io hash enc now op db = (Inl e, db') \<Longrightarrow> db' = db"
  by (cases op) (auto simp: op_defs dest: transact_Inl update_row_Inl split: if_split_asm sum.split_asm option.split_asm)

text \<open>C36: Management calls are all or nothing.  Whichever statement of a call fails, and whichever of its checks
  does, a call that reports an error leaves every table as it was.\<close>

theorem management_atomic:
  assumes "run_op io hash enc now op db = (Inl e, db')"
  shows "db' = db"
  using assms by (rule run_op_Inl)

section \<open>What the statements do\<close>

lemma run_stmt_ok [simp]: "run_stmt io st = Inr u \<longleftrightarrow> io st"
  by (simp add: run_stmt_def)

lemma insert_grants_step:
  "insert_grants io u (r # rs) db = Inr db' \<Longrightarrow>
     (u, r) \<notin> set (md_grants db) \<and> insert_grants io u rs (db\<lparr>md_grants := md_grants db @ [(u, r)]\<rparr>) = Inr db'"
  by (auto simp: rbind_eq_Inr insert_grant_def split: if_split_asm)

lemma insert_grants_ok: "insert_grants io u rs db = Inr db' \<Longrightarrow> db' = db\<lparr>md_grants := md_grants db @ map (Pair u) rs\<rparr>"
proof (induction rs arbitrary: db)
  case (Cons r rs)
  from Cons.IH [OF insert_grants_step [OF Cons.prems, THEN conjunct2]] show ?case by simp
qed simp

lemma insert_grants_distinct:
  "insert_grants io u rs db = Inr db' \<Longrightarrow> distinct (md_grants db) \<Longrightarrow> distinct (md_grants db')"
proof (induction rs arbitrary: db)
  case (Cons r rs)
  note step = insert_grants_step [OF Cons.prems(1)]
  show ?case by (rule Cons.IH [OF step [THEN conjunct2]]) (use step Cons.prems(2) in simp)
qed simp

lemma insert_user_row_ok:
  "insert_user_row name row db = Inr db' \<longleftrightarrow>
     name \<notin> set (gkeys (md_users db)) \<and> ur_token row \<notin> ur_token ` set (map snd (md_users db)) \<and> db' = db\<lparr>md_users := gput name row (md_users db)\<rparr>"
  by (auto simp: insert_user_row_def)

lemma validate_routes_loop_ok:
  "validate_routes_loop io rs db = Inr () \<Longrightarrow> \<forall>r \<in> set rs. r = ''direct'' \<or> (\<exists>row. map_of (md_nodes db) r = Some row \<and> nr_enabled row)"
  by (induction io rs db rule: validate_routes_loop.induct) (auto split: if_split_asm option.split_asm)

lemma set_unique_routes [simp]: "set (unique_routes rs) = set rs" and distinct_unique_routes [simp]: "distinct (unique_routes rs)"
  by (simp_all add: unique_routes_def set_dedup_from)

lemma validate_routes_ok:
  "validate_routes io rs db = Inr () \<Longrightarrow> \<forall>r \<in> set rs. r = ''direct'' \<or> (\<exists>row. map_of (md_nodes db) r = Some row \<and> nr_enabled row)"
  unfolding validate_routes_def by (drule validate_routes_loop_ok) simp

section \<open>The revision\<close>

definition topology :: "management_db \<Rightarrow> string list \<times> (string, node_row) gomap \<times> (string \<times> string) list" where
  "topology db = (gkeys (md_users db), md_nodes db, md_grants db)"

lemma insert_legacy_loop_frame:
  "insert_legacy_loop io hash token now users names db = Inr db' \<Longrightarrow>
     md_nodes db' = md_nodes db \<and> md_revision db' = md_revision db \<and> md_migrations db' = md_migrations db \<and> md_active db' = md_active db"
proof (induction io hash token now users names db rule: insert_legacy_loop.induct)
  case (2 io hash token now users name names db)
  then show ?case
    by (fastforce simp: rbind_eq_Inr insert_user_row_ok dest!: insert_grants_ok split: if_split_asm option.split_asm prod.split_asm)
qed simp

lemma update_user_revision:
  assumes "update_user_tx io now inp db = Inr (u, db')"
  shows "md_revision db' = md_revision db + of_bool (user_routes (mi_username inp) db \<noteq> sort (unique_routes (mi_routes inp))) \<and>
    (user_routes (mi_username inp) db = sort (unique_routes (mi_routes inp)) \<longrightarrow> topology db' = topology db)"
  using assms
  by (auto simp: update_user_tx_def rbind_eq_Inr Let_def bump_revision_def topology_def gkeys_gput_present
      dest!: insert_grants_ok split: if_split_asm option.split_asm)

text \<open>The saved revision tracks the topology.  A successful call other than the one-time import never lowers the
  revision, and a call that changes the users, nodes or grants that a restart would load raises it
  by one, so the dashboard's comparison with the running revision notices it.\<close>

theorem revision_tracks_topology:
  assumes "run_op io hash enc now op db = (Inr u, db')" and "\<forall>cfg token. op \<noteq> MigrateLegacy cfg token"
  shows "md_revision db' = md_revision db + 1 \<or> md_revision db' = md_revision db \<and> topology db' = topology db"
proof (cases op)
  case (CreateUser inp token)
  with assms(1) show ?thesis
    by (auto simp: create_user_def transact_Inr create_user_tx_def rbind_eq_Inr bump_revision_def insert_user_row_ok
        dest!: insert_grants_ok split: if_split_asm sum.split_asm)
next
  case (UpdateUser inp)
  with assms(1) show ?thesis
    by (auto simp: update_user_def transact_Inr dest!: update_user_revision split: if_split_asm sum.split_asm)
next
  case (ReplaceLegacyUsers cfg token)
  with assms(1) show ?thesis
    by (auto simp: replace_legacy_users_def replace_legacy_tx_def transact_Inr rbind_eq_Inr bump_revision_def insert_legacy_users_def
        dest!: insert_legacy_loop_frame split: if_split_asm sum.split_asm option.split_asm)
next
  case (MigrateLegacy cfg token)
  with assms(2) show ?thesis by simp
next
  case (SetUserDeleted name deleted)
  with assms(1) show ?thesis by (auto simp: set_user_deleted_def topology_def gkeys_gput_present dest!: update_row_Inr)
next
  case (ResetUserPassword name password)
  with assms(1) show ?thesis
    by (auto simp: reset_user_password_def topology_def gkeys_gput_present dest!: update_row_Inr split: if_split_asm)
next
  case (ResetUserToken name token)
  with assms(1) show ?thesis
    by (auto simp: reset_user_token_def topology_def gkeys_gput_present dest!: update_row_Inr split: if_split_asm)
qed (use assms(1) in \<open>auto simp: save_node_def update_node_def delete_node_def set_active_revision_def transact_Inr rbind_eq_Inr
      bump_revision_def topology_def Let_def split: if_split_asm sum.split_asm option.split_asm\<close>)


section \<open>Integrity of the tables\<close>

definition route_known :: "management_db \<Rightarrow> string \<Rightarrow> bool" where
  "route_known db r \<longleftrightarrow> r = ''direct'' \<or> r \<in> set (gkeys (md_nodes db))"

text \<open>
  Keys and token hashes are unique, names are well formed, and every grant names a user and a node
  that exist (the foreign keys of the schema, which SQLite does not enforce here).
\<close>

definition management_ok :: "management_db \<Rightarrow> bool" where
  "management_ok db \<longleftrightarrow>
     distinct (gkeys (md_users db)) \<and> distinct (gkeys (md_nodes db)) \<and> distinct (map (ur_token \<circ> snd) (md_users db)) \<and>
     distinct (md_grants db) \<and> list_all is_valid_name (gkeys (md_users db)) \<and> list_all is_valid_name (gkeys (md_nodes db)) \<and>
     list_all (\<lambda>(u, r). u \<in> set (gkeys (md_users db)) \<and> route_known db r) (md_grants db)"

lemma validate_routes_known: "validate_routes io rs db = Inr () \<Longrightarrow> \<forall>r \<in> set rs. route_known db r"
proof (drule validate_routes_ok, intro ballI)
  fix r
  assume "\<forall>r \<in> set rs. r = ''direct'' \<or> (\<exists>row. map_of (md_nodes db) r = Some row \<and> nr_enabled row)" and "r \<in> set rs"
  then consider "r = ''direct''" | row where "map_of (md_nodes db) r = Some row" by blast
  then show "route_known db r"
    by cases (auto simp: route_known_def dest!: map_of_SomeD intro: rev_image_eqI)
qed

lemma gput_fresh: "k \<notin> set (gkeys m) \<Longrightarrow> gput k v m = m @ [(k, v)]"
  by (induction m) auto

lemma values_gput_fresh: "k \<notin> set (gkeys m) \<Longrightarrow> map (f \<circ> snd) (gput k v m) = map (f \<circ> snd) m @ [f v]"
  by (induction m) auto

lemma values_gput_same:
  "map_of m k = Some r \<Longrightarrow> f v = f r \<Longrightarrow> distinct (gkeys m) \<Longrightarrow> map (f \<circ> snd) (gput k v m) = map (f \<circ> snd) m"
  by (induction m) (auto split: if_split_asm simp: gput_fresh)

lemma set_values_gput: "f ` snd ` set (gput k v m) \<subseteq> insert (f v) (f ` snd ` set m)"
  using set_gput_subset [of k v m] by force

lemma gdel_fresh: "k \<notin> set (gkeys m) \<Longrightarrow> gdel k m = m"
  by (force simp: AList.delete_eq filter_id_conv)

lemma values_gput_distinct:
  assumes "distinct (gkeys m)" "distinct (map (f \<circ> snd) m)" "f v \<notin> f ` set (map snd (gdel k m))"
  shows "distinct (map (f \<circ> snd) (gput k v m))"
  using assms
proof (induction m)
  case (Cons p m)
  obtain k' v' where p: "p = (k', v')" by (cases p)
  show ?case
  proof (cases "k' = k")
    case True
    with Cons.prems p show ?thesis by (auto simp: gdel_fresh image_image)
  next
    case False
    have "f v' \<notin> f ` snd ` set (gput k v m)"
      using Cons.prems False p set_values_gput [of f k v m] by (auto simp: image_image)
    with Cons False p show ?thesis by (auto simp: image_image)
  qed
qed simp

lemma add_user_ok:
  assumes "management_ok db" and "is_valid_name name" and "insert_user_row name row db = Inr db1"
    and "insert_grants io name routes db1 = Inr db2" and "\<forall>r \<in> set routes. route_known db r"
  shows "management_ok db2"
proof -
  from assms(3) have row: "name \<notin> set (gkeys (md_users db))" "ur_token row \<notin> ur_token ` snd ` set (md_users db)"
    and db1: "db1 = db\<lparr>md_users := gput name row (md_users db)\<rparr>" by (auto simp: insert_user_row_ok)
  from insert_grants_ok [OF assms(4)] db1 have db2: "db2 = db1\<lparr>md_grants := md_grants db @ map (Pair name) routes\<rparr>"
    by auto
  have grants: "distinct (md_grants db2)" using insert_grants_distinct [OF assms(4)] assms(1) db1 by (simp add: management_ok_def)
  have "distinct (map (ur_token \<circ> snd) (gput name row (md_users db)))"
    using assms(1) row by (simp add: values_gput_fresh management_ok_def image_comp)
  moreover have "gkeys (gput name row (md_users db)) = gkeys (md_users db) @ [name]"
    using row(1) by (simp add: gput_fresh)
  moreover have "list_all (\<lambda>(v, r). v \<in> set (gkeys (md_users db2)) \<and> route_known db2 r) (md_grants db2)"
    using assms(1,5) by (auto simp: db2 db1 management_ok_def list_all_iff route_known_def gput_fresh [OF row(1)])
  ultimately show ?thesis using assms(1,2) grants row(1) by (simp add: management_ok_def db2 db1)
qed


lemma route_known_frame: "md_nodes db' = md_nodes db \<Longrightarrow> route_known db' = route_known db"
  by (simp add: route_known_def fun_eq_iff)

lemma management_ok_bump [simp]: "management_ok (bump_revision db) = management_ok db"
  by (simp add: bump_revision_def management_ok_def route_known_def)

lemma update_row_ok:
  assumes "management_ok db" and "map_of (md_users db) name = Some row" and "distinct (map (ur_token \<circ> snd) (gput name row' (md_users db)))"
  shows "management_ok (db\<lparr>md_users := gput name row' (md_users db)\<rparr>)"
  using assms by (simp add: management_ok_def gkeys_gput_present route_known_def)

lemma update_row_keeps_token:
  assumes "management_ok db" and "map_of (md_users db) name = Some row" and "ur_token row' = ur_token row"
  shows "management_ok (db\<lparr>md_users := gput name row' (md_users db)\<rparr>)"
  using assms by (intro update_row_ok) (auto simp: values_gput_same management_ok_def)

lemma regrant_ok:
  assumes "management_ok db" and "u \<in> set (gkeys (md_users db))"
    and "insert_grants io u rs (db\<lparr>md_grants := filter (\<lambda>(v, _). v \<noteq> u) (md_grants db)\<rparr>) = Inr db'"
    and "\<forall>r \<in> set rs. route_known db r"
  shows "management_ok db'"
proof -
  from insert_grants_ok [OF assms(3)]
  have db': "db' = db\<lparr>md_grants := filter (\<lambda>(v, _). v \<noteq> u) (md_grants db) @ map (Pair u) rs\<rparr>" by simp
  have "distinct (md_grants db')" using insert_grants_distinct [OF assms(3)] assms(1) by (simp add: management_ok_def)
  moreover have "list_all (\<lambda>(v, r). v \<in> set (gkeys (md_users db')) \<and> route_known db' r) (md_grants db')"
    using assms(1,2,4) by (auto simp: db' management_ok_def list_all_iff route_known_def)
  ultimately show ?thesis using assms(1) by (simp add: management_ok_def db')
qed

lemma create_user_ok:
  assumes "management_ok db" and "create_user io hash now (\<lambda>db. db) inp token db = (Inr u, db')"
  shows "management_ok db'"
proof -
  from assms(2) obtain row db1 db2 where "is_valid_name (mi_username inp)" "validate_routes io (mi_routes inp) db = Inr ()"
    and "insert_user_row (mi_username inp) row db = Inr db1"
    and "insert_grants io (mi_username inp) (unique_routes (mi_routes inp)) db1 = Inr db2" and db': "db' = bump_revision db2"
    by (auto simp: create_user_def transact_Inr create_user_tx_def rbind_eq_Inr split: if_split_asm sum.split_asm)
  then have "management_ok db2"
    by (intro add_user_ok [OF assms(1)]) (auto dest!: validate_routes_known)
  then show ?thesis by (simp add: db')
qed

lemma update_user_tx_shape:
  assumes "update_user_tx io now inp db = Inr (u, db')"
  obtains row row' where "map_of (md_users db) (mi_username inp) = Some row" "ur_token row' = ur_token row"
    "db' = db\<lparr>md_users := gput (mi_username inp) row' (md_users db)\<rparr> \<or>
      (\<exists>db2. db' = bump_revision db2 \<and> insert_grants io (mi_username inp) (sort (unique_routes (mi_routes inp)))
         (db\<lparr>md_users := gput (mi_username inp) row' (md_users db),
             md_grants := filter (\<lambda>(v, _). v \<noteq> mi_username inp) (md_grants db)\<rparr>) = Inr db2)"
proof -
  from assms obtain row monthly speed where row: "map_of (md_users db) (mi_username inp) = Some row"
    and limits: "sql_limits (mi_monthly_bytes inp) (mi_download_speed inp) = Inr (monthly, speed)"
    by (cases "map_of (md_users db) (mi_username inp)") (auto simp: update_user_tx_def rbind_eq_Inr Let_def)
  show thesis
    by (rule that [of row "row\<lparr>ur_password := mi_password inp, ur_expires := time_unix (mi_expires_at inp), ur_monthly := monthly,
                       ur_speed := speed, ur_updated := now\<rparr>"])
      (use assms row limits in \<open>auto simp: update_user_tx_def rbind_eq_Inr Let_def split: if_split_asm\<close>)
qed

lemma update_user_ok:
  assumes "management_ok db" and "update_user io now (\<lambda>db. db) inp db = (Inr u, db')"
  shows "management_ok db'"
proof -
  let ?u = "mi_username inp"
  from assms(2) have routes: "\<forall>r \<in> set (mi_routes inp). route_known db r" and tx: "update_user_tx io (unix_seconds now) inp db = Inr (u, db')"
    by (auto simp: update_user_def transact_Inr dest!: validate_routes_known split: if_split_asm sum.split_asm)
  from tx obtain row row' where row: "map_of (md_users db) ?u = Some row" "ur_token row' = ur_token row"
    and cases: "db' = db\<lparr>md_users := gput ?u row' (md_users db)\<rparr> \<or>
      (\<exists>db2. db' = bump_revision db2 \<and> insert_grants io ?u (sort (unique_routes (mi_routes inp)))
         (db\<lparr>md_users := gput ?u row' (md_users db), md_grants := filter (\<lambda>(v, _). v \<noteq> ?u) (md_grants db)\<rparr>) = Inr db2)"
    by (rule update_user_tx_shape)
  let ?db = "db\<lparr>md_users := gput ?u row' (md_users db)\<rparr>"
  have ok: "management_ok ?db" by (rule update_row_keeps_token [OF assms(1) row])
  from cases show ?thesis
  proof (elim disjE exE conjE)
    fix db2
    assume db': "db' = bump_revision db2" and grants: "insert_grants io ?u (sort (unique_routes (mi_routes inp)))
         (db\<lparr>md_users := gput ?u row' (md_users db), md_grants := filter (\<lambda>(v, _). v \<noteq> ?u) (md_grants db)\<rparr>) = Inr db2"
    have "management_ok db2"
    proof (rule regrant_ok [OF ok])
      show "?u \<in> set (gkeys (md_users ?db))" using gkeys_gput [of ?u row' "md_users db"] by simp
      show "\<forall>r \<in> set (sort (unique_routes (mi_routes inp))). route_known ?db r" using routes by (simp add: route_known_def)
    qed (use grants in simp)
    then show ?thesis by (simp add: db')
  qed (use ok in simp)
qed

lemma set_user_deleted_ok:
  "management_ok db \<Longrightarrow> set_user_deleted io now name deleted db = (Inr u, db') \<Longrightarrow> management_ok db'"
  by (auto simp: set_user_deleted_def dest!: update_row_Inr intro!: update_row_keeps_token)

lemma reset_user_password_ok:
  "management_ok db \<Longrightarrow> reset_user_password io now name password db = (Inr u, db') \<Longrightarrow> management_ok db'"
  by (auto simp: reset_user_password_def dest!: update_row_Inr intro!: update_row_keeps_token split: if_split_asm)

lemma map_of_Some_key: "map_of m k = Some v \<Longrightarrow> k \<in> fst ` set m"
  by (auto dest!: map_of_SomeD intro: rev_image_eqI)

lemma reset_user_token_ok:
  assumes "management_ok db" and "reset_user_token io hash now name token db = (Inr u, db')"
  shows "management_ok db'"
proof -
  from assms(2) obtain row where row: "map_of (md_users db) name = Some row"
    and fresh: "hash token \<notin> ur_token ` set (map snd (gdel name (md_users db)))"
    and db': "db' = db\<lparr>md_users := gput name (row\<lparr>ur_token := hash token, ur_updated := unix_seconds now\<rparr>) (md_users db)\<rparr>"
    by (auto simp: reset_user_token_def dest!: update_row_Inr dest: map_of_Some_key split: if_split_asm)
  show ?thesis unfolding db'
    by (rule update_row_ok [OF assms(1) row], rule values_gput_distinct) (use assms(1) fresh in \<open>auto simp: management_ok_def\<close>)
qed

lemma node_put_ok:
  assumes "management_ok db" and "is_valid_name name"
  shows "management_ok (db\<lparr>md_nodes := gput name row (md_nodes db)\<rparr>)"
proof -
  have "set (gkeys (gput name row (md_nodes db))) = insert name (set (gkeys (md_nodes db)))" by (rule gkeys_gput)
  moreover have "distinct (gkeys (gput name row (md_nodes db)))" using assms(1) by (simp add: management_ok_def distinct_update)
  ultimately show ?thesis using assms by (auto simp: management_ok_def list_all_iff route_known_def)
qed

lemma save_node_ok:
  "management_ok db \<Longrightarrow> save_node io enc now name node enabled db = (Inr u, db') \<Longrightarrow> management_ok db'"
  by (auto simp: save_node_def transact_Inr rbind_eq_Inr Let_def node_put_ok split: if_split_asm sum.split_asm option.split_asm)

lemma update_node_ok:
  "management_ok db \<Longrightarrow> update_node io enc now name node enabled db = (Inr u, db') \<Longrightarrow> management_ok db'"
  by (auto simp: update_node_def transact_Inr rbind_eq_Inr Let_def node_put_ok split: if_split_asm sum.split_asm option.split_asm)

lemma node_del_ok:
  assumes "management_ok db"
  shows "management_ok (db\<lparr>md_grants := filter (\<lambda>(_, n). n \<noteq> name) (md_grants db), md_nodes := gdel name (md_nodes db)\<rparr>)"
proof -
  have keys: "set (gkeys (gdel name (md_nodes db))) = set (gkeys (md_nodes db)) - {name}" by (auto simp: delete_keys)
  have "distinct (gkeys (gdel name (md_nodes db)))" using assms by (simp add: management_ok_def distinct_delete)
  moreover have "list_all (\<lambda>(u, r). u \<in> set (gkeys (md_users db)) \<and> (r = ''direct'' \<or> r \<in> set (gkeys (gdel name (md_nodes db)))))
     (filter (\<lambda>(_, n). n \<noteq> name) (md_grants db))"
    unfolding keys using assms by (auto simp: management_ok_def list_all_iff route_known_def)
  moreover have "list_all is_valid_name (gkeys (gdel name (md_nodes db)))"
    unfolding list_all_iff keys using assms by (auto simp: management_ok_def list_all_iff)
  ultimately show ?thesis using assms by (simp add: management_ok_def route_known_def)
qed

lemma delete_node_ok:
  "management_ok db \<Longrightarrow> delete_node io name db = (Inr u, db') \<Longrightarrow> management_ok db'"
  by (auto simp: delete_node_def transact_Inr rbind_eq_Inr Let_def node_del_ok split: if_split_asm)

lemma insert_legacy_step:
  assumes "insert_legacy_loop io hash token now users (name # names) db = Inr db'"
  obtains "map_of users name = None" "insert_legacy_loop io hash token now users names db = Inr db'"
  | user row db1 db2 where "map_of users name = Some user" "is_valid_name name" "insert_user_row name row db = Inr db1"
      "insert_grants io name (uc_routes user) db1 = Inr db2" "insert_legacy_loop io hash token now users names db2 = Inr db'"
proof (cases "map_of users name")
  case None
  with assms show thesis by (intro that(1)) (auto split: if_split_asm)
next
  case (Some user)
  with assms have "is_valid_name name" and "\<exists>monthly speed db1 db2. insert_user_row name
       \<lparr>ur_password = uc_password user, ur_deleted = None, ur_expires = None, ur_monthly = monthly, ur_speed = speed,
        ur_token = hash (token name), ur_created = now, ur_updated = now\<rparr> db = Inr db1 \<and>
      insert_grants io name (uc_routes user) db1 = Inr db2 \<and> insert_legacy_loop io hash token now users names db2 = Inr db'"
    by (simp_all add: rbind_eq_Inr split: if_split_asm) blast
  with Some show thesis by (elim exE conjE) (rule that(2))
qed

lemma insert_legacy_loop_ok:
  assumes "insert_legacy_loop io hash token now users names db = Inr db'" and "management_ok db"
    and "\<forall>(name, user) \<in> set users. \<forall>r \<in> set (uc_routes user). route_known db r"
  shows "management_ok db'"
  using assms
proof (induction names arbitrary: db)
  case (Cons name names)
  from Cons.prems(1) show ?case
  proof (cases rule: insert_legacy_step)
    case 1
    show ?thesis by (rule Cons.IH [OF 1(2) Cons.prems(2,3)])
  next
    case (2 user row db1 db2)
    have "\<forall>r \<in> set (uc_routes user). route_known db r" using Cons.prems(3) map_of_SomeD [OF 2(1)] by blast
    from add_user_ok [OF Cons.prems(2) 2(2,3,4) this] have ok: "management_ok db2" .
    have "route_known db2 = route_known db"
      using insert_grants_ok [OF 2(4)] 2(3) by (intro route_known_frame) (simp add: insert_user_row_ok)
    with Cons.IH [OF 2(5) ok] Cons.prems(3) show ?thesis by simp
  qed
qed simp


lemma insert_legacy_nodes_ok:
  "insert_legacy_nodes io enc now nodes names db = Inr db' \<Longrightarrow> management_ok db \<Longrightarrow>
     management_ok db' \<and> set (gkeys (md_nodes db')) = set (gkeys (md_nodes db)) \<union> (set names \<inter> set (gkeys nodes))"
proof (induction names arbitrary: db)
  case (Cons name names)
  show ?case
  proof (cases "map_of nodes name")
    case None
    then have "name \<notin> set (gkeys nodes)" by (simp add: map_of_eq_None_iff)
    with None Cons show ?thesis by simp
  next
    case (Some node)
    from Cons.prems(1) Some obtain row where valid: "is_valid_name name"
      and rest: "insert_legacy_nodes io enc now nodes names (db\<lparr>md_nodes := gput name row (md_nodes db)\<rparr>) = Inr db'"
      by (auto simp: rbind_eq_Inr split: if_split_asm option.split_asm)
    from Cons.IH [OF rest node_put_ok [OF Cons.prems(2) valid]] map_of_Some_key [OF Some] show ?thesis
      using gkeys_gput [of name row "md_nodes db"] by auto
  qed
qed simp

lemma check_replacement_known:
  "check_replacement io db (name, user) = Inr () \<Longrightarrow> r \<in> set (uc_routes user) \<Longrightarrow> route_known db r"
  by (auto simp: check_replacement_def each_ok_eq_Inr route_known_def dest!: bspec [of _ _ r] dest: map_of_Some_key
      split: if_split_asm option.split_asm)

lemma replace_legacy_users_ok:
  assumes "management_ok db" and "replace_legacy_users io hash now cfg token db = (Inr u, db')"
  shows "management_ok db'"
proof -
  let ?db = "db\<lparr>md_grants := [], md_users := []\<rparr>"
  from assms(2) obtain tok where "replace_legacy_tx io hash (unix_seconds now) tok cfg db = Inr (u, db')"
    by (auto simp: replace_legacy_users_def transact_Inr split: if_split_asm sum.split_asm option.split_asm)
  then obtain db1 where routes: "each_ok (check_replacement io db) (gc_users cfg) = Inr ()"
    and users: "insert_legacy_users io hash tok (unix_seconds now) (gc_users cfg) ?db = Inr db1" and db': "db' = bump_revision db1"
    unfolding replace_legacy_tx_def rbind_eq_Inr by (elim exE conjE) simp
  have "management_ok ?db" using assms(1) by (simp add: management_ok_def)
  moreover have "\<forall>(name, user) \<in> set (gc_users cfg). \<forall>r \<in> set (uc_routes user). route_known ?db r"
    using routes check_replacement_known [of io db] by (auto simp: each_ok_eq_Inr route_known_def)
  ultimately have "management_ok db1"
    by (rule insert_legacy_loop_ok [OF users [unfolded insert_legacy_users_def]])
  then show ?thesis by (simp add: db')
qed

lemma validate_legacy_known:
  assumes "validate_legacy cfg = Inr ()" and "(name, user) \<in> set (gc_users cfg)" and "r \<in> set (uc_routes user)"
  shows "r = ''direct'' \<or> r \<in> set (gkeys (gc_nodes cfg))"
proof -
  from assms(1,2) have "validate_legacy_user (gc_nodes cfg) (name, user) = Inr ()"
    by (auto simp: validate_legacy_def rbind_eq_Inr each_ok_eq_Inr)
  with assms(3) show ?thesis by (auto simp: validate_legacy_user_def each_ok_eq_Inr split: if_split_asm)
qed

lemma migrate_legacy_ok:
  assumes "management_ok db" and "migrate_legacy io hash enc now cfg token db = (Inr u, db')"
  shows "management_ok db'"
proof -
  let ?names = "sort (gkeys (gc_nodes cfg))"
  from assms(2) obtain tok where legacy: "validate_legacy cfg = Inr ()"
    and tx: "migrate_legacy_tx io hash enc (unix_seconds now) tok cfg db = Inr (u, db')"
    by (auto simp: migrate_legacy_def transact_Inr split: if_split_asm sum.split_asm option.split_asm)
  from tx obtain db1 db2 where nodes: "insert_legacy_nodes io enc (unix_seconds now) (gc_nodes cfg) ?names db = Inr db1"
    and users: "insert_legacy_users io hash tok (unix_seconds now) (gc_users cfg) db1 = Inr db2"
    and db': "db' = db2\<lparr>md_revision := 1, md_migrations := md_migrations db2 @ [legacy_migration]\<rparr>"
    unfolding migrate_legacy_tx_def rbind_eq_Inr by (elim exE conjE) simp
  note nodes_ok = insert_legacy_nodes_ok [OF nodes assms(1)]
  have "\<forall>(name, user) \<in> set (gc_users cfg). \<forall>r \<in> set (uc_routes user). route_known db1 r"
    using nodes_ok validate_legacy_known [OF legacy] by (auto simp: route_known_def)
  with insert_legacy_loop_ok [OF users [unfolded insert_legacy_users_def]] nodes_ok have "management_ok db2" by blast
  then show ?thesis by (simp add: db' management_ok_def route_known_def)
qed

lemma run_op_ok:
  assumes "management_ok db"
  shows "management_ok (snd (run_op io hash enc now op db))"
proof -
  obtain r db' where run: "run_op io hash enc now op db = (r, db')" by (cases "run_op io hash enc now op db")
  show ?thesis
  proof (cases r)
    case (Inl e)
    with run assms show ?thesis using run_op_Inl by fastforce
  next
    case (Inr u)
    with run have "run_op io hash enc now op db = (Inr u, db')" by simp
    then have "management_ok db'"
    proof (cases op)
      case (SetActiveRevision revision)
      with \<open>run_op io hash enc now op db = (Inr u, db')\<close> assms show ?thesis
        by (auto simp: set_active_revision_def management_ok_def route_known_def split: if_split_asm)
    qed (auto intro: assms create_user_ok update_user_ok set_user_deleted_ok reset_user_password_ok reset_user_token_ok
          save_node_ok update_node_ok delete_node_ok replace_legacy_users_ok migrate_legacy_ok)
    with run show ?thesis by simp
  qed
qed


text \<open>The database after a sequence of calls, each with its statement outcomes and its time.\<close>

definition run_calls ::
  "(string \<Rightarrow> bytes) \<Rightarrow> (node_config \<Rightarrow> string option) \<Rightarrow> ((stmt \<Rightarrow> bool) \<times> go_time \<times> management_op) list \<Rightarrow> management_db \<Rightarrow> management_db"
where
  "run_calls hash enc calls db = foldl (\<lambda>db (io, now, op). snd (run_op io hash enc now op db)) db calls"

lemma run_calls_ok: "management_ok db \<Longrightarrow> management_ok (run_calls hash enc calls db)"
  unfolding run_calls_def by (induction calls arbitrary: db) (auto intro: run_op_ok)

lemma empty_management_ok: "management_ok empty_management"
  by (simp add: management_ok_def empty_management_def)

text \<open>C30: Integrity without foreign keys.  After any sequence of management calls on a new database, whatever statements fail,
  users and token hashes are unique, names are well formed, and no grant names a user or a node that does not exist.\<close>

theorem management_integrity: "management_ok (run_calls hash enc calls empty_management)"
  by (rule run_calls_ok [OF empty_management_ok])

section \<open>What a restart loads\<close>

lemma map_of_append_route:
  "map_of (append_route users (u, r)) name =
     (if name = u then map_option (\<lambda>c. c\<lparr>uc_routes := uc_routes c @ [r]\<rparr>) (map_of users name) else map_of users name)"
  by (auto simp: append_route_def split: option.split)

lemma map_of_append_routes:
  "map_of (foldl append_route users grants) name =
     map_option (\<lambda>c. c\<lparr>uc_routes := uc_routes c @ map snd (filter (\<lambda>(u, _). u = name) grants)\<rparr>) (map_of users name)"
proof (induction grants arbitrary: users)
  case Nil
  then show ?case by (cases "map_of users name") simp_all
next
  case (Cons g grants)
  then show ?case by (cases g) (auto simp: map_of_append_route option.map_comp comp_def)
qed

lemma sort_map_Pair: "sort (map (Pair (u :: string)) (rs :: string list)) = map (Pair u) (sort rs)"
proof (rule properties_for_sort)
  have "(\<lambda>x y. (u, x) \<le> (u, y)) = ((\<le>) :: string \<Rightarrow> string \<Rightarrow> bool)" by (simp add: fun_eq_iff)
  then show "sorted (map (Pair u) (sort rs))" by (simp only: sorted_map sorted_sort)
qed simp

lemma grants_of_user: "map (Pair u) (map snd (filter (\<lambda>(v, _). v = u) gs)) = filter (\<lambda>(v, _). v = u) gs"
  by (induction gs) auto

lemma sorted_grants_of_user: "map snd (filter (\<lambda>(v, _). v = u) (sort (md_grants db))) = user_routes u db"
proof -
  have "filter (\<lambda>(v, _). v = u) (sort (md_grants db)) = sort (filter (\<lambda>(v, _). v = u) (md_grants db))"
    by (rule filter_sort)
  also have "\<dots> = map (Pair u) (user_routes u db)"
    unfolding user_routes_def sort_map_Pair [symmetric] grants_of_user ..
  finally show ?thesis by (simp add: comp_def)
qed

lemma load_runtime_users_ok:
  assumes "load_runtime_users io db = Inr users"
  shows "map_of users name = map_option (\<lambda>row. (runtime_user row)\<lparr>uc_routes := user_routes name db\<rparr>) (map_of (md_users db) name)"
proof -
  from assms have "users = foldl append_route (gmap_values (\<lambda>_. runtime_user) (md_users db)) (sort (md_grants db))"
    by (simp add: load_runtime_users_def split: if_split_asm)
  then show ?thesis
    by (cases "map_of (md_users db) name") (simp_all add: map_of_append_routes sorted_grants_of_user runtime_user_def)
qed

lemma snapshot_users:
  "load_runtime_snapshot io dec db = Inr s \<Longrightarrow> load_runtime_users io db = Inr (rs_users s) \<and> rs_revision s = md_revision db"
  by (auto simp: load_runtime_snapshot_def rbind_eq_Inr split: if_split_asm)

lemma create_user_row:
  assumes "create_user io hash now others inp token db = (Inr u, db')"
  shows "\<exists>row. map_of (md_users db') (mi_username inp) = Some row \<and> ur_password row = mi_password inp \<and> ur_deleted row = None \<and>
      ur_expires row = time_unix (mi_expires_at inp) \<and> sql_uint (mi_monthly_bytes inp) = Some (ur_monthly row) \<and>
      sql_uint (mi_download_speed inp) = Some (ur_speed row) \<and> ur_token row = hash token"
  using assms
  by (auto simp: create_user_def transact_Inr create_user_tx_def rbind_eq_Inr insert_user_row_ok bump_revision_def sql_limits_def
      dest!: insert_grants_ok split: if_split_asm sum.split_asm option.split_asm)


lemma user_routes_created:
  assumes "management_ok db" and "create_user io hash now (\<lambda>db. db) inp token db = (Inr u, db')"
  shows "user_routes (mi_username inp) db' = sort (unique_routes (mi_routes inp))"
proof -
  let ?u = "mi_username inp"
  from assms(2) have fresh: "?u \<notin> set (gkeys (md_users db))"
    and grants: "md_grants db' = md_grants db @ map (Pair ?u) (unique_routes (mi_routes inp))"
    by (auto simp: create_user_def transact_Inr create_user_tx_def rbind_eq_Inr insert_user_row_ok bump_revision_def
        dest!: insert_grants_ok split: if_split_asm sum.split_asm)
  have "filter (\<lambda>(v, _). v = ?u) (md_grants db) = []"
    using assms(1) fresh by (auto simp: filter_empty_conv management_ok_def list_all_iff)
  then show ?thesis by (simp add: user_routes_def grants comp_def filter_map)
qed

lemma sql_uint_back: "sql_uint w = Some x \<Longrightarrow> of_int x = w"
  by (auto simp: sql_uint_def split: if_split_asm)

text \<open>A created user is what the next start loads.  After a successful creation, the runtime snapshot
  holds the user under its name, enabled, with the password, quota and speed limit of the request at
  their full width, its routes sorted and without repetition, and its expiry cut to whole seconds.\<close>

theorem created_user_loaded:
  assumes "management_ok db"
    and "create_user io hash now (\<lambda>db. db) inp token db = (Inr u, db')"
    and "load_runtime_snapshot io' dec db' = Inr s"
  shows "map_of (rs_users s) (mi_username inp) =
     Some \<lparr>uc_password = mi_password inp, uc_disabled = False,
       uc_expires_at = (case time_unix (mi_expires_at inp) of None \<Rightarrow> None | Some v \<Rightarrow> unix_time v),
       uc_routes = sort (unique_routes (mi_routes inp)), uc_max_bytes = mi_monthly_bytes inp, uc_speed_limit = mi_download_speed inp\<rparr>"
proof -
  from create_user_row [OF assms(2)] obtain row where row: "map_of (md_users db') (mi_username inp) = Some row"
    and cols: "ur_password row = mi_password inp" "ur_deleted row = None" "ur_expires row = time_unix (mi_expires_at inp)"
    "sql_uint (mi_monthly_bytes inp) = Some (ur_monthly row)" "sql_uint (mi_download_speed inp) = Some (ur_speed row)" by blast
  from snapshot_users [OF assms(3)] have "load_runtime_users io' db' = Inr (rs_users s)" by simp
  from load_runtime_users_ok [OF this, of "mi_username inp"] show ?thesis
    by (simp add: row runtime_user_def cols user_routes_created [OF assms(1,2)] cols(4,5) [THEN sql_uint_back])
qed

lemma find_by_unique_key:
  assumes "distinct (map f xs)" and "x \<in> set xs"
  shows "find (\<lambda>y. f y = f x) xs = Some x"
  using assms by (induction xs) (auto simp: rev_image_eqI)

lemma token_lookup:
  assumes "management_ok db" and "map_of (md_users db) name = Some row"
  shows "find (\<lambda>(_, r). ur_token r = ur_token row) (md_users db) = Some (name, row)"
  using find_by_unique_key [of "ur_token \<circ> snd" "md_users db" "(name, row)"] assms map_of_SomeD [OF assms(2)]
  by (simp add: management_ok_def case_prod_unfold)

text \<open>A subscription token belongs to one user.  The token given to a new user resolves to that user with its
  routes; a lookup of the token of a deleted user finds nobody.\<close>

theorem token_resolves_to_owner:
  assumes "management_ok db" and "map_of (md_users db) name = Some row" and "ur_token row = hash token"
    and "io QueryUsers" and "io QueryGrants"
  shows "find_user_by_token io hash token db =
    Inr (if null_time (ur_deleted row) = None then Some ((managed_user_of (name, row))\<lparr>mu_routes := user_routes name db\<rparr>) else None)"
  using token_lookup [OF assms(1,2)] assms(3-5)
  by (simp add: find_user_by_token_def managed_user_of_def Let_def)


section \<open>Concrete runs\<close>

definition demo_node :: node_config where
  "demo_node = \<lparr>nc_type = ''hysteria2'', nc_alias = [],
     nc_hysteria2 = Some \<lparr>h2_addr = ''h:1'', h2_auth = ''k'', h2_insecure = False, h2_sni = []\<rparr>\<rparr>"

definition demo_input :: managed_user_input where
  "demo_input = \<lparr>mi_username = ''ann'', mi_password = ''pw'', mi_expires_at = None, mi_monthly_bytes = 7, mi_download_speed = 0,
     mi_routes = [''direct'', ''direct'']\<rparr>"

definition token_bytes :: "string \<Rightarrow> bytes" where
  "token_bytes t = map (\<lambda>c. of_nat (of_char c)) t"

lemma demo_create:
  "create_user (\<lambda>_. True) token_bytes 0 (\<lambda>db. db) demo_input ''t'' empty_management =
     (Inr (), \<lparr>md_users = [(''ann'', \<lparr>ur_password = ''pw'', ur_deleted = None, ur_expires = None, ur_monthly = 7, ur_speed = 0,
        ur_token = token_bytes ''t'', ur_created = unix_seconds 0, ur_updated = unix_seconds 0\<rparr>)], md_nodes = [],
        md_grants = [(''ann'', ''direct'')], md_revision = 1, md_active = 0, md_migrations = []\<rparr>)"
  by (simp add: create_user_def demo_input_def is_valid_name_def contains_any_def validate_routes_def unique_routes_def
      transact_def create_user_tx_def rbind_def sql_limits_def sql_uint_def run_stmt_def guard_ok_def insert_user_row_def
      empty_management_def insert_grant_def bump_revision_def time_unix_def)

theorem management_atomic_witness:
  "run_op (\<lambda>st. st \<noteq> SetRevision) token_bytes (\<lambda>_. None) 0 (CreateUser demo_input ''t'') empty_management = (Inl SqlFailed, empty_management)"
proof -
  have "fst (run_op (\<lambda>st. st \<noteq> SetRevision) token_bytes (\<lambda>_. None) 0 (CreateUser demo_input ''t'') empty_management) = Inl SqlFailed"
    by (simp add: create_user_def demo_input_def is_valid_name_def contains_any_def validate_routes_def unique_routes_def
        transact_def create_user_tx_def rbind_def sql_limits_def sql_uint_def run_stmt_def guard_ok_def insert_user_row_def
        empty_management_def insert_grant_def)
  then show ?thesis
    using management_atomic [of "\<lambda>st. st \<noteq> SetRevision" token_bytes "\<lambda>_. None" 0 "CreateUser demo_input ''t''" empty_management SqlFailed]
    by (metis prod.collapse)
qed

theorem revision_tracks_topology_witness:
  "let db' = snd (run_op (\<lambda>_. True) token_bytes (\<lambda>_. None) 0 (CreateUser demo_input ''t'') empty_management)
   in md_revision db' = 0 + 1 \<or> md_revision db' = 0 \<and> topology db' = topology empty_management"
  using revision_tracks_topology [of "\<lambda>_. True" token_bytes "\<lambda>_. None" 0 "CreateUser demo_input ''t''" empty_management "()"]
  unfolding run_op.simps demo_create by (simp add: empty_management_def)

theorem created_user_loaded_witness:
  "load_runtime_snapshot (\<lambda>_. True) (\<lambda>_. None) (snd (create_user (\<lambda>_. True) token_bytes 0 (\<lambda>db. db) demo_input ''t'' empty_management)) =
     Inr \<lparr>rs_users = [(''ann'', \<lparr>uc_password = ''pw'', uc_disabled = False, uc_expires_at = None, uc_routes = [''direct''],
        uc_max_bytes = 7, uc_speed_limit = 0\<rparr>)], rs_nodes = [], rs_revision = 1\<rparr>"
proof -
  let ?db = "snd (create_user (\<lambda>_. True) token_bytes 0 (\<lambda>db. db) demo_input ''t'' empty_management)"
  have created: "create_user (\<lambda>_. True) token_bytes 0 (\<lambda>db. db) demo_input ''t'' empty_management = (Inr (), ?db)"
    by (simp add: demo_create)
  obtain s where s: "load_runtime_snapshot (\<lambda>_. True) (\<lambda>_. None) ?db = Inr s"
    and shape: "gkeys (rs_users s) = [''ann'']" "rs_nodes s = []" "rs_revision s = 1"
    by (simp add: demo_create load_runtime_snapshot_def load_runtime_users_def load_nodes_def rows_by_name_def append_route_def)
  have "map_of (rs_users s) ''ann'' = Some \<lparr>uc_password = ''pw'', uc_disabled = False, uc_expires_at = None, uc_routes = [''direct''],
        uc_max_bytes = 7, uc_speed_limit = 0\<rparr>"
    using created_user_loaded [OF empty_management_ok created s] by (simp add: demo_input_def time_unix_def unique_routes_def)
  with shape s show ?thesis by (cases s) (auto simp: Cons_eq_map_conv)
qed

theorem token_resolves_to_owner_witness:
  "map_option mu_username (case find_user_by_token (\<lambda>_. True) token_bytes ''t''
      (snd (create_user (\<lambda>_. True) token_bytes 0 (\<lambda>db. db) demo_input ''t'' empty_management)) of Inl _ \<Rightarrow> None | Inr r \<Rightarrow> r) = Some ''ann''"
proof -
  let ?db = "snd (create_user (\<lambda>_. True) token_bytes 0 (\<lambda>db. db) demo_input ''t'' empty_management)"
  have "management_ok ?db" using create_user_ok [OF empty_management_ok demo_create] by (simp add: demo_create)
  then show ?thesis
    using token_resolves_to_owner [of ?db "''ann''" "the (map_of (md_users ?db) ''ann'')" token_bytes "''t''" "\<lambda>_. True"]
    by (simp add: demo_create null_time_def unix_time_def managed_user_of_def)
qed

text \<open>
  The one-time import sets the revision to 1 whatever it was.  A gateway that runs revision 1 of a
  database without users (an empty database is a valid start) then shows no pending change,
  although users and grants were added.
\<close>

definition demo_legacy :: gateway_config where
  "demo_legacy = \<lparr>gc_inbounds = [], gc_listen = [], gc_tls = \<lparr>tls_cert = [], tls_key = []\<rparr>, gc_obfs = False, gc_quic = None,
     gc_users = [(''bob'', \<lparr>uc_password = ''pw'', uc_disabled = False, uc_expires_at = None, uc_routes = [''direct''],
        uc_max_bytes = 0, uc_speed_limit = 0\<rparr>)], gc_nodes = [], gc_api = \<lparr>ac_listen = [], ac_secret = []\<rparr>,
     gc_admin_listen = [], gc_sub = None, gc_masquerade = None, gc_db_path = [], gc_flush_interval = 0, gc_timezone = [],
     gc_systemd = None\<rparr>"

lemma import_hides_pending_change:
  "let db = run_calls token_bytes (\<lambda>_. Some ''{}'')
       [(\<lambda>_. True, 0, SaveNode ''n'' demo_node True), (\<lambda>_. True, 0, SetActiveRevision 1),
        (\<lambda>_. True, 0, MigrateLegacy demo_legacy (Some (\<lambda>u. u)))] empty_management
   in gkeys (md_users db) = [''bob''] \<and> md_revision db = md_active db"
  by (simp add: run_calls_def save_node_def is_valid_name_def contains_any_def validate_node_def demo_node_def guard_ok_def transact_def
      rbind_def run_stmt_def bump_revision_def empty_management_def set_active_revision_def migrate_legacy_def migrate_legacy_tx_def
      demo_legacy_def validate_legacy_def validate_legacy_user_def insert_legacy_users_def sql_limits_def sql_uint_def
      insert_user_row_def insert_grant_def legacy_migration_def Let_def)

text \<open>
  The routes of a new user are checked before the mutex is taken.  A node deleted in between leaves a
  grant to a node that does not exist.
\<close>

lemma create_user_races_delete_node:
  "let db = snd (save_node (\<lambda>_. True) (\<lambda>_. Some ''{}'') 0 ''n'' demo_node True empty_management);
       race = create_user (\<lambda>_. True) token_bytes 0 (\<lambda>db. snd (delete_node (\<lambda>_. True) ''n'' db)) (demo_input\<lparr>mi_routes := [''n'']\<rparr>) ''t'' db
   in fst race = Inr () \<and> md_grants (snd race) = [(''ann'', ''n'')] \<and> md_nodes (snd race) = []"
  by (simp add: save_node_def is_valid_name_def contains_any_def validate_node_def demo_node_def guard_ok_def transact_def
      rbind_def run_stmt_def bump_revision_def empty_management_def create_user_def demo_input_def validate_routes_def unique_routes_def
      delete_node_def create_user_tx_def sql_limits_def sql_uint_def insert_user_row_def insert_grant_def time_unix_def Let_def)

end
