(* ===== verification/Byte_Quantity.thy ===== *)
theory Byte_Quantity
  imports Calendar Complex_Main
begin

text \<open>
  Byte quantities as people enter and read them: the parser and the printer of the admin forms
  (\<open>api/byte_quantity.go\<close>) and the short form of the subscription
  (\<open>formatSubscriptionBytes\<close> of \<open>api/database_subscription.go\<close>).

  \<open>big.Rat\<close> is the type of rationals, with numerator and denominator in lowest terms.  A \<open>float64\<close> that holds a
  64-bit count divided by powers of 1024 is the rounded count and the number of divisions, which
  lose nothing.
\<close>

section \<open>The admin forms\<close>

definition unit_factor :: "string \<Rightarrow> int option" where
  "unit_factor u =
     (if u = [] \<or> u = ''B'' then Some 1
      else if u = ''KB'' then Some (2 ^ 10)
      else if u = ''MB'' then Some (2 ^ 20)
      else if u = ''GB'' then Some (2 ^ 30)
      else None)"

text \<open>The digits before and after the first dot.\<close>

definition split_decimal :: "string \<Rightarrow> string \<times> string option" where
  "split_decimal s =
     (case index_byte s CHR ''.'' of None \<Rightarrow> (s, None) | Some i \<Rightarrow> (take i s, Some (drop (i + 1) s)))"

definition byte_quantity_pattern :: "string \<Rightarrow> bool" where
  "byte_quantity_pattern s =
     (case split_decimal s of
        (a, None) \<Rightarrow> a \<noteq> [] \<and> list_all is_digit a
      | (a, Some b) \<Rightarrow> list_all is_digit a \<and> list_all is_digit b \<and> (a \<noteq> [] \<or> b \<noteq> []))"

text \<open>\<open>big.Rat.SetString\<close> on a decimal that matches the pattern.\<close>

definition decimal_rat :: "string \<Rightarrow> rat" where
  "decimal_rat s =
     (case split_decimal s of
        (a, None) \<Rightarrow> of_nat (decimal_value a)
      | (a, Some b) \<Rightarrow> of_nat (decimal_value (a @ b)) / 10 ^ length b)"

datatype quantity_error = UnknownUnit | NotANumber | OutOfRange

definition parse_byte_quantity :: "string \<Rightarrow> string \<Rightarrow> (quantity_error, u64) result" where
  "parse_byte_quantity value u =
     (case unit_factor u of
        None \<Rightarrow> Inl UnknownUnit
      | Some multiplier \<Rightarrow>
          let v = trim_space value in
          if v = [] then Inr 0
          else if length v > 64 \<or> \<not> byte_quantity_pattern v then Inl NotANumber
          else
            (let quantity = decimal_rat v * of_int multiplier;
                 (num, denom) = quotient_of quantity;
                 whole = num div denom;
                 whole' = (if num mod denom \<noteq> 0 then whole + 1 else whole)
             in if \<not> (- (2 ^ 63) \<le> whole' \<and> whole' < 2 ^ 63) then Inl OutOfRange else Inr (of_int whole')))"

text \<open>\<open>big.Rat.FloatString\<close>: rounded to the nearest, halves away from zero; the argument is not negative.\<close>

definition float_string :: "nat \<Rightarrow> rat \<Rightarrow> string" where
  "float_string prec x =
     (case quotient_of x of (num, denom) \<Rightarrow>
        if denom = 1 then format_uint (nat num) @ ''.'' @ replicate prec CHR ''0''
        else
          (let q = num div denom; r = num mod denom;
               p = 10 ^ prec;
               r1 = (r * p) div denom; r2 = (r * p) mod denom;
               (q', r') = (if denom \<le> r2 + r2 then (if p \<le> r1 + 1 then (q + 1, r1 + 1 - p) else (q, r1 + 1)) else (q, r1))
           in format_uint (nat q') @ ''.'' @ pad_zero prec (format_uint (nat r'))))"

definition trim_right_char :: "char \<Rightarrow> string \<Rightarrow> string" where
  "trim_right_char c s = trim_right (\<lambda>d. d = c) s"

definition format_megabytes :: "u64 \<Rightarrow> string" where
  "format_megabytes value = trim_right_char CHR ''.'' (trim_right_char CHR ''0'' (float_string 20 (of_int (uint value) / of_int (2 ^ 20))))"

section \<open>The subscription\<close>

text \<open>\<open>float64(value)\<close>: the nearest number with 53 significant bits, ties to even.\<close>

definition round_half_even :: "nat \<Rightarrow> nat \<Rightarrow> nat" where
  "round_half_even a b = (let q = a div b; r = a mod b in if b < 2 * r \<or> (2 * r = b \<and> odd q) then q + 1 else q)"

fun surplus_bits :: "nat \<Rightarrow> nat" where
  "surplus_bits n = (if n < 2 ^ 53 then 0 else Suc (surplus_bits (n div 2)))"

declare surplus_bits.simps [simp del]

definition float64_of :: "nat \<Rightarrow> nat" where
  "float64_of n = round_half_even n (2 ^ surplus_bits n) * 2 ^ surplus_bits n"

definition byte_units :: "string list" where
  "byte_units = [''B'', ''KB'', ''MB'', ''GB'', ''TB'', ''PB'', ''EB'']"

text \<open>The value after \<open>unit\<close> divisions is \<open>m / 1024 ^ unit\<close>.\<close>

function scale_unit :: "nat \<Rightarrow> nat \<Rightarrow> nat" where
  "scale_unit m unit = (if 1024 ^ (unit + 1) \<le> m \<and> unit < length byte_units - 1 then scale_unit m (unit + 1) else unit)"
  by pat_completeness auto
termination by (relation "measure (\<lambda>(m, unit). length byte_units - unit)") auto

declare scale_unit.simps [simp del]

text \<open>\<open>strconv.FormatFloat\<close> with the format \<open>f\<close>: the exact decimal, rounded half to even.\<close>

definition format_fixed :: "nat \<Rightarrow> nat \<Rightarrow> nat \<Rightarrow> string" where
  "format_fixed precision m unit =
     (let n = round_half_even (m * 10 ^ precision) (1024 ^ unit)
      in format_uint (n div 10 ^ precision) @
         (if precision = 0 then [] else ''.'' @ pad_zero precision (format_uint (n mod 10 ^ precision))))"

definition unit_number :: "nat \<Rightarrow> nat \<Rightarrow> string" where
  "unit_number m unit =
     (let precision = (if 0 < unit \<and> m < 100 * 1024 ^ unit then 1 else 0);
          number = format_fixed precision m unit
      in if 0 < precision then trim_suffix number ''.0'' else number)"

function number_and_unit :: "nat \<Rightarrow> nat \<Rightarrow> string \<times> nat" where
  "number_and_unit m unit =
     (if unit_number m unit = ''1024'' \<and> unit < length byte_units - 1 then number_and_unit m (unit + 1) else (unit_number m unit, unit))"
  by pat_completeness auto
termination by (relation "measure (\<lambda>(m, unit). length byte_units - unit)") auto

declare number_and_unit.simps [simp del]

definition format_subscription_bytes :: "u64 \<Rightarrow> string" where
  "format_subscription_bytes value =
     (let m = float64_of (unat value);
          (number, unit) = number_and_unit m (scale_unit m 0)
      in number @ byte_units ! unit)"

section \<open>Parsing rounds up\<close>

lemma quotient_ceiling:
  assumes "quotient_of x = (num, denom)"
  shows "(if num mod denom \<noteq> 0 then num div denom + 1 else num div denom) = \<lceil>x\<rceil>"
proof -
  have d: "0 < denom" using assms by (rule quotient_of_denom_pos)
  have x: "x = of_int num / of_int denom" using assms by (rule quotient_of_div)
  have "num = denom * (num div denom) + num mod denom" by simp
  then have xq: "x = of_int (num div denom) + of_int (num mod denom) / of_int denom"
    using d by (metis x add_divide_distrib nonzero_mult_div_cancel_left of_int_0_less_iff of_int_add of_int_mult less_irrefl)
  have r: "0 \<le> num mod denom" "num mod denom < denom" using d by simp_all
  show ?thesis
  proof (cases "num mod denom = 0")
    case True
    then show ?thesis by (simp add: xq)
  next
    case False
    with r have "0 < num mod denom" by linarith
    then have "0 < (of_int (num mod denom) / of_int denom :: rat)" "(of_int (num mod denom) / of_int denom :: rat) < 1"
      using d r(2) by (simp_all only: of_int_0_less_iff zero_less_divide_iff divide_less_eq_1_pos of_int_less_iff simp_thms)
    then have "\<lceil>x\<rceil> = num div denom + 1" unfolding xq by (intro ceiling_unique) auto
    with False show ?thesis by simp
  qed
qed

lemma parse_byte_quantity_eq:
  assumes "unit_factor u = Some f" and "trim_space value = v" and "v \<noteq> []" and "length v \<le> 64" and "byte_quantity_pattern v"
  shows "parse_byte_quantity value u =
     (let whole = \<lceil>decimal_rat v * of_int f\<rceil> in if - (2 ^ 63) \<le> whole \<and> whole < 2 ^ 63 then Inr (of_int whole) else Inl OutOfRange)"
proof -
  obtain num denom where q: "quotient_of (decimal_rat v * of_int f) = (num, denom)" by (metis surj_pair)
  show ?thesis using assms unfolding parse_byte_quantity_def by (simp add: q Let_def quotient_ceiling [OF q, symmetric])
qed

lemma decimal_rat_nonneg: "0 \<le> decimal_rat s"
  by (simp add: decimal_rat_def split: prod.split option.split)

lemma parse_byte_quantity_Inr:
  assumes "parse_byte_quantity value u = Inr w" and "trim_space value \<noteq> []"
  shows "\<exists>f. unit_factor u = Some f \<and> length (trim_space value) \<le> 64 \<and> byte_quantity_pattern (trim_space value)"
  using assms by (auto simp: parse_byte_quantity_def Let_def not_less split: option.split_asm if_split_asm)

lemma unit_factor_pos: "unit_factor u = Some f \<Longrightarrow> 0 < f"
  by (auto simp: unit_factor_def split: if_split_asm)

lemma parsed_quantity:
  assumes "parse_byte_quantity value u = Inr w" and "trim_space value \<noteq> []"
  shows "uint w = \<lceil>decimal_rat (trim_space value) * of_int (the (unit_factor u))\<rceil> \<and> uint w < 2 ^ 63"
proof -
  let ?v = "trim_space value"
  from parse_byte_quantity_Inr [OF assms] obtain f where f: "unit_factor u = Some f" "length ?v \<le> 64" "byte_quantity_pattern ?v" by blast
  let ?w = "\<lceil>decimal_rat ?v * of_int f\<rceil>"
  have "0 \<le> decimal_rat ?v * of_int f" using unit_factor_pos [OF f(1)] decimal_rat_nonneg [of ?v] by (simp add: zero_le_mult_iff)
  then have nonneg: "0 \<le> ?w" by simp
  from assms(1) have "?w < 2 ^ 63" "w = of_int ?w"
    unfolding parse_byte_quantity_eq [OF f(1) refl assms(2) f(2,3)] by (simp_all add: Let_def split: if_split_asm)
  with nonneg f(1) show ?thesis by (simp add: uint_word_of_int_eq take_bit_int_eq_self)
qed

text \<open>Entered quantities are rounded up, exactly.  A quantity that the form accepts is stored as the exact value of the decimal in
  its unit, rounded up to whole bytes, and below the range of the database column; so a limit
  that is positive as entered is never stored as zero, which would mean unlimited.\<close>

theorem byte_quantity_rounds_up:
  assumes "parse_byte_quantity value u = Inr w" and "trim_space value \<noteq> []"
  shows "uint w = \<lceil>decimal_rat (trim_space value) * of_int (the (unit_factor u))\<rceil> \<and> uint w < 2 ^ 63 \<and>
    (w = 0 \<longleftrightarrow> decimal_rat (trim_space value) = 0)"
proof -
  from parse_byte_quantity_Inr [OF assms] obtain f where f: "unit_factor u = Some f" by blast
  note unit_factor_pos [OF f] and eq = parsed_quantity [OF assms, unfolded f option.sel]
  moreover have "w = 0 \<longleftrightarrow> uint w = 0" by (simp add: uint_0_iff)
  moreover have "\<lceil>decimal_rat (trim_space value) * of_int f\<rceil> = 0 \<longleftrightarrow> decimal_rat (trim_space value) = 0"
  proof
    assume "\<lceil>decimal_rat (trim_space value) * of_int f\<rceil> = 0"
    then have "decimal_rat (trim_space value) * of_int f \<le> 0" using le_of_int_ceiling [of "decimal_rat (trim_space value) * of_int f"] by simp
    with decimal_rat_nonneg [of "trim_space value"] \<open>0 < f\<close> show "decimal_rat (trim_space value) = 0" by (auto simp: mult_le_0_iff)
  qed simp
  ultimately show ?thesis unfolding f option.sel by presburger
qed

section \<open>Printing and parsing again\<close>

lemma decimal_value_append: "decimal_value (a @ b) = decimal_value a * 10 ^ length b + decimal_value b"
proof (induction b rule: rev_induct)
  case (snoc c b)
  then show ?case by (simp only: append_assoc [symmetric] decimal_value_snoc) (simp add: algebra_simps)
qed (simp add: decimal_value_def)

lemma decimal_value_zeros_right: "decimal_value (a @ replicate k CHR ''0'') = decimal_value a * 10 ^ k"
  using decimal_value_zeros [of k "[]"] by (simp add: decimal_value_append) (simp add: decimal_value_def)

lemma format_uint_length: "n < 10 ^ k \<Longrightarrow> length (format_uint n) \<le> max 1 k"
proof (induction n arbitrary: k rule: format_uint.induct)
  case (1 n)
  show ?case
  proof (cases "n < 10")
    case False
    with "1.prems" obtain j where k: "k = Suc j" by (cases k) auto
    have "n div 10 < 10 ^ j" using "1.prems" k by (intro less_mult_imp_div_less) simp
    with "1.IH" [of j] False have "length (format_uint (n div 10)) \<le> max 1 j" by simp
    moreover have "j \<noteq> 0" using "1.prems" k False by (cases j) auto
    ultimately show ?thesis using False k by (simp add: format_uint.simps [of n])
  qed (simp add: format_uint.simps [of n])
qed

lemma pad_zero_length: "length s \<le> w \<Longrightarrow> length (pad_zero w s) = w"
  by (simp add: pad_zero_def)

lemma is_digit_zero [simp]: "is_digit CHR ''0''"
  by (simp add: is_digit_def char_le_def)

lemma pad_zero_digits: "list_all is_digit (pad_zero w (format_uint n))"
  using format_uint_digits [of _ n] by (auto simp: pad_zero_def list_all_iff)

lemma trim_right_char_snoc: "trim_right_char c (s @ [c]) = trim_right_char c s"
  by (simp add: trim_right_char_def trim_right_snoc)

lemma trim_right_char_split: "\<exists>k. s = trim_right_char c s @ replicate k c"
proof -
  have "rev s = takeWhile (\<lambda>d. d = c) (rev s) @ dropWhile (\<lambda>d. d = c) (rev s)" by simp
  then have "s = trim_right_char c s @ rev (takeWhile (\<lambda>d. d = c) (rev s))" unfolding trim_right_char_def trim_right_def by (metis rev_append rev_rev_ident)
  moreover have "takeWhile (\<lambda>d. d = c) xs = replicate (length (takeWhile (\<lambda>d. d = c) xs)) c" for xs
    by (induction xs) auto
  ultimately show ?thesis by (metis rev_replicate)
qed

lemma trim_right_char_last: "trim_right_char c s \<noteq> [] \<Longrightarrow> last (trim_right_char c s) \<noteq> c"
  unfolding trim_right_char_def trim_right_def by (metis (full_types) hd_dropWhile last_rev rev.simps(1))

lemma trim_right_char_id: "last s \<noteq> c \<Longrightarrow> trim_right_char c s = s"
  unfolding trim_right_char_def trim_right_def by (cases s rule: rev_cases) auto

lemma trim_right_char_append: "trim_right_char c b \<noteq> [] \<Longrightarrow> trim_right_char c (a @ b) = a @ trim_right_char c b"
  unfolding trim_right_char_def trim_right_def by (auto simp: dropWhile_append)

lemma trim_right_char_all: "trim_right_char c b = [] \<Longrightarrow> trim_right_char c (a @ b) = trim_right_char c a"
  unfolding trim_right_char_def trim_right_def by (auto simp: dropWhile_append)

lemma split_decimal_dot: "CHR ''.'' \<notin> set a \<Longrightarrow> split_decimal (a @ CHR ''.'' # b) = (a, Some b)"
  by (simp add: split_decimal_def index_byte_append)

lemma split_decimal_plain: "CHR ''.'' \<notin> set a \<Longrightarrow> split_decimal a = (a, None)"
  by (simp add: split_decimal_def index_byte_None [THEN iffD2])

lemma digits_no_dot: "list_all is_digit s \<Longrightarrow> CHR ''.'' \<notin> set s"
  by (auto simp: list_all_iff)

text \<open>A decimal whose trailing zeros and then dot are cut denotes the same number.\<close>

lemma trimmed_decimal:
  assumes "list_all is_digit a" "a \<noteq> []" "list_all is_digit b"
  defines "s \<equiv> trim_right_char CHR ''.'' (trim_right_char CHR ''0'' (a @ ''.'' @ b))"
  shows "byte_quantity_pattern s \<and> decimal_rat s = of_nat (decimal_value (a @ b)) / 10 ^ length b \<and>
    s \<noteq> [] \<and> length s \<le> length a + 1 + length b \<and> list_all (\<lambda>c. is_digit c \<or> c = CHR ''.'') s"
proof -
  let ?b = "trim_right_char CHR ''0'' b"
  obtain k where k: "b = ?b @ replicate k CHR ''0''" using trim_right_char_split by blast
  have b_digits: "list_all is_digit ?b" using assms(3) k by (metis list_all_append)
  have val: "of_nat (decimal_value (a @ b)) / 10 ^ length b = (of_nat (decimal_value (a @ ?b)) / 10 ^ length ?b :: rat)"
    by (subst (1 2) k) (simp add: append_assoc [symmetric] decimal_value_zeros_right power_add del: append_assoc)
  have len: "length ?b \<le> length b" by (subst (2) k) simp
  show ?thesis
  proof (cases "?b = []")
    case True
    have "trim_right_char CHR ''0'' (a @ ''.'' @ b) = a @ ''.''"
      using trim_right_char_all [OF True, of "a @ ''.''"] by (simp add: trim_right_char_id)
    moreover have "trim_right_char CHR ''.'' (a @ ''.'') = a"
    proof -
      have "last a \<noteq> CHR ''.''" using assms(1,2) digits_no_dot [OF assms(1)] last_in_set by metis
      then show ?thesis by (simp add: trim_right_char_snoc trim_right_char_id)
    qed
    ultimately have s: "s = a" by (simp add: s_def)
    show ?thesis using assms(1,2) val True digits_no_dot [OF assms(1)]
      by (auto simp: s byte_quantity_pattern_def decimal_rat_def split_decimal_plain list_all_iff)
  next
    case False
    have "trim_right_char CHR ''0'' (a @ ''.'' @ b) = a @ ''.'' @ ?b"
      using trim_right_char_append [OF False, of "a @ ''.''"] by simp
    moreover have "last (a @ ''.'' @ ?b) \<noteq> CHR ''.''"
      using False digits_no_dot [OF b_digits] last_in_set by (metis last_appendR append_is_Nil_conv)
    ultimately have s: "s = a @ CHR ''.'' # ?b" by (simp add: s_def trim_right_char_id)
    show ?thesis using assms(1,2) val len b_digits digits_no_dot [OF assms(1)]
      by (auto simp: s byte_quantity_pattern_def decimal_rat_def split_decimal_dot list_all_iff)
  qed
qed


lemma digit_char_0: "digit_char 0 = CHR ''0''"
  by code_simp

lemma float_string_exact:
  assumes "x = of_nat n + of_nat f / 10 ^ prec" and "f < 10 ^ prec" and "0 < prec"
  shows "float_string prec x = format_uint n @ ''.'' @ pad_zero prec (format_uint f)"
proof -
  obtain num denom where q: "quotient_of x = (num, denom)" by (cases "quotient_of x")
  have d: "0 < denom" using q by (rule quotient_of_denom_pos)
  let ?p = "10 ^ prec :: int"
  have "of_int num = x * of_int denom" using quotient_of_div [OF q] d by simp
  then have "of_int num * 10 ^ prec = (of_nat n * 10 ^ prec + of_nat f) * (of_int denom :: rat)"
    using assms(1) by (simp add: field_simps)
  then have "of_int (num * ?p) = (of_int ((int n * ?p + int f) * denom) :: rat)" by simp
  then have scaled: "num * ?p = (int n * ?p + int f) * denom" by (simp only: of_int_eq_iff)
  have f: "int f < ?p" using assms(2) by (metis of_nat_less_iff of_nat_numeral of_nat_power)
  have "int n * denom \<le> num"
  proof -
    have "int n * denom * ?p \<le> num * ?p" using scaled d by (simp add: algebra_simps)
    then show ?thesis by simp
  qed
  moreover have "num < (int n + 1) * denom"
  proof -
    have "num * ?p < (int n + 1) * denom * ?p" using scaled d f by (simp add: algebra_simps)
    then show ?thesis by simp
  qed
  ultimately have n: "num div denom = int n" using d
    by (intro int_div_pos_eq [of _ _ _ "num - int n * denom"]) (auto simp: algebra_simps)
  have r: "num mod denom * ?p = int f * denom"
    using scaled n by (simp add: minus_div_mult_eq_mod [symmetric] algebra_simps)
  show ?thesis
  proof (cases "denom = 1")
    case True
    with r have "int f = 0" by simp
    moreover obtain m where "prec = Suc m" using assms(3) by (cases prec) auto
    ultimately show ?thesis using n True
      by (simp add: float_string_def q pad_zero_def format_uint.simps [of 0] digit_char_0 replicate_append_same)
  next
    case False
    with r n d show ?thesis by (simp add: float_string_def q Let_def)
  qed
qed


lemma trim_none:
  assumes "\<forall>x \<in> set xs. \<not> p x"
  shows "trim p xs = xs"
proof -
  have "dropWhile p xs = xs" using assms by (cases xs) auto
  moreover have "xs = [] \<or> \<not> p (last xs)" using assms by (cases "xs = []") auto
  ultimately show ?thesis by (simp add: trim_def trim_left_def trim_right_none)
qed

lemma trim_no_space: "list_all (\<lambda>c. is_digit c \<or> c = CHR ''.'') s \<Longrightarrow> trim_space s = s"
  unfolding trim_space_def by (rule trim_none) (auto simp: is_space_def is_digit_def char_le_def list_all_iff)

lemma fraction_bound: "v mod 2 ^ 20 * 5 ^ 20 < (10 ^ 20 :: nat)"
proof -
  have "v mod 2 ^ 20 * 5 ^ 20 < 2 ^ 20 * (5 ^ 20 :: nat)" by simp
  also have "\<dots> = 10 ^ 20" by simp
  finally show ?thesis .
qed

lemma megabytes_exact: "of_nat v / 2 ^ 20 = (of_nat (v div 2 ^ 20) + of_nat (v mod 2 ^ 20 * 5 ^ 20) / 10 ^ 20 :: rat)"
proof -
  have ten: "(10 ^ 20 :: rat) = 2 ^ 20 * 5 ^ 20" by simp
  have "of_nat v = (of_nat (v div 2 ^ 20 * 2 ^ 20 + v mod 2 ^ 20) :: rat)" by simp
  also have "\<dots> = of_nat (v div 2 ^ 20) * 2 ^ 20 + of_nat (v mod 2 ^ 20)" by (simp only: of_nat_add of_nat_mult of_nat_power of_nat_numeral)
  finally have "of_nat v / 2 ^ 20 = (of_nat (v div 2 ^ 20) + of_nat (v mod 2 ^ 20) / 2 ^ 20 :: rat)"
    by (simp only: add_divide_distrib) simp
  then show ?thesis unfolding ten by simp
qed

lemma format_megabytes_eq:
  "format_megabytes w = trim_right_char CHR ''.'' (trim_right_char CHR ''0''
     (format_uint (unat w div 2 ^ 20) @ ''.'' @ pad_zero 20 (format_uint (unat w mod 2 ^ 20 * 5 ^ 20))))"
proof -
  have "float_string 20 (of_nat (unat w) / 2 ^ 20) =
      format_uint (unat w div 2 ^ 20) @ ''.'' @ pad_zero 20 (format_uint (unat w mod 2 ^ 20 * 5 ^ 20))"
    by (rule float_string_exact [OF megabytes_exact fraction_bound]) simp
  moreover have "(of_int (uint w) / of_int (2 ^ 20) :: rat) = of_nat (unat w) / 2 ^ 20" by simp
  ultimately show ?thesis unfolding format_megabytes_def by (simp only:)
qed

lemma megabytes_text:
  "byte_quantity_pattern (format_megabytes w) \<and> decimal_rat (format_megabytes w) = of_nat (unat w) / 2 ^ 20 \<and>
   format_megabytes w \<noteq> [] \<and> length (format_megabytes w) \<le> 64 \<and> trim_space (format_megabytes w) = format_megabytes w"
proof -
  let ?a = "format_uint (unat w div 2 ^ 20)" and ?f = "unat w mod 2 ^ 20 * 5 ^ 20"
  let ?b = "pad_zero 20 (format_uint ?f)"
  have digits: "list_all is_digit ?a" using format_uint_digits by (auto simp: list_all_iff)
  note dec = trimmed_decimal [OF digits format_uint_nonempty pad_zero_digits [of 20 ?f], folded format_megabytes_eq]
  have len_b: "length ?b = 20" using format_uint_length [OF fraction_bound] by (intro pad_zero_length) simp
  have "unat w div 2 ^ 20 \<le> unat w" by simp
  also have "unat w < 2 ^ 64" using unsigned_less [of w] by simp
  also have "(2 ^ 64 :: nat) < 10 ^ 20" by simp
  finally have "length ?a \<le> 20" using format_uint_length by fastforce
  with dec len_b have len: "length (format_megabytes w) \<le> 64" by linarith
  have "decimal_rat (format_megabytes w) = of_nat (unat w div 2 ^ 20 * 10 ^ 20 + ?f) / 10 ^ 20"
    using dec unfolding decimal_value_append len_b decimal_value_format_uint decimal_value_pad_zero by blast
  also have "\<dots> = of_nat (unat w) / 2 ^ 20"
    unfolding megabytes_exact [of "unat w"] of_nat_add add_divide_distrib of_nat_mult of_nat_power of_nat_numeral by simp
  finally show ?thesis using dec len trim_no_space by blast
qed

text \<open>C40: Megabytes shown are megabytes saved.  A stored limit that is shown in the form and saved unchanged keeps every byte: for
  all values that the database can hold, parsing the printed megabytes gives the value back.\<close>

theorem megabytes_roundtrip:
  assumes "w < 2 ^ 63"
  shows "parse_byte_quantity (format_megabytes w) ''MB'' = Inr w"
proof -
  have unit: "unit_factor ''MB'' = Some (2 ^ 20)" by (simp add: unit_factor_def)
  have v: "uint w < 2 ^ 63" using assms by (simp add: word_less_def)
  have "decimal_rat (format_megabytes w) * of_int (2 ^ 20) = of_int (uint w)" using megabytes_text [of w] by simp
  then have ceil: "\<lceil>decimal_rat (format_megabytes w) * of_int (2 ^ 20)\<rceil> = uint w" by (simp only: ceiling_of_int)
  from megabytes_text [of w]
  have "trim_space (format_megabytes w) = format_megabytes w" "format_megabytes w \<noteq> []" "length (format_megabytes w) \<le> 64"
    "byte_quantity_pattern (format_megabytes w)" by simp_all
  from parse_byte_quantity_eq [OF unit this] show ?thesis unfolding ceil Let_def using v uint_ge_0 [of w] by simp
qed

theorem byte_quantity_rounds_up_witness:
  "uint (3072 :: u64) = \<lceil>decimal_rat ''3'' * of_int (2 ^ 10)\<rceil>"
proof -
  have "parse_byte_quantity '' 3'' ''KB'' = Inr 3072" and v: "trim_space '' 3'' = ''3''" by code_simp+
  from byte_quantity_rounds_up [OF this(1)] show ?thesis unfolding v by (simp add: unit_factor_def)
qed

theorem megabytes_roundtrip_witness: "parse_byte_quantity (format_megabytes 1572864) ''MB'' = Inr 1572864"
  by (rule megabytes_roundtrip) simp

section \<open>Short counts\<close>

lemma round_half_even_le:
  assumes "a \<le> k * b" and "0 < b"
  shows "round_half_even a b \<le> k"
proof (cases "a div b = k")
  case True
  with assms have "a mod b = 0" by (metis add_le_cancel_left div_mult_mod_eq le_zero_eq add.right_neutral)
  with True assms(2) show ?thesis by (simp add: round_half_even_def Let_def)
next
  case False
  have "a div b \<le> k" using assms by (metis div_le_mono div_mult_self_is_m)
  with False have "a div b < k" by simp
  then show ?thesis by (simp add: round_half_even_def Let_def)
qed

lemma scale_unit_bound:
  "m \<le> 2 ^ 64 \<Longrightarrow> unit \<le> 6 \<Longrightarrow> scale_unit m unit \<le> 6 \<and> m < 1024 ^ (scale_unit m unit + 1)"
proof (induction m unit rule: scale_unit.induct)
  case (1 m unit)
  show ?case
  proof (cases "1024 ^ (unit + 1) \<le> m \<and> unit < length byte_units - 1")
    case True
    then have "scale_unit m unit = scale_unit m (unit + 1)" by (simp add: scale_unit.simps [of m unit])
    moreover have "unit + 1 \<le> 6" using True by (simp add: byte_units_def)
    ultimately show ?thesis using "1.IH" [OF True "1.prems"(1)] by simp
  next
    case False
    then have eq: "scale_unit m unit = unit" unfolding scale_unit.simps [of m unit] by (simp only: if_False)
    have "m < 1024 ^ (unit + 1)"
    proof (cases "unit = 6")
      case True
      with "1.prems"(1) show ?thesis by simp
    next
      assume "unit \<noteq> 6"
      with False "1.prems"(2) show ?thesis by (auto simp: byte_units_def not_le)
    qed
    with eq "1.prems"(2) show ?thesis by simp
  qed
qed


lemma unit_number_short:
  assumes "m < 1024 ^ (unit + 1)"
  shows "length (unit_number m unit) \<le> 4"
proof (cases "0 < unit \<and> m < 100 * 1024 ^ unit")
  case False
  let ?n = "round_half_even m (1024 ^ unit)"
  have "m \<le> 1024 * 1024 ^ unit" using assms by simp
  then have "?n \<le> 1024" by (rule round_half_even_le) simp
  then have "length (format_uint ?n) \<le> 4" using format_uint_length [of ?n 4] by simp
  moreover have "unit_number m unit = format_uint ?n"
    unfolding unit_number_def if_not_P [OF False] by (simp add: format_fixed_def Let_def)
  ultimately show ?thesis by simp
next
  case True
  let ?n = "round_half_even (m * 10) (1024 ^ unit)"
  have "m * 10 \<le> 1000 * 1024 ^ unit" using True by simp
  then have n: "?n \<le> 1000" by (rule round_half_even_le) simp
  have number: "unit_number m unit = trim_suffix (format_uint (?n div 10) @ ''.'' @ pad_zero 1 (format_uint (?n mod 10))) ''.0''"
    using True by (simp add: unit_number_def format_fixed_def Let_def)
  have frac: "length (pad_zero 1 (format_uint (?n mod 10))) = 1"
    using format_uint_length [of "?n mod 10" 1] by (intro pad_zero_length) simp
  show ?thesis
  proof (cases "?n = 1000")
    case True
    have "unit_number m unit = ''100''" unfolding number True by code_simp
    then show ?thesis by simp
  next
    case False
    with n have "?n div 10 < 10 ^ 2" by simp
    from format_uint_length [OF this] frac show ?thesis by (simp add: number trim_suffix_def)
  qed
qed

lemma number_and_unit_short:
  "m < 1024 ^ (unit + 1) \<Longrightarrow> unit \<le> 6 \<Longrightarrow> number_and_unit m unit = (number, k) \<Longrightarrow> length number \<le> 4 \<and> k \<le> 6"
proof (induction m unit rule: number_and_unit.induct)
  case (1 m unit)
  show ?case
  proof (cases "unit_number m unit = ''1024'' \<and> unit < length byte_units - 1")
    case True
    have "number_and_unit m (unit + 1) = (number, k)"
      using "1.prems"(3) unfolding number_and_unit.simps [of m unit] if_P [OF True] .
    moreover have "m < 1024 ^ (unit + 1 + 1)" using "1.prems"(1) by (rule order.strict_trans) simp
    moreover have "unit + 1 \<le> 6" using True by (simp add: byte_units_def)
    ultimately show ?thesis by (intro "1.IH" [OF True])
  next
    case False
    have "number = unit_number m unit" "k = unit"
      using "1.prems"(3) unfolding number_and_unit.simps [of m unit] if_not_P [OF False] by auto
    with unit_number_short [OF "1.prems"(1)] "1.prems"(2) show ?thesis by simp
  qed
qed

lemma surplus_bits_bound: "n < 2 ^ (53 + k) \<Longrightarrow> surplus_bits n \<le> k"
proof (induction k arbitrary: n)
  case (Suc k)
  have "n div 2 < 2 ^ (53 + k)" using Suc.prems by (intro less_mult_imp_div_less) (simp only: add_Suc_right power_Suc2)
  from Suc.IH [OF this] show ?case by (simp add: surplus_bits.simps [of n])
qed (simp add: surplus_bits.simps)

lemma float64_of_bound:
  assumes "n < 2 ^ 64"
  shows "float64_of n \<le> 2 ^ 64"
proof -
  let ?e = "surplus_bits n"
  have e: "?e \<le> 11" using assms by (intro surplus_bits_bound) simp
  have split: "(2 :: nat) ^ 64 = 2 ^ (64 - ?e) * 2 ^ ?e" unfolding power_add [symmetric] using e by simp
  have "n \<le> 2 ^ (64 - ?e) * 2 ^ ?e" unfolding split [symmetric] using assms by simp
  from round_half_even_le [OF this] have "round_half_even n (2 ^ ?e) \<le> 2 ^ (64 - ?e)" by simp
  then have "float64_of n \<le> 2 ^ (64 - ?e) * 2 ^ ?e" unfolding float64_of_def by (intro mult_right_mono) simp_all
  then show ?thesis unfolding split [symmetric] .
qed

text \<open>Counts fit narrow client lists.  The short form of any count is a number of at most four characters, decimal point included,
  followed by one of the units.\<close>

theorem subscription_bytes_short:
  "list_ex (\<lambda>unit. has_suffix (format_subscription_bytes w) unit \<and> length (format_subscription_bytes w) \<le> 4 + length unit) byte_units"
proof -
  let ?m = "float64_of (unat w)"
  obtain number k where nk: "number_and_unit ?m (scale_unit ?m 0) = (number, k)" by (cases "number_and_unit ?m (scale_unit ?m 0)")
  have "?m \<le> 2 ^ 64" using unsigned_less [of w] by (intro float64_of_bound) simp
  from scale_unit_bound [OF this, of 0] have "scale_unit ?m 0 \<le> 6" "?m < 1024 ^ (scale_unit ?m 0 + 1)" by simp_all
  from number_and_unit_short [OF this(2,1) nk] have "length number \<le> 4" "k < length byte_units" by (simp_all add: byte_units_def)
  moreover have "format_subscription_bytes w = number @ byte_units ! k" by (simp add: format_subscription_bytes_def nk Let_def)
  ultimately show ?thesis unfolding list_ex_iff has_suffix_def
    by (intro bexI [of _ "byte_units ! k"]) simp_all
qed

end
