(* ===== verification/Subscription.thy ===== *)
theory Subscription
  imports Management Byte_Quantity
begin

text \<open>
  The subscription service (\<open>api/database_subscription.go\<close>): a bearer token in the path selects a user,
  and the answer is a client configuration with one proxy for each of the user's routes and each
  published endpoint.

  The live user record comes from \<open>Management\<close>, the usage from \<open>Traffic_Store\<close>; routes and nodes are those the
  process loaded at its start.  The YAML encoder is an argument, and so is the time zone database: a
  location is the bounds of its months and its printed dates.  Text outside ASCII is given by its UTF-8
  bytes.  A call that does not return is \<open>None\<close>.
\<close>

section \<open>Data\<close>

record location =
  lc_months :: month_fn
  lc_date :: "go_time \<Rightarrow> string"

text \<open>A location with a constant offset from UTC; dates are printed as \<open>2006-01-02\<close>.\<close>

definition fixed_date :: "int \<Rightarrow> go_time \<Rightarrow> string" where
  "fixed_date offset t =
     (let day = (t + offset * second) div day_ns; i = month_index day
      in month_label i @ ''-'' @ pad_zero 2 (format_uint (nat (day - month_start i + 1))))"

definition fixed_location :: "int \<Rightarrow> location" where
  "fixed_location offset = \<lparr>lc_months = fixed_zone offset, lc_date = fixed_date offset\<rparr>"

record subscription_handler =
  sh_cfg :: gateway_config
  sh_active_routes :: "(string, string list) gomap"
  sh_nodes :: "(string, node_config) gomap"
  sh_location :: location

record client_endpoint =
  ep_published :: subscription_endpoint
  ep_type :: string
  ep_server :: string
  ep_port :: int
  ep_alpn :: "string list"

record managed_proxy =
  mp_name :: string
  mp_type :: string
  mp_server :: string
  mp_port :: int
  mp_auth :: string
  mp_sni :: string
  mp_insecure :: "bool option"
  mp_udp :: bool
  mp_alpn :: "string list"

record managed_proxy_group =
  pg_name :: string
  pg_type :: string
  pg_proxies :: "string list"
  pg_default :: string

record managed_clash_config =
  cl_ipv6 :: bool
  cl_log_level :: string
  cl_mode :: string
  cl_mixed_port :: int
  cl_proxies :: "managed_proxy list"
  cl_groups :: "managed_proxy_group list"
  cl_rules :: "string list"

record sub_response =
  sr_disposition :: string
  sr_userinfo :: string
  sr_body :: string

datatype http_response = HttpError nat string | HttpOk sub_response

section \<open>Text\<close>

definition utf8_usage :: string where "utf8_usage = string_of_bytes [0xE6, 0xB5, 0x81, 0xE9, 0x87, 0x8F, 0x3A, 0x20]"
definition utf8_unlimited :: string where "utf8_unlimited = string_of_bytes [0xE4, 0xB8, 0x8D, 0xE9, 0x99, 0x90]"
definition utf8_expires :: string where "utf8_expires = string_of_bytes [0xE5, 0x88, 0xB0, 0xE6, 0x9C, 0x9F, 0x3A, 0x20]"
definition utf8_forever :: string where
  "utf8_forever = string_of_bytes [0xE9, 0x95, 0xBF, 0xE6, 0x9C, 0x9F, 0xE6, 0x9C, 0x89, 0xE6, 0x95, 0x88]"
definition utf8_expired :: string where
  "utf8_expired = string_of_bytes [0xE5, 0xB7, 0xB2, 0xE5, 0x88, 0xB0, 0xE6, 0x9C, 0x9F, 0x3A, 0x20]"
definition utf8_group :: string where
  "utf8_group = string_of_bytes [0xE8, 0xA7, 0x84, 0xE5, 0x88, 0x99, 0xE4, 0xBB, 0xA3, 0xE7, 0x90, 0x86]"

definition format_int :: "int \<Rightarrow> string" where
  "format_int i = (if i < 0 then ''-'' else []) @ format_uint (nat \<bar>i\<bar>)"

text \<open>
  \<open>mime.FormatMediaType\<close> for the one parameter \<open>filename\<close>: percent-encoded as RFC 2231 asks when a character is
  outside printable ASCII, bare when it is a token, else a quoted string.
\<close>

definition is_tspecial :: "char \<Rightarrow> bool" where
  "is_tspecial c \<longleftrightarrow> c \<in> set ''()<>@,;:\"/[]?='' \<or> c = CHR 0x5C"

definition is_token_char :: "char \<Rightarrow> bool" where
  "is_token_char c \<longleftrightarrow> 0x20 < (of_char c :: nat) \<and> (of_char c :: nat) < 0x7F \<and> \<not> is_tspecial c"

definition needs_encoding :: "string \<Rightarrow> bool" where
  "needs_encoding s \<longleftrightarrow> list_ex (\<lambda>c. ((of_char c :: nat) < 0x20 \<or> 0x7E < (of_char c :: nat)) \<and> c \<noteq> CHR 0x09) s"

definition upper_hex :: "nat \<Rightarrow> char" where
  "upper_hex n = ''0123456789ABCDEF'' ! n"

definition percent_encode :: "string \<Rightarrow> string" where
  "percent_encode s =
     concat (map (\<lambda>c. if (of_char c :: nat) \<le> 0x20 \<or> 0x7F \<le> (of_char c :: nat) \<or> c \<in> set ''*%'' \<or> c = CHR 0x27 \<or> is_tspecial c
                      then [CHR ''%'', upper_hex (of_char c div 16), upper_hex (of_char c mod 16)] else [c]) s)"

definition quote_value :: "string \<Rightarrow> string" where
  "quote_value s = [CHR 0x22] @ concat (map (\<lambda>c. if c = CHR 0x22 \<or> c = CHR 0x5C then [CHR 0x5C, c] else [c]) s) @ [CHR 0x22]"

definition attachment_header :: "string \<Rightarrow> string" where
  "attachment_header filename =
     ''attachment; filename'' @
     (if needs_encoding filename then ''*=utf-8'' @ [CHR 0x27, CHR 0x27] @ percent_encode filename
      else if filename \<noteq> [] \<and> list_all is_token_char filename then ''='' @ filename
      else ''='' @ quote_value filename)"

fun join_strings :: "string \<Rightarrow> string list \<Rightarrow> string" where
  "join_strings sep [] = []"
| "join_strings sep [s] = s"
| "join_strings sep (s # ss) = s @ sep @ join_strings sep ss"

section \<open>Proxy names\<close>

text \<open>The loop of \<open>uniqueProxyName\<close>: nothing in its text bounds it.\<close>

partial_function (option) proxy_name_loop :: "string \<Rightarrow> string list \<Rightarrow> nat \<Rightarrow> string \<Rightarrow> string option" where
  "proxy_name_loop base used suffix name =
     (if name \<notin> set used then Some name
      else proxy_name_loop base used (suffix + 1) (base @ '' ('' @ format_uint suffix @ '')''))"

definition unique_proxy_name :: "string \<Rightarrow> string list \<Rightarrow> (string \<times> string list) option" where
  "unique_proxy_name base used = map_option (\<lambda>name. (name, name # used)) (proxy_name_loop base used 2 base)"

definition reserved_names :: "string list" where
  "reserved_names = [''DIRECT'', ''REJECT'', ''REJECT-DROP'', ''PASS'', ''COMPATIBLE'', ''GLOBAL'', utf8_group]"

section \<open>The handler\<close>

definition new_subscription_handler ::
  "(string \<Rightarrow> location option) \<Rightarrow> gateway_config \<Rightarrow> (string, user_config) gomap \<Rightarrow> (string, node_config) gomap \<Rightarrow> subscription_handler"
where
  "new_subscription_handler load_location cfg users nodes =
     \<lparr>sh_cfg = cfg, sh_active_routes = gmap_values (\<lambda>_. uc_routes) users, sh_nodes = nodes,
      sh_location = (if gc_timezone cfg = [] then fixed_location 0
                     else (case load_location (gc_timezone cfg) of None \<Rightarrow> fixed_location 0 | Some l \<Rightarrow> l))\<rparr>"

definition endpoint_of :: "(string, inbound) gomap \<Rightarrow> subscription_endpoint \<Rightarrow> client_endpoint option" where
  "endpoint_of inbounds published =
     (case map_of inbounds (se_inbound published) of
        None \<Rightarrow> None
      | Some ib \<Rightarrow>
          if ib_type ib \<noteq> hysteria2_type \<and> ib_type ib \<noteq> trojan_type then None
          else (case split_host_port (se_server_addr published) of
                  Inl _ \<Rightarrow> None
                | Inr (host, raw_port) \<Rightarrow>
                    if host = [] \<or> (case parse_ip host of None \<Rightarrow> False | Some ip \<Rightarrow> ip_is_unspecified ip) then None
                    else (case atoi raw_port of
                            None \<Rightarrow> None
                          | Some port \<Rightarrow>
                              if port < 1 \<or> 65535 < port then None
                              else Some \<lparr>ep_published = published, ep_type = ib_type ib, ep_server = host, ep_port = port,
                                     ep_alpn = (if ib_type ib = trojan_type \<and> (case ib_trojan ib of None \<Rightarrow> False | Some t \<Rightarrow> ti_fallback t \<noteq> None)
                                                then [''http/1.1''] else [])\<rparr>)))"

fun endpoints_of :: "(string, inbound) gomap \<Rightarrow> subscription_endpoint list \<Rightarrow> client_endpoint list option" where
  "endpoints_of inbounds [] = Some []"
| "endpoints_of inbounds (p # ps) =
     (case endpoint_of inbounds p of
        None \<Rightarrow> None
      | Some e \<Rightarrow> map_option (\<lambda>es. e # es) (endpoints_of inbounds ps))"

definition subscription_endpoints :: "gateway_config \<Rightarrow> client_endpoint list option" where
  "subscription_endpoints cfg =
     (case endpoints_of (foldl (\<lambda>m ib. gput (ib_name ib) ib m) [] (gc_inbounds cfg)) (client_endpoints (gc_sub cfg)) of
        None \<Rightarrow> None
      | Some es \<Rightarrow> if es = [] then None else Some es)"

definition usage_text :: "u64 \<Rightarrow> u64 \<Rightarrow> u64 \<Rightarrow> string" where
  "usage_text tx rx monthly =
     utf8_usage @ format_subscription_bytes (tx + rx) @ '' / '' @
     (if 0 < monthly then format_subscription_bytes monthly else utf8_unlimited)"

definition expiry_text :: "location \<Rightarrow> go_time \<Rightarrow> go_time option \<Rightarrow> string" where
  "expiry_text loc now expires =
     (case expires of
        None \<Rightarrow> utf8_expires @ utf8_forever
      | Some t \<Rightarrow> (if \<not> now < t then utf8_expired else utf8_expires) @ lc_date loc t)"

definition info_proxy :: "string \<Rightarrow> managed_proxy" where
  "info_proxy name =
     \<lparr>mp_name = name, mp_type = ''reject'', mp_server = [], mp_port = 0, mp_auth = [], mp_sni = [], mp_insecure = None, mp_udp = False, mp_alpn = []\<rparr>"

definition proxy_base_name :: "client_endpoint list \<Rightarrow> string \<Rightarrow> client_endpoint \<Rightarrow> string" where
  "proxy_base_name endpoints alias e =
     alias @ (if 1 < length endpoints \<or> ep_type e = trojan_type then ''-'' @ ep_type e else []) @
     (if 1 < length (filter (\<lambda>f. ep_type f = ep_type e) endpoints) then ''-'' @ se_inbound (ep_published e) else [])"

definition route_proxy :: "managed_user \<Rightarrow> string \<Rightarrow> client_endpoint \<Rightarrow> string \<Rightarrow> managed_proxy" where
  "route_proxy user route e name =
     \<lparr>mp_name = name, mp_type = ep_type e, mp_server = ep_server e, mp_port = ep_port e,
      mp_auth = mu_username user @ '':'' @ route @ '':'' @ mu_password user, mp_sni = se_sni (ep_published e),
      mp_insecure = Some (se_insecure (ep_published e)), mp_udp = (ep_type e = trojan_type), mp_alpn = ep_alpn e\<rparr>"

text \<open>The inner loop over the endpoints of a route, with the names used so far.\<close>

fun endpoint_proxies ::
  "managed_user \<Rightarrow> client_endpoint list \<Rightarrow> string \<Rightarrow> string \<Rightarrow> client_endpoint list \<Rightarrow> string list \<Rightarrow> (managed_proxy list \<times> string list) option"
where
  "endpoint_proxies user endpoints route alias [] used = Some ([], used)"
| "endpoint_proxies user endpoints route alias (e # es) used =
     Option.bind (unique_proxy_name (proxy_base_name endpoints alias e) used) (\<lambda>(name, used').
     Option.bind (endpoint_proxies user endpoints route alias es used') (\<lambda>(proxies, used'').
     Some (route_proxy user route e name # proxies, used'')))"

text \<open>The name shown for a route; a route to a node that is not loaded is skipped.\<close>

definition route_alias :: "(string, node_config) gomap \<Rightarrow> string \<Rightarrow> string option" where
  "route_alias nodes route =
     (if route = ''direct'' then Some route
      else map_option (\<lambda>node. if nc_alias node \<noteq> [] then nc_alias node else route) (map_of nodes route))"

fun route_proxies ::
  "managed_user \<Rightarrow> (string, node_config) gomap \<Rightarrow> client_endpoint list \<Rightarrow> string list \<Rightarrow> string list \<Rightarrow> managed_proxy list option"
where
  "route_proxies user nodes endpoints [] used = Some []"
| "route_proxies user nodes endpoints (route # routes) used =
     (case route_alias nodes route of
        None \<Rightarrow> route_proxies user nodes endpoints routes used
      | Some alias \<Rightarrow>
          Option.bind (endpoint_proxies user endpoints route alias endpoints used) (\<lambda>(proxies, used').
          map_option (\<lambda>ps. proxies @ ps) (route_proxies user nodes endpoints routes used')))"

definition subscription_proxies ::
  "managed_user \<Rightarrow> (string, node_config) gomap \<Rightarrow> client_endpoint list \<Rightarrow> string list \<Rightarrow> string \<Rightarrow> string \<Rightarrow> managed_proxy list option"
where
  "subscription_proxies user nodes endpoints routes usage expiry =
     Option.bind (unique_proxy_name usage reserved_names) (\<lambda>(usage_name, used1).
     Option.bind (unique_proxy_name expiry used1) (\<lambda>(expiry_name, used2).
     map_option (\<lambda>ps. info_proxy usage_name # info_proxy expiry_name # ps) (route_proxies user nodes endpoints routes used2)))"

definition default_selected :: "managed_proxy list \<Rightarrow> string" where
  "default_selected proxies =
     foldl (\<lambda>d p. if d = [] \<and> mp_type p \<noteq> ''reject'' then mp_name p else d) [] proxies"

definition managed_subscription :: "managed_proxy list \<Rightarrow> managed_clash_config" where
  "managed_subscription proxies =
     \<lparr>cl_ipv6 = False, cl_log_level = ''info'', cl_mode = ''rule'', cl_mixed_port = 7890, cl_proxies = proxies,
      cl_groups = [\<lparr>pg_name = utf8_group, pg_type = ''select'', pg_proxies = map mp_name proxies @ [''DIRECT''],
                    pg_default = default_selected proxies\<rparr>],
      cl_rules = [''GEOIP,CN,DIRECT'', ''MATCH,'' @ utf8_group]\<rparr>"

definition userinfo_header :: "u64 \<Rightarrow> u64 \<Rightarrow> managed_user \<Rightarrow> string" where
  "userinfo_header tx rx user =
     join_strings ''; ''
       ([''upload='' @ format_uint (unat tx), ''download='' @ format_uint (unat rx)] @
        (if 0 < mu_monthly_bytes user then [''total='' @ format_uint (unat (mu_monthly_bytes user))] else []) @
        (case mu_expires_at user of None \<Rightarrow> [] | Some t \<Rightarrow> [''expire='' @ format_int (unix_seconds t)]))"

text \<open>The token of a path, if it has the form of a subscription.\<close>

definition sub_token :: "string \<Rightarrow> string option" where
  "sub_token path =
     (if \<not> has_prefix path ''/sub/'' then None
      else let token = trim (\<lambda>c. c = CHR ''/'') (trim_prefix path ''/sub/'')
           in if token = [] \<or> CHR ''/'' \<in> set token then None else Some token)"

definition handle_subscription ::
  "(stmt \<Rightarrow> bool) \<Rightarrow> bool \<Rightarrow> (string \<Rightarrow> bytes) \<Rightarrow> (managed_clash_config \<Rightarrow> string option) \<Rightarrow> go_time \<Rightarrow> subscription_handler \<Rightarrow>
    management_db \<Rightarrow> traffic_db \<Rightarrow> string \<Rightarrow> string \<Rightarrow> http_response option"
where
  "handle_subscription io io_usage hash encode now h db tdb http_method path =
     (if http_method \<noteq> ''GET'' then Some (HttpError 405 ''method not allowed'')
      else case sub_token path of
        None \<Rightarrow> Some (HttpError 404 ''404 page not found'')
      | Some token \<Rightarrow>
          (case find_user_by_token io hash token db of
             Inl _ \<Rightarrow> Some (HttpError 500 ''internal server error'')
           | Inr None \<Rightarrow> Some (HttpError 403 ''invalid subscription'')
           | Inr (Some user) \<Rightarrow>
               (case map_of (sh_active_routes h) (mu_username user) of
                  None \<Rightarrow> Some (HttpError 503 ''subscription pending Gateway restart'')
                | Some routes \<Rightarrow>
                    (case subscription_endpoints (sh_cfg h) of
                       None \<Rightarrow> Some (HttpError 503 ''subscription is unavailable'')
                     | Some endpoints \<Rightarrow>
                         (let (_, start, stop) = lc_months (sh_location h) now in
                          case get_monthly_usage_for_user io_usage (mu_username user) start stop tdb of
                            Inl _ \<Rightarrow> Some (HttpError 500 ''internal server error'')
                          | Inr (tx, rx) \<Rightarrow>
                              Option.bind (subscription_proxies user (sh_nodes h) endpoints routes
                                 (usage_text tx rx (mu_monthly_bytes user)) (expiry_text (sh_location h) now (mu_expires_at user))) (\<lambda>proxies.
                              if length proxies = 2 then Some (HttpError 503 ''subscription has no active routes'')
                              else (case encode (managed_subscription proxies) of
                                      None \<Rightarrow> Some (HttpError 500 ''internal server error'')
                                    | Some body \<Rightarrow>
                                        Some (HttpOk \<lparr>sr_disposition = attachment_header (mu_username user @ ''.yaml''),
                                          sr_userinfo = userinfo_header tx rx user, sr_body = body\<rparr>))))))))"


section \<open>Names are found and distinct\<close>

definition candidate :: "string \<Rightarrow> nat \<Rightarrow> string" where
  "candidate base k = base @ '' ('' @ format_uint k @ '')''"

lemma candidate_inject: "candidate base j = candidate base k \<longleftrightarrow> j = k"
  by (simp add: candidate_def)

lemma finite_taken: "finite {k. suffix \<le> k \<and> candidate base k \<in> set used}"
proof -
  have "finite (candidate base -` set used)" by (rule finite_vimageI) (auto simp: inj_def candidate_inject)
  then show ?thesis by (rule rev_finite_subset) auto
qed

lemma proxy_name_loop_next:
  "name \<in> set used \<Longrightarrow> proxy_name_loop base used suffix name = proxy_name_loop base used (suffix + 1) (candidate base suffix)"
  by (subst proxy_name_loop.simps) (simp add: candidate_def)

lemma proxy_name_loop_candidate:
  "\<exists>n. proxy_name_loop base used (Suc suffix) (candidate base suffix) = Some n \<and> n \<notin> set used"
proof (induction "card {k. suffix \<le> k \<and> candidate base k \<in> set used}" arbitrary: suffix rule: less_induct)
  case less
  show ?case
  proof (cases "candidate base suffix \<in> set used")
    case False
    then show ?thesis by (subst proxy_name_loop.simps) simp
  next
    case True
    have "suffix \<in> {k. suffix \<le> k \<and> candidate base k \<in> set used} - {k. Suc suffix \<le> k \<and> candidate base k \<in> set used}"
      using True by simp
    then have "{k. Suc suffix \<le> k \<and> candidate base k \<in> set used} \<subset> {k. suffix \<le> k \<and> candidate base k \<in> set used}"
      by fastforce
    from psubset_card_mono [OF finite_taken this] less [of "Suc suffix"] show ?thesis
      by (simp add: proxy_name_loop_next [OF True])
  qed
qed

lemma unique_proxy_name_total: "\<exists>name. unique_proxy_name base used = Some (name, name # used) \<and> name \<notin> set used"
proof (cases "base \<in> set used")
  case True
  with proxy_name_loop_candidate [of base used 2] show ?thesis
    by (auto simp: unique_proxy_name_def proxy_name_loop_next)
next
  case False
  then show ?thesis by (simp add: unique_proxy_name_def proxy_name_loop.simps)
qed

text \<open>C39: The search for a proxy name ends.  Whatever names are taken, the unbounded loop returns, with a name that was free.\<close>

theorem proxy_name_search_terminates: "\<exists>name. unique_proxy_name base used = Some (name, name # used) \<and> name \<notin> set used"
  by (rule unique_proxy_name_total)

lemma endpoint_proxies_total:
  "\<exists>ps. endpoint_proxies user endpoints route shown es used = Some (ps, rev (map mp_name ps) @ used) \<and>
     (distinct used \<longrightarrow> distinct (map mp_name ps @ used)) \<and> length ps = length es \<and>
     (\<forall>p \<in> set ps. \<exists>e \<in> set es. p = route_proxy user route e (mp_name p))"
proof (induction es arbitrary: used)
  case (Cons e es)
  obtain name where name: "unique_proxy_name (proxy_base_name endpoints shown e) used = Some (name, name # used)" "name \<notin> set used"
    using unique_proxy_name_total by blast
  from Cons.IH [of "name # used"] obtain ps where "endpoint_proxies user endpoints route shown es (name # used) = Some (ps, rev (map mp_name ps) @ name # used)"
    "distinct (name # used) \<longrightarrow> distinct (map mp_name ps @ name # used)" "length ps = length es"
    "\<forall>p \<in> set ps. \<exists>e \<in> set es. p = route_proxy user route e (mp_name p)" by blast
  with name show ?case
    by (intro exI [of _ "route_proxy user route e name # ps"]) (auto simp: route_proxy_def)
qed simp

lemma route_proxies_total:
  "\<exists>ps. route_proxies user nodes endpoints routes used = Some ps \<and> (distinct used \<longrightarrow> distinct (map mp_name ps @ used)) \<and>
     (\<forall>p \<in> set ps. \<exists>route \<in> set routes. \<exists>e \<in> set endpoints. p = route_proxy user route e (mp_name p))"
proof (induction routes arbitrary: used)
  case (Cons route routes)
  show ?case
  proof (cases "route_alias nodes route")
    case None
    with Cons.IH [of used] show ?thesis by auto
  next
    case (Some shown)
    from endpoint_proxies_total [of user endpoints route shown endpoints used] obtain ps where
      ps: "endpoint_proxies user endpoints route shown endpoints used = Some (ps, rev (map mp_name ps) @ used)"
      "distinct used \<longrightarrow> distinct (map mp_name ps @ used)" "\<forall>p \<in> set ps. \<exists>e \<in> set endpoints. p = route_proxy user route e (mp_name p)"
      by blast
    from Cons.IH [of "rev (map mp_name ps) @ used"] obtain qs where
      qs: "route_proxies user nodes endpoints routes (rev (map mp_name ps) @ used) = Some qs"
      "distinct (rev (map mp_name ps) @ used) \<longrightarrow> distinct (map mp_name qs @ rev (map mp_name ps) @ used)"
      "\<forall>p \<in> set qs. \<exists>route \<in> set routes. \<exists>e \<in> set endpoints. p = route_proxy user route e (mp_name p)" by blast
    have "distinct (map mp_name (ps @ qs) @ used)" if "distinct used" using that ps(2) qs(2) by auto
    with ps(1,3) qs(1,3) Some show ?thesis by (intro exI [of _ "ps @ qs"]) auto
  qed
qed simp

lemma distinct_reserved: "distinct reserved_names"
  unfolding reserved_names_def utf8_group_def string_of_bytes_def char_of_byte_def by code_simp

lemma subscription_proxies_total:
  "\<exists>u e ps. subscription_proxies user nodes endpoints routes usage expiry = Some (info_proxy u # info_proxy e # ps) \<and>
     distinct (map mp_name (info_proxy u # info_proxy e # ps) @ reserved_names) \<and>
     (\<forall>p \<in> set ps. \<exists>route \<in> set routes. \<exists>ep \<in> set endpoints. p = route_proxy user route ep (mp_name p))"
proof -
  obtain u where u: "unique_proxy_name usage reserved_names = Some (u, u # reserved_names)" "u \<notin> set reserved_names"
    using unique_proxy_name_total by blast
  obtain e where e: "unique_proxy_name expiry (u # reserved_names) = Some (e, e # u # reserved_names)" "e \<notin> set (u # reserved_names)"
    using unique_proxy_name_total by blast
  from route_proxies_total [of user nodes endpoints routes "e # u # reserved_names"] obtain ps where
    ps: "route_proxies user nodes endpoints routes (e # u # reserved_names) = Some ps"
    "distinct (e # u # reserved_names) \<longrightarrow> distinct (map mp_name ps @ e # u # reserved_names)"
    "\<forall>p \<in> set ps. \<exists>route \<in> set routes. \<exists>ep \<in> set endpoints. p = route_proxy user route ep (mp_name p)" by blast
  have "distinct (e # u # reserved_names)" using u(2) e(2) distinct_reserved by auto
  with u e ps show ?thesis
    by (intro exI [of _ u] exI [of _ e] exI [of _ ps]) (auto simp: subscription_proxies_def info_proxy_def)
qed

text \<open>Proxy names are unique.  Every subscription is completed, and its entries, informational ones included, have
  distinct names, none of which shadows a built-in name of the client or the selection group.\<close>

theorem proxy_names_distinct:
  "\<exists>ps. subscription_proxies user nodes endpoints routes usage expiry = Some ps \<and> distinct (map mp_name ps @ reserved_names)"
  using subscription_proxies_total [of user nodes endpoints routes usage expiry] by blast


section \<open>What is served\<close>

lemma handle_subscription_ok:
  assumes "handle_subscription io io_usage hash encode now h db tdb m path = Some (HttpOk r)"
  obtains token user routes endpoints usage expiry proxies where
    "sub_token path = Some token" "find_user_by_token io hash token db = Inr (Some user)"
    "map_of (sh_active_routes h) (mu_username user) = Some routes" "subscription_endpoints (sh_cfg h) = Some endpoints"
    "subscription_proxies user (sh_nodes h) endpoints routes usage expiry = Some proxies" "length proxies \<noteq> 2"
    "encode (managed_subscription proxies) = Some (sr_body r)"
    "sr_disposition r = attachment_header (mu_username user @ ''.yaml'')"
  using assms unfolding handle_subscription_def
  by (auto simp: Let_def bind_eq_Some_conv split: if_split_asm option.split_asm sum.split_asm prod.split_asm)

lemma endpoints_of_types: "endpoints_of inbounds ps = Some es \<Longrightarrow> list_all (\<lambda>e. ep_type e = hysteria2_type \<or> ep_type e = trojan_type) es"
  by (induction ps arbitrary: es)
    (auto simp: endpoint_of_def split: if_split_asm option.split_asm sum.split_asm prod.split_asm)

lemma subscription_endpoints_types:
  "subscription_endpoints cfg = Some es \<Longrightarrow> e \<in> set es \<Longrightarrow> ep_type e \<noteq> ''reject''"
  by (auto simp: subscription_endpoints_def list_all_iff hysteria2_type_def trojan_type_def dest!: endpoints_of_types bspec [of "set es" _ e]
      split: option.split_asm if_split_asm)

lemma find_user_by_token_Some:
  assumes "management_ok db" and "find_user_by_token io hash token db = Inr (Some user)"
  obtains name row where "map_of (md_users db) name = Some row" "null_time (ur_deleted row) = None" "ur_token row = hash token"
    "user = (managed_user_of (name, row))\<lparr>mu_routes := user_routes name db\<rparr>"
proof -
  from assms(2) obtain nu where nu: "find (\<lambda>(_, row). ur_token row = hash token) (md_users db) = Some nu"
    and u: "mu_deleted_at (managed_user_of nu) = None" "user = (managed_user_of nu)\<lparr>mu_routes := user_routes (mu_username (managed_user_of nu)) db\<rparr>"
    by (auto simp: find_user_by_token_def Let_def split: if_split_asm option.split_asm)
  obtain name row where [simp]: "nu = (name, row)" by (cases nu)
  from nu have "(name, row) \<in> set (md_users db)" "ur_token row = hash token" by (auto simp: find_Some_iff in_set_conv_nth)
  with assms(1) have "map_of (md_users db) name = Some row" by (simp add: management_ok_def)
  with u \<open>ur_token row = hash token\<close> show thesis by (intro that) (auto simp: managed_user_of_def)
qed

lemma management_names:
  assumes "management_ok db"
  shows "map_of (md_users db) name = Some row \<Longrightarrow> is_valid_name name" and "r \<in> set (user_routes name db) \<Longrightarrow> is_valid_name r"
proof -
  have users: "\<forall>n \<in> set (gkeys (md_users db)). is_valid_name n" and nodes: "\<forall>n \<in> set (gkeys (md_nodes db)). is_valid_name n"
    and grants: "\<forall>g \<in> set (md_grants db). route_known db (snd g)"
    using assms by (auto simp: management_ok_def list_all_iff)
  show "is_valid_name name" if "map_of (md_users db) name = Some row" using users map_of_Some_key [OF that] by auto
  show "is_valid_name r" if "r \<in> set (user_routes name db)"
  proof -
    from that have "route_known db r" using grants by (auto simp: user_routes_def)
    then consider "r = ''direct''" | "r \<in> set (gkeys (md_nodes db))" by (auto simp: route_known_def)
    then show ?thesis
    proof cases
      case 2
      with nodes show ?thesis by blast
    qed (simp add: is_valid_name_def contains_any_def)
  qed
qed

lemma runtime_users_row:
  assumes "load_runtime_users io db = Inr users" and "map_of users name = Some c"
  obtains row where "map_of (md_users db) name = Some row" "c = (runtime_user row)\<lparr>uc_routes := user_routes name db\<rparr>"
  using load_runtime_users_ok [OF assms(1), of name] assms(2) by (cases "map_of (md_users db) name") auto



text \<open>Every request is answered.  Whatever names are taken and whatever fails below it, the handler returns.\<close>

theorem subscription_always_answers: "\<exists>r. handle_subscription io io_usage hash encode now h db tdb m path = Some r"
proof -
  have proxies: "\<exists>ps. subscription_proxies user nodes endpoints routes usage expiry = Some ps" for user nodes endpoints routes usage expiry
    using subscription_proxies_total [of user nodes endpoints routes usage expiry] by blast
  have "\<exists>r. Option.bind (subscription_proxies user nodes endpoints routes usage expiry) f = Some r"
    if "\<And>ps. \<exists>r. f ps = Some r" for user nodes endpoints routes usage expiry and f :: "managed_proxy list \<Rightarrow> http_response option"
    using proxies [of user nodes endpoints routes usage expiry] that by auto
  then show ?thesis unfolding handle_subscription_def by (auto simp: Let_def split: option.split sum.split prod.split)
qed

definition header_char :: "char \<Rightarrow> bool" where
  "header_char c \<longleftrightarrow> (0x20 \<le> (of_char c :: nat) \<and> (of_char c :: nat) \<le> 0x7E) \<or> c = CHR 0x09"

lemma upper_hex_char: "n < 16 \<Longrightarrow> header_char (upper_hex n)"
proof -
  assume "n < 16"
  then have "upper_hex n \<in> set ''0123456789ABCDEF''" unfolding upper_hex_def by (intro nth_mem) simp
  moreover have "\<forall>c \<in> set ''0123456789ABCDEF''. header_char c" by (simp add: header_char_def)
  ultimately show ?thesis by blast
qed

lemma percent_encode_chars: "list_all header_char (percent_encode s)"
proof -
  have "(of_char c :: nat) div 16 < 16" for c using of_char_nat_less [of c] by (intro less_mult_imp_div_less) simp
  then have "header_char (upper_hex (of_char c div 16))" "header_char (upper_hex (of_char c mod 16))" for c
    by (simp_all add: upper_hex_char)
  then show ?thesis by (auto simp: percent_encode_def list_all_iff header_char_def split: if_split_asm)
qed

lemma attachment_header_chars: "list_all header_char (attachment_header f)"
proof (cases "needs_encoding f")
  case True
  then show ?thesis using percent_encode_chars by (simp add: attachment_header_def) (simp add: header_char_def)
next
  case False
  then have f: "list_all header_char f" by (auto simp: needs_encoding_def header_char_def list_all_iff list_ex_iff not_less)
  then have "list_all header_char (quote_value f)" by (auto simp: quote_value_def list_all_iff header_char_def split: if_split_asm)
  with f False show ?thesis by (simp add: attachment_header_def) (simp add: header_char_def)
qed

text \<open>No header injection.  Usernames may hold any byte but four; yet the file name header of a served subscription
  has only printable ASCII characters and tabs, so no name can end the header or start another.\<close>

theorem disposition_header_clean:
  assumes "handle_subscription io io_usage hash encode now h db tdb m path = Some (HttpOk r)"
  shows "list_all header_char (sr_disposition r)"
  by (rule handle_subscription_ok [OF assms]) (simp add: attachment_header_chars)


section \<open>A concrete subscription\<close>

definition demo_database :: management_db where
  "demo_database = snd (create_user (\<lambda>_. True) token_bytes 0 (\<lambda>db. db) demo_input ''t'' empty_management)"

definition demo_gateway :: gateway_config where
  "demo_gateway = Management.demo_legacy\<lparr>gc_inbounds := [\<lparr>ib_name = ''in'', ib_type = ''hysteria2'', ib_listen = [], ib_quic = None, ib_trojan = None,
       ib_masquerade = None\<rparr>],
     gc_sub := Some \<lparr>sb_secret = [], sb_listen = [], sb_public_url = [], sb_server_addr = ''h:5'', sb_sni = ''s'', sb_insecure = False,
       sb_inbound = ''in'', sb_endpoints = None\<rparr>\<rparr>"

definition demo_snapshot :: runtime_snapshot where
  "demo_snapshot = \<lparr>rs_users = [(''ann'', \<lparr>uc_password = ''pw'', uc_disabled = False, uc_expires_at = None, uc_routes = [''direct''],
        uc_max_bytes = 7, uc_speed_limit = 0\<rparr>)], rs_nodes = [], rs_revision = 1\<rparr>"

lemma demo_database_ok: "management_ok demo_database"
  unfolding demo_database_def using create_user_ok [OF empty_management_ok demo_create] by (simp add: demo_create)

lemma demo_snapshot_loaded: "load_runtime_snapshot (\<lambda>_. True) (\<lambda>_. None) demo_database = Inr demo_snapshot"
  unfolding demo_database_def demo_create demo_snapshot_def
  by (simp add: load_runtime_snapshot_def load_runtime_users_def load_nodes_def rows_by_name_def append_route_def runtime_user_def)

lemma demo_endpoints:
  "subscription_endpoints demo_gateway = Some [\<lparr>ep_published = \<lparr>se_inbound = ''in'', se_server_addr = ''h:5'', se_sni = ''s'', se_insecure = False\<rparr>,
     ep_type = ''hysteria2'', ep_server = ''h'', ep_port = 5, ep_alpn = []\<rparr>]"
proof -
  have "split_host_port ''h:5'' = Inr (''h'', ''5'')" "parse_ip ''h'' = None" "atoi ''5'' = Some 5" by code_simp+
  then show ?thesis
    by (simp add: subscription_endpoints_def demo_gateway_def client_endpoints_def endpoint_of_def hysteria2_type_def trojan_type_def)
qed

definition demo_handler :: subscription_handler where
  "demo_handler = new_subscription_handler (\<lambda>_. None) demo_gateway (rs_users demo_snapshot) (rs_nodes demo_snapshot)"

lemma single_route_proxies:
  "\<exists>ps. subscription_proxies user nodes [e] [''direct''] usage expiry = Some ps \<and> length ps = 3"
proof -
  obtain n1 where "unique_proxy_name usage reserved_names = Some (n1, n1 # reserved_names)" using unique_proxy_name_total by blast
  moreover obtain n2 where "unique_proxy_name expiry (n1 # reserved_names) = Some (n2, n2 # n1 # reserved_names)" using unique_proxy_name_total by blast
  moreover obtain n3 where "unique_proxy_name (proxy_base_name [e] ''direct'' e) (n2 # n1 # reserved_names) = Some (n3, n3 # n2 # n1 # reserved_names)"
    using unique_proxy_name_total by blast
  ultimately show ?thesis by (simp add: subscription_proxies_def route_alias_def)
qed

lemma demo_served:
  "\<exists>r. handle_subscription (\<lambda>_. True) True token_bytes (\<lambda>_. Some ''yaml'') 0 demo_handler demo_database \<lparr>td_logs = [], td_summary = []\<rparr>
     ''GET'' ''/sub/t'' = Some (HttpOk r)"
proof -
  have token: "sub_token ''/sub/t'' = Some ''t''" by code_simp
  obtain user where user: "find_user_by_token (\<lambda>_. True) token_bytes ''t'' demo_database = Inr (Some user)" and name: "mu_username user = ''ann''"
    unfolding demo_database_def demo_create by (simp add: find_user_by_token_def managed_user_of_def null_time_def unix_time_def)
  have routes: "map_of (sh_active_routes demo_handler) ''ann'' = Some [''direct'']" "sh_cfg demo_handler = demo_gateway"
    by (simp_all add: demo_handler_def new_subscription_handler_def demo_snapshot_def)
  have usage: "get_monthly_usage_for_user True ''ann'' start stop \<lparr>td_logs = [], td_summary = []\<rparr> = Inr (0, 0)" for start stop
    by (simp add: get_monthly_usage_for_user_def rows_between_def sum_pair_def sql_sum_def scan_uint_def)
  obtain key start stop where months: "lc_months (sh_location demo_handler) 0 = (key, start, stop)" by (metis prod_cases3)
  obtain e where e: "subscription_endpoints demo_gateway = Some [e]" using demo_endpoints by blast
  obtain ps where "subscription_proxies user (sh_nodes demo_handler) [e] [''direct''] (usage_text 0 0 (mu_monthly_bytes user))
      (expiry_text (sh_location demo_handler) 0 (mu_expires_at user)) = Some ps" "length ps = 3"
    using single_route_proxies by blast
  then show ?thesis by (simp add: handle_subscription_def token user name routes e usage months)
qed



theorem disposition_header_clean_witness:
  "\<exists>r. handle_subscription (\<lambda>_. True) True token_bytes (\<lambda>_. Some ''yaml'') 0 demo_handler demo_database \<lparr>td_logs = [], td_summary = []\<rparr>
     ''GET'' ''/sub/t'' = Some (HttpOk r) \<and> list_all header_char (sr_disposition r)"
  using demo_served disposition_header_clean by blast

end
