(* ===== verification/Restart_Jobs.thy ===== *)
theory Restart_Jobs
  imports Management
begin

text \<open>
  Restart jobs and process runs (\<open>storage/management.go\<close>) and the scheduler that executes the jobs
  (\<open>runRestartScheduler\<close> of \<open>cmd/gateway/main.go\<close>).

  Both tables have AUTOINCREMENT keys: an insert takes the successor of the largest key ever used.  The column \<open>detail\<close> of \<open>process_runs\<close>, which no statement writes, is left out.
  As in \<open>Management\<close>, \<open>io\<close> says which statements of a call succeed.  The restart of the unit over
  D-Bus is an argument: its error, if any.
\<close>

section \<open>Tables\<close>

datatype job_status = Pending | Running | Completed | Failed

record job_row =
  jb_id :: int
  jb_run_at :: int
  jb_trigger :: string
  jb_status :: job_status
  jb_created :: int
  jb_executed :: "int option"
  jb_detail :: "string option"
  jb_started_run :: "int option"

record run_row =
  pr_id :: int
  pr_pid :: int
  pr_started :: int
  pr_stopped :: "int option"
  pr_revision :: int
  pr_trigger :: string
  pr_result :: "string option"
  pr_exit_code :: "string option"
  pr_exit_status :: "string option"

record history_db =
  hs_jobs :: "job_row list"
  hs_job_seq :: int
  hs_runs :: "run_row list"
  hs_run_seq :: int

definition empty_history :: history_db where
  "empty_history = \<lparr>hs_jobs = [], hs_job_seq = 0, hs_runs = [], hs_run_seq = 0\<rparr>"

record restart_job =
  rj_id :: int
  rj_run_at :: go_time
  rj_trigger :: string
  rj_status :: job_status
  rj_detail :: string
  rj_created_at :: go_time
  rj_executed_at :: "go_time option"

record process_run =
  pn_id :: int
  pn_pid :: int
  pn_started_at :: go_time
  pn_stopped_at :: "go_time option"
  pn_revision :: int
  pn_trigger :: string
  pn_result :: string
  pn_exit_code :: string
  pn_exit_status :: string

datatype history_stmt =
    HBegin | HCommit | HInsertJob | HSelectJob | HUpdateJob | HListJobs | HSelectRun | HInsertRun | HLinkJob | HCloseRun | HCloseLatest | HListRuns

section \<open>Jobs\<close>

definition schedule_restart ::
  "(history_stmt \<Rightarrow> bool) \<Rightarrow> go_time \<Rightarrow> go_time \<Rightarrow> string \<Rightarrow> history_db \<Rightarrow> int option \<times> history_db"
where
  "schedule_restart io now run_at trigger db =
     (if \<not> io HInsertJob then (None, db)
      else let job = hs_job_seq db + 1 in
        (Some job, db\<lparr>hs_job_seq := job,
           hs_jobs := hs_jobs db @ [\<lparr>jb_id = job, jb_run_at = unix_seconds run_at, jb_trigger = (if trigger = [] then ''scheduled'' else trigger),
             jb_status = Pending, jb_created = unix_seconds now, jb_executed = None, jb_detail = None, jb_started_run = None\<rparr>]\<rparr>))"

definition job_due :: "int \<Rightarrow> job_row \<Rightarrow> bool" where
  "job_due now j \<longleftrightarrow> jb_status j = Pending \<and> jb_run_at j \<le> now"

definition update_jobs :: "(job_row \<Rightarrow> bool) \<Rightarrow> (job_row \<Rightarrow> job_row) \<Rightarrow> history_db \<Rightarrow> history_db" where
  "update_jobs p f db = db\<lparr>hs_jobs := map (\<lambda>j. if p j then f j else j) (hs_jobs db)\<rparr>"

text \<open>\<open>ClaimDueRestart\<close>: \<open>None\<close> is an error, \<open>Some None\<close> no job to run.\<close>

definition claim_due_restart ::
  "(history_stmt \<Rightarrow> bool) \<Rightarrow> go_time \<Rightarrow> history_db \<Rightarrow> restart_job option option \<times> history_db"
where
  "claim_due_restart io now db =
     (let t = unix_seconds now in
      if \<not> io HBegin \<or> \<not> io HSelectJob then (None, db)
      else (case sort_key (\<lambda>j. (jb_run_at j, jb_id j)) (filter (job_due t) (hs_jobs db)) of
              [] \<Rightarrow> (Some None, db)
            | j # _ \<Rightarrow>
                if \<not> io HUpdateJob then (None, db)
                else if length (filter (\<lambda>k. jb_id k = jb_id j \<and> jb_status k = Pending) (hs_jobs db)) \<noteq> 1 then (Some None, db)
                else if \<not> io HCommit then (None, db)
                else (Some (Some \<lparr>rj_id = jb_id j, rj_run_at = jb_run_at j * second, rj_trigger = jb_trigger j, rj_status = Running,
                        rj_detail = [], rj_created_at = jb_created j * second, rj_executed_at = Some now\<rparr>),
                      update_jobs (\<lambda>k. jb_id k = jb_id j \<and> jb_status k = Pending)
                        (\<lambda>k. k\<lparr>jb_status := Running, jb_executed := Some t\<rparr>) db)))"

definition complete_restart_job ::
  "(history_stmt \<Rightarrow> bool) \<Rightarrow> go_time \<Rightarrow> int \<Rightarrow> bool \<Rightarrow> string \<Rightarrow> history_db \<Rightarrow> bool \<times> history_db"
where
  "complete_restart_job io now job success detail db =
     (if \<not> io HUpdateJob then (False, db)
      else (True, update_jobs (\<lambda>k. jb_id k = job)
             (\<lambda>k. k\<lparr>jb_status := (if success then Completed else Failed),
                    jb_detail := (if success \<or> detail = [] then None else Some detail),
                    jb_executed := (case jb_executed k of None \<Rightarrow> Some (unix_seconds now) | Some t \<Rightarrow> Some t)\<rparr>) db))"

definition list_limit :: "int \<Rightarrow> nat" where
  "list_limit limit = (if limit \<le> 0 \<or> limit > 100 then 20 else nat limit)"

definition coalesce_text :: "string option \<Rightarrow> string" where
  "coalesce_text c = (case c of None \<Rightarrow> [] | Some s \<Rightarrow> s)"

definition list_restart_jobs :: "(history_stmt \<Rightarrow> bool) \<Rightarrow> int \<Rightarrow> history_db \<Rightarrow> restart_job list option" where
  "list_restart_jobs io limit db =
     (if \<not> io HListJobs then None
      else Some (map (\<lambda>j. \<lparr>rj_id = jb_id j, rj_run_at = jb_run_at j * second, rj_trigger = jb_trigger j, rj_status = jb_status j,
                     rj_detail = coalesce_text (jb_detail j), rj_created_at = jb_created j * second,
                     rj_executed_at = null_time (jb_executed j)\<rparr>)
             (take (list_limit limit) (rev (sort_key jb_id (hs_jobs db))))))"

section \<open>Process runs\<close>

definition restart_window :: int where "restart_window = 600"

definition observed_jobs :: "int \<Rightarrow> history_db \<Rightarrow> job_row list" where
  "observed_jobs now db =
     rev (sort_key (\<lambda>j. (case jb_executed j of None \<Rightarrow> 0 | Some t \<Rightarrow> t, jb_id j))
       (filter (\<lambda>j. jb_status j \<in> {Completed, Running} \<and> jb_started_run j = None \<and>
          (case jb_executed j of None \<Rightarrow> False | Some t \<Rightarrow> now - restart_window \<le> t)) (hs_jobs db)))"

definition observed_detail :: string where
  "observed_detail = ''new process observed before the scheduler recorded D-Bus completion''"

definition stopped_results :: "history_db \<Rightarrow> string list" where
  "stopped_results db = map (\<lambda>r. coalesce_text (pr_result r)) (rev (sort_key pr_id (filter (\<lambda>r. pr_stopped r \<noteq> None) (hs_runs db))))"

definition unattended_trigger :: "history_db \<Rightarrow> string" where
  "unattended_trigger db =
     (case stopped_results db of
        [] \<Rightarrow> ''initial''
      | result # _ \<Rightarrow> if result \<noteq> [] \<and> result \<noteq> ''success'' then ''recovery:'' @ result else ''external-start'')"

text \<open>Why the process was started: an explicit trigger, a restart job of the last ten minutes, or what the last run left.\<close>

definition start_reason ::
  "(history_stmt \<Rightarrow> bool) \<Rightarrow> int \<Rightarrow> string \<Rightarrow> history_db \<Rightarrow> (string \<times> job_row option \<times> history_db) option"
where
  "start_reason io now trigger db =
     (if trigger \<noteq> [] then Some (trigger, None, db)
      else if \<not> io HSelectJob then None
      else (case observed_jobs now db of
              j # _ \<Rightarrow>
                if jb_status j = Running
                then (if \<not> io HUpdateJob then None
                      else Some (''admin:'' @ jb_trigger j, Some j,
                        update_jobs (\<lambda>k. jb_id k = jb_id j)
                          (\<lambda>k. k\<lparr>jb_status := Completed,
                                 jb_detail := (case jb_detail k of None \<Rightarrow> Some observed_detail | Some d \<Rightarrow> Some d)\<rparr>) db))
                else Some (''admin:'' @ jb_trigger j, Some j, db)
            | [] \<Rightarrow> if \<not> io HSelectRun then None else Some (unattended_trigger db, None, db)))"

definition start_process_run ::
  "(history_stmt \<Rightarrow> bool) \<Rightarrow> go_time \<Rightarrow> int \<Rightarrow> int \<Rightarrow> string \<Rightarrow> history_db \<Rightarrow> int option \<times> history_db"
where
  "start_process_run io now pid revision trigger db =
     (if \<not> io HBegin then (None, db)
      else (case start_reason io (unix_seconds now) trigger db of
              None \<Rightarrow> (None, db)
            | Some (reason, job, db1) \<Rightarrow>
                if \<not> io HInsertRun then (None, db)
                else (let run = hs_run_seq db1 + 1;
                          db2 = db1\<lparr>hs_run_seq := run, hs_runs := hs_runs db1 @ [\<lparr>pr_id = run, pr_pid = pid, pr_started = unix_seconds now,
                             pr_stopped = None, pr_revision = revision, pr_trigger = reason, pr_result = None, pr_exit_code = None,
                             pr_exit_status = None\<rparr>]\<rparr>
                      in case job of
                           None \<Rightarrow> if io HCommit then (Some run, db2) else (None, db)
                         | Some j \<Rightarrow>
                             if \<not> io HLinkJob \<or> \<not> io HCommit then (None, db)
                             else (Some run, update_jobs (\<lambda>k. jb_id k = jb_id j \<and> jb_started_run k = None)
                                     (\<lambda>k. k\<lparr>jb_started_run := Some run\<rparr>) db2))))"

text \<open>The update of the latest run that is still open and satisfies \<open>p\<close>; with it, whether there was one.\<close>

definition close_latest_run :: "(run_row \<Rightarrow> bool) \<Rightarrow> (run_row \<Rightarrow> run_row) \<Rightarrow> history_db \<Rightarrow> bool \<times> history_db" where
  "close_latest_run p f db =
     (case rev (sort_key pr_id (filter (\<lambda>r. pr_stopped r = None \<and> p r) (hs_runs db))) of
        [] \<Rightarrow> (False, db)
      | r # _ \<Rightarrow> (True, db\<lparr>hs_runs := map (\<lambda>q. if pr_id q = pr_id r then f q else q) (hs_runs db)\<rparr>))"

definition exit_columns :: "int \<Rightarrow> string \<Rightarrow> string \<Rightarrow> string \<Rightarrow> run_row \<Rightarrow> run_row" where
  "exit_columns now result exit_code exit_status r =
     r\<lparr>pr_stopped := Some now, pr_result := Some result, pr_exit_code := Some exit_code, pr_exit_status := Some exit_status\<rparr>"

definition record_process_exit ::
  "(history_stmt \<Rightarrow> bool) \<Rightarrow> go_time \<Rightarrow> int \<Rightarrow> string \<Rightarrow> string \<Rightarrow> string \<Rightarrow> history_db \<Rightarrow> bool \<times> history_db"
where
  "record_process_exit io now pid result exit_code exit_status db =
     (let columns = exit_columns (unix_seconds now) result exit_code exit_status in
      if \<not> io HCloseRun then (False, db)
      else if pid \<le> 0 then (True, snd (close_latest_run (\<lambda>_. True) columns db))
      else (case close_latest_run (\<lambda>r. pr_pid r = pid) columns db of
              (True, db') \<Rightarrow> (True, db')
            | (False, db') \<Rightarrow>
                if \<not> io HCloseLatest then (False, db') else (True, snd (close_latest_run (\<lambda>_. True) columns db'))))"

definition list_process_runs :: "(history_stmt \<Rightarrow> bool) \<Rightarrow> int \<Rightarrow> history_db \<Rightarrow> process_run list option" where
  "list_process_runs io limit db =
     (if \<not> io HListRuns then None
      else Some (map (\<lambda>r. \<lparr>pn_id = pr_id r, pn_pid = pr_pid r, pn_started_at = pr_started r * second, pn_stopped_at = null_time (pr_stopped r),
                     pn_revision = pr_revision r, pn_trigger = pr_trigger r, pn_result = coalesce_text (pr_result r),
                     pn_exit_code = coalesce_text (pr_exit_code r), pn_exit_status = coalesce_text (pr_exit_status r)\<rparr>)
             (take (list_limit limit) (rev (sort_key pr_id (hs_runs db))))))"

section \<open>The scheduler\<close>

text \<open>
  One tick of \<open>runRestartScheduler\<close>: the claim, the restart of the unit (\<open>restart\<close> is its error, if any) and
  the record of its outcome.  The result says whether the loop ends and which job was executed.
\<close>

definition scheduler_tick ::
  "(history_stmt \<Rightarrow> bool) \<Rightarrow> (history_stmt \<Rightarrow> bool) \<Rightarrow> go_time \<Rightarrow> go_time \<Rightarrow> string option \<Rightarrow> history_db \<Rightarrow> (bool \<times> int option) \<times> history_db"
where
  "scheduler_tick io io' now later restart db =
     (case claim_due_restart io now db of
        (None, db') \<Rightarrow> ((False, None), db')
      | (Some None, db') \<Rightarrow> ((False, None), db')
      | (Some (Some job), db') \<Rightarrow>
          (case restart of
             Some err \<Rightarrow> ((False, Some (rj_id job)), snd (complete_restart_job io' later (rj_id job) False err db'))
           | None \<Rightarrow> ((True, Some (rj_id job)), snd (complete_restart_job io' later (rj_id job) True [] db'))))"


text \<open>The calls on the tables, in the order in which they take effect.\<close>

datatype history_event =
    Schedule "history_stmt \<Rightarrow> bool" go_time go_time string
  | Tick "history_stmt \<Rightarrow> bool" "history_stmt \<Rightarrow> bool" go_time go_time "string option"
  | StartRun "history_stmt \<Rightarrow> bool" go_time int int string
  | RecordExit "history_stmt \<Rightarrow> bool" go_time int string string string

fun history_step :: "history_event \<Rightarrow> history_db \<Rightarrow> int option \<times> history_db" where
  "history_step (Schedule io now run_at trigger) db = (None, snd (schedule_restart io now run_at trigger db))"
| "history_step (Tick io io' now later restart) db = (case scheduler_tick io io' now later restart db of ((_, job), db') \<Rightarrow> (job, db'))"
| "history_step (StartRun io now pid revision trigger) db = (None, snd (start_process_run io now pid revision trigger db))"
| "history_step (RecordExit io now pid result code status) db = (None, snd (record_process_exit io now pid result code status db))"

fun restarts :: "history_event list \<Rightarrow> history_db \<Rightarrow> int list" where
  "restarts [] db = []"
| "restarts (e # es) db = (case history_step e db of (job, db') \<Rightarrow> (case job of None \<Rightarrow> [] | Some j \<Rightarrow> [j]) @ restarts es db')"

section \<open>Invariants\<close>

text \<open>Keys are unique and below the sequence; a job that is not pending was claimed at some time.\<close>

definition history_ok :: "history_db \<Rightarrow> bool" where
  "history_ok db \<longleftrightarrow>
     distinct (map jb_id (hs_jobs db)) \<and> list_all (\<lambda>j. jb_id j \<le> hs_job_seq db) (hs_jobs db) \<and>
     distinct (map pr_id (hs_runs db)) \<and> list_all (\<lambda>r. pr_id r \<le> hs_run_seq db) (hs_runs db)"

definition pending_ids :: "history_db \<Rightarrow> int set" where
  "pending_ids db = jb_id ` set (filter (\<lambda>j. jb_status j = Pending) (hs_jobs db))"

lemma update_jobs_frame [simp]:
  "hs_job_seq (update_jobs p f db) = hs_job_seq db" "hs_runs (update_jobs p f db) = hs_runs db" "hs_run_seq (update_jobs p f db) = hs_run_seq db"
  by (simp_all add: update_jobs_def)

lemma update_jobs_ok:
  assumes "\<And>j. jb_id (f j) = jb_id j"
  shows "history_ok (update_jobs p f db) = history_ok db"
proof -
  have "map jb_id (hs_jobs (update_jobs p f db)) = map jb_id (hs_jobs db)" using assms by (simp add: update_jobs_def)
  moreover have "list_all (\<lambda>j. jb_id j \<le> n) (hs_jobs (update_jobs p f db)) = list_all (\<lambda>j. jb_id j \<le> n) (hs_jobs db)" for n
    by (simp add: list_all_length update_jobs_def assms if_distrib [of jb_id] cong: if_cong)
  ultimately show ?thesis by (simp add: history_ok_def)
qed

lemma pending_update_subset:
  assumes "\<And>j. jb_id (f j) = jb_id j" and "\<And>j. jb_status (f j) = Pending \<Longrightarrow> jb_status j = Pending"
  shows "pending_ids (update_jobs p f db) \<subseteq> pending_ids db"
  using assms by (force simp: pending_ids_def update_jobs_def split: if_split_asm)

lemma hd_sort_key_in: "sort_key f xs = y # ys \<Longrightarrow> y \<in> set xs"
  by (metis list.set_intros(1) set_sort)

lemma claim_due_restart_Some:
  assumes "claim_due_restart io now db = (Some (Some job), db')"
  shows "\<exists>j. j \<in> set (hs_jobs db) \<and> job_due (unix_seconds now) j \<and> rj_id job = jb_id j \<and>
     db' = update_jobs (\<lambda>k. jb_id k = jb_id j \<and> jb_status k = Pending) (\<lambda>k. k\<lparr>jb_status := Running, jb_executed := Some (unix_seconds now)\<rparr>) db"
  using assms by (auto simp: claim_due_restart_def Let_def split: if_split_asm list.split_asm dest!: hd_sort_key_in)

lemma claim_due_restart_other: "claim_due_restart io now db = (r, db') \<Longrightarrow> (\<And>job. r \<noteq> Some (Some job)) \<Longrightarrow> db' = db"
  by (auto simp: claim_due_restart_def Let_def split: if_split_asm list.split_asm)

text \<open>A call makes no job pending again, and reuses no key.\<close>

definition advance :: "history_db \<Rightarrow> history_db \<Rightarrow> bool" where
  "advance db db' \<longleftrightarrow> history_ok db' \<and> pending_ids db' \<subseteq> pending_ids db \<union> {hs_job_seq db <..} \<and> hs_job_seq db \<le> hs_job_seq db'"

lemma advance_refl: "history_ok db \<Longrightarrow> advance db db"
  by (simp add: advance_def)

lemma advance_ok: "advance db db' \<Longrightarrow> history_ok db'"
  by (simp add: advance_def)

lemma advance_trans: "advance db db' \<Longrightarrow> advance db' db'' \<Longrightarrow> advance db db''"
  by (auto simp: advance_def dest!: subsetD)

lemma advance_update:
  assumes "history_ok db" and "\<And>j. jb_id (f j) = jb_id j" and "\<And>j. jb_status (f j) = Pending \<Longrightarrow> jb_status j = Pending"
  shows "advance db (update_jobs p f db)"
  using assms(1) update_jobs_ok [OF assms(2), of p db] pending_update_subset [OF assms(2,3), of p db] by (auto simp: advance_def)

lemma advance_complete: "history_ok db \<Longrightarrow> advance db (snd (complete_restart_job io now job success detail db))"
  by (simp add: complete_restart_job_def advance_refl) (auto intro!: advance_update split: if_split_asm)

lemma advance_schedule: "history_ok db \<Longrightarrow> advance db (snd (schedule_restart io now run_at trigger db))"
  by (auto simp: schedule_restart_def Let_def advance_def history_ok_def pending_ids_def list_all_iff)

lemma advance_runs:
  assumes "history_ok db" and "distinct (map pr_id runs)" and "list_all (\<lambda>r. pr_id r \<le> n) runs"
  shows "advance db (db\<lparr>hs_run_seq := n, hs_runs := runs\<rparr>)"
  using assms by (simp add: advance_def history_ok_def pending_ids_def)

lemma advance_close_latest:
  assumes "history_ok db" and "\<And>r. pr_id (f r) = pr_id r"
  shows "advance db (snd (close_latest_run p f db))"
proof (cases "rev (sort_key pr_id (filter (\<lambda>r. pr_stopped r = None \<and> p r) (hs_runs db)))")
  case Nil
  with assms(1) show ?thesis by (simp add: close_latest_run_def advance_refl)
next
  case (Cons r rs)
  let ?runs = "map (\<lambda>q. if pr_id q = pr_id r then f q else q) (hs_runs db)"
  have "distinct (map pr_id ?runs) = distinct (map pr_id (hs_runs db))"
    by (simp add: comp_def assms(2) if_distrib [of pr_id] cong: if_cong)
  moreover have "list_all (\<lambda>q. pr_id q \<le> n) ?runs = list_all (\<lambda>q. pr_id q \<le> n) (hs_runs db)" for n
    by (simp add: list_all_length assms(2) if_distrib [of pr_id] cong: if_cong)
  ultimately have "advance db (db\<lparr>hs_run_seq := hs_run_seq db, hs_runs := ?runs\<rparr>)"
    using assms(1) by (intro advance_runs) (simp_all add: history_ok_def)
  with Cons show ?thesis by (simp add: close_latest_run_def)
qed

lemma advance_exit:
  assumes "history_ok db"
  shows "advance db (snd (record_process_exit io now pid result code status db))"
proof -
  let ?f = "exit_columns (unix_seconds now) result code status"
  have f: "pr_id (?f r) = pr_id r" for r by (simp add: exit_columns_def)
  obtain hit db' where first: "close_latest_run (\<lambda>r. pr_pid r = pid) ?f db = (hit, db')"
    by (cases "close_latest_run (\<lambda>r. pr_pid r = pid) ?f db")
  then have db': "advance db db'" using advance_close_latest [OF assms f, of "\<lambda>r. pr_pid r = pid"] by simp
  then have "advance db (snd (close_latest_run (\<lambda>_. True) ?f db'))"
    by (rule advance_trans) (rule advance_close_latest [OF advance_ok [OF db'] f])
  with db' first advance_close_latest [OF assms f, of "\<lambda>_. True"] advance_refl [OF assms] show ?thesis
    by (cases hit) (simp_all add: record_process_exit_def Let_def)
qed

lemma advance_reason:
  assumes "history_ok db" and "start_reason io now trigger db = Some (reason, job, db1)"
  shows "advance db db1"
  using assms by (auto simp: start_reason_def advance_refl split: if_split_asm list.split_asm intro!: advance_update)

lemma advance_start:
  assumes "history_ok db"
  shows "advance db (snd (start_process_run io now pid revision trigger db))"
proof (cases "start_reason io (unix_seconds now) trigger db")
  case None
  with assms show ?thesis by (simp add: start_process_run_def advance_refl)
next
  case (Some r)
  obtain reason job db1 where r: "r = (reason, job, db1)" by (cases r)
  let ?row = "\<lparr>pr_id = hs_run_seq db1 + 1, pr_pid = pid, pr_started = unix_seconds now, pr_stopped = None, pr_revision = revision,
     pr_trigger = reason, pr_result = None, pr_exit_code = None, pr_exit_status = None\<rparr>"
  let ?db2 = "db1\<lparr>hs_run_seq := hs_run_seq db1 + 1, hs_runs := hs_runs db1 @ [?row]\<rparr>"
  have db1: "advance db db1" using advance_reason [OF assms] Some r by blast
  have "advance db1 ?db2"
    by (rule advance_runs) (use advance_ok [OF db1] in \<open>auto simp: history_ok_def list_all_iff\<close>)
  with db1 have db2: "advance db ?db2" by (rule advance_trans)
  then have "advance db (update_jobs p (\<lambda>k. k\<lparr>jb_started_run := Some n\<rparr>) ?db2)" for p n
    by (rule advance_trans) (auto intro!: advance_update advance_ok [OF db2])
  with db2 Some r advance_refl [OF assms] show ?thesis
    by (auto simp: start_process_run_def Let_def split: option.split)
qed

lemma tick_advance:
  assumes "history_ok db" and "scheduler_tick io io' now later restart db = ((stop, job), db')"
  shows "advance db db' \<and> (\<forall>j. job = Some j \<longrightarrow> j \<in> pending_ids db - pending_ids db')"
proof -
  obtain r db1 where claim: "claim_due_restart io now db = (r, db1)" by (cases "claim_due_restart io now db")
  show ?thesis
  proof (cases "\<exists>c. r = Some (Some c)")
    case False
    with claim_due_restart_other [OF claim] have "db1 = db" by blast
    with assms claim False show ?thesis by (auto simp: scheduler_tick_def advance_refl split: option.split_asm)
  next
    case True
    then obtain c where c: "r = Some (Some c)" by blast
    with claim claim_due_restart_Some obtain j where j: "j \<in> set (hs_jobs db)" "job_due (unix_seconds now) j" "rj_id c = jb_id j"
      and db1: "db1 = update_jobs (\<lambda>k. jb_id k = jb_id j \<and> jb_status k = Pending)
          (\<lambda>k. k\<lparr>jb_status := Running, jb_executed := Some (unix_seconds now)\<rparr>) db" by blast
    have adv: "advance db db1" unfolding db1 by (rule advance_update [OF assms(1)]) auto
    have gone: "jb_id j \<notin> pending_ids db1" by (auto simp: db1 pending_ids_def update_jobs_def split: if_split_asm)
    have mem: "jb_id j \<in> pending_ids db" using j by (auto simp: pending_ids_def job_due_def)
    obtain success detail where fin: "db' = snd (complete_restart_job io' later (jb_id j) success detail db1)" and job: "job = Some (jb_id j)"
      using assms(2) claim c j(3) by (auto simp: scheduler_tick_def split: option.split_asm)
    have "advance db1 db'" using adv unfolding fin by (intro advance_complete) (simp add: advance_def)
    moreover have "jb_id j \<le> hs_job_seq db1" using assms(1) j(1) by (auto simp: db1 history_ok_def list_all_iff)
    ultimately show ?thesis using advance_trans [OF adv] gone mem job by (auto simp: advance_def)
  qed
qed

lemma history_step_advance:
  assumes "history_ok db" and "history_step e db = (job, db')"
  shows "advance db db' \<and> (\<forall>j. job = Some j \<longrightarrow> j \<in> pending_ids db - pending_ids db')"
proof (cases e)
  case (Tick io io' now later restart)
  with assms(2) obtain stop where "scheduler_tick io io' now later restart db = ((stop, job), db')"
    by (auto split: prod.split_asm)
  with tick_advance [OF assms(1)] show ?thesis by blast
qed (use assms advance_schedule advance_start advance_exit in auto)


lemma restarts_once:
  "history_ok db \<Longrightarrow> distinct (restarts es db) \<and> set (restarts es db) \<subseteq> pending_ids db \<union> {hs_job_seq db <..}"
proof (induction es arbitrary: db)
  case (Cons e es)
  obtain job db' where step: "history_step e db = (job, db')" by (cases "history_step e db")
  note adv = history_step_advance [OF Cons.prems step]
  note IH = Cons.IH [OF advance_ok [OF adv [THEN conjunct1]]]
  have old: "j \<le> hs_job_seq db" if "j \<in> pending_ids db" for j
    using that Cons.prems by (auto simp: pending_ids_def history_ok_def list_all_iff)
  have sub: "set (restarts es db') \<subseteq> pending_ids db \<union> {hs_job_seq db <..}"
  proof
    fix x
    assume "x \<in> set (restarts es db')"
    with IH have "x \<in> pending_ids db' \<or> hs_job_seq db' < x" by auto
    with adv show "x \<in> pending_ids db \<union> {hs_job_seq db <..}" unfolding advance_def by auto
  qed
  show ?case
  proof (cases job)
    case None
    with step IH sub show ?thesis by simp
  next
    case (Some j)
    with adv have j: "j \<in> pending_ids db" "j \<notin> pending_ids db'" "j \<le> hs_job_seq db'" using old [of j] by (auto simp: advance_def)
    with IH have "j \<notin> set (restarts es db')" by auto
    with Some step IH sub j(1) show ?thesis by simp
  qed
qed simp

lemma filter_unique_key: "distinct (map f xs) \<Longrightarrow> x \<in> set xs \<Longrightarrow> P x \<Longrightarrow> filter (\<lambda>y. f y = f x \<and> P y) xs = [x]"
proof (induction xs)
  case (Cons y ys)
  show ?case
  proof (cases "x = y")
    case True
    with Cons.prems(1) have "f x \<notin> f ` set ys" by simp
    then have "filter (\<lambda>z. f z = f x \<and> P z) ys = []" unfolding filter_empty_conv by (metis image_eqI)
    with True Cons.prems show ?thesis by simp
  next
    case False
    with Cons show ?thesis by auto
  qed
qed simp

lemma empty_history_ok: "history_ok empty_history"
  by (simp add: history_ok_def empty_history_def)

text \<open>C37: A restart job is executed at most once.  In any sequence of scheduled jobs, scheduler ticks, process starts and exits,
  across restarts and whatever statements or D-Bus calls fail, no job makes the scheduler restart the unit twice.\<close>

theorem restart_job_runs_once: "distinct (restarts es empty_history)"
  using restarts_once [OF empty_history_ok] by blast

text \<open>The earliest due job is taken.  When the statements succeed, a claim returns a job exactly if one is due,
  and it is the pending job with the least time and, at equal times, the least key.\<close>

theorem claim_takes_earliest:
  assumes "history_ok db" and "io HBegin \<and> io HSelectJob \<and> io HUpdateJob \<and> io HCommit"
  shows "case fst (claim_due_restart io now db) of
      None \<Rightarrow> False
    | Some None \<Rightarrow> list_all (\<lambda>j. \<not> job_due (unix_seconds now) j) (hs_jobs db)
    | Some (Some job) \<Rightarrow> list_ex (\<lambda>j. job_due (unix_seconds now) j \<and> jb_id j = rj_id job \<and>
        list_all (\<lambda>k. \<not> job_due (unix_seconds now) k \<or> (jb_run_at j, jb_id j) \<le> (jb_run_at k, jb_id k)) (hs_jobs db)) (hs_jobs db)"
proof (cases "sort_key (\<lambda>j. (jb_run_at j, jb_id j)) (filter (job_due (unix_seconds now)) (hs_jobs db))")
  case Nil
  then have "filter (job_due (unix_seconds now)) (hs_jobs db) = []" by (metis set_empty set_sort)
  with Nil assms(2) show ?thesis by (simp add: claim_due_restart_def Let_def list_all_iff filter_empty_conv)
next
  case (Cons j js)
  let ?due = "filter (job_due (unix_seconds now)) (hs_jobs db)"
  have "set (j # js) = set ?due" using Cons by (metis set_sort)
  then have j: "j \<in> set (hs_jobs db)" "job_due (unix_seconds now) j" and mem: "k \<in> set (hs_jobs db) \<Longrightarrow> job_due (unix_seconds now) k \<Longrightarrow> k \<in> set (j # js)" for k
    by auto
  have "sorted (map (\<lambda>j. (jb_run_at j, jb_id j)) (j # js))" unfolding Cons [symmetric] by (rule sorted_sort_key)
  then have least: "k \<in> set (hs_jobs db) \<Longrightarrow> job_due (unix_seconds now) k \<Longrightarrow> (jb_run_at j, jb_id j) \<le> (jb_run_at k, jb_id k)" for k
    using mem [of k] by auto
  have "length (filter (\<lambda>k. jb_id k = jb_id j \<and> jb_status k = Pending) (hs_jobs db)) = 1"
    using filter_unique_key [OF _ j(1), of jb_id "\<lambda>k. jb_status k = Pending"] assms(1) j(2) by (simp add: history_ok_def job_due_def)
  with Cons assms(2) j least show ?thesis
    by (auto simp: claim_due_restart_def Let_def list_ex_iff list_all_iff)
qed


theorem claim_takes_earliest_witness:
  "let db = snd (schedule_restart (\<lambda>_. True) 0 0 ''b'' (snd (schedule_restart (\<lambda>_. True) 0 (9 * second) ''a'' empty_history)))
   in map_option (map_option rj_trigger) (fst (claim_due_restart (\<lambda>_. True) (20 * second) db)) = Some (Some ''b'')"
proof -
  let ?db = "snd (schedule_restart (\<lambda>_. True) 0 0 ''b'' (snd (schedule_restart (\<lambda>_. True) 0 (9 * second) ''a'' empty_history)))"
  have ok: "history_ok ?db" by (intro advance_ok [OF advance_schedule] empty_history_ok)
  have "\<exists>job. fst (claim_due_restart (\<lambda>_. True) (20 * second) ?db) = Some (Some job) \<and> rj_trigger job = ''b''"
    using claim_takes_earliest [OF ok, of "\<lambda>_. True" "20 * second"]
    by (simp add: claim_due_restart_def Let_def schedule_restart_def empty_history_def job_due_def unix_seconds_def)
  then show ?thesis by auto
qed

lemma last_sort_key_Max:
  assumes "rev (sort_key f xs) = y # ys"
  shows "f y = Max (f ` set xs)"
proof (rule Max_eqI [symmetric])
  have sorted: "sort_key f xs = rev ys @ [y]" using assms by (metis rev.simps(2) rev_rev_ident)
  have set: "set xs = insert y (set ys)" using sorted by (metis Un_insert_right set_append set_rev set_sort sup_bot_right list.simps(15) list.set(1))
  show "f y \<in> f ` set xs" using set by simp
  have "sorted (map f (rev ys @ [y]))" unfolding sorted [symmetric] by (rule sorted_sort_key)
  then show "v \<le> f y" if "v \<in> f ` set xs" for v using that set by (auto simp: sorted_append)
qed simp

lemma close_latest_run_Max:
  assumes "filter (\<lambda>r. pr_stopped r = None \<and> p r) (hs_runs db) \<noteq> []"
  shows "close_latest_run p f db = (True, db\<lparr>hs_runs :=
     map (\<lambda>q. if pr_id q = Max (pr_id ` set (filter (\<lambda>r. pr_stopped r = None \<and> p r) (hs_runs db))) then f q else q) (hs_runs db)\<rparr>)"
proof (cases "rev (sort_key pr_id (filter (\<lambda>r. pr_stopped r = None \<and> p r) (hs_runs db)))")
  case Nil
  with assms show ?thesis by (metis rev_is_Nil_conv set_empty set_sort)
next
  case (Cons r rs)
  with last_sort_key_Max [OF Cons] show ?thesis by (simp add: close_latest_run_def)
qed

lemma close_latest_run_none:
  "filter (\<lambda>r. pr_stopped r = None \<and> p r) (hs_runs db) = [] \<Longrightarrow> close_latest_run p f db = (False, db)"
  by (simp add: close_latest_run_def)

definition open_runs :: "history_db \<Rightarrow> run_row list" where
  "open_runs db = filter (\<lambda>r. pr_stopped r = None) (hs_runs db)"

definition own_runs :: "int \<Rightarrow> history_db \<Rightarrow> run_row list" where
  "own_runs pid db = filter (\<lambda>r. pr_stopped r = None \<and> pr_pid r = pid) (hs_runs db)"

text \<open>An exit is recorded on the run it belongs to.  When the statements succeed and some run is open, recording an exit
  closes exactly one run: the latest open run of that process if there is one, else the latest open run; every other
  row keeps its columns.\<close>

theorem exit_closes_latest_run:
  assumes "io HCloseRun \<and> io HCloseLatest" and "open_runs db \<noteq> []"
  shows "hs_runs (snd (record_process_exit io now pid result code status db)) =
    map (\<lambda>r. if pr_id r = Max (pr_id ` set (if 0 < pid \<and> own_runs pid db \<noteq> [] then own_runs pid db else open_runs db))
             then exit_columns (unix_seconds now) result code status r else r) (hs_runs db)"
  using assms close_latest_run_Max [of "\<lambda>_. True" db] close_latest_run_Max [of "\<lambda>r. pr_pid r = pid" db]
    close_latest_run_none [of "\<lambda>r. pr_pid r = pid" db]
  by (cases "own_runs pid db = []") (simp_all add: record_process_exit_def Let_def own_runs_def open_runs_def)

definition demo_history :: history_db where
  "demo_history = snd (start_process_run (\<lambda>_. True) 0 7 1 ''boot'' empty_history)"

theorem exit_closes_latest_run_witness:
  "map pr_result (hs_runs (snd (record_process_exit (\<lambda>_. True) 0 5 ''signal'' ''killed'' ''9'' demo_history))) = [Some ''signal'']"
  using exit_closes_latest_run [of "\<lambda>_. True" demo_history 0 5 "''signal''" "''killed''" "''9''"]
  by (simp add: demo_history_def start_process_run_def start_reason_def empty_history_def Let_def exit_columns_def open_runs_def own_runs_def)

end
