(* ===== verification/Subtoken.thy ===== *)
theory Subtoken
  imports Go_Std
begin

text \<open>
  Subscription bearer tokens (\<open>internal/subtoken\<close>): the Base62 encoding behind the tokens of old
  deployments and the rejection sampling behind new ones.  HMAC-SHA-256 is an argument, and so is
  what the system's random source delivers, one byte per read.
\<close>

section \<open>Tokens\<close>

definition token_length :: nat where "token_length = 16"

definition chars :: string where
  "chars = ''0123456789ABCDEFGHIJKLMNOPQRSTUVWXYZabcdefghijklmnopqrstuvwxyz''"

text \<open>One round of the long division by 62, with the remainder carried from byte to byte; the quotient is written back.\<close>

fun divide_round :: "nat \<Rightarrow> bytes \<Rightarrow> nat \<times> bytes" where
  "divide_round remainder [] = (remainder, [])"
| "divide_round remainder (b # num) =
     (let value = remainder * 256 + unat b;
          (r, num') = divide_round (value mod length chars) num
      in (r, of_nat (value div length chars) # num'))"

fun encode_digits :: "nat \<Rightarrow> bytes \<Rightarrow> string" where
  "encode_digits 0 num = []"
| "encode_digits (Suc i) num = (case divide_round 0 num of (remainder, num') \<Rightarrow> encode_digits i num' @ [chars ! remainder])"

definition encode_base62 :: "bytes \<Rightarrow> string" where
  "encode_base62 input = encode_digits token_length input"

definition legacy_token :: "(bytes \<Rightarrow> bytes \<Rightarrow> bytes) \<Rightarrow> string \<Rightarrow> string \<Rightarrow> string" where
  "legacy_token hmac username secret = encode_base62 (take 12 (hmac (bytes_of_string secret) (bytes_of_string username)))"

text \<open>
  \<open>Random\<close>.  The reads of the random source come as a list, \<open>None\<close> for one that fails; \<open>Blocked\<close> is a
  call that still waits for the source.
\<close>

datatype 'a draw = Blocked | ReadFailed | Drawn 'a "byte option list"

fun random_char :: "byte option list \<Rightarrow> char draw" where
  "random_char [] = Blocked"
| "random_char (None # reads) = ReadFailed"
| "random_char (Some b # reads) = (if b < 248 then Drawn (chars ! (unat b mod length chars)) reads else random_char reads)"

fun random_chars :: "nat \<Rightarrow> byte option list \<Rightarrow> string draw" where
  "random_chars 0 reads = Drawn [] reads"
| "random_chars (Suc n) reads =
     (case random_char reads of
        Blocked \<Rightarrow> Blocked
      | ReadFailed \<Rightarrow> ReadFailed
      | Drawn c rest \<Rightarrow>
          (case random_chars n rest of Blocked \<Rightarrow> Blocked | ReadFailed \<Rightarrow> ReadFailed | Drawn cs rest' \<Rightarrow> Drawn (c # cs) rest'))"

definition random_token :: "byte option list \<Rightarrow> string draw" where
  "random_token reads = random_chars token_length reads"

section \<open>The alphabet\<close>

lemma length_chars [simp]: "length chars = 62"
  by (simp add: chars_def)

lemma distinct_chars: "distinct chars"
  by (simp add: chars_def)

definition char_index :: "char \<Rightarrow> nat" where
  "char_index c = length (takeWhile (\<lambda>d. d \<noteq> c) chars)"

lemma takeWhile_nth_distinct: "distinct xs \<Longrightarrow> i < length xs \<Longrightarrow> length (takeWhile (\<lambda>x. x \<noteq> xs ! i) xs) = i"
proof (induction xs arbitrary: i)
  case (Cons x xs)
  then show ?case by (cases i) (auto simp: nth_eq_iff_index_eq)
qed simp

lemma char_index_nth [simp]: "i < 62 \<Longrightarrow> char_index (chars ! i) = i"
  unfolding char_index_def by (rule takeWhile_nth_distinct) (simp_all add: distinct_chars)

section \<open>Base62\<close>

definition bytes_value :: "bytes \<Rightarrow> nat" where
  "bytes_value bs = foldl (\<lambda>v b. v * 256 + unat b) 0 bs"

definition base62_value :: "string \<Rightarrow> nat" where
  "base62_value s = foldl (\<lambda>v c. v * 62 + char_index c) 0 s"

lemma foldl_bytes: "foldl (\<lambda>v b. v * 256 + unat b) a bs = a * 256 ^ length bs + bytes_value bs" for bs :: bytes
proof (induction bs arbitrary: a)
  case (Cons b bs)
  show ?case
    using Cons.IH [of "a * 256 + unat b"] Cons.IH [of "unat b"] by (simp add: bytes_value_def algebra_simps)
qed (simp add: bytes_value_def)

lemma bytes_value_Cons: "bytes_value (b # bs) = unat b * 256 ^ length bs + bytes_value bs"
  using foldl_bytes [of "unat b" bs] by (simp add: bytes_value_def)

lemma divide_round_spec:
  assumes "divide_round r bs = (r', bs')" and "r < 62"
  shows "length bs' = length bs \<and> r' < 62 \<and> r * 256 ^ length bs + bytes_value bs = 62 * bytes_value bs' + r'"
  using assms
proof (induction bs arbitrary: r r' bs')
  case (Cons b bs)
  let ?v = "r * 256 + unat b"
  obtain num where rec: "divide_round (?v mod 62) bs = (r', num)" and bs': "bs' = of_nat (?v div 62) # num"
    using Cons.prems(1) by (auto simp: Let_def split: prod.split_asm)
  have "?v < 62 * 256" using Cons.prems(2) unat_byte_less [of b] by linarith
  then have q: "unat (of_nat (?v div 62) :: byte) = ?v div 62" by (simp add: unat_of_nat)
  from Cons.IH [OF rec] have IH: "length num = length bs" "r' < 62" "(?v mod 62) * 256 ^ length bs + bytes_value bs = 62 * bytes_value num + r'"
    by simp_all
  have "r * 256 ^ length (b # bs) + bytes_value (b # bs) = ?v * 256 ^ length bs + bytes_value bs"
    by (simp add: bytes_value_Cons algebra_simps)
  also have "?v * 256 ^ length bs = 62 * (?v div 62) * 256 ^ length bs + (?v mod 62) * 256 ^ length bs"
    unfolding distrib_right [symmetric] by simp
  finally have "r * 256 ^ length (b # bs) + bytes_value (b # bs) = 62 * (?v div 62 * 256 ^ length bs + bytes_value num) + r'"
    using IH(3) by (simp only: distrib_left mult.assoc add.assoc)
  with IH(1,2) show ?case by (simp only: bs' bytes_value_Cons q list.size)
qed (simp add: bytes_value_def)

lemma encode_digits_value: "base62_value (encode_digits n bs) = bytes_value bs mod 62 ^ n \<and> length (encode_digits n bs) = n"
proof (induction n arbitrary: bs)
  case (Suc n)
  obtain r num where round: "divide_round 0 bs = (r, num)" by (cases "divide_round 0 bs")
  from divide_round_spec [OF this] have r: "r < 62" and v: "bytes_value bs = 62 * bytes_value num + r" by simp_all
  have "bytes_value bs mod 62 ^ Suc n = 62 * (bytes_value num mod 62 ^ n) + r"
    using r mod_mult2_eq [of "bytes_value bs" 62 "62 ^ n"] by (simp add: v)
  with Suc r show ?case by (simp add: round base62_value_def)
qed (simp add: base62_value_def)

text \<open>Base62 by long division.  The byte-by-byte division writes exactly the sixteen base-62 digits of the number
  the bytes denote, most significant first, of which numbers from 62 to the 16th on keep the residue.\<close>

theorem base62_encodes_residue: "base62_value (encode_base62 input) = bytes_value input mod 62 ^ 16"
  using encode_digits_value [of token_length input] by (simp add: encode_base62_def token_length_def)

section \<open>Random tokens\<close>

definition accepted :: "char \<Rightarrow> byte set" where
  "accepted c = {b. b < 248 \<and> chars ! (unat b mod 62) = c}"

lemma residue_below_248:
  fixes n k :: nat
  assumes "k < 62"
  shows "n < 248 \<and> n mod 62 = k \<longleftrightarrow> n \<in> {k, k + 62, k + 124, k + 186}"
proof
  assume n: "n < 248 \<and> n mod 62 = k"
  have "n div 62 < 4" using n by (intro less_mult_imp_div_less) simp
  then consider "n div 62 = 0" | "n div 62 = 1" | "n div 62 = 2" | "n div 62 = 3" by linarith
  then show "n \<in> {k, k + 62, k + 124, k + 186}" using n div_mult_mod_eq [of n 62] by cases auto
next
  assume "n \<in> {k, k + 62, k + 124, k + 186}"
  then consider "n = k" | "n = k + 1 * 62" | "n = k + 2 * 62" | "n = k + 3 * 62" by auto
  then show "n < 248 \<and> n mod 62 = k" by cases (use assms in \<open>simp_all only: mod_mult_self1 mod_less\<close>, simp_all)
qed

lemma unat_of_nat_byte: "n < 256 \<Longrightarrow> unat (of_nat n :: byte) = n"
  by (simp add: unat_of_nat)

lemma card_accepted:
  assumes "c \<in> set chars"
  shows "card (accepted c) = 4"
proof -
  obtain k where k: "k < 62" "c = chars ! k" using assms by (metis in_set_conv_nth length_chars)
  define S where "S = {k, k + 62, k + 124, k + 186}"
  have small: "n < 256" if "n \<in> S" for n using that k(1) by (auto simp: S_def)
  have "b \<in> accepted c \<longleftrightarrow> unat b \<in> S" for b
  proof -
    have "chars ! (unat b mod 62) = c \<longleftrightarrow> unat b mod 62 = k"
      using k distinct_chars by (simp add: nth_eq_iff_index_eq)
    moreover have "b < 248 \<longleftrightarrow> unat b < 248" by (simp add: word_less_nat_alt)
    ultimately show ?thesis unfolding S_def residue_below_248 [OF k(1), symmetric] by (auto simp: accepted_def)
  qed
  then have "accepted c = of_nat ` S" using small unat_of_nat_byte by (force simp: image_iff)
  moreover have "inj_on (of_nat :: nat \<Rightarrow> byte) S" by (rule inj_onI) (metis small unat_of_nat_byte)
  ultimately show ?thesis by (simp add: card_image S_def)
qed

lemma random_chars_accepted:
  "list_all (\<lambda>b. b < 248) bs \<Longrightarrow> length bs = n \<Longrightarrow>
     random_chars n (map Some bs @ rest) = Drawn (map (\<lambda>b. chars ! (unat b mod 62)) bs) rest"
  by (induction bs arbitrary: n) auto

definition draws :: "string \<Rightarrow> bytes set" where
  "draws t = {bs. length bs = length t \<and> list_all (\<lambda>b. b < 248) bs \<and> random_chars (length t) (map Some bs) = Drawn t []}"

lemma draws_Nil: "draws [] = {[]}"
  by (auto simp: draws_def)

lemma draws_Cons: "draws (c # t) = (\<lambda>(b, bs). b # bs) ` (accepted c \<times> draws t)"
proof (rule set_eqI)
  fix bs
  show "bs \<in> draws (c # t) \<longleftrightarrow> bs \<in> (\<lambda>(b, bs). b # bs) ` (accepted c \<times> draws t)"
  proof (cases bs)
    case (Cons b bs')
    then show ?thesis using random_chars_accepted [of bs' _ "[]"]
      by (auto simp: draws_def accepted_def image_iff)
  qed (auto simp: draws_def)
qed

lemma card_draws: "set t \<subseteq> set chars \<Longrightarrow> card (draws t) = 4 ^ length t"
proof (induction t)
  case (Cons c t)
  have "inj_on (\<lambda>(b, bs). b # bs) (accepted c \<times> draws t)" by (auto simp: inj_on_def)
  with Cons show ?case by (simp add: draws_Cons card_image card_cartesian_product card_accepted)
qed (simp add: draws_Nil)

text \<open>Tokens are drawn without bias.  Of the byte sequences that the rejection lets through, equally many, four to the
  sixteenth, produce each token of sixteen characters of the alphabet.\<close>

theorem random_tokens_uniform:
  assumes "length t = 16" and "set t \<subseteq> set chars"
  shows "card {bs. length bs = 16 \<and> list_all (\<lambda>b. b < 248) bs \<and> random_token (map Some bs) = Drawn t []} = 4 ^ 16"
  using card_draws [OF assms(2)] assms(1) by (simp add: draws_def random_token_def token_length_def)

theorem random_tokens_uniform_witness:
  "card {bs. length bs = 16 \<and> list_all (\<lambda>b. b < 248) bs \<and> random_token (map Some bs) = Drawn (replicate 16 CHR ''A'') []} = 4 ^ 16"
proof (rule random_tokens_uniform)
  show "set (replicate 16 CHR ''A'') \<subseteq> set chars" by (simp add: chars_def)
qed simp

end
