(* ===== verification/Admin_Web.thy ===== *)
theory Admin_Web
  imports Subscription Restart_Jobs Subtoken
begin

text \<open>
  The management web of \<open>api/manager.go\<close>: the routing of requests, the CSRF check and the forms that
  change users, nodes and restart jobs.  The pages that show data and the handler that serves all of them are in \<open>Admin_Views\<close>.

  A response names what is shown: a status, a redirect with its message, or a page with one-time
  credentials.  The wording of the messages is left out, except that each error keeps its cause.
  A request is what \<open>net/http\<close> has parsed; its form is \<open>None\<close> when \<open>ParseForm\<close> fails.
  What other calls do to the database between the two store calls of a handler is the
  argument \<open>ae_between\<close>.
\<close>

section \<open>Requests and responses\<close>

record request =
  rq_method :: string
  rq_path :: string
  rq_form :: "(string, string list) gomap option"

definition form_values :: "request \<Rightarrow> string \<Rightarrow> string list" where
  "form_values r key = (case rq_form r of None \<Rightarrow> [] | Some f \<Rightarrow> gget [] f key)"

definition form_get :: "request \<Rightarrow> string \<Rightarrow> string" where
  "form_get r key = (case form_values r key of [] \<Rightarrow> [] | v # _ \<Rightarrow> v)"

datatype admin_error =
    StoreError management_error | HistoryFailed | RandomFailed | MonthlyInvalid quantity_error | SpeedInvalid quantity_error
  | ExpiryInvalid | RestartTimeInvalid | SystemdMissing | NoSuchUser string | NodeExists string | NoSuchNode string | NodeRenamed

datatype flash =
    UserSaved | UserDisabled | UserEnabled | NodeSaved | NodeUpdated | NodeDeleted | RestartScheduled | FlashError admin_error

datatype credential_title = UserCreated | PasswordReset | TokenReset

datatype admin_response =
    Status nat
  | MovedPermanently string
  | SeeOther flash string
  | CredentialPage credential_title string string

record admin_env =
  ae_read_io :: "stmt \<Rightarrow> bool"
  ae_io :: "stmt \<Rightarrow> bool"
  ae_history_io :: "history_stmt \<Rightarrow> bool"
  ae_now :: go_time
  ae_reads :: "byte option list"
  ae_between :: "management_db \<Rightarrow> management_db"
  ae_hash :: "string \<Rightarrow> bytes"
  ae_enc :: "node_config \<Rightarrow> string option"
  ae_dec :: "string \<Rightarrow> node_config option"
  ae_parse_time :: "string \<Rightarrow> go_time option"

record admin =
  ad_cfg :: gateway_config
  ad_csrf :: string

record admin_world =
  aw_db :: management_db
  aw_history :: history_db

section \<open>Helpers\<close>

definition user_input_from_form :: "(string \<Rightarrow> go_time option) \<Rightarrow> request \<Rightarrow> string \<Rightarrow> (admin_error, managed_user_input) result" where
  "user_input_from_form parse_time r password =
     (case parse_byte_quantity (form_get r ''monthly_bytes'') (form_get r ''monthly_bytes_unit'') of
        Inl e \<Rightarrow> Inl (MonthlyInvalid e)
      | Inr monthly \<Rightarrow>
          (case parse_byte_quantity (form_get r ''download_speed'') (form_get r ''download_speed_unit'') of
             Inl e \<Rightarrow> Inl (SpeedInvalid e)
           | Inr speed \<Rightarrow>
               (let input = \<lambda>expires. \<lparr>mi_username = form_get r ''username'', mi_password = password, mi_expires_at = expires,
                      mi_monthly_bytes = monthly, mi_download_speed = speed, mi_routes = form_values r ''routes''\<rparr>;
                    value = form_get r ''expires_at''
                in if value = [] then Inr (input None)
                   else (case parse_time value of None \<Rightarrow> Inl ExpiryInvalid | Some t \<Rightarrow> Inr (input (Some t))))))"

definition node_from_form :: "request \<Rightarrow> string \<times> node_config \<times> bool" where
  "node_from_form r =
     (form_get r ''name'',
      \<lparr>nc_type = ''hysteria2'', nc_alias = form_get r ''alias'',
       nc_hysteria2 = Some \<lparr>h2_addr = form_get r ''addr'', h2_auth = form_get r ''auth'', h2_insecure = (form_get r ''insecure'' = ''on''),
          h2_sni = form_get r ''sni''\<rparr>\<rparr>,
      form_get r ''enabled'' = ''on'')"

definition preserve_node_credentials :: "node_config \<Rightarrow> node_config \<Rightarrow> node_config" where
  "preserve_node_credentials node existing =
     (if nc_type node \<noteq> nc_type existing then node
      else (case (nc_hysteria2 node, nc_hysteria2 existing) of
              (Some h, Some old) \<Rightarrow> if h2_auth h = [] then node\<lparr>nc_hysteria2 := Some (h\<lparr>h2_auth := h2_auth old\<rparr>)\<rparr> else node
            | _ \<Rightarrow> node))"

definition subscription_base :: "gateway_config \<Rightarrow> string" where
  "subscription_base cfg =
     (case gc_sub cfg of
        None \<Rightarrow> []
      | Some s \<Rightarrow> if sb_public_url s = [] then [] else trim_right_char CHR ''/'' (sb_public_url s) @ ''/'')"

definition error_section :: "string \<Rightarrow> string" where
  "error_section path =
     (if has_prefix path ''/users'' then ''users'' else if has_prefix path ''/restart'' then ''faults'' else ''overview'')"

definition redirect_error :: "request \<Rightarrow> admin_error \<Rightarrow> admin_response" where
  "redirect_error r e = SeeOther (FlashError e) (error_section (rq_path r))"

text \<open>The path below a prefix, as \<open>[name, action]\<close>.\<close>

definition path_parts :: "string \<Rightarrow> string \<Rightarrow> string list" where
  "path_parts pre path = split_byte CHR ''/'' (trim (\<lambda>c. c = CHR ''/'') (trim_prefix path pre))"

definition store_result :: "request \<Rightarrow> admin_response \<Rightarrow> unit mresult \<times> management_db \<Rightarrow> admin_world \<Rightarrow> admin_response option \<times> admin_world" where
  "store_result r success res w =
     (case res of
        (Inl e, db) \<Rightarrow> (Some (redirect_error r (StoreError e)), w\<lparr>aw_db := db\<rparr>)
      | (Inr _, db) \<Rightarrow> (Some success, w\<lparr>aw_db := db\<rparr>))"

section \<open>Users\<close>

text \<open>A call that still waits for the random source has no response.\<close>

definition admin_create_user :: "admin_env \<Rightarrow> admin \<Rightarrow> request \<Rightarrow> admin_world \<Rightarrow> admin_response option \<times> admin_world" where
  "admin_create_user env m r w =
     (if rq_method r \<noteq> ''POST'' then (Some (Status 405), w)
      else case random_token (ae_reads env) of
        Blocked \<Rightarrow> (None, w)
      | ReadFailed \<Rightarrow> (Some (Status 500), w)
      | Drawn password reads \<Rightarrow>
          (case random_token reads of
             Blocked \<Rightarrow> (None, w)
           | ReadFailed \<Rightarrow> (Some (Status 500), w)
           | Drawn token _ \<Rightarrow>
               (case user_input_from_form (ae_parse_time env) r password of
                  Inl e \<Rightarrow> (Some (redirect_error r e), w)
                | Inr input \<Rightarrow>
                    store_result r (CredentialPage UserCreated password (subscription_base (ad_cfg m) @ token))
                      (create_user (ae_io env) (ae_hash env) (ae_now env) (ae_between env) input token (aw_db w)) w)))"

definition admin_save_user :: "admin_env \<Rightarrow> request \<Rightarrow> string \<Rightarrow> admin_world \<Rightarrow> admin_response option \<times> admin_world" where
  "admin_save_user env r username w =
     (case get_user (ae_read_io env) username (aw_db w) of
        Inl e \<Rightarrow> (Some (redirect_error r (StoreError e)), w)
      | Inr None \<Rightarrow> (Some (redirect_error r (NoSuchUser username)), w)
      | Inr (Some user) \<Rightarrow>
          (case user_input_from_form (ae_parse_time env) r (mu_password user) of
             Inl e \<Rightarrow> (Some (redirect_error r e), w)
           | Inr input \<Rightarrow>
               store_result r (SeeOther UserSaved ''users'')
                 (update_user (ae_io env) (ae_now env) (\<lambda>db. db) (input\<lparr>mi_username := username\<rparr>) (ae_between env (aw_db w))) w))"

definition admin_user_action :: "admin_env \<Rightarrow> admin \<Rightarrow> request \<Rightarrow> admin_world \<Rightarrow> admin_response option \<times> admin_world" where
  "admin_user_action env m r w =
     (case path_parts ''/users/'' (rq_path r) of
        [username, action] \<Rightarrow>
          if username = [] then (Some (Status 404), w)
          else if action = ''delete''
          then store_result r (SeeOther UserDisabled ''users'') (set_user_deleted (ae_io env) (ae_now env) username True (aw_db w)) w
          else if action = ''restore''
          then store_result r (SeeOther UserEnabled ''users'') (set_user_deleted (ae_io env) (ae_now env) username False (aw_db w)) w
          else if action = ''password''
          then (case random_token (ae_reads env) of
                  Blocked \<Rightarrow> (None, w)
                | ReadFailed \<Rightarrow> (Some (redirect_error r RandomFailed), w)
                | Drawn password _ \<Rightarrow>
                    store_result r (CredentialPage PasswordReset password [])
                      (reset_user_password (ae_io env) (ae_now env) username password (aw_db w)) w)
          else if action = ''token''
          then (case random_token (ae_reads env) of
                  Blocked \<Rightarrow> (None, w)
                | ReadFailed \<Rightarrow> (Some (redirect_error r RandomFailed), w)
                | Drawn token _ \<Rightarrow>
                    store_result r (CredentialPage TokenReset [] (subscription_base (ad_cfg m) @ token))
                      (reset_user_token (ae_io env) (ae_hash env) (ae_now env) username token (aw_db w)) w)
          else if action = ''save'' then admin_save_user env r username w
          else (Some (Status 404), w)
      | _ \<Rightarrow> (Some (Status 404), w))"

section \<open>Nodes\<close>

definition admin_save_node :: "admin_env \<Rightarrow> request \<Rightarrow> admin_world \<Rightarrow> admin_response option \<times> admin_world" where
  "admin_save_node env r w =
     (if rq_method r \<noteq> ''POST'' then (Some (Status 405), w)
      else (case node_from_form r of (name, node, enabled) \<Rightarrow>
        (case get_node (ae_read_io env) (ae_dec env) name (aw_db w) of
           Inl e \<Rightarrow> (Some (redirect_error r (StoreError e)), w)
         | Inr (Some _) \<Rightarrow> (Some (redirect_error r (NodeExists name)), w)
         | Inr None \<Rightarrow>
             store_result r (SeeOther NodeSaved ''overview'')
               (save_node (ae_io env) (ae_enc env) (ae_now env) name node enabled (ae_between env (aw_db w))) w)))"

definition admin_node_action :: "admin_env \<Rightarrow> request \<Rightarrow> admin_world \<Rightarrow> admin_response option \<times> admin_world" where
  "admin_node_action env r w =
     (case path_parts ''/nodes/'' (rq_path r) of
        [target, action] \<Rightarrow>
          if target = [] then (Some (Status 404), w)
          else if action = ''save''
          then (case get_node (ae_read_io env) (ae_dec env) target (aw_db w) of
                  Inl e \<Rightarrow> (Some (redirect_error r (StoreError e)), w)
                | Inr None \<Rightarrow> (Some (redirect_error r (NoSuchNode target)), w)
                | Inr (Some existing) \<Rightarrow>
                    (case node_from_form r of (name, node, enabled) \<Rightarrow>
                       if name \<noteq> target then (Some (redirect_error r NodeRenamed), w)
                       else store_result r (SeeOther NodeUpdated ''overview'')
                              (update_node (ae_io env) (ae_enc env) (ae_now env) name (preserve_node_credentials node (mn_config existing)) enabled
                                 (ae_between env (aw_db w))) w))
          else if action = ''delete''
          then store_result r (SeeOther NodeDeleted ''overview'') (delete_node (ae_io env) target (aw_db w)) w
          else (Some (Status 404), w)
      | _ \<Rightarrow> (Some (Status 404), w))"

section \<open>Restarts\<close>

definition schedule_result :: "request \<Rightarrow> int option \<times> history_db \<Rightarrow> admin_world \<Rightarrow> admin_response option \<times> admin_world" where
  "schedule_result r res w =
     (case res of
        (None, h) \<Rightarrow> (Some (redirect_error r HistoryFailed), w\<lparr>aw_history := h\<rparr>)
      | (Some _, h) \<Rightarrow> (Some (SeeOther RestartScheduled ''faults''), w\<lparr>aw_history := h\<rparr>))"

definition admin_restart :: "admin_env \<Rightarrow> admin \<Rightarrow> request \<Rightarrow> admin_world \<Rightarrow> admin_response option \<times> admin_world" where
  "admin_restart env m r w =
     (let schedule = \<lambda>run_at trigger. schedule_restart (ae_history_io env) (ae_now env) run_at trigger (aw_history w);
          value = form_get r ''run_at''
      in if gc_systemd (ad_cfg m) = None then (Some (redirect_error r SystemdMissing), w)
         else if value = [] then schedule_result r (schedule (ae_now env + 2 * second) ''immediate'') w
         else (case ae_parse_time env value of
                 None \<Rightarrow> (Some (redirect_error r RestartTimeInvalid), w)
               | Some t \<Rightarrow> schedule_result r (schedule t ''scheduled'') w))"

section \<open>Routing\<close>

definition with_csrf ::
  "admin \<Rightarrow> (request \<Rightarrow> admin_world \<Rightarrow> admin_response option \<times> admin_world) \<Rightarrow> request \<Rightarrow> admin_world \<Rightarrow> admin_response option \<times> admin_world"
where
  "with_csrf m handler r w =
     (if rq_method r \<noteq> ''POST'' then (Some (Status 405), w)
      else if rq_form r = None \<or> form_get r ''csrf'' \<noteq> ad_csrf m then (Some (Status 403), w)
      else handler r w)"

text \<open>
  \<open>http.ServeMux\<close>: a path that is not clean is redirected to its clean form; an exact pattern wins over a
  subtree, and a longer subtree over the root.
\<close>

fun clean_segments :: "string list \<Rightarrow> string list \<Rightarrow> string list" where
  "clean_segments acc [] = rev acc"
| "clean_segments acc (s # ss) =
     (if s = [] \<or> s = ''.'' then clean_segments acc ss
      else if s = ''..'' then clean_segments (drop 1 acc) ss
      else clean_segments (s # acc) ss)"

definition clean_path :: "string \<Rightarrow> string" where
  "clean_path p =
     (let p' = (if p = [] \<or> hd p \<noteq> CHR ''/'' then CHR ''/'' # p else p);
          body = concat (map (\<lambda>s. CHR ''/'' # s) (clean_segments [] (split_byte CHR ''/'' p')));
          np = (if body = [] then ''/'' else body)
      in if p' \<noteq> [] \<and> last p' = CHR ''/'' \<and> np \<noteq> ''/'' then np @ ''/'' else np)"

datatype endpoint = Dashboard | Asset string | Live | TrafficRange | Users | UserAction | Nodes | NodeAction | Restart

definition route :: "string \<Rightarrow> endpoint" where
  "route path =
     (if path = ''/assets/admin.css'' \<or> path = ''/assets/admin.js'' then Asset path
      else if path = ''/live'' then Live
      else if path = ''/traffic-range'' then TrafficRange
      else if path = ''/users'' then Users
      else if path = ''/nodes'' then Nodes
      else if path = ''/restart'' then Restart
      else if has_prefix path ''/users/'' then UserAction
      else if has_prefix path ''/nodes/'' then NodeAction
      else Dashboard)"

section \<open>The token of the process\<close>

text \<open>\<open>base64.RawURLEncoding.EncodeToString\<close> on the values of the bytes.\<close>

definition base64url_char :: "nat \<Rightarrow> char" where
  "base64url_char d =
     (if d < 26 then char_of (65 + d) else if d < 52 then char_of (71 + d) else if d < 62 then char_of (d - 4)
      else if d = 62 then CHR ''-'' else CHR ''_'')"

fun base64url :: "nat list \<Rightarrow> string" where
  "base64url [] = []"
| "base64url [a] = map base64url_char [a div 4, a mod 4 * 16]"
| "base64url [a, b] = map base64url_char [a div 4, a mod 4 * 16 + b div 16, b mod 16 * 4]"
| "base64url (a # b # c # rest) =
     map base64url_char [a div 4, a mod 4 * 16 + b div 16, b mod 16 * 4 + c div 64, c mod 64] @ base64url rest"

text \<open>The 32 bytes that \<open>rand.Read\<close> fills, \<open>None\<close> when it fails.\<close>

definition random_csrf :: "bytes option \<Rightarrow> string option" where
  "random_csrf raw = map_option (\<lambda>bs. base64url (map unat bs)) raw"

definition new_admin :: "(string \<Rightarrow> bool) \<Rightarrow> bytes option \<Rightarrow> gateway_config \<Rightarrow> admin option" where
  "new_admin known_zone raw cfg =
     (if \<not> known_zone (gc_timezone cfg) then None
      else (case random_csrf raw of None \<Rightarrow> None | Some csrf \<Rightarrow> Some \<lparr>ad_cfg = cfg, ad_csrf = csrf\<rparr>))"

text \<open>\<open>withSecurityHeaders\<close> sets these headers before any handler runs.\<close>

definition quoted :: "string \<Rightarrow> string" where "quoted w = CHR 0x27 # w @ [CHR 0x27]"

definition content_security_policy :: string where
  "content_security_policy =
     ''default-src '' @ quoted ''self'' @ ''; style-src '' @ quoted ''self'' @ ''; script-src '' @ quoted ''self'' @ ''; connect-src '' @
     quoted ''self'' @ ''; img-src '' @ quoted ''self'' @ '' data:; base-uri '' @ quoted ''none'' @ ''; frame-ancestors '' @ quoted ''none''"

definition with_security_headers ::
  "(request \<Rightarrow> 'w \<Rightarrow> 'a \<times> 'w) \<Rightarrow> request \<Rightarrow> 'w \<Rightarrow> ((string, string) gomap \<times> 'a) \<times> 'w"
where
  "with_security_headers handler r w =
     (case handler r w of (resp, w') \<Rightarrow>
        (([(''Cache-Control'', ''no-store''), (''X-Content-Type-Options'', ''nosniff''), (''X-Frame-Options'', ''DENY''),
           (''Referrer-Policy'', ''no-referrer''), (''Content-Security-Policy'', content_security_policy)], resp), w'))"

section \<open>Credential pages\<close>

definition html_escape_char :: "char \<Rightarrow> string" where
  "html_escape_char c =
     (if c = CHR 0x00 then [CHR 0xEF, CHR 0xBF, CHR 0xBD]
      else if c = CHR 0x22 then ''&#34;''
      else if c = CHR 0x27 then ''&#39;''
      else if c = CHR ''&'' then ''&amp;''
      else if c = CHR ''<'' then ''&lt;''
      else if c = CHR ''>'' then ''&gt;''
      else [c])"

definition html_escape :: "string \<Rightarrow> string" where
  "html_escape s = concat (map html_escape_char s)"

definition credential_line :: "string \<Rightarrow> string" where
  "credential_line value = (if value = [] then [] else ''<br>'' @ html_escape value)"


section \<open>What a request needs\<close>

lemma with_csrf_changes:
  "with_csrf m handler r w = (resp, w') \<Longrightarrow> w' \<noteq> w \<Longrightarrow> rq_method r = ''POST'' \<and> rq_form r \<noteq> None \<and> form_get r ''csrf'' = ad_csrf m"
  by (auto simp: with_csrf_def split: if_split_asm)

section \<open>The token is unguessable\<close>

lemma of_char_base64url:
  "d < 64 \<Longrightarrow> of_char (base64url_char d) = (if d < 26 then 65 + d else if d < 52 then 71 + d else if d < 62 then d - 4
     else if d = 62 then 45 else 95)"
  by (simp add: base64url_char_def)

lemma base64url_char_inject: "x < 64 \<Longrightarrow> y < 64 \<Longrightarrow> base64url_char x = base64url_char y \<Longrightarrow> x = y"
  by (drule arg_cong [where f = "of_char :: char \<Rightarrow> nat"]) (simp add: of_char_base64url split: if_split_asm)

lemma length_base64url: "length (base64url bs) = (4 * length bs + 2) div 3"
  by (induction bs rule: base64url.induct) simp_all

lemma mixed_radix: "x * n + y = x' * n + y' \<Longrightarrow> y < n \<Longrightarrow> y' < n \<Longrightarrow> x = x' \<and> y = y'"
  for x y x' y' n :: nat
  by (metis add.commute div_mult_self3 div_less mod_less mod_mult_self3 add_0 not_less_zero)

lemma split_inject: "a div n = b div n \<Longrightarrow> a mod n = b mod n \<Longrightarrow> a = b"
  for a b n :: nat
  by (metis div_mod_decomp)

lemma base64_digits:
  fixes a b c :: nat
  assumes "a < 256" "b < 256" "c < 256"
  shows "a div 4 < 64" "a mod 4 * 16 < (64::nat)" "a mod 4 * 16 + b div 16 < (64::nat)" "b mod 16 * 4 < (64::nat)"
    "b mod 16 * 4 + c div 64 < (64::nat)" "c mod 64 < (64::nat)" "b div 16 < (16::nat)" "c div 64 < (4::nat)"
proof -
  have m: "a mod 4 < 4" "b mod 16 < 16" "c mod 64 < 64" by simp_all
  show d: "a div 4 < 64" "b div 16 < 16" "c div 64 < 4" "c mod 64 < 64" using assms by auto
  show "a mod 4 * 16 < 64" "a mod 4 * 16 + b div 16 < 64" "b mod 16 * 4 < 64" "b mod 16 * 4 + c div 64 < 64" using m d by linarith+
qed

lemma base64url_inject:
  "length xs = length ys \<Longrightarrow> list_all (\<lambda>b. b < 256) xs \<Longrightarrow> list_all (\<lambda>b. b < 256) ys \<Longrightarrow> base64url xs = base64url ys \<Longrightarrow> xs = ys"
proof (induction xs arbitrary: ys rule: base64url.induct)
  case 1
  then show ?case by simp
next
  case (2 a)
  then obtain a' where ys: "ys = [a']" by (auto simp: Suc_length_conv)
  with 2 have lt: "a < 256" "(0::nat) < 256" "a' < 256" by simp_all
  note dig = base64_digits [OF lt(1,2,2)] base64_digits [OF lt(3,2,2)]
  from 2(4) ys have "a div 4 = a' div 4" "a mod 4 * 16 = a' mod 4 * 16"
    using base64url_char_inject [OF dig(1,9)] base64url_char_inject [OF dig(2,10)]
    by (simp_all only: base64url.simps list.map list.inject)
  then show ?case using split_inject [of a 4 a'] ys by simp
next
  case (3 a b)
  from 3(1) obtain a' b' where ys: "ys = [a', b']" by (auto simp: Suc_length_conv length_Suc_conv)
  with 3 have lt: "a < 256" "b < 256" "(0::nat) < 256" "a' < 256" "b' < 256" by simp_all
  note dig = base64_digits [OF lt(1,2,3)] base64_digits [OF lt(4,5,3)]
  from 3(4) ys have *: "a div 4 = a' div 4" "a mod 4 * 16 + b div 16 = a' mod 4 * 16 + b' div 16" "b mod 16 * 4 = b' mod 16 * 4"
    using base64url_char_inject [OF dig(1,9)] base64url_char_inject [OF dig(3,11)] base64url_char_inject [OF dig(4,12)]
    by (simp_all only: base64url.simps list.map list.inject)
  from mixed_radix [OF *(2) dig(7,15)] * show ?case using split_inject [of a 4 a'] split_inject [of b 16 b'] ys by simp
next
  case (4 a b c rest)
  from 4(2) obtain a' b' c' rest' where ys: "ys = a' # b' # c' # rest'" by (auto simp: Suc_length_conv length_Suc_conv)
  with 4 have lt3: "a < 256" "b < 256" "c < 256" "a' < 256" "b' < 256" "c' < 256" by simp_all
  note dig = base64_digits [OF lt3(1-3)] base64_digits [OF lt3(4-6)]
  from 4(5) ys dig have *: "a div 4 = a' div 4" "a mod 4 * 16 + b div 16 = a' mod 4 * 16 + b' div 16"
    "b mod 16 * 4 + c div 64 = b' mod 16 * 4 + c' div 64" "c mod 64 = c' mod 64" and "base64url rest = base64url rest'"
    using base64url_char_inject [OF dig(1,9)] base64url_char_inject [OF dig(3,11)] base64url_char_inject [OF dig(5,13)]
      base64url_char_inject [OF dig(6,14)] by (simp_all only: base64url.simps list.map append_Cons append_Nil list.inject)
  with 4 ys have "rest = rest'" by simp
  with mixed_radix [OF *(2) dig(7,15)] mixed_radix [OF *(3) dig(8,16)] * show ?case
    using split_inject [of a 4 a'] split_inject [of b 16 b'] split_inject [of c 64 c'] ys by simp
qed

text \<open>Different draws of the random source give different tokens, all of 43 characters: a form with no token is refused.\<close>

lemma csrf_tokens_distinct:
  assumes "length raw = 32" "length raw' = 32" "raw \<noteq> raw'"
  shows "random_csrf (Some raw) \<noteq> random_csrf (Some raw') \<and> map_option length (random_csrf (Some raw)) = Some 43"
proof -
  have "base64url (map unat raw) \<noteq> base64url (map unat raw')"
  proof
    assume "base64url (map unat raw) = base64url (map unat raw')"
    then have "map unat raw = map unat raw'"
      using assms unsigned_less [where 'a = nat and 'b = 8] by (intro base64url_inject) (simp_all add: list_all_iff)
    with assms(3) show False by (meson injI map_injective unsigned_word_eqI)
  qed
  then show ?thesis by (simp add: random_csrf_def length_base64url assms)
qed

section \<open>Integrity\<close>

lemma store_result_ok: "management_ok (snd res) \<Longrightarrow> management_ok (aw_db (snd (store_result r success res w)))"
  by (cases res; cases "fst res") (auto simp: store_result_def)

lemma store_result_history [simp]: "aw_history (snd (store_result r success res w)) = aw_history w"
  by (simp add: store_result_def split: prod.split sum.split)

lemmas run_op_cases_ok = run_op_ok [where op = "CreateUser inp token" for inp token, simplified]
  run_op_ok [where op = "UpdateUser inp" for inp, simplified] run_op_ok [where op = "SetUserDeleted n d" for n d, simplified]
  run_op_ok [where op = "ResetUserPassword n p" for n p, simplified] run_op_ok [where op = "ResetUserToken n t" for n t, simplified]
  run_op_ok [where op = "SaveNode n c e" for n c e, simplified] run_op_ok [where op = "UpdateNode n c e" for n c e, simplified]
  run_op_ok [where op = "DeleteNode n" for n, simplified]

definition admin_ok :: "admin_world \<Rightarrow> bool" where
  "admin_ok w \<longleftrightarrow> management_ok (aw_db w) \<and> history_ok (aw_history w)"

lemma store_result_admin_ok:
  "admin_ok w \<Longrightarrow> management_ok (snd res) \<Longrightarrow> admin_ok (snd (store_result r success res w))"
  by (simp add: admin_ok_def store_result_ok)

lemma schedule_result_admin_ok:
  "admin_ok w \<Longrightarrow> admin_ok (snd (schedule_result r (schedule_restart io now run_at trigger (aw_history w)) w))"
  using advance_ok [OF advance_schedule, of "aw_history w" io now run_at trigger]
  by (auto simp: schedule_result_def admin_ok_def split: prod.split option.split)

text \<open>Every form handler keeps the tables well-formed, whatever fails below.\<close>

lemma form_handlers_ok:
  assumes "admin_ok w" and "ae_between env = (\<lambda>db. db)"
  shows "admin_ok (snd (admin_create_user env m r w))" "admin_ok (snd (admin_user_action env m r w))"
    "admin_ok (snd (admin_save_node env r w))" "admin_ok (snd (admin_node_action env r w))" "admin_ok (snd (admin_restart env m r w))"
proof -
  have db: "management_ok (aw_db w)" using assms(1) by (simp add: admin_ok_def)
  show "admin_ok (snd (admin_create_user env m r w))"
    using assms db by (auto simp: admin_create_user_def intro!: store_result_admin_ok run_op_cases_ok split: draw.split sum.split)
  have "admin_ok (snd (admin_save_user env r name w))" for name
    using assms db by (auto simp: admin_save_user_def intro!: store_result_admin_ok run_op_cases_ok split: option.split sum.split)
  then show "admin_ok (snd (admin_user_action env m r w))"
    using assms db unfolding admin_user_action_def
    by (auto intro!: store_result_admin_ok run_op_cases_ok split: draw.split list.split)
  show "admin_ok (snd (admin_save_node env r w))"
    using assms db by (auto simp: admin_save_node_def intro!: store_result_admin_ok run_op_cases_ok split: option.split sum.split prod.split)
  show "admin_ok (snd (admin_node_action env r w))"
    using assms db unfolding admin_node_action_def
    by (auto intro!: store_result_admin_ok run_op_cases_ok split: option.split sum.split list.split prod.split)
  show "admin_ok (snd (admin_restart env m r w))"
    using assms(1) by (simp add: admin_restart_def Let_def schedule_result_admin_ok split: option.split)
qed

lemma with_csrf_ok: "admin_ok w \<Longrightarrow> admin_ok (snd (handler r w)) \<Longrightarrow> admin_ok (snd (with_csrf m handler r w))"
  by (simp add: with_csrf_def)

section \<open>Saving a user or a node\<close>

text \<open>
  Saving a user writes back the password that was read at the beginning of the request.  Whatever
  \<open>ae_between\<close> did to the row in the meantime, a password reset included, is overwritten.
\<close>

lemma get_user_Some:
  assumes "management_ok db" and "get_user io name db = Inr (Some user)"
  shows "\<exists>row. map_of (md_users db) name = Some row \<and> mu_password user = ur_password row"
proof -
  from assms(2) have "find (\<lambda>u. mu_username u = name) (populate_user_routes db (map managed_user_of (rows_by_name (md_users db)))) = Some user"
    by (auto simp: get_user_def list_users_def rbind_eq_Inr split: if_split_asm)
  then have "mu_username user = name" "user \<in> set (populate_user_routes db (map managed_user_of (rows_by_name (md_users db))))"
    by (auto simp: find_Some_iff)
  then obtain row where "(name, row) \<in> set (md_users db)" "mu_password user = ur_password row"
    by (auto simp: populate_user_routes_def managed_user_of_def rows_by_name_def)
  with assms(1) show ?thesis by (auto simp: management_ok_def)
qed

lemma update_user_password:
  assumes "update_user io now others inp db = (Inr u, db')"
  shows "map_option ur_password (map_of (md_users db') (mi_username inp)) = Some (mi_password inp)"
proof -
  from assms have "update_user_tx io (unix_seconds now) inp (others db) = Inr (u, db')"
    by (auto simp: update_user_def transact_Inr split: if_split_asm sum.split_asm)
  then show ?thesis
    by (auto simp: update_user_tx_def rbind_eq_Inr Let_def bump_revision_def dest!: insert_grants_ok split: if_split_asm option.split_asm)
qed

lemma user_input_password: "user_input_from_form parse_time r pw = Inr inp \<Longrightarrow> mi_password inp = pw"
  by (auto simp: user_input_from_form_def Let_def split: sum.split_asm if_split_asm option.split_asm)

lemma store_result_success:
  "store_result r success res w = (Some (SeeOther f sect), w') \<Longrightarrow> (\<And>e. f \<noteq> FlashError e) \<Longrightarrow> \<exists>db. res = (Inr (), db) \<and> w' = w\<lparr>aw_db := db\<rparr>"
  by (auto simp: store_result_def redirect_error_def split: prod.split_asm sum.split_asm)

lemma save_user_overwrites_password:
  assumes "get_user (ae_read_io env) name (aw_db w) = Inr (Some user)" and "admin_save_user env r name w = (Some (SeeOther UserSaved sect), w')"
  shows "map_option ur_password (map_of (md_users (aw_db w')) name) = Some (mu_password user)"
proof -
  from assms obtain inp where inp: "user_input_from_form (ae_parse_time env) r (mu_password user) = Inr inp"
    and "store_result r (SeeOther UserSaved ''users'')
        (update_user (ae_io env) (ae_now env) (\<lambda>db. db) (inp\<lparr>mi_username := name\<rparr>) (ae_between env (aw_db w))) w = (Some (SeeOther UserSaved sect), w')"
    by (auto simp: admin_save_user_def redirect_error_def split: sum.split_asm)
  from store_result_success [OF this(2)] obtain db where
    "update_user (ae_io env) (ae_now env) (\<lambda>db. db) (inp\<lparr>mi_username := name\<rparr>) (ae_between env (aw_db w)) = (Inr (), db)" "w' = w\<lparr>aw_db := db\<rparr>"
    by auto
  with update_user_password [OF this(1)] user_input_password [OF inp] show ?thesis by simp
qed

lemma get_node_Some:
  "get_node io dec name db = Inr (Some n) \<Longrightarrow> \<exists>row. map_of (md_nodes db) name = Some row \<and> dec (nr_config row) = Some (mn_config n) \<and>
     validate_node name (mn_config n) = Inr ()"
  by (auto simp: get_node_def managed_node_of_def rbind_eq_Inr split: if_split_asm option.split_asm)

lemma update_node_Inr:
  assumes "update_node io enc now name node enabled db = (Inr u, db')"
  shows "\<exists>raw row. enc node = Some raw \<and> map_of (md_nodes db') name = Some row \<and> nr_config row = raw \<and> nr_enabled row = enabled \<and>
    validate_node name node = Inr ()"
  using assms by (auto simp: update_node_def transact_Inr rbind_eq_Inr bump_revision_def split: if_split_asm sum.split_asm option.split_asm)

lemma node_edit_update:
  assumes "admin_node_action env r w = (Some (SeeOther NodeUpdated sect), w')" and "path_parts ''/nodes/'' (rq_path r) = [name, ''save'']"
    and "get_node (ae_read_io env) (ae_dec env) name (aw_db w) = Inr (Some old)"
  shows "update_node (ae_io env) (ae_enc env) (ae_now env) name
      (preserve_node_credentials (fst (snd (node_from_form r))) (mn_config old)) (snd (snd (node_from_form r))) (ae_between env (aw_db w)) = (Inr (), aw_db w')"
proof -
  obtain node enabled where form: "node_from_form r = (name, node, enabled)" and
    res: "store_result r (SeeOther NodeUpdated ''overview'')
        (update_node (ae_io env) (ae_enc env) (ae_now env) name (preserve_node_credentials node (mn_config old)) enabled (ae_between env (aw_db w))) w =
      (Some (SeeOther NodeUpdated sect), w')"
    using assms by (cases "node_from_form r") (auto simp: admin_node_action_def redirect_error_def split: if_split_asm)
  from store_result_success [OF res] form show ?thesis by auto
qed

lemma valid_node_hysteria2: "validate_node name node = Inr () \<longleftrightarrow> nc_type node = ''hysteria2'' \<and> (\<exists>h. nc_hysteria2 node = Some h \<and> h2_addr h \<noteq> [] \<and> h2_auth h \<noteq> [])"
  by (auto simp: validate_node_def split: option.split)

text \<open>Editing a node keeps its secret.  The form shows no secret.  When a node is saved with that field blank, and JSON
  decodes what it encoded, the stored node has the secret it had before and the other fields of the form.\<close>

theorem node_edit_keeps_secret:
  assumes "admin_node_action env r w = (Some (SeeOther NodeUpdated sect), w')" and "path_parts ''/nodes/'' (rq_path r) = [name, ''save'']"
    and "get_node (ae_read_io env) (ae_dec env) name (aw_db w) = Inr (Some old)" and "form_get r ''auth'' = []"
    and "\<forall>c raw. ae_enc env c = Some raw \<longrightarrow> ae_dec env raw = Some c"
  shows "\<exists>new. get_node (\<lambda>_. True) (ae_dec env) name (aw_db w') = Inr (Some new) \<and>
    map_option h2_auth (nc_hysteria2 (mn_config new)) = map_option h2_auth (nc_hysteria2 (mn_config old)) \<and>
    map_option h2_addr (nc_hysteria2 (mn_config new)) = Some (form_get r ''addr'') \<and> mn_enabled new = (form_get r ''enabled'' = ''on'')"
proof -
  let ?node = "preserve_node_credentials (fst (snd (node_from_form r))) (mn_config old)"
  from update_node_Inr [OF node_edit_update [OF assms(1-3)]] obtain raw row where row: "ae_enc env ?node = Some raw"
    "map_of (md_nodes (aw_db w')) name = Some row" "nr_config row = raw" "nr_enabled row = (form_get r ''enabled'' = ''on'')" "validate_node name ?node = Inr ()"
    by (auto simp: node_from_form_def)
  from get_node_Some [OF assms(3)] obtain h where old: "nc_type (mn_config old) = ''hysteria2''" "nc_hysteria2 (mn_config old) = Some h"
    by (auto simp: valid_node_hysteria2)
  with assms(4) have "map_option h2_auth (nc_hysteria2 ?node) = Some (h2_auth h)" "map_option h2_addr (nc_hysteria2 ?node) = Some (form_get r ''addr'')"
    by (simp_all add: preserve_node_credentials_def node_from_form_def)
  with row old assms(5) show ?thesis by (simp add: get_node_def managed_node_of_def rbind_def)
qed

section \<open>Escaping\<close>

text \<open>Credential pages cannot carry markup.  A value shown on a credential page is escaped: it contributes no angle bracket and no quote
  to the page.\<close>

theorem html_escape_neutral:
  "set (html_escape s) \<inter> {CHR ''<'', CHR ''>'', CHR 0x22, CHR 0x27} = {}"
  by (auto simp: html_escape_def html_escape_char_def split: if_split_asm)


section \<open>Concrete requests\<close>

definition demo_edited :: node_config where
  "demo_edited = \<lparr>nc_type = ''hysteria2'', nc_alias = [],
     nc_hysteria2 = Some \<lparr>h2_addr = ''h:2'', h2_auth = ''k'', h2_insecure = False, h2_sni = []\<rparr>\<rparr>"

definition demo_enc :: "node_config \<Rightarrow> string option" where
  "demo_enc c = (if c = demo_node then Some ''d'' else if c = demo_edited then Some ''e'' else None)"

definition demo_dec :: "string \<Rightarrow> node_config option" where
  "demo_dec s = (if s = ''d'' then Some demo_node else if s = ''e'' then Some demo_edited else None)"

definition demo_env :: admin_env where
  "demo_env = \<lparr>ae_read_io = (\<lambda>_. True), ae_io = (\<lambda>_. True), ae_history_io = (\<lambda>_. True), ae_now = 0, ae_reads = [], ae_between = (\<lambda>db. db),
     ae_hash = token_bytes, ae_enc = demo_enc, ae_dec = demo_dec, ae_parse_time = (\<lambda>_. None)\<rparr>"

definition demo_admin :: admin where
  "demo_admin = \<lparr>ad_cfg = demo_gateway, ad_csrf = ''k''\<rparr>"

definition demo_request :: request where
  "demo_request = \<lparr>rq_method = ''POST'', rq_path = ''/users/ann/delete'', rq_form = Some [(''csrf'', [''k''])]\<rparr>"

definition demo_world :: admin_world where
  "demo_world = \<lparr>aw_db = demo_database, aw_history = empty_history\<rparr>"

lemma demo_delete:
  "fst (with_csrf demo_admin (admin_user_action demo_env demo_admin) demo_request demo_world) = Some (SeeOther UserDisabled ''users'') \<and>
   snd (with_csrf demo_admin (admin_user_action demo_env demo_admin) demo_request demo_world) \<noteq> demo_world"
proof -
  have "path_parts ''/users/'' ''/users/ann/delete'' = [''ann'', ''delete'']" by code_simp
  moreover obtain row where "map_of (md_users demo_database) ''ann'' = Some row" "ur_deleted row = None"
    unfolding demo_database_def demo_create by simp
  ultimately have "fst (with_csrf demo_admin (admin_user_action demo_env demo_admin) demo_request demo_world) = Some (SeeOther UserDisabled ''users'') \<and>
    map_option ur_deleted (map_of (md_users (aw_db (snd (with_csrf demo_admin (admin_user_action demo_env demo_admin) demo_request demo_world)))) ''ann'') =
      Some (Some 0) \<and> map_option ur_deleted (map_of (md_users (aw_db demo_world)) ''ann'') = Some None"
    by (auto simp: demo_request_def with_csrf_def demo_admin_def form_get_def form_values_def gget_def admin_user_action_def
        demo_env_def demo_world_def set_user_deleted_def update_row_def store_result_def unix_seconds_def)
  then show ?thesis by auto
qed

definition demo_node_world :: admin_world where
  "demo_node_world = \<lparr>aw_db = empty_management\<lparr>md_nodes := [(''n'', \<lparr>nr_config = ''d'', nr_enabled = True, nr_created = 0, nr_updated = 0\<rparr>)]\<rparr>,
     aw_history = empty_history\<rparr>"

definition demo_edit :: request where
  "demo_edit = \<lparr>rq_method = ''POST'', rq_path = ''/nodes/n/save'',
     rq_form = Some [(''csrf'', [''k'']), (''name'', [''n'']), (''addr'', [''h:2'']), (''auth'', [[]])]\<rparr>"

theorem node_edit_keeps_secret_witness:
  "\<exists>new. get_node (\<lambda>_. True) demo_dec ''n'' (aw_db (snd (admin_node_action demo_env demo_edit demo_node_world))) = Inr (Some new) \<and>
     map_option h2_auth (nc_hysteria2 (mn_config new)) = Some ''k''"
proof -
  have parts: "path_parts ''/nodes/'' (rq_path demo_edit) = [''n'', ''save'']" unfolding demo_edit_def by code_simp
  have old: "get_node (ae_read_io demo_env) (ae_dec demo_env) ''n'' (aw_db demo_node_world) =
      Inr (Some \<lparr>mn_name = ''n'', mn_config = demo_node, mn_enabled = True, mn_created_at = 0, mn_updated_at = 0\<rparr>)"
    by (simp add: get_node_def demo_env_def demo_node_world_def managed_node_of_def demo_dec_def rbind_def validate_node_def demo_node_def guard_ok_def)
  have form: "node_from_form demo_edit = (''n'', demo_edited\<lparr>nc_hysteria2 := Some \<lparr>h2_addr = ''h:2'', h2_auth = [], h2_insecure = False, h2_sni = []\<rparr>\<rparr>, False)"
    by (simp add: node_from_form_def demo_edit_def form_get_def form_values_def gget_def demo_edited_def)
  have kept: "preserve_node_credentials (demo_edited\<lparr>nc_hysteria2 := Some \<lparr>h2_addr = ''h:2'', h2_auth = [], h2_insecure = False, h2_sni = []\<rparr>\<rparr>) demo_node = demo_edited"
    by (simp add: preserve_node_credentials_def demo_edited_def demo_node_def)
  have "fst (admin_node_action demo_env demo_edit demo_node_world) = Some (SeeOther NodeUpdated ''overview'')"
    unfolding admin_node_action_def parts
    by (simp add: old form kept)
      (simp add: demo_env_def update_node_def is_valid_name_def contains_any_def validate_node_def demo_edited_def guard_ok_def demo_enc_def demo_node_def
        transact_def rbind_def run_stmt_def demo_node_world_def store_result_def)
  then have act: "admin_node_action demo_env demo_edit demo_node_world =
      (Some (SeeOther NodeUpdated ''overview''), snd (admin_node_action demo_env demo_edit demo_node_world))" by (metis prod.collapse)
  have auth: "form_get demo_edit ''auth'' = []" by (simp add: demo_edit_def form_get_def form_values_def gget_def)
  have json: "\<forall>c raw. ae_enc demo_env c = Some raw \<longrightarrow> ae_dec demo_env raw = Some c"
    by (auto simp: demo_env_def demo_enc_def demo_dec_def split: if_split_asm)
  from node_edit_keeps_secret [OF act parts old auth json] show ?thesis by (auto simp: demo_env_def demo_node_def)
qed

end
