(* ===== verification/Systemd.thy ===== *)
theory Systemd
  imports Go_Std
begin

text \<open>
  The integration with systemd (\<open>internal/systemd/systemd.go\<close>) and the watchdog loop of
  \<open>cmd/gateway/main.go\<close>.  The system bus and the notification socket are arguments that say what each
  call returns; the calls that are made are part of the results.
\<close>

section \<open>Units\<close>

definition unit_char :: "char \<Rightarrow> bool" where
  "unit_char c \<longleftrightarrow>
     char_le CHR ''a'' c \<and> char_le c CHR ''z'' \<or> char_le CHR ''A'' c \<and> char_le c CHR ''Z'' \<or> is_digit c \<or>
     c = CHR ''.'' \<or> c = CHR ''_'' \<or> c = CHR ''-'' \<or> c = CHR ''@''"

text \<open>The loop ranges over runes; every byte of a rune that is not ASCII is refused as well, as the rune is.\<close>

definition valid_unit :: "string \<Rightarrow> bool" where
  "valid_unit u \<longleftrightarrow> has_suffix u ''.service'' \<and> length u \<le> 128 \<and> list_all unit_char u"

datatype systemd_error = InvalidUnit string | BusError string | CallError string string | DecodeError string

record bus =
  bus_connect :: "string option"
  bus_restart :: "string \<Rightarrow> string \<Rightarrow> (string, string option) result"
  bus_get_unit :: "string \<Rightarrow> (string, string) result"

text \<open>\<open>bus_restart\<close> gives the error of the call, or else the error of decoding its reply, if any.\<close>

definition restart_unit :: "bus \<Rightarrow> string \<Rightarrow> systemd_error option \<times> (string \<times> string) list" where
  "restart_unit bus u =
     (if \<not> valid_unit u then (Some (InvalidUnit u), [])
      else (case bus_connect bus of
              Some e \<Rightarrow> (Some (BusError e), [])
            | None \<Rightarrow> (case bus_restart bus u ''replace'' of
                         Inl e \<Rightarrow> (Some (CallError u e), [(u, ''replace'')])
                       | Inr (Some e) \<Rightarrow> (Some (DecodeError e), [(u, ''replace'')])
                       | Inr None \<Rightarrow> (None, [(u, ''replace'')]))))"

section \<open>Properties of a service\<close>

datatype variant = NoVariant | VString string | VUint32 u32 | VUint64 u64 | VOther

type_synonym properties = "(string, variant) gomap"

record service_status =
  st_active :: string
  st_sub :: string
  st_main_pid :: u32
  st_result :: string
  st_restarts :: u32
  st_active_enter :: u64

definition string_property :: "properties \<Rightarrow> string \<Rightarrow> string" where
  "string_property props key = (case gget NoVariant props key of VString v \<Rightarrow> v | _ \<Rightarrow> [])"

definition uint32_property :: "properties \<Rightarrow> string \<Rightarrow> u32" where
  "uint32_property props key = (case gget NoVariant props key of VUint32 v \<Rightarrow> v | VUint64 v \<Rightarrow> ucast v | _ \<Rightarrow> 0)"

definition uint64_property :: "properties \<Rightarrow> string \<Rightarrow> u64" where
  "uint64_property props key = (case gget NoVariant props key of VUint64 v \<Rightarrow> v | VUint32 v \<Rightarrow> ucast v | _ \<Rightarrow> 0)"

definition unit_interface :: string where "unit_interface = ''org.freedesktop.systemd1.Unit''"
definition service_interface :: string where "service_interface = ''org.freedesktop.systemd1.Service''"

definition status_of :: "properties \<Rightarrow> properties \<Rightarrow> service_status" where
  "status_of unit_props service_props =
     \<lparr>st_active = string_property unit_props ''ActiveState'', st_sub = string_property unit_props ''SubState'',
      st_main_pid = uint32_property service_props ''MainPID'', st_result = string_property service_props ''Result'',
      st_restarts = uint32_property service_props ''NRestarts'',
      st_active_enter = uint64_property unit_props ''ActiveEnterTimestampMonotonic''\<rparr>"

definition unit_status ::
  "bus \<Rightarrow> (string \<Rightarrow> string \<Rightarrow> (string, properties) result) \<Rightarrow> string \<Rightarrow> (systemd_error, service_status) result"
where
  "unit_status bus get_all u =
     (if \<not> valid_unit u then Inl (InvalidUnit u)
      else (case bus_connect bus of
              Some e \<Rightarrow> Inl (BusError e)
            | None \<Rightarrow> (case bus_get_unit bus u of
                Inl e \<Rightarrow> Inl (BusError e)
              | Inr path \<Rightarrow> (case get_all path unit_interface of
                  Inl e \<Rightarrow> Inl (BusError e)
                | Inr unit_props \<Rightarrow> (case get_all path service_interface of
                    Inl e \<Rightarrow> Inl (BusError e)
                  | Inr service_props \<Rightarrow> Inr (status_of unit_props service_props))))))"

section \<open>Notifications\<close>

text \<open>
  \<open>Notify\<close>; the arguments are the value of \<open>NOTIFY_SOCKET\<close> and what dialling a socket and writing to it return.
  The result is the error and the datagram that was sent, with its socket.
\<close>

definition notify ::
  "(string \<Rightarrow> string option) \<Rightarrow> (string \<Rightarrow> string \<Rightarrow> string option) \<Rightarrow> string \<Rightarrow> string \<Rightarrow> string option \<times> (string \<times> string) option"
where
  "notify dial write socket state =
     (if socket = [] then (None, None)
      else (let name = (if has_prefix socket ''@'' then CHR 0x00 # drop 1 socket else socket)
            in case dial name of
                 Some e \<Rightarrow> (Some e, None)
               | None \<Rightarrow> (write name state, if write name state = None then Some (name, state) else None)))"

text \<open>\<open>WatchdogInterval\<close>: the product is a signed 64-bit multiplication that wraps around.\<close>

definition watchdog_interval :: "string \<Rightarrow> duration" where
  "watchdog_interval usec =
     (case parse_uint 64 usec of
        None \<Rightarrow> 0
      | Some us \<Rightarrow> if us = 0 then 0 else sint (of_nat (us div 2) * 1000 :: u64))"

section \<open>The watchdog loop\<close>

datatype watchdog_event =
    WatchdogStop
  | WatchdogTick (serving: bool) (ping_ok: bool)

definition ready_message :: string where
  "ready_message = ''READY=1'' @ CHR 0x0A # ''STATUS=running''"

definition healthy_message :: string where
  "healthy_message = ''WATCHDOG=1'' @ CHR 0x0A # ''STATUS=healthy''"

fun watchdog_loop :: "watchdog_event list \<Rightarrow> string list" where
  "watchdog_loop [] = []"
| "watchdog_loop (WatchdogStop # es) = []"
| "watchdog_loop (WatchdogTick srv ping # es) =
     (if \<not> srv then watchdog_loop es
      else if \<not> ping then watchdog_loop es
      else healthy_message # watchdog_loop es)"

datatype watchdog_panic = NonPositiveInterval

text \<open>The notifications the loop attempts; \<open>time.NewTicker\<close> panics when the interval is not positive.\<close>

definition run_watchdog :: "string \<Rightarrow> watchdog_event list \<Rightarrow> (watchdog_panic, string list) result" where
  "run_watchdog usec events =
     (let interval = watchdog_interval usec
      in if interval = 0 then Inr []
         else if interval < 0 then Inl NonPositiveInterval
         else Inr (ready_message # watchdog_loop events))"

section \<open>Properties\<close>

lemma unit_char_plain: "unit_char c \<Longrightarrow> c \<noteq> CHR ''/'' \<and> c \<noteq> CHR '' '' \<and> c \<noteq> CHR '';'' \<and> c \<noteq> CHR 0x0A \<and> c \<noteq> CHR 0x00"
  by (auto simp: unit_char_def is_digit_def char_le_def)

text \<open>Whatever unit is configured, the only request that reaches systemd replaces a plain service unit:
  no path separator, space, separator of commands or control character.\<close>

lemma restart_scoped:
  assumes "call \<in> set (snd (restart_unit bus u))"
  shows "call = (u, ''replace'') \<and> has_suffix u ''.service'' \<and> length u \<le> 128 \<and>
    (\<forall>c \<in> set u. c \<noteq> CHR ''/'' \<and> c \<noteq> CHR '' '' \<and> c \<noteq> CHR '';'' \<and> c \<noteq> CHR 0x0A)"
proof -
  have "valid_unit u \<and> call = (u, ''replace'')"
    using assms by (auto simp: restart_unit_def split: if_split_asm option.split_asm sum.split_asm)
  then show ?thesis using unit_char_plain by (auto simp: valid_unit_def list_all_iff)
qed

lemma uint32_property_exact: "gget NoVariant props key = VUint64 v \<Longrightarrow> unat v < 2 ^ 32 \<Longrightarrow> unat (uint32_property props key) = unat v"
  by (simp add: uint32_property_def unsigned_ucast_eq take_bit_nat_eq_self)

lemma uint64_property_widens: "gget NoVariant props key = VUint32 v \<Longrightarrow> unat (uint64_property props key) = unat v"
proof -
  assume *: "gget NoVariant props key = VUint32 v"
  have "unat v < 2 ^ 64" using unsigned_less [of v, where 'a = nat] by simp
  with * show ?thesis by (simp add: uint64_property_def unsigned_ucast_eq take_bit_nat_eq_self)
qed

lemma watchdog_interval_value:
  assumes "parse_uint 64 usec = Some us" and "us \<le> 18446744073709551"
  shows "watchdog_interval usec = int (us div 2) * 1000"
proof -
  have "sint (of_nat (us div 2) * 1000 :: u64) = int (us div 2) * 1000"
  proof -
    have "(of_nat (us div 2) * 1000 :: u64) = word_of_int (int (us div 2) * 1000)" by simp
    also have "sint \<dots> = signed_take_bit 63 (int (us div 2) * 1000)" by (simp only: signed_of_int) simp
    also have "\<dots> = int (us div 2) * 1000" by (rule signed_take_bit_int_eq_self) (use assms(2) in simp_all)
    finally show ?thesis .
  qed
  with assms show ?thesis by (simp add: watchdog_interval_def)
qed

text \<open>The watchdog is served in time: for every timeout of at least two microseconds and below 584 years the loop
  starts without a panic and its period is positive and at most half of the timeout.\<close>

theorem watchdog_in_time:
  assumes "parse_uint 64 usec = Some us" and "2 \<le> us" and "us \<le> 18446744073709551"
  shows "(\<exists>sent. run_watchdog usec events = Inr (ready_message # sent)) \<and>
    0 < watchdog_interval usec \<and> 2 * watchdog_interval usec \<le> int us * 1000"
proof -
  have "0 < int (us div 2) * 1000" "2 * (int (us div 2) * 1000) \<le> int us * 1000" using assms(2) by auto
  then show ?thesis by (simp add: run_watchdog_def watchdog_interval_value [OF assms(1,3)] Let_def)
qed

theorem watchdog_in_time_witness:
  "(\<exists>sent. run_watchdog ''30000000'' [] = Inr (ready_message # sent)) \<and>
    0 < watchdog_interval ''30000000'' \<and> 2 * watchdog_interval ''30000000'' \<le> 30000000000"
proof -
  have "parse_uint 64 ''30000000'' = Some 30000000" by (simp add: parse_uint_def decimal_value_def digit_value_def is_digit_def char_le_def)
  from watchdog_in_time [OF this, of "[]"] show ?thesis by simp
qed

text \<open>A value above that bound makes the product negative, and the process panics.\<close>

lemma watchdog_interval_overflow: "run_watchdog ''18446744073709552'' events = Inl NonPositiveInterval"
proof -
  have "parse_uint 64 ''18446744073709552'' = Some 18446744073709552" by (simp add: parse_uint_def decimal_value_def digit_value_def is_digit_def char_le_def)
  moreover have "sint (of_nat (18446744073709552 div 2) * 1000 :: u64) < 0" by simp
  ultimately show ?thesis by (simp add: run_watchdog_def watchdog_interval_def Let_def)
qed

definition healthy_tick :: "watchdog_event \<Rightarrow> bool" where
  "healthy_tick e \<longleftrightarrow> (case e of WatchdogStop \<Rightarrow> False | WatchdogTick srv ping \<Rightarrow> srv \<and> ping)"

text \<open>The watchdog is fed only by ticks before the stop at which the gateway serves and the database answers.\<close>

lemma watchdog_feeds:
  "watchdog_loop es = map (\<lambda>_. healthy_message) (filter healthy_tick (takeWhile (\<lambda>e. e \<noteq> WatchdogStop) es))"
  by (induction es rule: watchdog_loop.induct) (simp_all add: healthy_tick_def)

end
