(* ===== verification/Admin_Views.thy ===== *)
theory Admin_Views
  imports Admin_Web Systemd
begin

text \<open>
  The pages of \<open>api/manager.go\<close> that show data: the live counters, the traffic of a range, the dashboard
  and the static files; and the handler that serves them and the forms of \<open>Admin_Web\<close>.  The JSON encoder, the HTML template and the systemd status are left out or
  arguments; the data they are given is modelled.  Where the code sorts a slice by size, entries of
  equal size may come in any order; the model keeps the order of the map.
\<close>

datatype 'a view = ViewError nat | View 'a

section \<open>Live counters\<close>

record live_traffic =
  lv_tx :: u64
  lv_rx :: u64
  lv_online :: i32

record live_status =
  ls_sampled :: int
  ls_total :: live_traffic
  ls_users :: "(string, live_traffic) gomap"
  ls_nodes :: "(string, live_traffic) gomap"
  ls_connections :: "connection_snapshot list"

definition no_traffic :: live_traffic where
  "no_traffic = \<lparr>lv_tx = 0, lv_rx = 0, lv_online = 0\<rparr>"

definition add_snapshot :: "stats_snapshot \<Rightarrow> live_traffic \<Rightarrow> live_traffic" where
  "add_snapshot s t = \<lparr>lv_tx = lv_tx t + ss_tx s, lv_rx = lv_rx t + ss_rx s, lv_online = lv_online t + ss_online s\<rparr>"

definition live_step :: "live_status \<Rightarrow> string \<times> stats_snapshot \<Rightarrow> live_status" where
  "live_step st ks =
     (let s = snd ks in
      st\<lparr>ls_users := gput (ss_user s) (add_snapshot s (gget no_traffic (ls_users st) (ss_user s))) (ls_users st),
         ls_nodes := gput (ss_node s) (add_snapshot s (gget no_traffic (ls_nodes st) (ss_node s))) (ls_nodes st),
         ls_total := add_snapshot s (ls_total st)\<rparr>)"

text \<open>\<open>live\<close>; the tracker is optional.\<close>

definition live :: "go_time \<Rightarrow> authenticator \<Rightarrow> tracker option \<Rightarrow> string \<Rightarrow> traffic_logger \<Rightarrow> live_status view" where
  "live now a connections http_method lg =
     (if http_method \<noteq> ''GET'' then ViewError 405
      else View (foldl live_step
       \<lparr>ls_sampled = now div (second div 1000), ls_total = no_traffic, ls_users = [], ls_nodes = [],
        ls_connections = (case connections of None \<Rightarrow> [] | Some t \<Rightarrow> snapshots t)\<rparr>
       (get_all_snapshots a lg)))"

section \<open>The traffic of a range\<close>

record range_traffic =
  rt_name :: string
  rt_tx :: u64
  rt_rx :: u64
  rt_egress :: u64

record hourly_traffic =
  ht_hour :: go_time
  ht_tx :: u64
  ht_rx :: u64

record range_status =
  rg_start :: go_time
  rg_end :: go_time
  rg_timezone :: string
  rg_total_tx :: u64
  rg_total_rx :: u64
  rg_node_egress :: u64
  rg_users :: "range_traffic list"
  rg_nodes :: "range_traffic list"
  rg_hours :: "hourly_traffic list"

definition direct_route :: "string \<Rightarrow> bool" where
  "direct_route node \<longleftrightarrow> node = ''direct''"

text \<open>The running sums over the buckets.\<close>

record range_sums =
  sm_users :: "(string, u64 \<times> u64) gomap"
  sm_nodes :: "(string, u64 \<times> u64) gomap"
  sm_hours :: "(go_time, u64 \<times> u64) gomap"
  sm_total_tx :: u64
  sm_total_rx :: u64
  sm_egress :: u64

definition add_usage_pair :: "'k \<Rightarrow> u64 \<Rightarrow> u64 \<Rightarrow> ('k, u64 \<times> u64) gomap \<Rightarrow> ('k, u64 \<times> u64) gomap" where
  "add_usage_pair k tx rx m = (case gget (0, 0) m k of (t, r) \<Rightarrow> gput k (t + tx, r + rx) m)"

definition range_step :: "range_sums \<Rightarrow> traffic_bucket \<Rightarrow> range_sums" where
  "range_step s b =
     \<lparr>sm_users = add_usage_pair (tb_user b) (tb_tx b) (tb_rx b) (sm_users s),
      sm_nodes = add_usage_pair (tb_node b) (tb_tx b) (tb_rx b) (sm_nodes s),
      sm_hours = add_usage_pair (tb_hour b) (tb_tx b) (tb_rx b) (sm_hours s),
      sm_total_tx = sm_total_tx s + tb_tx b, sm_total_rx = sm_total_rx s + tb_rx b,
      sm_egress = (if \<not> direct_route (tb_node b) then sm_egress s + (tb_tx b + tb_rx b) else sm_egress s)\<rparr>"

definition range_sums_of :: "traffic_bucket list \<Rightarrow> range_sums" where
  "range_sums_of buckets =
     foldl range_step \<lparr>sm_users = [], sm_nodes = [], sm_hours = [], sm_total_tx = 0, sm_total_rx = 0, sm_egress = 0\<rparr> buckets"

definition by_volume :: "range_traffic list \<Rightarrow> range_traffic list" where
  "by_volume rows = sort_key (\<lambda>t. - uint (rt_tx t + rt_rx t)) rows"

definition range_status_of :: "string \<Rightarrow> go_time \<Rightarrow> go_time \<Rightarrow> traffic_bucket list \<Rightarrow> range_status" where
  "range_status_of timezone start stop buckets =
     (let s = range_sums_of buckets in
      \<lparr>rg_start = start, rg_end = stop, rg_timezone = timezone, rg_total_tx = sm_total_tx s, rg_total_rx = sm_total_rx s,
       rg_node_egress = sm_egress s,
       rg_users = by_volume (map (\<lambda>(name, tx, rx). \<lparr>rt_name = name, rt_tx = tx, rt_rx = rx, rt_egress = tx + rx\<rparr>) (sm_users s)),
       rg_nodes = by_volume (map (\<lambda>(name, tx, rx).
          \<lparr>rt_name = name, rt_tx = tx, rt_rx = rx, rt_egress = (if direct_route name then 0 else tx + rx)\<rparr>) (sm_nodes s)),
       rg_hours = sort_key ht_hour (map (\<lambda>(hour, tx, rx). \<lparr>ht_hour = hour, ht_tx = tx, ht_rx = rx\<rparr>) (sm_hours s))\<rparr>)"

text \<open>The traffic tables of the store that the logger writes to; the gateway always attaches one.\<close>

definition traffic_tables :: "traffic_logger \<Rightarrow> traffic_db" where
  "traffic_tables lg = (case tl_store lg of None \<Rightarrow> \<lparr>td_logs = [], td_summary = []\<rparr> | Some db \<Rightarrow> db)"

definition traffic_range ::
  "(nat \<Rightarrow> bool) \<Rightarrow> bool \<Rightarrow> go_time \<Rightarrow> (string \<Rightarrow> go_time option) \<Rightarrow> string \<Rightarrow> string \<Rightarrow> (string \<times> string) \<Rightarrow> traffic_logger \<Rightarrow>
    range_status view \<times> traffic_logger"
where
  "traffic_range io io_query now parse_time timezone http_method query lg =
     (if http_method \<noteq> ''GET'' then (ViewError 405, lg)
      else (case (parse_time (fst query), parse_time (snd query)) of
              (None, _) \<Rightarrow> (ViewError 400, lg)
            | (Some _, None) \<Rightarrow> (ViewError 400, lg)
            | (Some start, Some stop) \<Rightarrow>
                if \<not> start < stop then (ViewError 400, lg)
                else if 366 * 24 * 3600 * second < stop - start then (ViewError 400, lg)
                else (case flush_context io now lg of (_, lg') \<Rightarrow>
                        (case get_traffic_buckets io_query start stop (traffic_tables lg') of
                           Inl _ \<Rightarrow> (ViewError 500, lg')
                         | Inr buckets \<Rightarrow> (View (range_status_of timezone start stop buckets), lg')))))"

section \<open>The dashboard\<close>

record node_view =
  nv_node :: managed_node
  nv_state :: string
  nv_resolved :: string
  nv_last_error :: string
  nv_last_success :: "go_time option"
  nv_next_retry :: "go_time option"

definition shown_time :: "go_time \<Rightarrow> go_time option" where
  "shown_time t = (if is_zero_time t then None else Some t)"

definition node_view_of :: "(string, node_status) gomap \<Rightarrow> managed_node \<Rightarrow> node_view" where
  "node_view_of statuses node =
     (if \<not> mn_enabled node
      then \<lparr>nv_node = node, nv_state = ''Disabled'', nv_resolved = [], nv_last_error = [], nv_last_success = None, nv_next_retry = None\<rparr>
      else (case map_of statuses (mn_name node) of
              Some st \<Rightarrow> \<lparr>nv_node = node, nv_state = node_state_text (ns_state st), nv_resolved = ns_resolved st, nv_last_error = ns_last_error st,
                 nv_last_success = shown_time (ns_last_success st), nv_next_retry = shown_time (ns_next_retry st)\<rparr>
            | None \<Rightarrow> \<lparr>nv_node = node, nv_state = ''Pending restart'', nv_resolved = [], nv_last_error = [], nv_last_success = None,
                 nv_next_retry = None\<rparr>))"

definition node_views :: "(string, node_status) gomap option \<Rightarrow> managed_node list \<Rightarrow> node_view list" where
  "node_views statuses nodes = map (node_view_of (case statuses of None \<Rightarrow> [] | Some m \<Rightarrow> m)) nodes"

definition gateway_listen_display :: "gateway_config \<Rightarrow> string" where
  "gateway_listen_display cfg =
     (if gc_inbounds cfg = [] then gc_listen cfg
      else join_strings '', '' (map (\<lambda>ib. ib_name ib @ ''='' @ ib_listen ib) (gc_inbounds cfg)))"

text \<open>
  What the page says about the unit; \<open>read_status\<close> is \<open>systemd.Status\<close>.  The Chinese texts for a value that
  is not set are \<open>NotConfigured\<close> and \<open>None\<close>.
\<close>

datatype systemd_text = NotConfigured | Unavailable systemd_error | UnitShown service_status

record dashboard_data =
  dd_csrf :: string
  dd_users :: "managed_user list"
  dd_nodes :: "node_view list"
  dd_state :: "int \<times> int"
  dd_monthly :: "(string, u64 \<times> u64) gomap"
  dd_node_monthly :: "(string, u64 \<times> u64) gomap"
  dd_month :: string
  dd_flash :: string
  dd_now :: go_time
  dd_jobs :: "restart_job list"
  dd_runs :: "process_run list"
  dd_systemd :: "systemd_text"
  dd_total_users :: nat
  dd_active_users :: nat
  dd_enabled_nodes :: nat
  dd_monthly_total :: u64
  dd_egress_total :: u64
  dd_online :: i32
  dd_listen :: string
  dd_admin_listen :: string
  dd_sub_listen :: "string option"
  dd_db_path :: string
  dd_flush_interval :: duration
  dd_timezone :: string

definition user_active :: "go_time \<Rightarrow> managed_user \<Rightarrow> bool" where
  "user_active now u \<longleftrightarrow> mu_deleted_at u = None \<and> (case mu_expires_at u of None \<Rightarrow> True | Some t \<Rightarrow> now < t)"

definition add_missing :: "string \<Rightarrow> (string, u64 \<times> u64) gomap \<Rightarrow> (string, u64 \<times> u64) gomap" where
  "add_missing name m = (if map_of m name = None then gput name (0, 0) m else m)"

definition node_usage_rows ::
  "managed_user list \<Rightarrow> managed_node list \<Rightarrow> (string, u64 \<times> u64) gomap \<Rightarrow> (string, u64 \<times> u64) gomap"
where
  "node_usage_rows users nodes usage =
     (let m = foldl (\<lambda>m n. add_missing (mn_name n) m) usage nodes
      in if list_ex (\<lambda>u. ''direct'' \<in> set (mu_routes u)) users then add_missing ''direct'' m else m)"

definition systemd_text_of :: "(string \<Rightarrow> (systemd_error, service_status) result) \<Rightarrow> gateway_config \<Rightarrow> systemd_text" where
  "systemd_text_of read_status cfg =
     (case gc_systemd cfg of
        None \<Rightarrow> NotConfigured
      | Some sd \<Rightarrow> (case read_status (sd_unit sd) of Inl e \<Rightarrow> Unavailable e | Inr st \<Rightarrow> UnitShown st))"

definition sub_listen_shown :: "gateway_config \<Rightarrow> string option" where
  "sub_listen_shown cfg = (case gc_sub cfg of None \<Rightarrow> None | Some sub \<Rightarrow> if sb_listen sub \<noteq> [] then Some (sb_listen sub) else None)"

text \<open>What the page reads from the store, in the order of the queries.\<close>

record dashboard_reads =
  dr_users :: "managed_user list"
  dr_nodes :: "managed_node list"
  dr_state :: "int \<times> int"
  dr_label :: string
  dr_monthly :: "(string, u64 \<times> u64) gomap"
  dr_node_monthly :: "(string, u64 \<times> u64) gomap"
  dr_jobs :: "restart_job list"
  dr_runs :: "process_run list"

definition dashboard_page ::
  "(string \<Rightarrow> (systemd_error, service_status) result) \<Rightarrow> go_time \<Rightarrow> admin \<Rightarrow> string \<Rightarrow> (string, node_status) gomap option \<Rightarrow>
    (string, stats_snapshot) gomap \<Rightarrow> dashboard_reads \<Rightarrow> dashboard_data"
where
  "dashboard_page read_status now m message statuses counters d =
     (let cfg = ad_cfg m; users = dr_users d; nodes = dr_nodes d;
          rows = node_usage_rows users nodes (dr_node_monthly d) in
      \<lparr>dd_csrf = ad_csrf m, dd_users = users, dd_nodes = node_views statuses nodes, dd_state = dr_state d,
       dd_monthly = dr_monthly d, dd_node_monthly = rows, dd_month = dr_label d, dd_flash = message, dd_now = now,
       dd_jobs = dr_jobs d, dd_runs = dr_runs d, dd_systemd = systemd_text_of read_status cfg,
       dd_total_users = length users, dd_active_users = length (filter (user_active now) users),
       dd_enabled_nodes = length (filter mn_enabled nodes),
       dd_monthly_total = sum_list (map (\<lambda>u. case gget (0, 0) (dr_monthly d) (mu_username u) of (tx, rx) \<Rightarrow> tx + rx) users),
       dd_egress_total = gsum (\<lambda>node (tx, rx). if direct_route node then 0 else tx + rx) rows,
       dd_online = gsum (\<lambda>_ s. ss_online s) counters, dd_listen = gateway_listen_display cfg,
       dd_admin_listen = (if gc_admin_listen cfg = [] then ac_listen (gc_api cfg) else gc_admin_listen cfg),
       dd_sub_listen = sub_listen_shown cfg, dd_db_path = gc_db_path cfg, dd_flush_interval = gc_flush_interval cfg,
       dd_timezone = gc_timezone cfg\<rparr>)"

text \<open>
  \<open>dashboard\<close>: each query may fail; \<open>io_usage\<close> is for the two traffic queries.  The clock is read twice, for the month
  (\<open>now\<close>) and for the page (\<open>later\<close>); \<open>renders\<close> says whether the template can be executed.
\<close>

definition dashboard_queries ::
  "(stmt \<Rightarrow> bool) \<Rightarrow> (history_stmt \<Rightarrow> bool) \<Rightarrow> bool \<times> bool \<Rightarrow> (string \<Rightarrow> node_config option) \<Rightarrow> month_fn \<Rightarrow> go_time \<Rightarrow>
    traffic_logger \<Rightarrow> admin_world \<Rightarrow> dashboard_reads option"
where
  "dashboard_queries io io_history io_usage dec months now lg w =
     (case list_users io (aw_db w) of Inl _ \<Rightarrow> None | Inr users \<Rightarrow>
     (case list_nodes io dec (aw_db w) of Inl _ \<Rightarrow> None | Inr nodes \<Rightarrow>
     (case get_config_state io (aw_db w) of Inl _ \<Rightarrow> None | Inr state \<Rightarrow>
     (case months now of (label, start, stop) \<Rightarrow>
     (case get_user_monthly_usage (fst io_usage) start stop (traffic_tables lg) of Inl _ \<Rightarrow> None | Inr monthly \<Rightarrow>
     (case get_node_monthly_usage (snd io_usage) start stop (traffic_tables lg) of Inl _ \<Rightarrow> None | Inr node_monthly \<Rightarrow>
     (case list_restart_jobs io_history 10 (aw_history w) of None \<Rightarrow> None | Some jobs \<Rightarrow>
     (case list_process_runs io_history 10 (aw_history w) of None \<Rightarrow> None | Some runs \<Rightarrow>
        Some \<lparr>dr_users = users, dr_nodes = nodes, dr_state = state, dr_label = label, dr_monthly = monthly,
          dr_node_monthly = node_monthly, dr_jobs = jobs, dr_runs = runs\<rparr>))))))))"

definition dashboard ::
  "(stmt \<Rightarrow> bool) \<Rightarrow> (history_stmt \<Rightarrow> bool) \<Rightarrow> bool \<times> bool \<Rightarrow> (string \<Rightarrow> node_config option) \<Rightarrow> month_fn \<Rightarrow>
    (string \<Rightarrow> (systemd_error, service_status) result) \<Rightarrow> (dashboard_data \<Rightarrow> bool) \<Rightarrow> go_time \<Rightarrow> go_time \<Rightarrow> admin \<Rightarrow>
    (string, node_status) gomap option \<Rightarrow> authenticator \<Rightarrow> traffic_logger \<Rightarrow> request \<Rightarrow> admin_world \<Rightarrow> dashboard_data view"
where
  "dashboard io io_history io_usage dec months read_status renders now later m statuses a lg r w =
     (if rq_path r \<noteq> ''/'' \<or> rq_method r \<noteq> ''GET'' then ViewError 404
      else (case dashboard_queries io io_history io_usage dec months now lg w of
              None \<Rightarrow> ViewError 500
            | Some d \<Rightarrow>
                (let page = dashboard_page read_status later m (form_get r ''flash'') statuses (get_all_snapshots a lg) d
                 in if renders page then View page else ViewError 500)))"

text \<open>\<open>staticAsset\<close>: a HEAD request gets the headers only.\<close>

definition static_asset :: "string \<Rightarrow> string \<Rightarrow> string view" where
  "static_asset body http_method =
     (if http_method \<noteq> ''GET'' \<and> http_method \<noteq> ''HEAD'' then ViewError 405 else View (if http_method = ''GET'' then body else []))"

text \<open>\<open>formatBytes\<close>, with two decimals.\<close>

definition binary_units :: "string list" where
  "binary_units = [''B'', ''KiB'', ''MiB'', ''GiB'', ''TiB'']"

function binary_scale :: "nat \<Rightarrow> nat \<Rightarrow> nat" where
  "binary_scale m i = (if 1024 ^ (i + 1) \<le> m \<and> i < length binary_units - 1 then binary_scale m (i + 1) else i)"
  by pat_completeness auto
termination by (relation "measure (\<lambda>(m, i). length binary_units - i)") auto

declare binary_scale.simps [simp del]

definition format_bytes :: "u64 \<Rightarrow> string" where
  "format_bytes w =
     (let m = float64_of (unat w); i = binary_scale m 0
      in if i = 0 then format_uint (unat w) @ '' '' @ binary_units ! 0 else format_fixed 2 m i @ '' '' @ binary_units ! i)"

section \<open>The handler\<close>

text \<open>
  What one request meets outside the handler: the form handlers' environment, the policy, the tracker and the node states it
  looks at, the outcomes of the statements of its pages, the two times in its query string, and the embedded files.
\<close>

record web_env =
  we_admin :: admin_env
  we_auth :: authenticator
  we_connections :: "tracker option"
  we_statuses :: "(string, node_status) gomap option"
  we_flush_io :: "nat \<Rightarrow> bool"
  we_buckets_io :: bool
  we_usage_io :: "bool \<times> bool"
  we_months :: month_fn
  we_systemd :: "string \<Rightarrow> (systemd_error, service_status) result"
  we_renders :: "dashboard_data \<Rightarrow> bool"
  we_later :: go_time
  we_range :: "string \<times> string"
  we_css :: string
  we_js :: string

datatype web_response =
    Moved string | FormAnswer "admin_response option" | LivePage "live_status view" | RangePage "range_status view"
  | DashboardPage "dashboard_data view" | AssetPage "string view"

text \<open>
  The multiplexer of \<open>Handler\<close>: all ten patterns, over the tables that the forms change and the traffic logger with its
  tables, which the traffic page flushes.
\<close>

definition form_answer :: "admin_response option \<times> admin_world \<Rightarrow> traffic_logger \<Rightarrow> web_response \<times> admin_world \<times> traffic_logger" where
  "form_answer res lg = (case res of (resp, w) \<Rightarrow> (FormAnswer resp, w, lg))"

definition serve_admin :: "web_env \<Rightarrow> admin \<Rightarrow> request \<Rightarrow> admin_world \<times> traffic_logger \<Rightarrow> web_response \<times> admin_world \<times> traffic_logger" where
  "serve_admin env m r s =
     (case s of (w, lg) \<Rightarrow>
        (let ae = we_admin env in
         if clean_path (rq_path r) \<noteq> rq_path r then (Moved (clean_path (rq_path r)), w, lg)
         else (case route (rq_path r) of
                 Dashboard \<Rightarrow>
                   (DashboardPage (dashboard (ae_read_io ae) (ae_history_io ae) (we_usage_io env) (ae_dec ae) (we_months env) (we_systemd env)
                      (we_renders env) (ae_now ae) (we_later env) m (we_statuses env) (we_auth env) lg r w), w, lg)
               | Asset path \<Rightarrow> (AssetPage (static_asset (if path = ''/assets/admin.css'' then we_css env else we_js env) (rq_method r)), w, lg)
               | Live \<Rightarrow> (LivePage (live (ae_now ae) (we_auth env) (we_connections env) (rq_method r) lg), w, lg)
               | TrafficRange \<Rightarrow>
                   (case traffic_range (we_flush_io env) (we_buckets_io env) (ae_now ae) (ae_parse_time ae) (gc_timezone (ad_cfg m)) (rq_method r)
                      (we_range env) lg of (page, lg') \<Rightarrow> (RangePage page, w, lg'))
               | Users \<Rightarrow> form_answer (with_csrf m (admin_create_user ae m) r w) lg
               | UserAction \<Rightarrow> form_answer (with_csrf m (admin_user_action ae m) r w) lg
               | Nodes \<Rightarrow> form_answer (with_csrf m (admin_save_node ae) r w) lg
               | NodeAction \<Rightarrow> form_answer (with_csrf m (admin_node_action ae) r w) lg
               | Restart \<Rightarrow> form_answer (with_csrf m (admin_restart ae m) r w) lg)))"

definition admin_handler ::
  "web_env \<Rightarrow> admin \<Rightarrow> request \<Rightarrow> admin_world \<times> traffic_logger \<Rightarrow>
    ((string, string) gomap \<times> web_response) \<times> admin_world \<times> traffic_logger"
where
  "admin_handler env m = with_security_headers (serve_admin env m)"

definition serve_all :: "admin \<Rightarrow> (web_env \<times> request) list \<Rightarrow> admin_world \<times> traffic_logger \<Rightarrow> admin_world \<times> traffic_logger" where
  "serve_all m requests s = foldl (\<lambda>s (env, r). snd (admin_handler env m r s)) s requests"

section \<open>What a request may change\<close>

lemma form_answer_world: "fst (snd (form_answer res lg)) = snd res" "snd (snd (form_answer res lg)) = lg"
  by (simp_all add: form_answer_def split: prod.split)

lemma traffic_range_logger:
  "snd (traffic_range io io_query now parse_time timezone http_method query lg) = lg \<or>
   http_method = ''GET'' \<and> snd (traffic_range io io_query now parse_time timezone http_method query lg) = snd (flush_context io now lg)"
  by (auto simp: traffic_range_def split: option.split prod.split sum.split)

lemma route_traffic_range: "route path = TrafficRange \<Longrightarrow> path = ''/traffic-range''"
  by (simp add: route_def split: if_split_asm)

lemma serve_admin_state:
  "snd (admin_handler env m r s) = snd (serve_admin env m r s)"
  by (simp add: admin_handler_def with_security_headers_def split: prod.split)

lemma serve_admin_world:
  "fst (snd (serve_admin env m r (w, lg))) = w \<or>
   (\<exists>handler. fst (snd (serve_admin env m r (w, lg))) = snd (with_csrf m handler r w) \<and>
      handler \<in> {admin_create_user (we_admin env) m, admin_user_action (we_admin env) m, admin_save_node (we_admin env),
        admin_node_action (we_admin env), admin_restart (we_admin env) m})"
  by (cases "route (rq_path r)") (auto simp: serve_admin_def Let_def form_answer_world split: prod.split)

lemma serve_admin_logger:
  "snd (snd (serve_admin env m r (w, lg))) = lg \<or>
   rq_method r = ''GET'' \<and> rq_path r = ''/traffic-range'' \<and>
     snd (snd (serve_admin env m r (w, lg))) = snd (flush_context (we_flush_io env) (ae_now (we_admin env)) lg)"
proof (cases "route (rq_path r) = TrafficRange")
  case True
  with route_traffic_range [OF True]
    traffic_range_logger [of "we_flush_io env" "we_buckets_io env" "ae_now (we_admin env)" "ae_parse_time (we_admin env)"
      "gc_timezone (ad_cfg m)" "rq_method r" "we_range env" lg]
  show ?thesis by (auto simp: serve_admin_def Let_def split: prod.split)
next
  case False
  then show ?thesis by (cases "route (rq_path r)") (auto simp: serve_admin_def Let_def form_answer_world)
qed

text \<open>C31: No change without the token.  Whatever its path and method, a request to the management web changes users, nodes,
  grants, the revision or the restart jobs only if it is a POST whose form carries the CSRF token of the process.  The traffic
  logger and its tables are left alone too, except that a GET of the traffic page first writes the pending
  traffic to the log, as the periodic flush does.\<close>

theorem admin_changes_need_token:
  assumes "admin_handler env m r (w, lg) = (resp, w', lg')"
  shows "(w' = w \<or> rq_method r = ''POST'' \<and> rq_form r \<noteq> None \<and> form_get r ''csrf'' = ad_csrf m) \<and>
    (lg' = lg \<or> rq_method r = ''GET'' \<and> rq_path r = ''/traffic-range'' \<and>
       lg' = snd (flush_context (we_flush_io env) (ae_now (we_admin env)) lg))"
proof -
  have "snd (serve_admin env m r (w, lg)) = (w', lg')" using assms serve_admin_state [of env m r "(w, lg)"] by simp
  then have s: "w' = fst (snd (serve_admin env m r (w, lg)))" "lg' = snd (snd (serve_admin env m r (w, lg)))" by simp_all
  have "rq_method r = ''POST'' \<and> rq_form r \<noteq> None \<and> form_get r ''csrf'' = ad_csrf m" if "w' \<noteq> w"
    using that serve_admin_world [of env m r w lg] with_csrf_changes [of m _ r w] unfolding s by (metis prod.collapse)
  then show ?thesis using serve_admin_logger [of env m r w lg] unfolding s by blast
qed

text \<open>No request breaks the tables.  Any sequence of requests to the management web of a new database, valid or not, with or without
  the token, and whatever fails below, leaves unique keys and tokens and no dangling grant, as long
  as requests do not overlap.\<close>

lemma serve_admin_ok:
  assumes "admin_ok w" and "ae_between (we_admin env) = (\<lambda>db. db)"
  shows "admin_ok (fst (snd (admin_handler env m r (w, lg))))"
  using serve_admin_world [of env m r w lg] form_handlers_ok [OF assms] assms(1) with_csrf_ok
  unfolding serve_admin_state by auto

lemma serve_all_ok:
  "admin_ok (fst s) \<Longrightarrow> list_all (\<lambda>(env, _). ae_between (we_admin env) = (\<lambda>db. db)) requests \<Longrightarrow> admin_ok (fst (serve_all m requests s))"
  unfolding serve_all_def
proof (induction requests arbitrary: s)
  case (Cons q requests)
  then show ?case by (cases q; cases s) (simp add: serve_admin_ok)
qed simp

lemma admin_requests_keep_integrity:
  assumes "list_all (\<lambda>(env, _). ae_between (we_admin env) = (\<lambda>db. db)) requests"
  shows "management_ok (aw_db (fst (serve_all m requests (\<lparr>aw_db = empty_management, aw_history = empty_history\<rparr>, lg))))"
  using serve_all_ok [OF _ assms, of "(\<lparr>aw_db = empty_management, aw_history = empty_history\<rparr>, lg)" m]
  by (simp add: admin_ok_def empty_management_ok empty_history_ok)

section \<open>Sums agree\<close>

definition live_agrees :: "live_status \<Rightarrow> bool" where
  "live_agrees st \<longleftrightarrow>
     gsum (\<lambda>_. lv_tx) (ls_users st) = lv_tx (ls_total st) \<and> gsum (\<lambda>_. lv_tx) (ls_nodes st) = lv_tx (ls_total st) \<and>
     gsum (\<lambda>_. lv_rx) (ls_users st) = lv_rx (ls_total st) \<and> gsum (\<lambda>_. lv_rx) (ls_nodes st) = lv_rx (ls_total st) \<and>
     gsum (\<lambda>_. lv_online) (ls_users st) = lv_online (ls_total st) \<and> gsum (\<lambda>_. lv_online) (ls_nodes st) = lv_online (ls_total st)"

lemma gsum_add_snapshot:
  "gsum (\<lambda>_. lv_tx) (gput k (add_snapshot s (gget no_traffic m k)) m) = gsum (\<lambda>_. lv_tx) m + ss_tx s"
  "gsum (\<lambda>_. lv_rx) (gput k (add_snapshot s (gget no_traffic m k)) m) = gsum (\<lambda>_. lv_rx) m + ss_rx s"
  "gsum (\<lambda>_. lv_online) (gput k (add_snapshot s (gget no_traffic m k)) m) = gsum (\<lambda>_. lv_online) m + ss_online s"
  by (simp_all add: gsum_gput [of _ k no_traffic] no_traffic_def [unfolded] add_snapshot_def)

lemma live_step_agrees: "live_agrees st \<Longrightarrow> live_agrees (live_step st ks)"
  by (simp add: live_agrees_def live_step_def Let_def gsum_add_snapshot) (simp add: add_snapshot_def)

lemma live_fold_agrees: "live_agrees st \<Longrightarrow> live_agrees (foldl live_step st xs)"
  by (induction xs arbitrary: st) (simp_all add: live_step_agrees)

lemma live_fold_total: "lv_tx (ls_total (foldl live_step st xs)) = lv_tx (ls_total st) + gsum (\<lambda>_. ss_tx) xs"
  "lv_rx (ls_total (foldl live_step st xs)) = lv_rx (ls_total st) + gsum (\<lambda>_. ss_rx) xs"
  "lv_online (ls_total (foldl live_step st xs)) = lv_online (ls_total st) + gsum (\<lambda>_. ss_online) xs"
  by (induction xs arbitrary: st) (auto simp: live_step_def Let_def add_snapshot_def add_ac)

text \<open>The live page is consistent: the traffic and connections it shows per user and per node both add up
  to the totals it shows, and those are the sums of all counters of the traffic logger.\<close>

theorem live_totals_agree:
  "\<exists>st. live now a connections ''GET'' lg = View st \<and> live_agrees st \<and>
     lv_tx (ls_total st) = gsum (\<lambda>_. ss_tx) (get_all_snapshots a lg) \<and>
     lv_rx (ls_total st) = gsum (\<lambda>_. ss_rx) (get_all_snapshots a lg) \<and>
     lv_online (ls_total st) = gsum (\<lambda>_. ss_online) (get_all_snapshots a lg)"
  by (simp add: live_def live_fold_total) (intro conjI live_fold_agrees, simp_all add: live_agrees_def no_traffic_def)

lemma gsum_add_usage_pair:
  "gsum (\<lambda>k (t, r). f k t r) (add_usage_pair k tx rx m) =
     gsum (\<lambda>k (t, r). f k t r) m + f k (fst (gget (0, 0) m k) + tx) (snd (gget (0, 0) m k) + rx)
       - f k (fst (gget (0, 0) m k)) (snd (gget (0, 0) m k))"
  if "f k 0 0 = (0 :: u64)"
  using that by (simp add: add_usage_pair_def case_prod_beta gsum_gput [of _ k "(0, 0)"])

definition range_agrees :: "traffic_bucket list \<Rightarrow> range_sums \<Rightarrow> bool" where
  "range_agrees bs s \<longleftrightarrow>
     sm_total_tx s = (\<Sum>b\<leftarrow>bs. tb_tx b) \<and> sm_total_rx s = (\<Sum>b\<leftarrow>bs. tb_rx b) \<and>
     gsum (\<lambda>_ (t, r). t) (sm_users s) = sm_total_tx s \<and> gsum (\<lambda>_ (t, r). r) (sm_users s) = sm_total_rx s \<and>
     gsum (\<lambda>_ (t, r). t) (sm_nodes s) = sm_total_tx s \<and> gsum (\<lambda>_ (t, r). r) (sm_nodes s) = sm_total_rx s \<and>
     gsum (\<lambda>_ (t, r). t) (sm_hours s) = sm_total_tx s \<and> gsum (\<lambda>_ (t, r). r) (sm_hours s) = sm_total_rx s \<and>
     gsum (\<lambda>node (t, r). if direct_route node then 0 else t + r) (sm_nodes s) = sm_egress s"

lemma range_step_agrees: "range_agrees bs s \<Longrightarrow> range_agrees (bs @ [b]) (range_step s b)"
  by (simp add: range_agrees_def range_step_def gsum_add_usage_pair add_ac)

lemma range_sums_agree: "range_agrees bs (range_sums_of bs)"
  by (induction bs rule: rev_induct) (simp_all add: range_sums_of_def range_step_agrees, simp add: range_agrees_def)

lemma sum_sort_key: "(\<Sum>x\<leftarrow>sort_key k xs. f x) = (\<Sum>x\<leftarrow>xs. f x)"
  for f :: "'a \<Rightarrow> 'b::comm_monoid_add"
proof -
  have "mset (map f (sort_key k xs)) = mset (map f xs)" by simp
  then show ?thesis by (metis sum_mset_sum_list)
qed

lemma gsum_map: "sum_list (map (f \<circ> (\<lambda>(k, t, r). h k t r)) m) = gsum (\<lambda>k (t, r). f (h k t r)) m"
  by (induction m) auto

lemma range_status_sums:
  fixes bs start stop timezone
  defines "rg \<equiv> range_status_of timezone start stop bs"
  shows "rg_total_tx rg = (\<Sum>b\<leftarrow>bs. tb_tx b)" "rg_total_rx rg = (\<Sum>b\<leftarrow>bs. tb_rx b)"
    "(\<Sum>u\<leftarrow>rg_users rg. rt_tx u) = rg_total_tx rg" "(\<Sum>u\<leftarrow>rg_users rg. rt_rx u) = rg_total_rx rg"
    "(\<Sum>n\<leftarrow>rg_nodes rg. rt_tx n) = rg_total_tx rg" "(\<Sum>n\<leftarrow>rg_nodes rg. rt_rx n) = rg_total_rx rg"
    "(\<Sum>h\<leftarrow>rg_hours rg. ht_tx h) = rg_total_tx rg" "(\<Sum>h\<leftarrow>rg_hours rg. ht_rx h) = rg_total_rx rg"
    "(\<Sum>n\<leftarrow>rg_nodes rg. rt_egress n) = rg_node_egress rg"
  using range_sums_agree [of bs]
  by (simp_all add: rg_def range_status_of_def by_volume_def Let_def range_agrees_def sum_sort_key gsum_map)

lemma sum_words: "(\<Sum>x\<leftarrow>xs. f x) = word_of_int (\<Sum>x\<leftarrow>xs. uint (f x))"
  for f :: "'a \<Rightarrow> 'n::len word"
  by (induction xs) simp_all

text \<open>The entries of a map that was filled from the buckets under one of their keys.\<close>

definition keyed_sums :: "(traffic_bucket \<Rightarrow> 'k) \<Rightarrow> traffic_bucket list \<Rightarrow> ('k, u64 \<times> u64) gomap \<Rightarrow> bool" where
  "keyed_sums key bs m \<longleftrightarrow> gmap_ok m \<and> set (gkeys m) = key ` set bs \<and>
     (\<forall>k. gget (0, 0) m k = ((\<Sum>b\<leftarrow>filter (\<lambda>b. key b = k) bs. tb_tx b), (\<Sum>b\<leftarrow>filter (\<lambda>b. key b = k) bs. tb_rx b)))"

lemma keyed_sums_step:
  "keyed_sums key bs m \<Longrightarrow> keyed_sums key (bs @ [b]) (add_usage_pair (key b) (tb_tx b) (tb_rx b) m)"
proof -
  assume m: "keyed_sums key bs m"
  obtain t r where k: "gget (0, 0) m (key b) = (t, r)" by fastforce
  have "set (gkeys (gput (key b) (t + tb_tx b, r + tb_rx b) m)) = key ` set (bs @ [b])"
    using m by (simp add: gkeys_gput keyed_sums_def del: set_map)
  with m k show ?thesis by (simp add: keyed_sums_def add_usage_pair_def del: set_map)
qed

lemma range_keyed_sums:
  "keyed_sums tb_user bs (sm_users (range_sums_of bs))" "keyed_sums tb_node bs (sm_nodes (range_sums_of bs))"
  "keyed_sums tb_hour bs (sm_hours (range_sums_of bs))"
  by (induction bs rule: rev_induct)
    (simp_all add: range_sums_of_def range_step_def keyed_sums_step, simp_all add: keyed_sums_def)

lemma keyed_sums_entry:
  assumes "keyed_sums key bs m" "(k, t, r) \<in> set m"
  shows "t = (\<Sum>b\<leftarrow>filter (\<lambda>b. key b = k) bs. tb_tx b)" "r = (\<Sum>b\<leftarrow>filter (\<lambda>b. key b = k) bs. tb_rx b)"
proof -
  have "gget (0, 0) m k = (t, r)" using assms by (simp add: keyed_sums_def gget_def)
  with assms(1) show "t = (\<Sum>b\<leftarrow>filter (\<lambda>b. key b = k) bs. tb_tx b)" "r = (\<Sum>b\<leftarrow>filter (\<lambda>b. key b = k) bs. tb_rx b)"
    by (simp_all add: keyed_sums_def)
qed

text \<open>The buckets of a set of keys hold what the log rows of these keys hold.\<close>

lemma group_by_part:
  assumes "group_by key rows = Inr m"
  shows "(\<Sum>p\<leftarrow>filter (\<lambda>p. P (fst p)) m. uint (fst (snd p))) = sum_list (map lr_tx (filter (\<lambda>r. P (key r)) rows))"
    "(\<Sum>p\<leftarrow>filter (\<lambda>p. P (fst p)) m. uint (snd (snd p))) = sum_list (map lr_rx (filter (\<lambda>r. P (key r)) rows))"
proof -
  let ?m = "filter (\<lambda>p. P (fst p)) m"
  have m: "gmap_ok m" and keys: "set (gkeys m) = key ` set rows" using group_by_keys [OF assms] by simp_all
  have look: "snd p = gget (0, 0) m (fst p)" if "p \<in> set ?m" for p using m that by (cases p) (auto simp: gget_def)
  have sel: "filter (\<lambda>r. key r \<in> set (map fst ?m)) rows = filter (\<lambda>r. P (key r)) rows"
  proof (rule filter_cong)
    fix r assume "r \<in> set rows"
    with keys have "key r \<in> fst ` set m" by simp
    then show "key r \<in> set (map fst ?m) \<longleftrightarrow> P (key r)" by (force simp: image_iff)
  qed simp
  have dist: "distinct (map fst ?m)" using m by (simp add: distinct_map_filter)
  have "map (\<lambda>p. uint (fst (snd p))) ?m = map (\<lambda>k. sum_list (map lr_tx (filter (\<lambda>r. key r = k) rows))) (map fst ?m)"
    "map (\<lambda>p. uint (snd (snd p))) ?m = map (\<lambda>k. sum_list (map lr_rx (filter (\<lambda>r. key r = k) rows))) (map fst ?m)"
    using look group_by_lookup [OF assms] unfolding map_map by (auto intro!: map_cong)
  then show "(\<Sum>p\<leftarrow>?m. uint (fst (snd p))) = sum_list (map lr_tx (filter (\<lambda>r. P (key r)) rows))"
    "(\<Sum>p\<leftarrow>?m. uint (snd (snd p))) = sum_list (map lr_rx (filter (\<lambda>r. P (key r)) rows))"
    by (simp_all only: sum_list_partition [OF dist] sel)
qed

definition row_hour :: "log_row \<Rightarrow> go_time" where
  "row_hour r = hour_start (lr_at r) * second"

lemma bucket_part:
  assumes "get_traffic_buckets io start stop db = Inr bs"
  shows "(\<Sum>b\<leftarrow>filter (\<lambda>b. Q (tb_hour b) (tb_user b) (tb_node b)) bs. tb_tx b) =
      word_of_int (\<Sum>r\<leftarrow>filter (\<lambda>r. Q (row_hour r) (lr_user r) (lr_node r)) (rows_between start stop db). lr_tx r)" (is ?tx)
    "(\<Sum>b\<leftarrow>filter (\<lambda>b. Q (tb_hour b) (tb_user b) (tb_node b)) bs. tb_rx b) =
      word_of_int (\<Sum>r\<leftarrow>filter (\<lambda>r. Q (row_hour r) (lr_user r) (lr_node r)) (rows_between start stop db). lr_rx r)" (is ?rx)
    "(\<lambda>b. (tb_hour b, tb_user b, tb_node b)) ` set bs = (\<lambda>r. (row_hour r, lr_user r, lr_node r)) ` set (rows_between start stop db)" (is ?keys)
proof -
  from assms obtain m where g: "group_by bucket_key (rows_between start stop db) = Inr m"
    and bs: "bs = map (\<lambda>((h, u, n), t, x). \<lparr>tb_hour = h * second, tb_user = u, tb_node = n, tb_tx = t, tb_rx = x\<rparr>) (sort_key fst m)"
    by (auto simp: get_traffic_buckets_def split: if_split_asm sum.split_asm)
  define P where "P k = (case k of (h, u, n) \<Rightarrow> Q (h * second) u n)" for k :: "int \<times> string \<times> string"
  have flt: "filter (\<lambda>b. Q (tb_hour b) (tb_user b) (tb_node b)) bs =
      map (\<lambda>((h, u, n), t, x). \<lparr>tb_hour = h * second, tb_user = u, tb_node = n, tb_tx = t, tb_rx = x\<rparr>) (sort_key fst (filter (\<lambda>p. P (fst p)) m))"
    unfolding bs filter_map filter_sort by (simp add: comp_def P_def case_prod_beta)
  show ?tx ?rx
    unfolding sum_words flt using group_by_part [OF g, of P]
    by (simp_all add: comp_def case_prod_beta sum_list_sort_key P_def bucket_key_def row_hour_def)
  have "(\<lambda>b. (tb_hour b, tb_user b, tb_node b)) ` set bs = (\<lambda>(h, u, n). (h * second, u, n)) ` set (gkeys m)"
    by (force simp: bs image_iff)
  also have "\<dots> = (\<lambda>(h, u, n). (h * second, u, n)) ` bucket_key ` set (rows_between start stop db)"
    using group_by_keys [OF g] by simp
  finally show ?keys by (simp add: image_image bucket_key_def row_hour_def)
qed

text \<open>
  A table of the page agrees with the log under a key: one entry for each key of the rows, with the sums of the rows
  of that key.
\<close>

definition table_agrees :: "(log_row \<Rightarrow> 'k) \<Rightarrow> ('e \<Rightarrow> 'k) \<Rightarrow> ('e \<Rightarrow> u64) \<Rightarrow> ('e \<Rightarrow> u64) \<Rightarrow> log_row list \<Rightarrow> 'e list \<Rightarrow> bool" where
  "table_agrees key entry_key tx rx rows es \<longleftrightarrow>
     distinct (map entry_key es) \<and> entry_key ` set es = key ` set rows \<and>
     list_all (\<lambda>e. tx e = word_of_int (\<Sum>r\<leftarrow>filter (\<lambda>r. key r = entry_key e) rows. lr_tx r) \<and>
       rx e = word_of_int (\<Sum>r\<leftarrow>filter (\<lambda>r. key r = entry_key e) rows. lr_rx r)) es"

lemma table_agrees_map:
  assumes "keyed_sums bkey bs m" and "bkey ` set bs = key ` set rows"
    and "\<And>k. (\<Sum>b\<leftarrow>filter (\<lambda>b. bkey b = k) bs. tb_tx b) = word_of_int (\<Sum>r\<leftarrow>filter (\<lambda>r. key r = k) rows. lr_tx r)"
    and "\<And>k. (\<Sum>b\<leftarrow>filter (\<lambda>b. bkey b = k) bs. tb_rx b) = word_of_int (\<Sum>r\<leftarrow>filter (\<lambda>r. key r = k) rows. lr_rx r)"
    and "\<And>k t r. entry_key (f (k, t, r)) = k \<and> tx (f (k, t, r)) = t \<and> rx (f (k, t, r)) = r"
  shows "table_agrees key entry_key tx rx rows (sort_key g (map f m))"
proof -
  have keys: "map entry_key (map f m) = gkeys m" using assms(5) by auto
  have "distinct (map entry_key (sort_key g (map f m))) \<longleftrightarrow> distinct (map entry_key (map f m))"
    by (metis distinct_map distinct_sort set_sort)
  moreover have "entry_key ` set (sort_key g (map f m)) = set (gkeys m)" using keys by (metis set_map set_sort)
  moreover have "tx e = word_of_int (\<Sum>r\<leftarrow>filter (\<lambda>r. key r = entry_key e) rows. lr_tx r) \<and>
      rx e = word_of_int (\<Sum>r\<leftarrow>filter (\<lambda>r. key r = entry_key e) rows. lr_rx r)" if "e \<in> set (map f m)" for e
  proof -
    from that obtain k t r where e: "(k, t, r) \<in> set m" "e = f (k, t, r)" by auto
    with keyed_sums_entry [OF assms(1) e(1)] assms(3,4,5) show ?thesis by simp
  qed
  ultimately show ?thesis using assms(1,2) unfolding keys by (simp add: table_agrees_def keyed_sums_def list_all_iff)
qed

definition range_page_agrees :: "traffic_db \<Rightarrow> range_status \<Rightarrow> bool" where
  "range_page_agrees db rg \<longleftrightarrow>
     (let rows = rows_between (rg_start rg) (rg_end rg) db in
      table_agrees lr_user rt_name rt_tx rt_rx rows (rg_users rg) \<and>
      table_agrees lr_node rt_name rt_tx rt_rx rows (rg_nodes rg) \<and>
      table_agrees row_hour ht_hour ht_tx ht_rx rows (rg_hours rg) \<and> sorted (map ht_hour (rg_hours rg)) \<and>
      list_all (\<lambda>n. rt_egress n = (if rt_name n = ''direct'' then 0 else rt_tx n + rt_rx n)) (rg_nodes rg) \<and>
      rg_total_tx rg = word_of_int (\<Sum>r\<leftarrow>rows. lr_tx r) \<and> rg_total_rx rg = word_of_int (\<Sum>r\<leftarrow>rows. lr_rx r) \<and>
      (\<Sum>u\<leftarrow>rg_users rg. rt_tx u) = rg_total_tx rg \<and> (\<Sum>u\<leftarrow>rg_users rg. rt_rx u) = rg_total_rx rg \<and>
      (\<Sum>n\<leftarrow>rg_nodes rg. rt_tx n) = rg_total_tx rg \<and> (\<Sum>n\<leftarrow>rg_nodes rg. rt_rx n) = rg_total_rx rg \<and>
      (\<Sum>h\<leftarrow>rg_hours rg. ht_tx h) = rg_total_tx rg \<and> (\<Sum>h\<leftarrow>rg_hours rg. ht_rx h) = rg_total_rx rg \<and>
      (\<Sum>n\<leftarrow>rg_nodes rg. rt_egress n) = rg_node_egress rg)"

lemma range_tables_agree:
  fixes timezone
  assumes "get_traffic_buckets io start stop db = Inr bs"
  defines "rg \<equiv> range_status_of timezone start stop bs" and "rows \<equiv> rows_between start stop db"
  shows "table_agrees lr_user rt_name rt_tx rt_rx rows (rg_users rg)"
    "table_agrees lr_node rt_name rt_tx rt_rx rows (rg_nodes rg)"
    "table_agrees row_hour ht_hour ht_tx ht_rx rows (rg_hours rg)"
    "sorted (map ht_hour (rg_hours rg))"
    "list_all (\<lambda>n. rt_egress n = (if rt_name n = ''direct'' then 0 else rt_tx n + rt_rx n)) (rg_nodes rg)"
proof -
  note keys = arg_cong [OF bucket_part(3) [OF assms(1)], of "image f" for f, unfolded image_image]
  note parts = bucket_part(1,2) [OF assms(1)] and simps = rg_def rows_def range_status_of_def Let_def by_volume_def
  show "table_agrees lr_user rt_name rt_tx rt_rx rows (rg_users rg)"
    unfolding simps range_status.simps using keys [of "\<lambda>(h, u, n). u"] parts [of "\<lambda>h u n. u = k" for k]
    by (intro table_agrees_map [OF range_keyed_sums(1)]) simp_all
  show "table_agrees lr_node rt_name rt_tx rt_rx rows (rg_nodes rg)"
    unfolding simps range_status.simps using keys [of "\<lambda>(h, u, n). n"] parts [of "\<lambda>h u n. n = k" for k]
    by (intro table_agrees_map [OF range_keyed_sums(2)]) simp_all
  show "table_agrees row_hour ht_hour ht_tx ht_rx rows (rg_hours rg)"
    unfolding simps range_status.simps using keys [of "\<lambda>(h, u, n). h"] parts [of "\<lambda>h u n. h = k" for k]
    by (intro table_agrees_map [OF range_keyed_sums(3)]) simp_all
  show "sorted (map ht_hour (rg_hours rg))" by (simp add: simps)
  show "list_all (\<lambda>n. rt_egress n = (if rt_name n = ''direct'' then 0 else rt_tx n + rt_rx n)) (rg_nodes rg)"
    by (auto simp: simps list_all_iff direct_route_def)
qed

lemma range_view:
  assumes "traffic_range io io_query now parse_time timezone http_method query lg = (View rg, lg')"
  obtains start stop bs where "start < stop" "lg' = snd (flush_context io now lg)"
    and "get_traffic_buckets io_query start stop (traffic_tables lg') = Inr bs"
    and "rg = range_status_of timezone start stop bs"
  using assms by (auto simp: traffic_range_def split: if_split_asm option.split_asm prod.split_asm sum.split_asm)

text \<open>C35: The traffic page is the traffic log of the requested window, taken after a flush.  It has one entry for each user, for
  each node and for each hour (of the Unix clock) that occurs in the log rows of the window, holding the sums of the rows of
  that user, node or hour; the hours are in order, the egress of a node is its traffic unless it is the direct route; and
  the totals are the sums of all rows, of each table and of the egress of the nodes (all sums modulo \<open>2 ^ 64\<close>).\<close>

theorem range_totals_agree:
  assumes "traffic_range io io_query now parse_time timezone http_method query lg = (View rg, lg')"
  shows "range_page_agrees (traffic_tables lg') rg"
proof -
  from assms obtain start stop bs where b: "get_traffic_buckets io_query start stop (traffic_tables lg') = Inr bs"
    and rg: "rg = range_status_of timezone start stop bs" by (rule range_view)
  have "rg_start rg = start" "rg_end rg = stop" by (simp_all add: rg range_status_of_def Let_def)
  then show ?thesis
    unfolding range_page_agrees_def
    using range_tables_agree [OF b, of timezone] range_status_sums [of timezone start stop bs] bucket_totals [OF b]
    by (simp add: rg [symmetric] sum_words)
qed

definition demo_log :: traffic_db where
  "demo_log = \<lparr>td_logs = [\<lparr>lr_user = ''alice'', lr_node = ''n1'', lr_tx = 3, lr_rx = 4, lr_at = 5\<rparr>], td_summary = []\<rparr>"

definition demo_range :: "range_status view \<times> traffic_logger" where
  "demo_range = traffic_range (\<lambda>_. True) True 0 (\<lambda>t. Some (if t = ''a'' then 0 else 10 * second)) ''UTC'' ''GET'' (''a'', ''b'')
     (empty_logger (Some demo_log))"

theorem range_totals_agree_witness:
  "\<exists>rg lg'. demo_range = (View rg, lg') \<and> rg_total_rx rg = 4 \<and> map rt_name (rg_users rg) = [''alice''] \<and> range_page_agrees (traffic_tables lg') rg"
proof -
  have "(case demo_range of (View rg, lg') \<Rightarrow> rg_total_rx rg = 4 \<and> map rt_name (rg_users rg) = [''alice''] | _ \<Rightarrow> False)" by code_simp
  then obtain rg lg' where v: "demo_range = (View rg, lg')" "rg_total_rx rg = 4" "map rt_name (rg_users rg) = [''alice'']"
    by (auto split: prod.split_asm view.split_asm)
  from range_totals_agree [OF v(1) [unfolded demo_range_def]] v show ?thesis by (intro exI [of _ rg] exI [of _ lg'] conjI)
qed

definition demo_web :: web_env where
  "demo_web = \<lparr>we_admin = Admin_Web.demo_env, we_auth = new_authenticator (\<lambda>_. []) [], we_connections = None, we_statuses = None,
     we_flush_io = (\<lambda>_. True), we_buckets_io = True, we_usage_io = (True, True), we_months = utc, we_systemd = (\<lambda>unit. Inl (InvalidUnit unit)),
     we_renders = (\<lambda>_. True), we_later = 0, we_range = ([], []), we_css = [], we_js = []\<rparr>"

theorem admin_changes_need_token_witness:
  "\<exists>resp w' lg'. admin_handler demo_web demo_admin demo_request (demo_world, empty_logger None) = (resp, w', lg') \<and> w' \<noteq> demo_world \<and>
     form_get demo_request ''csrf'' = ad_csrf demo_admin \<and> lg' = empty_logger None"
proof -
  obtain resp w' lg' where h: "admin_handler demo_web demo_admin demo_request (demo_world, empty_logger None) = (resp, w', lg')"
    by (metis prod.exhaust)
  have path: "clean_path ''/users/ann/delete'' = ''/users/ann/delete''" "route ''/users/ann/delete'' = UserAction" by code_simp+
  have "w' = snd (with_csrf demo_admin (admin_user_action Admin_Web.demo_env demo_admin) demo_request demo_world)"
    using h serve_admin_state [of demo_web demo_admin demo_request "(demo_world, empty_logger None)"] path
    by (simp add: serve_admin_def Let_def form_answer_def demo_web_def demo_request_def split: prod.split_asm)
  with demo_delete have "w' \<noteq> demo_world" by simp
  with admin_changes_need_token [OF h] h show ?thesis by (auto simp: demo_request_def)
qed

end
