(* ===== verification/Gateway_Process.thy ===== *)
theory Gateway_Process
  imports Inbound_Manager Hysteria2_Service Admin_Views
begin

text \<open>
  The gateway process (\<open>cmd/gateway/main.go\<close>): start-up, the background loops, shutdown and the
  \<open>record-exit\<close> command.  What the operating system answers is an argument (\<open>boot_env\<close>, \<open>stop_env\<close>).
  Besides its result, every function returns the trace of the steps it took, from which the
  resources the process holds are computed.  The workers of a shutdown run concurrently: \<open>stop_env\<close> says which of
  them finish before which deadline and in which order, and the trace lists a worker when it has finished; a worker that
  meets neither deadline is not in the trace.
\<close>

section \<open>Steps and resources\<close>

datatype gw_event =
    EvOpenStore | EvCloseStore | EvLoadCertificate
  | EvBind string string | EvUnbind string
  | EvNewInbound string | EvCloseInbound string
  | EvCloseOutbounds | EvWarmup | EvStartFlush
  | EvServeHttp string | EvStartRefresh | EvStartInbounds | EvRecordRun | EvSetActive | EvStartScheduler | EvStartWatchdog
  | EvStopAdmission | EvStopRefresh | EvStopSystemd | EvNotifyStopping
  | EvWaitInbounds | EvShutdownHttp string | EvWaitBackground | EvForceCloseHttp string | EvFinalFlush

text \<open>
  \<open>ROutbounds\<close> stands for the client connections to the nodes, which the warm-up begins to open.  Closing an HTTP
  server, gracefully or not, releases its listener.
\<close>

datatype resource = RStore | RListener string | RInbound string | ROutbounds

fun effect :: "gw_event \<Rightarrow> resource set \<Rightarrow> resource set" where
  "effect EvOpenStore R = insert RStore R"
| "effect EvCloseStore R = R - {RStore}"
| "effect (EvBind name _) R = insert (RListener name) R"
| "effect (EvUnbind name) R = R - {RListener name}"
| "effect (EvNewInbound name) R = insert (RInbound name) R"
| "effect (EvCloseInbound name) R = R - {RInbound name}"
| "effect EvWarmup R = insert ROutbounds R"
| "effect EvCloseOutbounds R = R - {ROutbounds}"
| "effect (EvShutdownHttp name) R = R - {RListener name}"
| "effect (EvForceCloseHttp name) R = R - {RListener name}"
| "effect _ R = R"

definition held_from :: "resource set \<Rightarrow> gw_event list \<Rightarrow> resource set" where
  "held_from R trace = foldl (\<lambda>R e. effect e R) R trace"

definition held :: "gw_event list \<Rightarrow> resource set" where
  "held trace = held_from {} trace"

section \<open>The loopback check\<close>

definition is_loopback_listen :: "string \<Rightarrow> bool" where
  "is_loopback_listen addr =
     (case split_host_port addr of
        Inl _ \<Rightarrow> False
      | Inr (host, _) \<Rightarrow> host = ''localhost'' \<or> (case parse_ip host of None \<Rightarrow> False | Some ip \<Rightarrow> ip_is_loopback ip))"

section \<open>Start-up\<close>

datatype boot_error =
    ConfigNotLoaded load_error | StoreNotOpened string | SnapshotFailed management_error | CertificateFailed string
  | AdminNotLoopback string | AdminFailed | HttpListenFailed string string string
  | Hysteria2Failed hy2_error | TrojanFailed service_error | InboundUnsupported string

record boot_env =
  be_config :: "(load_error, gateway_config) result"
  be_open :: "string \<Rightarrow> string option"
  be_io :: "stmt \<Rightarrow> bool"
  be_dec :: "string \<Rightarrow> node_config option"
  be_sha224 :: "string \<Rightarrow> bytes"
  be_months :: "string \<Rightarrow> month_fn"
  be_usage_io :: bool
  be_summary_io :: "string \<Rightarrow> string \<Rightarrow> bool"
  be_now :: go_time
  be_certificate :: "tls_config \<Rightarrow> string option"
  be_known_zone :: "string \<Rightarrow> bool"
  be_random :: "bytes option"
  be_location :: "string \<Rightarrow> location option"
  be_listen :: "string \<Rightarrow> string option"
  be_hy2 :: hy2_env
  be_trojan_listen :: "string \<Rightarrow> bool"
  be_methods :: "string \<Rightarrow> string option \<times> string option \<times> string option"
  be_order :: "inbound_service list \<Rightarrow> inbound_service list"
  be_between :: "management_db \<Rightarrow> management_db"
  be_run_io :: "history_stmt \<Rightarrow> bool"
  be_active_io :: "stmt \<Rightarrow> bool"
  be_pid :: int
  be_trigger :: string

record tables =
  gt_db :: management_db
  gt_history :: history_db
  gt_traffic :: traffic_db

record gateway =
  gw_kernel :: kernel
  gw_admin :: "admin option"
  gw_subscription :: "subscription_handler option"
  gw_http :: "(string \<times> string) list"
  gw_inbounds :: manager
  gw_serving :: bool
  gw_scheduler :: bool
  gw_watchdog :: bool
  gw_db :: management_db
  gw_history :: history_db

definition admin_name :: string where "admin_name = ''management web''"
definition subscription_name :: string where "subscription_name = ''subscription service''"

text \<open>\<open>cleanupConstructed\<close>: every listener and inbound built so far, then the outbounds and the store.\<close>

definition cleanup_constructed :: "(string \<times> string) list \<Rightarrow> manager \<Rightarrow> gw_event list" where
  "cleanup_constructed http m =
     map (\<lambda>(name, _). EvUnbind name) http @ map EvCloseInbound (mg_close_calls (snd (manager_close m))) @ [EvCloseOutbounds, EvCloseStore]"

definition boot_admin :: "boot_env \<Rightarrow> gateway_config \<Rightarrow> (boot_error, admin option \<times> (string \<times> string) list) result" where
  "boot_admin env cfg =
     (let addr = gc_admin_listen cfg
      in if addr = [] then Inr (None, [])
         else if \<not> is_loopback_listen addr then Inl (AdminNotLoopback addr)
         else (case new_admin (be_known_zone env) (be_random env) cfg of
                 None \<Rightarrow> Inl AdminFailed
               | Some m \<Rightarrow>
                   (case be_listen env addr of
                      Some e \<Rightarrow> Inl (HttpListenFailed admin_name addr e)
                    | None \<Rightarrow> Inr (Some m, [(admin_name, addr)]))))"

definition boot_subscription ::
  "boot_env \<Rightarrow> gateway_config \<Rightarrow> runtime_snapshot \<Rightarrow> (boot_error, subscription_handler option \<times> (string \<times> string) list) result"
where
  "boot_subscription env cfg snap =
     (case gc_sub cfg of
        None \<Rightarrow> Inr (None, [])
      | Some sub \<Rightarrow>
          if sb_listen sub = [] then Inr (None, [])
          else (case be_listen env (sb_listen sub) of
                  Some e \<Rightarrow> Inl (HttpListenFailed subscription_name (sb_listen sub) e)
                | None \<Rightarrow> Inr (Some (new_subscription_handler (be_location env) cfg (rs_users snap) (rs_nodes snap)),
                    [(subscription_name, sb_listen sub)])))"

definition service_of :: "boot_env \<Rightarrow> string \<Rightarrow> inbound_service" where
  "service_of env name =
     (case be_methods env name of (on_serve, on_close, on_wait) \<Rightarrow> \<lparr>in_name = name, in_serve = on_serve, in_close = on_close, in_wait = on_wait\<rparr>)"

definition construct_inbound :: "boot_env \<Rightarrow> inbound \<Rightarrow> (boot_error, inbound_service) result \<times> gw_event list" where
  "construct_inbound env ib =
     (if ib_type ib = hysteria2_type
      then (case new_hy2_service (be_hy2 env) ib of
              (Inl e, sockets) \<Rightarrow> (Inl (Hysteria2Failed e), map (\<lambda>_. EvNewInbound (ib_name ib)) sockets)
            | (Inr s, sockets) \<Rightarrow> (Inr (service_of env (hv_name s)), map (\<lambda>_. EvNewInbound (ib_name ib)) sockets))
      else if ib_type ib = trojan_type
      then (case new_service True (be_trojan_listen env (ib_listen ib)) ib of
              Inl e \<Rightarrow> (Inl (TrojanFailed e), [])
            | Inr s \<Rightarrow> (Inr (service_of env (sv_name s)), [EvNewInbound (ib_name ib)]))
      else (Inl (InboundUnsupported (ib_type ib)), []))"

fun boot_inbounds :: "boot_env \<Rightarrow> inbound list \<Rightarrow> manager \<Rightarrow> (boot_error option \<times> manager) \<times> gw_event list" where
  "boot_inbounds env [] m = ((None, m), [])"
| "boot_inbounds env (ib # ibs) m =
     (case construct_inbound env ib of
        (Inl e, evs) \<Rightarrow> ((Some e, m), evs)
      | (Inr s, evs) \<Rightarrow> (case boot_inbounds env ibs (manager_add (Some s) m) of (r, evs') \<Rightarrow> (r, evs @ evs')))"

definition bind_events :: "(string \<times> string) list \<Rightarrow> gw_event list" where
  "bind_events http = map (\<lambda>(name, addr). EvBind name addr) http"

definition boot_services ::
  "boot_env \<Rightarrow> gateway_config \<Rightarrow> runtime_snapshot \<Rightarrow>
    (boot_error, admin option \<times> subscription_handler option \<times> (string \<times> string) list \<times> manager) result \<times> gw_event list"
where
  "boot_services env cfg snap =
     (case boot_admin env cfg of
        Inl e \<Rightarrow> (Inl e, cleanup_constructed [] (new_manager []))
      | Inr (adm, h1) \<Rightarrow>
          (case boot_subscription env cfg snap of
             Inl e \<Rightarrow> (Inl e, bind_events h1 @ cleanup_constructed h1 (new_manager []))
           | Inr (sub, h2) \<Rightarrow>
               (case boot_inbounds env (gc_inbounds cfg) (new_manager []) of
                  ((Some e, m), evs) \<Rightarrow> (Inl e, bind_events (h1 @ h2) @ evs @ cleanup_constructed (h1 @ h2) m)
                | ((None, m), evs) \<Rightarrow> (Inr (adm, sub, h1 @ h2, m), bind_events (h1 @ h2) @ evs))))"

definition serving_events :: "gateway_config \<Rightarrow> (string \<times> string) list \<Rightarrow> gw_event list" where
  "serving_events cfg http =
     [EvWarmup, EvStartFlush] @ map (\<lambda>(name, _). EvServeHttp name) http @ [EvStartRefresh, EvStartInbounds, EvRecordRun, EvSetActive] @
     (case gc_systemd cfg of None \<Rightarrow> [] | Some sd \<Rightarrow> EvStartScheduler # (if sd_watchdog sd then [EvStartWatchdog] else []))"

text \<open>
  The construction of the kernel and, once everything is built, the start of all loops.  A failure to
  record the start or the revision is only logged.
\<close>

definition boot_kernel :: "boot_env \<Rightarrow> gateway_config \<Rightarrow> runtime_snapshot \<Rightarrow> traffic_db \<Rightarrow> kernel" where
  "boot_kernel env cfg snap traffic =
     new_kernel 0 (be_sha224 env) (be_months env (gc_timezone cfg)) (be_usage_io env) (be_summary_io env) (be_now env)
       (rs_users snap) (rs_nodes snap) (Some traffic)"

definition start_serving ::
  "boot_env \<Rightarrow> gateway_config \<Rightarrow> runtime_snapshot \<Rightarrow> kernel \<Rightarrow> tables \<Rightarrow>
    admin option \<times> subscription_handler option \<times> (string \<times> string) list \<times> manager \<Rightarrow> gateway"
where
  "start_serving env cfg snap k t parts =
     (case parts of (adm, sub, http, m) \<Rightarrow>
        \<lparr>gw_kernel = k\<lparr>kn_outbounds := factory_start (kn_outbounds k), kn_traffic := start_periodic_flush (kn_traffic k)\<rparr>,
         gw_admin = adm, gw_subscription = sub, gw_http = http, gw_inbounds = manager_start (be_order env) m,
         gw_serving = True, gw_scheduler = (gc_systemd cfg \<noteq> None),
         gw_watchdog = (case gc_systemd cfg of None \<Rightarrow> False | Some sd \<Rightarrow> sd_watchdog sd),
         gw_db = snd (set_active_revision (be_active_io env) (rs_revision snap) (be_between env (gt_db t))),
         gw_history = snd (start_process_run (be_run_io env) (be_now env) (be_pid env) (rs_revision snap) (be_trigger env) (gt_history t))\<rparr>)"

definition boot :: "boot_env \<Rightarrow> tables \<Rightarrow> (boot_error, gateway) result \<times> gw_event list" where
  "boot env t =
     (case be_config env of
        Inl e \<Rightarrow> (Inl (ConfigNotLoaded e), [])
      | Inr cfg \<Rightarrow>
          (case be_open env (gc_db_path cfg) of
             Some e \<Rightarrow> (Inl (StoreNotOpened e), [])
           | None \<Rightarrow>
               (case load_runtime_snapshot (be_io env) (be_dec env) (gt_db t) of
                  Inl e \<Rightarrow> (Inl (SnapshotFailed e), [EvOpenStore, EvCloseStore])
                | Inr snap \<Rightarrow>
                    (let k = boot_kernel env cfg snap (gt_traffic t)
                     in case be_certificate env (gc_tls cfg) of
                          Some e \<Rightarrow> (Inl (CertificateFailed e), [EvOpenStore, EvCloseStore])
                        | None \<Rightarrow>
                            (case boot_services env cfg snap of
                               (Inl e, evs) \<Rightarrow> (Inl e, [EvOpenStore, EvLoadCertificate] @ evs)
                             | (Inr parts, evs) \<Rightarrow>
                                 (Inr (start_serving env cfg snap k t parts),
                                  [EvOpenStore, EvLoadCertificate] @ evs @ serving_events cfg (fst (snd (snd parts)))))))))"

section \<open>Background loops\<close>

text \<open>One tick of \<open>refreshUserState\<close>: users that cannot be loaded leave the published policy as it is.\<close>

definition refresh_tick :: "(string \<Rightarrow> bytes) \<Rightarrow> (stmt \<Rightarrow> bool) \<Rightarrow> management_db \<Rightarrow> kernel \<Rightarrow> kernel" where
  "refresh_tick sha224 io db k =
     (case load_runtime_users io db of Inl _ \<Rightarrow> k | Inr loaded \<Rightarrow> kernel_update_users sha224 loaded k)"

datatype refresh_event = RefreshStop | RefreshTick "stmt \<Rightarrow> bool" management_db

fun refresh_user_state :: "(string \<Rightarrow> bytes) \<Rightarrow> refresh_event list \<Rightarrow> kernel \<Rightarrow> kernel" where
  "refresh_user_state sha224 [] k = k"
| "refresh_user_state sha224 (RefreshStop # es) k = k"
| "refresh_user_state sha224 (RefreshTick io db # es) k = refresh_user_state sha224 es (refresh_tick sha224 io db k)"

text \<open>How a serve loop of \<open>net/http\<close> ends, and what \<open>serveHTTP\<close> reports.\<close>

datatype http_end = ServeNil | ServerClosed | ServeFailed string

definition serve_http :: "string \<Rightarrow> http_end \<Rightarrow> (string \<times> string) option" where
  "serve_http name r = (case r of ServeFailed e \<Rightarrow> Some (name, e) | _ \<Rightarrow> None)"

section \<open>Shutdown\<close>

datatype exit_cause = GotSignal string | HttpStopped string string | InboundStopped string string | ContextDone

datatype gw_error =
    ServiceStopped string string | InboundError string | WorkersLate | FinalFlushFailed stop_error | StoreCloseFailed string

definition cause_error :: "exit_cause \<Rightarrow> gw_error list" where
  "cause_error cause =
     (case cause of
        HttpStopped name e \<Rightarrow> [ServiceStopped name e]
      | InboundStopped name e \<Rightarrow> [ServiceStopped name e]
      | _ \<Rightarrow> [])"

text \<open>\<open>errorCollector\<close>: the joined errors in the order of the calls; nil errors are not added.\<close>

definition collector_add :: "gw_error list \<Rightarrow> gw_error list \<Rightarrow> gw_error list" where
  "collector_add err c = (if err = [] then c else c @ err)"

text \<open>
  The goroutines that \<open>runGateway\<close> waits for, one per HTTP server and three more.  \<open>so_first\<close> lists those that
  have finished when the first wait ends (all of them, or whatever has finished when the deadline of 12 seconds is
  found expired), \<open>so_second\<close> those that finish before the second wait ends, at the latest at the total deadline of
  15 seconds.  \<open>so_expired\<close> is the choice of the first \<open>select\<close> when the workers are done and the deadline has passed too.
\<close>

datatype worker = WaitInboundsW | ShutdownHttpW string | CloseOutboundsW | WaitBackgroundW

record stop_env =
  so_first :: "worker list"
  so_expired :: bool
  so_second :: "worker list"
  so_wait_err :: "string option"
  so_wait_order :: "inbound_service list \<Rightarrow> inbound_service list"
  so_meanwhile :: "traffic_logger \<Rightarrow> traffic_logger"
  so_flush_io :: "nat \<Rightarrow> bool"
  so_flush_now :: go_time
  so_flush_wait :: "traffic_logger \<Rightarrow> traffic_logger"
  so_store_close :: "string option"

definition workers_of :: "(string \<times> string) list \<Rightarrow> worker list" where
  "workers_of http = WaitInboundsW # map (\<lambda>(name, _). ShutdownHttpW name) http @ [CloseOutboundsW, WaitBackgroundW]"

definition finished_first :: "stop_env \<Rightarrow> (string \<times> string) list \<Rightarrow> worker list" where
  "finished_first env http = filter (\<lambda>w. w \<in> set (workers_of http)) (remdups (so_first env))"

definition finished_second :: "stop_env \<Rightarrow> (string \<times> string) list \<Rightarrow> worker list" where
  "finished_second env http = filter (\<lambda>w. w \<in> set (workers_of http) \<and> w \<notin> set (so_first env)) (remdups (so_second env))"

definition workers_late :: "stop_env \<Rightarrow> (string \<times> string) list \<Rightarrow> bool" where
  "workers_late env http \<longleftrightarrow> so_expired env \<or> \<not> list_all (\<lambda>w. w \<in> set (so_first env)) (workers_of http)"

fun worker_event :: "worker \<Rightarrow> gw_event" where
  "worker_event WaitInboundsW = EvWaitInbounds"
| "worker_event (ShutdownHttpW name) = EvShutdownHttp name"
| "worker_event CloseOutboundsW = EvCloseOutbounds"
| "worker_event WaitBackgroundW = EvWaitBackground"

text \<open>What the collector holds when its value is taken: the result of a wait that has not ended by then is lost.\<close>

definition worker_errors :: "stop_env \<Rightarrow> (string \<times> string) list \<Rightarrow> string list \<Rightarrow> manager \<Rightarrow> gw_error list" where
  "worker_errors env http close_errs m =
     (let closing = collector_add (map InboundError close_errs) [];
          waited = map InboundError (manager_wait (so_wait_err env) (so_wait_order env) m);
          by_first = (if WaitInboundsW \<in> set (finished_first env http) then collector_add waited closing else closing);
          at_deadline = (if workers_late env http then collector_add [WorkersLate] by_first else by_first)
      in if WaitInboundsW \<in> set (finished_second env http) then collector_add waited at_deadline else at_deadline)"

definition shutdown_events :: "stop_env \<Rightarrow> (string \<times> string) list \<Rightarrow> string list \<Rightarrow> gw_event list" where
  "shutdown_events env http names =
     [EvStopAdmission, EvStopRefresh, EvStopSystemd, EvNotifyStopping] @ map EvCloseInbound names @
     map worker_event (finished_first env http) @
     (if workers_late env http then map (\<lambda>(name, _). EvForceCloseHttp name) http else []) @
     map worker_event (finished_second env http) @ [EvFinalFlush, EvCloseStore]"

definition shutdown :: "stop_env \<Rightarrow> exit_cause \<Rightarrow> gateway \<Rightarrow> gw_error list \<times> gateway \<times> gw_event list" where
  "shutdown env cause gw =
     (let k1 = kernel_stop_admission (gw_kernel gw);
          (close_errs, m) = manager_close (gw_inbounds gw);
          errs = cause_error cause @ worker_errors env (gw_http gw) close_errs m;
          lg2 = so_meanwhile env (kn_traffic k1);
          (stop_err, lg3) = stop_context (so_flush_io env) (so_flush_now env) (so_flush_wait env) lg2;
          flush_errs = (case stop_err of None \<Rightarrow> [] | Some e \<Rightarrow> [FinalFlushFailed e]);
          store_errs = (case so_store_close env of None \<Rightarrow> [] | Some e \<Rightarrow> [StoreCloseFailed e])
      in (errs @ flush_errs @ store_errs,
          gw\<lparr>gw_kernel := k1\<lparr>kn_traffic := lg3, kn_outbounds := factory_cancel (kn_outbounds k1)\<rparr>, gw_inbounds := m, gw_serving := False\<rparr>,
          shutdown_events env (gw_http gw) (mg_close_calls m)))"

text \<open>\<open>runGateway\<close>: the errors it returns (none for a clean exit) and all its steps.\<close>

definition run_gateway :: "boot_env \<Rightarrow> stop_env \<Rightarrow> exit_cause \<Rightarrow> tables \<Rightarrow> (boot_error, gw_error list) result \<times> gw_event list" where
  "run_gateway env stop cause t =
     (case boot env t of
        (Inl e, trace) \<Rightarrow> (Inl e, trace)
      | (Inr gw, trace) \<Rightarrow> (case shutdown stop cause gw of (errs, _, trace') \<Rightarrow> (Inr errs, trace @ trace')))"

definition exit_status :: "(boot_error, gw_error list) result \<Rightarrow> nat" where
  "exit_status r = (case r of Inl _ \<Rightarrow> 1 | Inr errs \<Rightarrow> if errs = [] then 0 else 1)"

section \<open>The exit record\<close>

text \<open>\<open>strconv.Atoi\<close> with its error dropped: 0 when the text is no number, the nearest \<open>int\<close> when it is out of range.\<close>

definition atoi_unchecked :: "string \<Rightarrow> int" where
  "atoi_unchecked s =
     (case atoi s of
        Some n \<Rightarrow> n
      | None \<Rightarrow>
          (let neg = has_prefix s ''-''; ds = (if neg \<or> has_prefix s ''+'' then drop 1 s else s)
           in if ds = [] \<or> \<not> list_all is_digit ds then 0 else if neg then - (2 ^ 63) else 2 ^ 63 - 1))"

definition run_record_exit ::
  "(load_error, gateway_config) result \<Rightarrow> (string \<Rightarrow> string option) \<Rightarrow> (history_stmt \<Rightarrow> bool) \<Rightarrow> go_time \<Rightarrow> (string \<Rightarrow> string) \<Rightarrow>
    history_db \<Rightarrow> history_db"
where
  "run_record_exit config open_store io now getenv db =
     (case config of
        Inl _ \<Rightarrow> db
      | Inr cfg \<Rightarrow>
          (case open_store (gc_db_path cfg) of
             Some _ \<Rightarrow> db
           | None \<Rightarrow> snd (record_process_exit io now (atoi_unchecked (getenv ''MAINPID'')) (getenv ''SERVICE_RESULT'') (getenv ''EXIT_CODE'')
               (getenv ''EXIT_STATUS'') db)))"

section \<open>Resources along a trace\<close>

lemma held_from_simps [simp]:
  "held_from R [] = R"
  "held_from R (e # es) = held_from (effect e R) es"
  "held_from R (es @ es') = held_from (held_from R es) es'"
  by (simp_all add: held_from_def)

lemma held_from_bind [simp]: "held_from R (bind_events http) = R \<union> RListener ` set (map fst http)"
  by (induction http arbitrary: R) (auto simp: bind_events_def)

lemma held_from_unbind [simp]: "held_from R (map (\<lambda>(name, _). EvUnbind name) http) = R - RListener ` set (map fst http)"
  by (induction http arbitrary: R) auto

lemma held_from_close_inbounds [simp]: "held_from R (map EvCloseInbound names) = R - RInbound ` set names"
  by (induction names arbitrary: R) auto

lemma held_from_quiet:
  "(\<And>e R. e \<in> set es \<Longrightarrow> effect e R = R) \<Longrightarrow> held_from R es = R"
  by (induction es arbitrary: R) auto

lemma held_from_serving [simp]: "held_from R (serving_events cfg http) = insert ROutbounds R"
proof -
  have "effect e R = R" if "e \<in> set (drop 1 (serving_events cfg http))" for e R
    using that by (auto simp: serving_events_def split: option.split_asm if_split_asm)
  then have "held_from S (drop 1 (serving_events cfg http)) = S" for S by (intro held_from_quiet)
  then show ?thesis by (simp add: serving_events_def)
qed

lemma held_from_force_close [simp]: "held_from R (map (\<lambda>(name, _). EvForceCloseHttp name) http) = R - RListener ` set (map fst http)"
  by (induction http arbitrary: R) auto

text \<open>What the end of a worker releases.\<close>

fun worker_releases :: "worker \<Rightarrow> resource set" where
  "worker_releases (ShutdownHttpW name) = {RListener name}"
| "worker_releases CloseOutboundsW = {ROutbounds}"
| "worker_releases _ = {}"

lemma held_from_workers [simp]: "held_from R (map worker_event ws) = R - \<Union> (worker_releases ` set ws)"
proof (induction ws arbitrary: R)
  case (Cons w ws)
  then show ?case by (cases w) auto
qed simp

section \<open>What start-up builds\<close>

text \<open>A manager that was never closed closes exactly its services.\<close>

definition fresh_manager :: "manager \<Rightarrow> bool" where
  "fresh_manager m \<longleftrightarrow> \<not> mg_closed m \<and> mg_close_calls m = []"

definition service_names :: "manager \<Rightarrow> string list" where
  "service_names m = map in_name (mg_services m)"

lemma fresh_close [simp]: "fresh_manager m \<Longrightarrow> mg_close_calls (snd (manager_close m)) = service_names m"
  by (simp add: fresh_manager_def manager_close_def service_names_def Let_def)

lemma fresh_new [simp]: "fresh_manager (new_manager [])" "service_names (new_manager []) = []"
  by (simp_all add: fresh_manager_def new_manager_def service_names_def)

lemma fresh_add [simp]:
  "fresh_manager (manager_add (Some s) m) = fresh_manager m" "service_names (manager_add (Some s) m) = service_names m @ [in_name s]"
  by (simp_all add: fresh_manager_def manager_add_def service_names_def)

lemma fresh_start [simp]:
  "fresh_manager (manager_start order m) = fresh_manager m" "service_names (manager_start order m) = service_names m"
  by (simp_all add: fresh_manager_def manager_start_def service_names_def)

lemma in_name_service_of [simp]: "in_name (service_of env name) = name"
  by (simp add: service_of_def split: prod.split)

lemma new_hy2_service_Inr: "new_hy2_service env ib = (Inr s, sockets) \<Longrightarrow> hv_name s = ib_name ib"
  by (auto simp: new_hy2_service_def Let_def split: sum.split_asm option.split_asm)

lemma new_service_Inr: "new_service True listens ib = Inr s \<Longrightarrow> sv_name s = ib_name ib"
  by (auto simp: new_service_def Let_def rbind_def split: sum.split_asm option.split_asm if_split_asm)

text \<open>An inbound that cannot be constructed holds nothing; one that was holds its own socket.\<close>

lemma construct_inbound_cases:
  obtains (failed) e where "construct_inbound env ib = (Inl e, [])"
    | (built) s where "construct_inbound env ib = (Inr s, [EvNewInbound (ib_name ib)])" "in_name s = ib_name ib"
proof -
  obtain r sockets where n: "new_hy2_service (be_hy2 env) ib = (r, sockets)" by fastforce
  then have s: "sockets = (case r of Inl _ \<Rightarrow> [] | Inr s \<Rightarrow> [hv_addr s])"
    using new_hy2_service_sockets [of "be_hy2 env" ib] by simp
  have "(\<exists>e. construct_inbound env ib = (Inl e, [])) \<or>
      (\<exists>s. construct_inbound env ib = (Inr s, [EvNewInbound (ib_name ib)]) \<and> in_name s = ib_name ib)"
    using n s new_hy2_service_Inr [of "be_hy2 env" ib] new_service_Inr [of "be_trojan_listen env (ib_listen ib)" ib]
    by (cases r; cases "new_service True (be_trojan_listen env (ib_listen ib)) ib") (simp_all add: construct_inbound_def)
  then show thesis using that by blast
qed

lemma boot_inbounds_holds:
  assumes "boot_inbounds env ibs m = ((r, m'), evs)" "fresh_manager m"
  shows "fresh_manager m' \<and> (\<exists>names. service_names m' = service_names m @ names \<and> evs = map EvNewInbound names \<and>
    (r = None \<longrightarrow> names = map ib_name ibs))"
  using assms
proof (induction ibs arbitrary: m evs)
  case Nil
  then show ?case by simp
next
  case (Cons ib ibs)
  show ?case
  proof (cases rule: construct_inbound_cases [of env ib])
    case (failed e)
    with Cons.prems show ?thesis by auto
  next
    case (built s)
    obtain evs' where "boot_inbounds env ibs (manager_add (Some s) m) = ((r, m'), evs')" "evs = EvNewInbound (ib_name ib) # evs'"
      using Cons.prems(1) built by (auto split: prod.split_asm)
    with Cons.IH [of "manager_add (Some s) m" evs'] Cons.prems(2) built(2) show ?thesis by force
  qed
qed

lemma held_from_new_inbounds [simp]: "held_from R (map EvNewInbound names) = R \<union> RInbound ` set names"
  by (induction names arbitrary: R) auto

text \<open>The listeners of the management web and of the subscription service that a configuration asks for.\<close>

definition http_listeners :: "gateway_config \<Rightarrow> (string \<times> string) list" where
  "http_listeners cfg =
     (if gc_admin_listen cfg = [] then [] else [(admin_name, gc_admin_listen cfg)]) @
     (case gc_sub cfg of None \<Rightarrow> [] | Some sub \<Rightarrow> if sb_listen sub = [] then [] else [(subscription_name, sb_listen sub)])"

lemma boot_admin_Inr:
  "boot_admin env cfg = Inr (adm, http) \<Longrightarrow>
     http = (if gc_admin_listen cfg = [] then [] else [(admin_name, gc_admin_listen cfg)]) \<and>
     (gc_admin_listen cfg \<noteq> [] \<longrightarrow> is_loopback_listen (gc_admin_listen cfg))"
  by (auto simp: boot_admin_def Let_def split: if_split_asm option.split_asm)

lemma boot_subscription_Inr:
  "boot_subscription env cfg snap = Inr (sub, http) \<Longrightarrow>
     http = (case gc_sub cfg of None \<Rightarrow> [] | Some sub \<Rightarrow> if sb_listen sub = [] then [] else [(subscription_name, sb_listen sub)])"
  by (auto simp: boot_subscription_def split: if_split_asm option.split_asm)

definition quiet :: "gw_event \<Rightarrow> bool" where
  "quiet ev \<longleftrightarrow> (case ev of EvServeHttp _ \<Rightarrow> False | EvStartInbounds \<Rightarrow> False | EvStartRefresh \<Rightarrow> False | _ \<Rightarrow> True)"

lemma quiet_events [simp]:
  "list_all quiet (bind_events http)" "list_all quiet (map EvNewInbound names)" "list_all quiet (cleanup_constructed http m)"
  by (auto simp: list_all_iff bind_events_def cleanup_constructed_def quiet_def)

text \<open>The store is closed once, by the last step, and nothing runs after it.\<close>

definition closes_last :: "gw_event list \<Rightarrow> bool" where
  "closes_last trace \<longleftrightarrow> trace = [] \<or> last trace = EvCloseStore \<and> EvCloseStore \<notin> set (butlast trace)"

lemma closes_last_append: "evs \<noteq> [] \<Longrightarrow> closes_last evs \<Longrightarrow> EvCloseStore \<notin> set pre \<Longrightarrow> closes_last (pre @ evs)"
  by (simp add: closes_last_def butlast_append)

lemma cleanup_closes_last [simp]: "closes_last (cleanup_constructed http m)" "cleanup_constructed http m \<noteq> []"
  by (auto simp: closes_last_def cleanup_constructed_def butlast_append)

lemma no_close_events [simp]:
  "EvCloseStore \<notin> set (bind_events http)" "EvCloseStore \<notin> set (serving_events cfg http)"
  by (auto simp: bind_events_def serving_events_def split: option.split_asm if_split_asm)

lemma cleanup_releases: "fresh_manager m \<Longrightarrow>
  held_from (insert RStore (RListener ` set (map fst http) \<union> RInbound ` set (service_names m))) (cleanup_constructed http m) = {}"
  by (auto simp: cleanup_constructed_def)

lemma boot_services_failed:
  assumes "boot_services env cfg snap = (Inl e, evs)"
  shows "held_from {RStore} evs = {} \<and> list_all quiet evs \<and> closes_last evs \<and> evs \<noteq> []"
proof (cases "boot_admin env cfg")
  case (Inl e1)
  with assms show ?thesis using cleanup_releases [of "new_manager []" "[]"] by (auto simp: boot_services_def)
next
  case (Inr p)
  obtain adm h1 where p: "p = (adm, h1)" by fastforce
  show ?thesis
  proof (cases "boot_subscription env cfg snap")
    case (Inl e2)
    with assms Inr p show ?thesis using cleanup_releases [of "new_manager []" h1] by (auto simp: boot_services_def intro: closes_last_append)
  next
    case (Inr q)
    obtain sub h2 where q: "q = (sub, h2)" by fastforce
    obtain r m evs1 where b: "boot_inbounds env (gc_inbounds cfg) (new_manager []) = ((r, m), evs1)" by (metis prod.exhaust)
    from boot_inbounds_holds [OF b] have m: "fresh_manager m" and evs1: "evs1 = map EvNewInbound (service_names m)" by auto
    have evs: "evs = bind_events (h1 @ h2) @ evs1 @ cleanup_constructed (h1 @ h2) m"
      using assms \<open>boot_admin env cfg = Inr p\<close> p Inr q b by (auto simp: boot_services_def split: option.split_asm)
    then have "closes_last evs"
      using closes_last_append [of "cleanup_constructed (h1 @ h2) m" "bind_events (h1 @ h2) @ evs1"] by (auto simp: evs1)
    with evs show ?thesis using cleanup_releases [OF m, of "h1 @ h2"] by (simp add: evs1 insert_commute Un_commute)
  qed
qed

lemma boot_services_built:
  assumes "boot_services env cfg snap = (Inr (adm, sub, http, m), evs)"
  shows "http = http_listeners cfg" "evs = bind_events (http_listeners cfg) @ map EvNewInbound (map ib_name (gc_inbounds cfg))"
    "fresh_manager m" "service_names m = map ib_name (gc_inbounds cfg)"
    "gc_admin_listen cfg \<noteq> [] \<longrightarrow> is_loopback_listen (gc_admin_listen cfg)"
proof -
  from assms obtain h1 h2 evs1 where a: "boot_admin env cfg = Inr (adm, h1)" and s: "boot_subscription env cfg snap = Inr (sub, h2)"
    and b: "boot_inbounds env (gc_inbounds cfg) (new_manager []) = ((None, m), evs1)" and h: "http = h1 @ h2"
    and evs: "evs = bind_events http @ evs1"
    by (auto simp: boot_services_def split: sum.split_asm prod.split_asm option.split_asm)
  show http: "http = http_listeners cfg" using boot_admin_Inr [OF a] boot_subscription_Inr [OF s] h by (simp add: http_listeners_def)
  show "gc_admin_listen cfg \<noteq> [] \<longrightarrow> is_loopback_listen (gc_admin_listen cfg)" using boot_admin_Inr [OF a] by blast
  from boot_inbounds_holds [OF b] show "fresh_manager m" "service_names m = map ib_name (gc_inbounds cfg)"
    "evs = bind_events (http_listeners cfg) @ map EvNewInbound (map ib_name (gc_inbounds cfg))"
    using evs http by auto
qed

text \<open>The two ways a start can end.\<close>

lemma boot_cases:
  obtains (failed) e trace where "boot env t = (Inl e, trace)" "held trace = {}" "list_all quiet trace" "closes_last trace"
    | (started) cfg snap adm sub m where "be_config env = Inr cfg"
      "load_runtime_snapshot (be_io env) (be_dec env) (gt_db t) = Inr snap"
      "boot env t = (Inr (start_serving env cfg snap (boot_kernel env cfg snap (gt_traffic t)) t (adm, sub, http_listeners cfg, m)),
         ([EvOpenStore, EvLoadCertificate] @ bind_events (http_listeners cfg) @ map EvNewInbound (map ib_name (gc_inbounds cfg))) @
         serving_events cfg (http_listeners cfg))"
      "fresh_manager m" "service_names m = map ib_name (gc_inbounds cfg)"
      "gc_admin_listen cfg \<noteq> [] \<longrightarrow> is_loopback_listen (gc_admin_listen cfg)"
proof -
  have early: thesis if "boot env t = (Inl e, [])" for e using failed that by (simp add: held_def closes_last_def)
  have early': thesis if "boot env t = (Inl e, [EvOpenStore, EvCloseStore])" for e using failed that by (simp add: held_def quiet_def closes_last_def)
  show thesis
  proof (cases "be_config env")
    case (Inl e)
    then show thesis using early by (simp add: boot_def)
  next
    case cfg: (Inr cfg)
    show thesis
    proof (cases "be_open env (gc_db_path cfg)")
      case (Some e)
      then show thesis using early cfg by (simp add: boot_def)
    next
      case opened: None
      show thesis
      proof (cases "load_runtime_snapshot (be_io env) (be_dec env) (gt_db t)")
        case (Inl e)
        then show thesis using early' cfg opened by (simp add: boot_def)
      next
        case snap: (Inr snap)
        show thesis
        proof (cases "be_certificate env (gc_tls cfg)")
          case (Some e)
          then show thesis using early' cfg opened snap by (simp add: boot_def Let_def)
        next
          case None
          obtain r evs where b: "boot_services env cfg snap = (r, evs)" by fastforce
          show thesis
          proof (cases r)
            case (Inl e)
            with b None cfg opened snap have "boot env t = (Inl e, [EvOpenStore, EvLoadCertificate] @ evs)" by (simp add: boot_def Let_def)
            moreover from b Inl have f: "held_from {RStore} evs = {}" "list_all quiet evs" "closes_last evs" "evs \<noteq> []"
              using boot_services_failed by blast+
            moreover have "closes_last ([EvOpenStore, EvLoadCertificate] @ evs)" using f(3,4) by (intro closes_last_append) simp_all
            ultimately show thesis using failed by (simp add: held_def quiet_def)
          next
            case (Inr parts)
            obtain adm sub http m where parts: "parts = (adm, sub, http, m)" by (metis prod.exhaust)
            note built = boot_services_built [of env cfg snap adm sub http m evs]
            have "boot env t = (Inr (start_serving env cfg snap (boot_kernel env cfg snap (gt_traffic t)) t (adm, sub, http_listeners cfg, m)),
               ([EvOpenStore, EvLoadCertificate] @ bind_events (http_listeners cfg) @ map EvNewInbound (map ib_name (gc_inbounds cfg))) @
               serving_events cfg (http_listeners cfg))"
              using b Inr parts None cfg opened snap built by (simp add: boot_def Let_def)
            then show thesis using started cfg snap built b Inr parts by simp
          qed
        qed
      qed
    qed
  qed
qed

section \<open>Start-up and shutdown own what they open\<close>

definition configured_resources :: "gateway_config \<Rightarrow> resource set" where
  "configured_resources cfg =
     insert RStore (RListener ` fst ` set (http_listeners cfg) \<union> RInbound ` ib_name ` set (gc_inbounds cfg))"

lemma boot_trace_holds:
  "held ([EvOpenStore, EvLoadCertificate] @ bind_events (http_listeners cfg) @ map EvNewInbound (map ib_name (gc_inbounds cfg))) =
     configured_resources cfg"
  by (auto simp: held_def configured_resources_def simp del: map_map)

text \<open>C10: A start is all or nothing.  If any step of the start-up fails, every socket and the store that were
  opened so far have been released and no loop has served anything; otherwise exactly the configured
  listeners and inbounds and the store are held, all of them acquired before the first loop serves, and in the
  end also the outbounds.\<close>

theorem boot_all_or_nothing:
  "case boot env t of
     (Inl e, trace) \<Rightarrow> held trace = {} \<and> list_all quiet trace
   | (Inr gw, trace) \<Rightarrow> (\<exists>cfg built serving. be_config env = Inr cfg \<and> trace = built @ serving \<and> list_all quiet built \<and>
       held built = configured_resources cfg \<and> held trace = insert ROutbounds (configured_resources cfg) \<and> gw_http gw = http_listeners cfg)"
proof (cases rule: boot_cases [of env t])
  case (failed e trace)
  then show ?thesis by simp
next
  case (started cfg snap adm sub m)
  let ?built = "[EvOpenStore, EvLoadCertificate] @ bind_events (http_listeners cfg) @ map EvNewInbound (map ib_name (gc_inbounds cfg))"
  have "list_all quiet ?built" by (simp add: quiet_def del: map_map)
  moreover have "held (?built @ serving_events cfg (http_listeners cfg)) = insert ROutbounds (held ?built)" unfolding held_def held_from_simps(3) held_from_serving ..
  ultimately have "be_config env = Inr cfg \<and> list_all quiet ?built \<and> held ?built = configured_resources cfg \<and>
      held (?built @ serving_events cfg (http_listeners cfg)) = insert ROutbounds (configured_resources cfg)"
    using started(1) boot_trace_holds by simp
  then show ?thesis unfolding started(3) prod.case sum.case start_serving_def
    by (intro exI [of _ cfg] exI [of _ ?built] exI [of _ "serving_events cfg (http_listeners cfg)"]) simp
qed

lemma shutdown_shape:
  assumes "shutdown stop cause gw = (errs, gw', trace)" "fresh_manager (gw_inbounds gw)"
  shows "trace = shutdown_events stop (gw_http gw) (service_names (gw_inbounds gw))"
    "workers_late stop (gw_http gw) \<longrightarrow> WorkersLate \<in> set errs"
proof -
  obtain close_errs m where m: "manager_close (gw_inbounds gw) = (close_errs, m)" by fastforce
  with fresh_close [OF assms(2)] have "mg_close_calls m = service_names (gw_inbounds gw)" by simp
  with m show "trace = shutdown_events stop (gw_http gw) (service_names (gw_inbounds gw))"
    using assms(1) by (auto simp: shutdown_def Let_def split: prod.split_asm)
  have "workers_late stop (gw_http gw) \<longrightarrow> WorkersLate \<in> set (worker_errors stop (gw_http gw) close_errs m)"
    by (simp add: worker_errors_def collector_add_def Let_def)
  with m show "workers_late stop (gw_http gw) \<longrightarrow> WorkersLate \<in> set errs"
    using assms(1) by (auto simp: shutdown_def Let_def split: prod.split_asm)
qed

lemma finished_workers:
  "set (finished_first stop http) \<union> set (finished_second stop http) = (set (so_first stop) \<union> set (so_second stop)) \<inter> set (workers_of http)"
  by (auto simp: finished_first_def finished_second_def)

lemma in_time_finished: "\<not> workers_late stop http \<Longrightarrow> set (finished_first stop http) = set (workers_of http)"
  by (auto simp: workers_late_def finished_first_def list_all_iff)

lemma listeners_released:
  "RListener ` fst ` set http \<subseteq> (if workers_late stop http then RListener ` fst ` set http else {}) \<union>
     \<Union> (worker_releases ` set (finished_first stop http))"
proof (cases "workers_late stop http")
  case False
  have "RListener ` fst ` set http \<subseteq> \<Union> (worker_releases ` set (workers_of http))" by (force simp: workers_of_def)
  with in_time_finished [OF False] show ?thesis by simp
qed simp

lemma released_outbounds:
  "ROutbounds \<in> \<Union> (worker_releases ` set (finished_first stop http)) \<union> \<Union> (worker_releases ` set (finished_second stop http)) \<longleftrightarrow>
     CloseOutboundsW \<in> set (so_first stop) \<union> set (so_second stop)"
proof -
  have "ROutbounds \<in> worker_releases w \<longleftrightarrow> w = CloseOutboundsW" for w by (cases w) auto
  then have "ROutbounds \<in> \<Union> (worker_releases ` W) \<longleftrightarrow> CloseOutboundsW \<in> W" for W by auto
  then show ?thesis using finished_workers [of stop http] by (auto simp: workers_of_def)
qed

lemma held_from_shutdown:
  "held_from R (shutdown_events stop http names) = R - RInbound ` set names -
     ((if workers_late stop http then RListener ` fst ` set http else {}) \<union>
      (\<Union> (worker_releases ` set (finished_first stop http)) \<union> \<Union> (worker_releases ` set (finished_second stop http)))) - {RStore}"
  unfolding shutdown_events_def held_from_simps held_from_close_inbounds held_from_workers effect.simps
  by (cases "workers_late stop http") (simp_all add: Diff_eq Int_assoc Int_left_commute)

lemma shutdown_releases:
  "held_from (insert ROutbounds (insert RStore (RListener ` fst ` set http \<union> RInbound ` set names))) (shutdown_events stop http names) =
     (if CloseOutboundsW \<in> set (so_first stop) \<union> set (so_second stop) then {} else {ROutbounds})"
proof -
  have sets: "insert ROutbounds (insert RStore (L \<union> I)) - I - (C \<union> W) - {RStore} = (if out then {} else {ROutbounds})"
    if "L \<subseteq> C \<union> W" "ROutbounds \<in> W \<longleftrightarrow> out" "ROutbounds \<notin> C" "ROutbounds \<notin> I" for L I C W :: "resource set" and out
    using that by auto
  show ?thesis
    unfolding held_from_shutdown
  proof (rule sets)
    show "RListener ` fst ` set http \<subseteq> (if workers_late stop http then RListener ` fst ` set http else {}) \<union>
      (\<Union> (worker_releases ` set (finished_first stop http)) \<union> \<Union> (worker_releases ` set (finished_second stop http)))"
      using listeners_released [of http stop] by blast
  qed (use released_outbounds in auto)
qed

lemma shutdown_closes_last: "closes_last (shutdown_events stop http names)" "shutdown_events stop http names \<noteq> []"
proof -
  have "EvCloseStore \<noteq> worker_event w" for w by (cases w) simp_all
  then show "closes_last (shutdown_events stop http names)"
    by (auto simp: shutdown_events_def closes_last_def butlast_append)
qed (simp add: shutdown_events_def)

text \<open>C11: Nothing outlives the process unnoticed.  However a run starts and ends, whatever errors occur and whichever
  deadlines the workers miss, every listener, every inbound and the store that it opened are released, and the store is closed by
  its very last step, and only once.  The connections to the nodes are released too, unless the worker that closes
  them has finished by neither deadline; then the run returns the error of the late workers.\<close>

theorem run_releases_everything:
  "let (res, trace) = run_gateway env stop cause t; outbounds_closed = CloseOutboundsW \<in> set (so_first stop) \<union> set (so_second stop)
   in closes_last trace \<and>
      (case res of
         Inl e \<Rightarrow> held trace = {}
       | Inr errs \<Rightarrow> held trace = (if outbounds_closed then {} else {ROutbounds}) \<and> (outbounds_closed \<or> WorkersLate \<in> set errs))"
proof (cases rule: boot_cases [of env t])
  case (failed e trace)
  then show ?thesis by (simp add: run_gateway_def)
next
  case (started cfg snap adm sub m)
  let ?gw = "start_serving env cfg snap (boot_kernel env cfg snap (gt_traffic t)) t (adm, sub, http_listeners cfg, m)"
  let ?built = "[EvOpenStore, EvLoadCertificate] @ bind_events (http_listeners cfg) @ map EvNewInbound (map ib_name (gc_inbounds cfg))"
  obtain errs gw' trace where s: "shutdown stop cause ?gw = (errs, gw', trace)" by (metis prod.exhaust)
  have gw: "fresh_manager (gw_inbounds ?gw)" "gw_http ?gw = http_listeners cfg" "service_names (gw_inbounds ?gw) = map ib_name (gc_inbounds cfg)"
    using started(4,5) by (simp_all add: start_serving_def)
  note shape = shutdown_shape [OF s gw(1), unfolded gw]
  have run: "run_gateway env stop cause t = (Inr errs, (?built @ serving_events cfg (http_listeners cfg)) @ trace)"
    by (simp only: run_gateway_def started(3) prod.case sum.case s)
  have "held ((?built @ serving_events cfg (http_listeners cfg)) @ trace) = held_from (insert ROutbounds (configured_resources cfg)) trace"
    unfolding held_def held_from_simps(3) held_from_serving boot_trace_holds [unfolded held_def held_from_simps(3)] ..
  also have "\<dots> = (if CloseOutboundsW \<in> set (so_first stop) \<union> set (so_second stop) then {} else {ROutbounds})"
    unfolding configured_resources_def shape(1) using shutdown_releases [of "http_listeners cfg" "map ib_name (gc_inbounds cfg)" stop] by simp
  moreover have "closes_last ((?built @ serving_events cfg (http_listeners cfg)) @ trace)"
    unfolding shape(1) by (intro closes_last_append shutdown_closes_last) auto
  moreover have "CloseOutboundsW \<in> set (so_first stop) \<or> workers_late stop (http_listeners cfg)"
    by (auto simp: workers_late_def workers_of_def)
  ultimately show ?thesis using shape(2) unfolding run by (auto simp: Let_def)
qed

text \<open>The management web is bound to the loopback interface or not at all.\<close>

lemma admin_web_on_loopback:
  assumes "boot env t = (Inr gw, trace)" and "(admin_name, addr) \<in> set (gw_http gw)"
  shows "is_loopback_listen addr"
proof (cases rule: boot_cases [of env t])
  case (started cfg snap adm sub m)
  with assms show ?thesis
    by (auto simp: start_serving_def http_listeners_def admin_name_def subscription_name_def split: if_split_asm option.split_asm)
qed (use assms in simp)

text \<open>The validator and the start-up disagree on what the loopback interface is.\<close>

lemma loopback_checks_differ:
  "(case listener_of ''LOCALHOST:9'' of Some l \<Rightarrow> is_loopback l | None \<Rightarrow> False) \<and> \<not> is_loopback_listen ''LOCALHOST:9''"
proof -
  have split: "split_host_port ''LOCALHOST:9'' = Inr (''LOCALHOST'', ''9'')" by code_simp
  have ip: "parse_ip ''LOCALHOST'' = None" by code_simp
  have trim: "trim is_bracket ''LOCALHOST'' = ''LOCALHOST''" by code_simp
  have lower: "to_lower (trim_suffix ''LOCALHOST'' ''.'') = ''localhost''" by code_simp
  have port: "parse_uint 16 ''9'' = Some 9" by (simp add: parse_uint_def decimal_value_def digit_value_def is_digit_def char_le_def)
  have "\<exists>l. listener_of ''LOCALHOST:9'' = Some l \<and> la_host l = ''localhost''"
    by (simp add: listener_of_def parse_listener_def split port trim ip lower)
  then have "case listener_of ''LOCALHOST:9'' of Some l \<Rightarrow> is_loopback l | None \<Rightarrow> False" by (auto simp: is_loopback_def)
  moreover have "\<not> is_loopback_listen ''LOCALHOST:9''" by (simp add: is_loopback_listen_def split ip)
  ultimately show ?thesis ..
qed

text \<open>An exit is clean exactly when nothing failed on the way.\<close>

lemma clean_exit:
  assumes "shutdown stop cause gw = ([], gw', trace)"
  shows "\<not> workers_late stop (gw_http gw) \<and> so_store_close stop = None \<and>
    manager_wait (so_wait_err stop) (so_wait_order stop) (gw_inbounds gw') = [] \<and>
    fst (stop_context (so_flush_io stop) (so_flush_now stop) (so_flush_wait stop)
      (so_meanwhile stop (stop_admission (kn_traffic (gw_kernel gw))))) = None"
proof -
  obtain close_errs m where m: "manager_close (gw_inbounds gw) = (close_errs, m)" by fastforce
  with assms have e: "worker_errors stop (gw_http gw) close_errs m = []" "gw_inbounds gw' = m" "so_store_close stop = None"
    "fst (stop_context (so_flush_io stop) (so_flush_now stop) (so_flush_wait stop)
      (so_meanwhile stop (stop_admission (kn_traffic (gw_kernel gw))))) = None"
    by (auto simp: shutdown_def kernel_stop_admission_def Let_def split: prod.split_asm option.split_asm)
  from e(1) have late: "\<not> workers_late stop (gw_http gw)"
    by (auto simp: worker_errors_def collector_add_def Let_def split: if_split_asm)
  then have "WaitInboundsW \<in> set (finished_first stop (gw_http gw))" by (simp add: in_time_finished workers_of_def)
  with e(1) late have "manager_wait (so_wait_err stop) (so_wait_order stop) m = []"
    by (auto simp: worker_errors_def collector_add_def Let_def split: if_split_asm)
  with e late show ?thesis by simp
qed

end
