(* ===== verification/Gateway_Lifecycle.thy ===== *)
theory Gateway_Lifecycle
  imports Gateway_Process
begin

text \<open>
  What the traffic logger, the store and the kernel do together over the life of the process: the lemmas
  on which the properties that span components rest.
\<close>

section \<open>Flags of the traffic logger\<close>

definition same_flags :: "traffic_logger \<Rightarrow> traffic_logger \<Rightarrow> bool" where
  "same_flags lg lg' \<longleftrightarrow> tl_flush_started lg' = tl_flush_started lg \<and> (tl_store lg' = None \<longleftrightarrow> tl_store lg = None)"

lemma flush_started_frame [simp]:
  "tl_flush_started (update_stats f rid lg) = tl_flush_started lg"
  "tl_flush_started (get_or_create rid lg) = tl_flush_started lg"
  "tl_flush_started (log_online_state rid online lg) = tl_flush_started lg"
  "tl_flush_started (reset_stats rid lg) = tl_flush_started lg"
  "tl_flush_started (reset_all_stats lg) = tl_flush_started lg"
  "tl_flush_started (publish_month key loaded lg) = tl_flush_started lg"
  "tl_flush_started (stop_admission lg) = tl_flush_started lg"
  by (simp_all add: update_stats_def get_or_create_def log_online_state_def reset_stats_def reset_all_stats_def publish_month_def
      stop_admission_def wake_limiters_def split: option.split)

lemma flush_started_foldl: "tl_flush_started (foldl (\<lambda>lg (k, r). update_stats (f r) (h r) lg) lg b) = tl_flush_started lg"
  by (induction b arbitrary: lg) (simp_all add: case_prod_beta)

lemma flush_started_detach [simp]: "tl_flush_started (snd (detach lg)) = tl_flush_started lg"
  by (simp add: detach_def Let_def flush_started_foldl)

lemma flush_started_restore [simp]: "tl_flush_started (restore b lg) = tl_flush_started lg"
  unfolding restore_def by (induction b arbitrary: lg) (simp_all add: case_prod_beta)

lemma same_flags_settle: "tl_store lg = Some db \<Longrightarrow> same_flags lg (snd (settle io now db batch lg))"
  by (auto simp: same_flags_def settle_def split: prod.split sum.split)

lemma same_flags_step: "tl_step mb e (lg, ph) = Some (lg', ph') \<Longrightarrow> same_flags lg lg'"
proof (cases e)
  case (Account cancelled now rid tx rx)
  moreover assume "tl_step mb e (lg, ph) = Some (lg', ph')"
  ultimately show ?thesis by (auto simp: same_flags_def account_def Let_def split: prod.split_asm if_split_asm)
next
  case Detach
  moreover assume "tl_step mb e (lg, ph) = Some (lg', ph')"
  ultimately have "lg' = snd (detach lg)" by (auto simp: Let_def split: prod.split_asm if_split_asm)
  then show ?thesis by (simp add: same_flags_def)
next
  case (Settle io now)
  moreover assume "tl_step mb e (lg, ph) = Some (lg', ph')"
  ultimately obtain batch db where "tl_store lg = Some db" "lg' = snd (settle io now db batch lg)"
    by (auto split: flush_phase.split_asm option.split_asm)
  then show ?thesis using same_flags_settle by blast
qed (auto simp: same_flags_def publish_month_def split: if_split_asm sum.split_asm flush_phase.split_asm)

lemma same_flags_run: "tl_run mb es (lg, ph) = Some (lg', ph') \<Longrightarrow> same_flags lg lg'"
proof (induction es arbitrary: lg ph)
  case (Cons e es)
  then obtain lg1 ph1 where "tl_step mb e (lg, ph) = Some (lg1, ph1)" "tl_run mb es (lg1, ph1) = Some (lg', ph')"
    by (auto split: option.split_asm)
  with Cons.IH same_flags_step show ?case by (fastforce simp: same_flags_def)
qed (simp add: same_flags_def)

section \<open>The final flush\<close>

text \<open>A flush is the section that detaches and the section that writes.\<close>

lemma stopped_flush_run:
  assumes "tl_store lg = Some db" "flush_context io now lg = (res, lg')"
  shows "\<exists>es. list_all (\<lambda>e. clock_ok e \<and> \<not> is_reset e) es \<and> tl_run mb es (lg, Idle) = Some (lg', Idle)"
proof -
  obtain batch lg1 where d: "detach lg = (batch, lg1)" by fastforce
  then have st: "tl_store lg1 = Some db" using detach_frame(2) [of lg] assms(1) by simp
  show ?thesis
  proof (cases "batch = []")
    case True
    with assms d show ?thesis by (intro exI [of _ "[Detach]"]) (simp add: flush_context_def clock_ok_def is_reset_def)
  next
    case False
    with assms d have "settle io now db batch lg1 = (res, lg')" by (simp add: flush_context_def)
    with False d st assms(1) show ?thesis
      by (intro exI [of _ "[Detach, Settle io now]"]) (simp add: clock_ok_def is_reset_def)
  qed
qed

lemma flush_context_None:
  assumes "tl_store lg = Some db" "flush_context io now lg = (None, lg')"
  shows "tl_pending lg' = []"
proof -
  obtain batch lg1 where d: "detach lg = (batch, lg1)" by fastforce
  then have "tl_pending lg1 = []" using detach_frame(5) [of lg] by simp
  with assms d show ?thesis
    by (auto simp: flush_context_def settle_def split: if_split_asm prod.split_asm sum.split_asm)
qed

text \<open>
  What other goroutines may do between the end of admission and the final flush: any locked section of
  the logger except a reset of its counters; the flush goroutine ends when it is told to.
\<close>

definition orderly_stop :: "month_fn \<Rightarrow> stop_env \<Rightarrow> traffic_logger \<Rightarrow> flush_phase \<Rightarrow> bool" where
  "orderly_stop mb stop lg ph \<longleftrightarrow>
     (let lg1 = stop_admission lg; lg2 = so_meanwhile stop lg1; told = (stop_admission lg2)\<lparr>tl_stop_closed := True\<rparr>
      in \<exists>es ph2 es' lg3. list_all (\<lambda>e. clock_ok e \<and> \<not> is_reset e) (es @ es') \<and> tl_run mb es (lg1, ph) = Some (lg2, ph2) \<and>
           tl_run mb es' (told, ph2) = Some (lg3, Idle) \<and> so_flush_wait stop told = lg3\<lparr>tl_flush_done := True\<rparr>)"

definition keeps_ledger :: "month_fn \<Rightarrow> string \<Rightarrow> string \<Rightarrow> tl_state \<Rightarrow> tl_state \<Rightarrow> bool" where
  "keeps_ledger mb u n s s' \<longleftrightarrow> (accounting_ok mb s \<longrightarrow> accounting_ok mb s' \<and> same_ledger u n s s')"

lemma keeps_ledger_trans [trans]: "keeps_ledger mb u n s s' \<Longrightarrow> keeps_ledger mb u n s' s'' \<Longrightarrow> keeps_ledger mb u n s s''"
  by (auto simp: keeps_ledger_def same_ledger_def)

lemma keeps_ledger_frame:
  assumes "tl_store lg' = tl_store lg" "tl_month lg' = tl_month lg" "tl_monthly lg' = tl_monthly lg" "tl_pending lg' = tl_pending lg"
    "tl_stats lg' = tl_stats lg"
  shows "keeps_ledger mb u n (lg, ph) (lg', ph)"
  unfolding keeps_ledger_def
  using accounting_frame [of mb lg ph lg'] same_ledger_frame [of lg' lg u n ph ph] assms by (simp add: live_stats_def)

lemma keeps_ledger_run:
  assumes "pair_ok u n" "list_all (\<lambda>e. clock_ok e \<and> \<not> is_reset e) es" "tl_run (fixed_zone offset) es s = Some s'"
  shows "keeps_ledger (fixed_zone offset) u n s s'"
proof -
  have "list_all clock_ok es" "list_all (\<lambda>e. \<not> is_reset e) es" using assms(2) by (simp_all add: list_all_iff)
  then show ?thesis
    unfolding keeps_ledger_def using zone.accounting_run zone.same_ledger_run assms(1,3) by blast
qed

lemma stop_context_keeps:
  assumes "pair_ok u n" and "tl_flush_started lg" and "tl_store lg \<noteq> None" and "orderly_stop (fixed_zone offset) stop lg ph"
    and "stop_context (so_flush_io stop) (so_flush_now stop) (so_flush_wait stop) (so_meanwhile stop (stop_admission lg)) = (None, lg')"
  shows "keeps_ledger (fixed_zone offset) u n (lg, ph) (lg', Idle) \<and> tl_pending lg' = []"
proof -
  let ?mb = "fixed_zone offset" and ?lg1 = "stop_admission lg"
  let ?lg2 = "so_meanwhile stop ?lg1"
  let ?told = "(stop_admission ?lg2)\<lparr>tl_stop_closed := True\<rparr>"
  from assms(4) obtain es ph2 es' lg3 where ok: "list_all (\<lambda>e. clock_ok e \<and> \<not> is_reset e) es" "list_all (\<lambda>e. clock_ok e \<and> \<not> is_reset e) es'"
    and r1: "tl_run ?mb es (?lg1, ph) = Some (?lg2, ph2)" and r2: "tl_run ?mb es' (?told, ph2) = Some (lg3, Idle)"
    and w: "so_flush_wait stop ?told = lg3\<lparr>tl_flush_done := True\<rparr>"
    by (auto simp: orderly_stop_def Let_def)
  have "tl_flush_started ?told" "tl_store ?told \<noteq> None"
    using same_flags_run [OF r1] assms(2,3) by (simp_all add: same_flags_def)
  then have fin: "flush_context (so_flush_io stop) (so_flush_now stop) (lg3\<lparr>tl_flush_done := True\<rparr>) = (None, lg')"
    using assms(5) w by (auto simp: stop_context_def Let_def split: prod.split_asm option.split_asm)
  from same_flags_run [OF r2] \<open>tl_store ?told \<noteq> None\<close> obtain db where st: "tl_store (lg3\<lparr>tl_flush_done := True\<rparr>) = Some db"
    by (auto simp: same_flags_def)
  obtain es3 where r3: "list_all (\<lambda>e. clock_ok e \<and> \<not> is_reset e) es3" "tl_run ?mb es3 (lg3\<lparr>tl_flush_done := True\<rparr>, Idle) = Some (lg', Idle)"
    using stopped_flush_run [OF st fin] by blast
  have "keeps_ledger ?mb u n (lg, ph) (?lg1, ph)" by (rule keeps_ledger_frame) simp_all
  also have "keeps_ledger ?mb u n (?lg1, ph) (?lg2, ph2)" by (rule keeps_ledger_run [OF assms(1) ok(1) r1])
  also have "keeps_ledger ?mb u n (?lg2, ph2) (?told, ph2)" by (rule keeps_ledger_frame) simp_all
  also have "keeps_ledger ?mb u n (?told, ph2) (lg3, Idle)" by (rule keeps_ledger_run [OF assms(1) ok(2) r2])
  also have "keeps_ledger ?mb u n (lg3, Idle) (lg3\<lparr>tl_flush_done := True\<rparr>, Idle)" by (rule keeps_ledger_frame) simp_all
  also have "keeps_ledger ?mb u n (lg3\<lparr>tl_flush_done := True\<rparr>, Idle) (lg', Idle)" by (rule keeps_ledger_run [OF assms(1) r3])
  finally show ?thesis using flush_context_None [OF st fin] by blast
qed

section \<open>The logger of a started gateway\<close>

lemma boot_started:
  assumes "boot env t = (Inr gw, trace)"
  obtains cfg snap where "be_config env = Inr cfg" "load_runtime_snapshot (be_io env) (be_dec env) (gt_db t) = Inr snap"
    "kn_traffic (gw_kernel gw) = start_periodic_flush (kn_traffic (boot_kernel env cfg snap (gt_traffic t)))"
    "kn_auth (gw_kernel gw) = new_authenticator (be_sha224 env) (rs_users snap)" "kn_startup (gw_kernel gw) = rs_users snap"
    "gw_db gw = snd (set_active_revision (be_active_io env) (rs_revision snap) (be_between env (gt_db t)))"
proof (cases rule: boot_cases [of env t])
  case (started cfg snap adm sub m)
  then show thesis using that assms by (simp add: start_serving_def boot_kernel_def new_kernel_def Let_def)
qed (use assms in simp)

lemma started_logger_exact:
  assumes "kn_traffic (gw_kernel gw) = start_periodic_flush (kn_traffic (boot_kernel env cfg snap db))"
    and "kn_auth (gw_kernel gw) = new_authenticator (be_sha224 env) (rs_users snap)"
    and "be_months env = (\<lambda>_. fixed_zone offset)" and "be_summary_io env = (\<lambda>_ _. True)"
    and "traffic_db_ok db" and "logged_tx db u n < 2 ^ 63" and "logged_rx db u n < 2 ^ 63"
    and "names_plain (kn_auth (gw_kernel gw))" and "pair_ok u n" and "(u, n) \<in> set (policy_pairs (kn_auth (gw_kernel gw)))"
  shows "accounting_ok (fixed_zone offset) (kn_traffic (gw_kernel gw), Idle)" "tl_flush_started (kn_traffic (gw_kernel gw))"
    "tl_store (kn_traffic (gw_kernel gw)) \<noteq> None"
    "drift_tx u n (kn_traffic (gw_kernel gw), Idle) = 0" "drift_rx u n (kn_traffic (gw_kernel gw), Idle) = 0"
proof -
  let ?new = "new_traffic_logger (fixed_zone offset) (be_usage_io env) (\<lambda>_ _. True) (be_now env) (kn_auth (gw_kernel gw)) (Some db)"
  have lg: "kn_traffic (gw_kernel gw) = start_periodic_flush ?new"
    using assms(1-4) by (simp add: boot_kernel_def new_kernel_def Let_def)
  have fr: "tl_store (start_periodic_flush l) = tl_store l" "tl_month (start_periodic_flush l) = tl_month l"
    "tl_monthly (start_periodic_flush l) = tl_monthly l" "tl_pending (start_periodic_flush l) = tl_pending l"
    "live_stats (start_periodic_flush l) u n = live_stats l u n" for l
    by (simp_all add: start_periodic_flush_def live_stats_def)
  show "accounting_ok (fixed_zone offset) (kn_traffic (gw_kernel gw), Idle)"
    unfolding lg by (rule accounting_frame [OF zone.accounting_new]) (simp_all add: fr)
  show "tl_flush_started (kn_traffic (gw_kernel gw))" "tl_store (kn_traffic (gw_kernel gw)) \<noteq> None"
    unfolding lg by (simp_all add: start_periodic_flush_def new_logger_frame)
  show "drift_tx u n (kn_traffic (gw_kernel gw), Idle) = 0" "drift_rx u n (kn_traffic (gw_kernel gw), Idle) = 0"
    unfolding lg using initial_stats_exact [OF assms(5-7)] assms(10)
    by (simp_all add: drift_tx_def drift_rx_def fr new_logger_live [OF assms(8,9)] new_logger_frame stored_tx_def stored_rx_def)
qed

lemma shutdown_traffic:
  assumes "shutdown stop cause gw = (errs, gw', trace)"
  obtains stop_err where
    "stop_context (so_flush_io stop) (so_flush_now stop) (so_flush_wait stop) (so_meanwhile stop (stop_admission (kn_traffic (gw_kernel gw)))) =
       (stop_err, kn_traffic (gw_kernel gw'))"
    "\<forall>e. stop_err = Some e \<longrightarrow> FinalFlushFailed e \<in> set errs"
  using assms by (auto simp: shutdown_def kernel_stop_admission_def Let_def split: prod.split_asm option.split_asm)

end
