(* ===== verification/Legacy_Import.thy ===== *)
theory Legacy_Import
  imports Management Subtoken
begin

text \<open>
  The one-shot tools: the import of a legacy configuration into the store (\<open>internal/migration/legacy.go\<close>,
  \<open>cmd/migrate\<close>) and the two commands around the inbound schema (\<open>cmd/validate-inbounds\<close>,
  \<open>cmd/migrate-inbounds\<close>).  The result of parsing the flags, the files and the log are arguments; a command is given by
  its exit status.
\<close>

section \<open>The import\<close>

datatype import_error =
    LegacyNotLoaded load_error | SecretRequired | ImportStore string | ReplaceFailed management_error
  | MigrateFailed management_error | MigrateHint management_error

definition legacy_secret :: "gateway_config \<Rightarrow> string" where
  "legacy_secret cfg =
     (case gc_sub cfg of
        Some sub \<Rightarrow> if sb_secret sub \<noteq> [] then sb_secret sub else ac_secret (gc_api cfg)
      | None \<Rightarrow> ac_secret (gc_api cfg))"

record import_env =
  im_load :: "(load_error, gateway_config) result"
  im_open :: "string \<Rightarrow> string option"
  im_io :: "stmt \<Rightarrow> bool"
  im_hash :: "string \<Rightarrow> bytes"
  im_enc :: "node_config \<Rightarrow> string option"
  im_now :: go_time
  im_hmac :: "bytes \<Rightarrow> bytes \<Rightarrow> bytes"

text \<open>The two errors whose text the code looks for get a hint.\<close>

definition explain_migration :: "management_error \<Rightarrow> import_error" where
  "explain_migration e = (case e of UsersExist \<Rightarrow> MigrateHint e | AlreadyMigrated \<Rightarrow> MigrateHint e | _ \<Rightarrow> MigrateFailed e)"

definition run_legacy :: "import_env \<Rightarrow> bool \<Rightarrow> management_db \<Rightarrow> (import_error, nat \<times> nat) result \<times> management_db" where
  "run_legacy env replace_users db =
     (case im_load env of
        Inl e \<Rightarrow> (Inl (LegacyNotLoaded e), db)
      | Inr cfg \<Rightarrow>
          (let secret = legacy_secret cfg in
           if secret = [] then (Inl SecretRequired, db)
           else (case im_open env (gc_db_path cfg) of
             Some e \<Rightarrow> (Inl (ImportStore e), db)
           | None \<Rightarrow>
               (let token = (\<lambda>username. legacy_token (im_hmac env) username secret) in
                if replace_users
                then (case replace_legacy_users (im_io env) (im_hash env) (im_now env) cfg (Some token) db of
                        (Inl e, db') \<Rightarrow> (Inl (ReplaceFailed e), db')
                      | (Inr _, db') \<Rightarrow> (Inr (length (gc_users cfg), 0), db'))
                else (case migrate_legacy (im_io env) (im_hash env) (im_enc env) (im_now env) cfg (Some token) db of
                        (Inl e, db') \<Rightarrow> (Inl (explain_migration e), db')
                      | (Inr _, db') \<Rightarrow> (Inr (length (gc_users cfg), length (gc_nodes cfg)), db'))))))"

text \<open>\<open>cmd/migrate\<close>: the logger may fail to build; flags that do not parse end the process with status 2.\<close>

definition migrate_main :: "bool option \<Rightarrow> bool \<Rightarrow> import_env \<Rightarrow> management_db \<Rightarrow> nat \<times> management_db" where
  "migrate_main flags logger_ok env db =
     (case flags of
        None \<Rightarrow> (2, db)
      | Some replace_users \<Rightarrow>
          if \<not> logger_ok then (1, db)
          else (case run_legacy env replace_users db of (Inl _, db') \<Rightarrow> (1, db') | (Inr _, db') \<Rightarrow> (0, db')))"

section \<open>The schema commands\<close>

definition validate_main ::
  "(string \<times> nat) option \<Rightarrow> (string \<Rightarrow> (io_error, bytes) result) \<Rightarrow> (bytes \<Rightarrow> (load_error, inbound_config) result) \<Rightarrow> nat"
where
  "validate_main flags read_file parse =
     (case flags of
        None \<Rightarrow> 2
      | Some (input, extra) \<Rightarrow>
          if extra \<noteq> 0 \<or> input = [] then 2
          else (case read_file input of
                  Inl _ \<Rightarrow> 1
                | Inr data \<Rightarrow> (case parse data of Inl _ \<Rightarrow> 1 | Inr _ \<Rightarrow> 0)))"

definition migrate_inbounds_main :: "(string \<times> string \<times> nat) option \<Rightarrow> migration_env \<Rightarrow> file_faults \<Rightarrow> files \<Rightarrow> nat \<times> diagnostic list \<times> files" where
  "migrate_inbounds_main flags me ff fs =
     (case flags of
        None \<Rightarrow> (2, [], fs)
      | Some (input, output, extra) \<Rightarrow>
          if extra \<noteq> 0 \<or> input = [] \<or> output = [] then (2, [], fs)
          else (case migrate_legacy_file me ff input output fs of
                  (Inl _, fs') \<Rightarrow> (1, [], fs')
                | (Inr diagnostics, fs') \<Rightarrow> (0, diagnostics, fs')))"

section \<open>Properties\<close>

text \<open>Whatever goes wrong, a failed import leaves the store as it was.\<close>

lemma run_legacy_atomic: "run_legacy env replace_users db = (Inl e, db') \<Longrightarrow> db' = db"
  using run_op_Inl [of "im_io env" "im_hash env" "im_enc env" "im_now env" "ReplaceLegacyUsers cfg token" db for cfg token]
    run_op_Inl [of "im_io env" "im_hash env" "im_enc env" "im_now env" "MigrateLegacy cfg token" db for cfg token]
  by (auto simp: run_legacy_def Let_def split: sum.split_asm if_split_asm option.split_asm prod.split_asm)

lemma insert_legacy_loop_rows:
  "insert_legacy_loop io hash token now users names db = Inr db' \<Longrightarrow>
     (\<forall>n row. map_of (md_users db) n = Some row \<longrightarrow> map_of (md_users db') n = Some row) \<and>
     (\<forall>n \<in> set names. \<forall>c. map_of users n = Some c \<longrightarrow>
        (\<exists>row. map_of (md_users db') n = Some row \<and> ur_token row = hash (token n) \<and> ur_deleted row = None \<and> ur_password row = uc_password c))"
proof (induction io hash token now users names db rule: insert_legacy_loop.induct)
  case (2 io hash token now users name names db)
  show ?case
  proof (cases "map_of users name")
    case None
    with 2 show ?thesis by (auto split: if_split_asm)
  next
    case (Some user)
    with 2(3) obtain monthly speed row db1 db2 where row: "row = \<lparr>ur_password = uc_password user, ur_deleted = None, ur_expires = None,
        ur_monthly = monthly, ur_speed = speed, ur_token = hash (token name), ur_created = now, ur_updated = now\<rparr>"
      and ins: "insert_user_row name row db = Inr db1" "insert_grants io name (uc_routes user) db1 = Inr db2"
      and rest: "insert_legacy_loop io hash token now users names db2 = Inr db'" and valid: "is_valid_name name" "token name \<noteq> []"
      by (auto simp: rbind_eq_Inr split: if_split_asm)
    have db2: "md_users db2 = gput name row (md_users db)" and fresh: "map_of (md_users db) name = None"
      using ins insert_grants_ok [OF ins(2)] by (auto simp: insert_user_row_ok map_of_eq_None_iff)
    have IH: "\<forall>n r. map_of (md_users db2) n = Some r \<longrightarrow> map_of (md_users db') n = Some r"
      "\<forall>n \<in> set names. \<forall>c. map_of users n = Some c \<longrightarrow>
        (\<exists>r. map_of (md_users db') n = Some r \<and> ur_token r = hash (token n) \<and> ur_deleted r = None \<and> ur_password r = uc_password c)"
      using 2(2) [OF _ _ Some rest] valid by auto
    have "map_of (md_users db') name = Some row" using IH(1) db2 by simp
    moreover have "map_of (md_users db') n = Some r" if "map_of (md_users db) n = Some r" for n r
      using IH(1) db2 fresh that by (cases "n = name") auto
    ultimately show ?thesis using IH(2) Some row by auto
  qed
qed simp

lemma legacy_users_rows:
  assumes "insert_legacy_users io hash token now users db = Inr db'" "map_of users u = Some c"
  shows "\<exists>row. map_of (md_users db') u = Some row \<and> ur_token row = hash (token u) \<and> ur_deleted row = None \<and> ur_password row = uc_password c"
proof -
  have "u \<in> set (sort (gkeys users))" using map_of_SomeD [OF assms(2)] by force
  with insert_legacy_loop_rows [OF assms(1) [unfolded insert_legacy_users_def]] assms(2) show ?thesis by blast
qed

lemma run_legacy_imported:
  assumes "run_legacy env replace_users db = (Inr counts, db')" and "im_load env = Inr cfg" and "map_of (gc_users cfg) u = Some c"
  shows "\<exists>row. map_of (md_users db') u = Some row \<and> ur_token row = im_hash env (legacy_token (im_hmac env) u (legacy_secret cfg)) \<and>
    ur_deleted row = None \<and> ur_password row = uc_password c"
  using assms
  by (auto simp: run_legacy_def Let_def replace_legacy_users_def migrate_legacy_def transact_Inr replace_legacy_tx_def migrate_legacy_tx_def
      rbind_eq_Inr bump_revision_def dest!: legacy_users_rows [OF _ assms(3)] split: if_split_asm sum.split_asm option.split_asm prod.split_asm)

text \<open>C34: Published subscription links survive the import.  After a successful import or replacement, the token that the old
  gateway derived for a legacy user from the shared secret resolves to that user, with the user's password.\<close>

theorem legacy_links_survive:
  assumes "run_legacy env replace_users db = (Inr counts, db')" and "im_load env = Inr cfg" and "map_of (gc_users cfg) u = Some c"
    and "management_ok db" and "io' QueryUsers" and "io' QueryGrants"
  shows "\<exists>user. find_user_by_token io' (im_hash env) (legacy_token (im_hmac env) u (legacy_secret cfg)) db' = Inr (Some user) \<and>
    mu_username user = u \<and> mu_password user = uc_password c"
proof -
  have "management_ok db'"
    using assms(1) run_op_ok [OF assms(4), of "im_io env" "im_hash env" "im_enc env" "im_now env"]
      run_op_ok [OF assms(4), of "im_io env" "im_hash env" "im_enc env" "im_now env" "ReplaceLegacyUsers cfg' tok" for cfg' tok]
      run_op_ok [OF assms(4), of "im_io env" "im_hash env" "im_enc env" "im_now env" "MigrateLegacy cfg' tok" for cfg' tok]
    by (auto simp: run_legacy_def Let_def split: sum.split_asm if_split_asm option.split_asm prod.split_asm) (metis snd_conv)+
  moreover obtain row where row: "map_of (md_users db') u = Some row" "ur_token row = im_hash env (legacy_token (im_hmac env) u (legacy_secret cfg))"
    "ur_deleted row = None" "ur_password row = uc_password c" using run_legacy_imported [OF assms(1-3)] by blast
  ultimately show ?thesis
    using token_lookup [of db' u row] assms(5,6)
    by (simp add: find_user_by_token_def managed_user_of_def Let_def null_time_def unix_time_def)
qed

definition demo_import :: import_env where
  "demo_import = \<lparr>im_load = Inr (demo_legacy\<lparr>gc_api := \<lparr>ac_listen = [], ac_secret = ''s''\<rparr>\<rparr>), im_open = \<lambda>_. None, im_io = \<lambda>_. True, im_hash = token_bytes,
     im_enc = \<lambda>_. None, im_now = 0, im_hmac = \<lambda>_ m. m @ replicate 12 0\<rparr>"

theorem legacy_links_survive_witness:
  "\<exists>db' user. run_legacy demo_import False empty_management = (Inr (1, 0), db') \<and>
     find_user_by_token (\<lambda>_. True) token_bytes (legacy_token (\<lambda>_ m. m @ replicate 12 0) ''bob'' ''s'') db' = Inr (Some user) \<and> mu_username user = ''bob''"
proof -
  have "legacy_token (\<lambda>_ m. m @ replicate 12 0) ''bob'' ''s'' \<noteq> []"
    by (simp add: legacy_token_def encode_base62_def token_length_def numeral_eq_Suc split: prod.split)
  then obtain db' where r: "run_legacy demo_import False empty_management = (Inr (1, 0), db')"
    by (simp add: run_legacy_def demo_import_def legacy_secret_def demo_legacy_def Let_def migrate_legacy_def validate_legacy_def
        validate_legacy_user_def transact_def migrate_legacy_tx_def rbind_def run_stmt_def guard_ok_def empty_management_def
        insert_legacy_users_def is_valid_name_def contains_any_def sql_limits_def sql_uint_def insert_user_row_def insert_grant_def)
  have cfg: "im_load demo_import = Inr (demo_legacy\<lparr>gc_api := \<lparr>ac_listen = [], ac_secret = ''s''\<rparr>\<rparr>)"
    "map_of (gc_users (demo_legacy\<lparr>gc_api := \<lparr>ac_listen = [], ac_secret = ''s''\<rparr>\<rparr>)) ''bob'' =
      Some \<lparr>uc_password = ''pw'', uc_disabled = False, uc_expires_at = None, uc_routes = [''direct''], uc_max_bytes = 0, uc_speed_limit = 0\<rparr>"
    by (simp_all add: demo_import_def demo_legacy_def)
  from legacy_links_survive [OF r cfg empty_management_ok TrueI TrueI] r show ?thesis
    by (auto simp: demo_import_def legacy_secret_def demo_legacy_def)
qed

end
