(* ===== verification/Outbound_Adapters.thy ===== *)
theory Outbound_Adapters
  imports Kernel
begin

text \<open>
  The outbounds behind the factory: the Hysteria2 client of a node (\<open>internal/outbound/hysteria2.go\<close>), the direct dialer
  (\<open>internal/outbound/direct.go\<close>) and the router service that selects one of them (\<open>internal/router\<close>).  The
  Hysteria2 library and the sockets are arguments that say what each call returns.
\<close>

section \<open>The Hysteria2 client of a node\<close>

record client_config =
  cc_server :: string
  cc_auth :: string
  cc_server_name :: string
  cc_insecure :: bool

record hy2_outbound =
  ho_cfg :: hysteria2_outbound_config
  ho_client :: nat
  ho_closed :: bool

definition new_hy2_outbound ::
  "(client_config \<Rightarrow> (string, nat) result) \<Rightarrow> hysteria2_outbound_config \<Rightarrow> string \<Rightarrow> string \<Rightarrow> (string, hy2_outbound) result"
where
  "new_hy2_outbound new_client cfg server_addr sni =
     (case new_client \<lparr>cc_server = server_addr, cc_auth = h2_auth cfg, cc_server_name = sni, cc_insecure = h2_insecure cfg\<rparr> of
        Inl e \<Rightarrow> Inl (''hy2 outbound: '' @ e)
      | Inr client \<Rightarrow> Inr \<lparr>ho_cfg = cfg, ho_client = client, ho_closed = False\<rparr>)"

definition hy2_tcp :: "(nat \<Rightarrow> string \<Rightarrow> (string, 'c) result) \<Rightarrow> hy2_outbound \<Rightarrow> string \<Rightarrow> (string, 'c) result" where
  "hy2_tcp client_tcp h req_addr = client_tcp (ho_client h) req_addr"

definition hy2_udp :: "string option \<Rightarrow> (nat \<Rightarrow> (string, 'c) result) \<Rightarrow> hy2_outbound \<Rightarrow> string \<Rightarrow> (string, 'c) result" where
  "hy2_udp ctx_err client_udp h req_addr =
     (case ctx_err of
        Some e \<Rightarrow> Inl e
      | None \<Rightarrow> (case client_udp (ho_client h) of Inl e \<Rightarrow> Inl (''hy2 outbound UDP: '' @ e) | Inr c \<Rightarrow> Inr c))"

text \<open>\<open>Close\<close>: the errors of closing the client and of waiting for it, joined; with them, the clients closed by this call.\<close>

definition hy2_outbound_close :: "string option \<Rightarrow> string option \<Rightarrow> hy2_outbound \<Rightarrow> (string list \<times> nat list) \<times> hy2_outbound" where
  "hy2_outbound_close close_err wait_err h =
     (if ho_closed h then (([], []), h)
      else (((case close_err of None \<Rightarrow> [] | Some e \<Rightarrow> [e]) @ (case wait_err of None \<Rightarrow> [] | Some e \<Rightarrow> [e]), [ho_client h]), h\<lparr>ho_closed := True\<rparr>))"

section \<open>UDP associations\<close>

text \<open>
  \<open>hyUDPConnAdapter\<close>: a datagram is copied into the caller's buffer of \<open>room\<close> bytes.  The results are the length, the
  source and the bytes at the start of the buffer.
\<close>

definition hy2_read_from :: "(string, bytes \<times> string) result \<Rightarrow> nat \<Rightarrow> (string, nat \<times> string \<times> bytes) result" where
  "hy2_read_from received room =
     (case received of Inl e \<Rightarrow> Inl e | Inr (data, addr) \<Rightarrow> (let n = min room (length data) in Inr (n, addr, take n data)))"

definition hy2_write_to :: "string option \<Rightarrow> bytes \<Rightarrow> string \<Rightarrow> (string, nat) result" where
  "hy2_write_to send_err data addr = (case send_err of Some e \<Rightarrow> Inl e | None \<Rightarrow> Inr (length data))"

text \<open>\<open>DirectOutbound\<close> and \<open>directUDPConn\<close>.\<close>

definition direct_dial_timeout :: duration where "direct_dial_timeout = 10 * second"

definition direct_tcp :: "(duration \<Rightarrow> string \<Rightarrow> (string, 'c) result) \<Rightarrow> string \<Rightarrow> (string, 'c) result" where
  "direct_tcp dial_within req_addr = (case dial_within direct_dial_timeout req_addr of Inl e \<Rightarrow> Inl e | Inr conn \<Rightarrow> Inr conn)"

definition direct_udp :: "(string \<Rightarrow> (string, 'c) result) \<Rightarrow> string \<Rightarrow> (string, 'c) result" where
  "direct_udp listen_packet req_addr = (case listen_packet [] of Inl e \<Rightarrow> Inl e | Inr conn \<Rightarrow> Inr conn)"

definition direct_read_from :: "(string, nat \<times> 'a) result \<Rightarrow> ('a \<Rightarrow> string) \<Rightarrow> (string, nat \<times> string) result" where
  "direct_read_from received addr_string = (case received of Inl e \<Rightarrow> Inl e | Inr (n, addr) \<Rightarrow> Inr (n, addr_string addr))"

text \<open>With the result, what was written: nothing when the address does not resolve.\<close>

definition direct_write_to ::
  "(string \<Rightarrow> (string, 'a) result) \<Rightarrow> (bytes \<Rightarrow> 'a \<Rightarrow> (string, nat) result) \<Rightarrow> bytes \<Rightarrow> string \<Rightarrow> (string, nat) result \<times> (bytes \<times> 'a) option"
where
  "direct_write_to resolve_udp write_packet data addr =
     (case resolve_udp addr of Inl e \<Rightarrow> (Inl e, None) | Inr udp_addr \<Rightarrow> (write_packet data udp_addr, Some (data, udp_addr)))"

section \<open>The router service\<close>

definition router_tcp ::
  "(outbound_route \<Rightarrow> string \<Rightarrow> (router_error + 'e, 'c) result) \<Rightarrow> outbound_factory \<Rightarrow> string \<Rightarrow> string \<Rightarrow> (router_error + 'e, 'c) result"
where
  "router_tcp tcp_of f rid req_addr = (case outbound_for_id f rid of Inl e \<Rightarrow> Inl (Inl e) | Inr ob \<Rightarrow> tcp_of ob req_addr)"

definition router_udp ::
  "(outbound_route \<Rightarrow> string \<Rightarrow> (router_error + 'e, 'c) result) \<Rightarrow> outbound_factory \<Rightarrow> string \<Rightarrow> string \<Rightarrow> (router_error + 'e, 'c) result"
where
  "router_udp udp_of f rid req_addr = (case outbound_for_id f rid of Inl e \<Rightarrow> Inl (Inl e) | Inr ob \<Rightarrow> udp_of ob req_addr)"

section \<open>Properties\<close>

fun close_all :: "(string option \<times> string option) list \<Rightarrow> hy2_outbound \<Rightarrow> nat list \<times> hy2_outbound" where
  "close_all [] h = ([], h)"
| "close_all ((ce, we) # calls) h =
     (case hy2_outbound_close ce we h of ((_, closes), h1) \<Rightarrow> (case close_all calls h1 of (closes', h2) \<Rightarrow> (closes @ closes', h2)))"

text \<open>However often an outbound is closed, its client is closed once.\<close>

lemma close_all_closed: "ho_closed h \<Longrightarrow> close_all calls h = ([], h)"
  by (induction calls) (auto simp: hy2_outbound_close_def)

lemma outbound_client_closed_once: "\<not> ho_closed h \<Longrightarrow> calls \<noteq> [] \<Longrightarrow> fst (close_all calls h) = [ho_client h]"
  by (cases calls) (auto simp: hy2_outbound_close_def close_all_closed)

text \<open>A read hands out a prefix of one datagram, all of it when it fits, and never more than the buffer holds.\<close>

lemma hy2_read_prefix:
  assumes "hy2_read_from (Inr (data, addr)) room = Inr (n, source, content)"
  shows "source = addr \<and> n = length content \<and> n \<le> room \<and> (\<exists>rest. data = content @ rest) \<and> (length data \<le> room \<longrightarrow> content = data)"
  using assms by (auto simp: hy2_read_from_def Let_def intro: exI [of _ "drop _ data"] split: if_split_asm) (metis append_take_drop_id)

text \<open>
  The router service and the kernel select the same outbound for a route identity that names a user: two
  implementations of one rule.
\<close>

lemma router_agrees_with_kernel:
  assumes "parse_id (ks_route s) = (u, n)" "u \<noteq> []"
  shows "outbound_for_id (kn_outbounds k) (ks_route s) =
    (case outbound_for k s of
       Inr r \<Rightarrow> Inr r
     | Inl NoAuthorizedRoute \<Rightarrow> Inl (InvalidAuthenticatedID (ks_route s))
     | Inl (UnknownNode node) \<Rightarrow> Inl (RouterUnknownNode node)
     | Inl InvalidSession \<Rightarrow> Inl (InvalidAuthenticatedID (ks_route s)))"
  using assms by (simp add: outbound_for_id_def get_route_def outbound_for_def Let_def split: option.split)

end
