(* ===== verification/Database_Open.thy ===== *)
theory Database_Open
  imports Traffic_Store
begin

text \<open>
  Opening the database file (\<open>NewSQLiteStore\<close> and the migrations of \<open>storage/sqlite.go\<close>, \<open>migrateManagement\<close> and
  \<open>ensureColumn\<close> of \<open>storage/management.go\<close>): the directory, the data source name, the statements of the schema, the
  added columns and the one-time conversion of the traffic timestamps.  A file is what these statements read and
  write of it: the columns of its tables, its indexes, the row of \<open>config_state\<close>, the applied migrations and the rows of
  the traffic tables with their time columns as SQLite values.  Names are compared literally, and the time columns
  have integer or numeric affinity, as every schema of the program declares them.  Which calls of SQLite fail is the
  argument \<open>io\<close>; its \<open>strftime('%s', v)\<close> is the argument \<open>strftime\<close>.

  The locale \<open>resumable\<close> is the contract of a part of the migration that may be cut off: running it again goes on where
  it stopped.
\<close>

section \<open>The database file\<close>

datatype sql_value = SqlNull | SqlInteger int | SqlReal u64 | SqlText string | SqlBlob bytes

fun sql_integer :: "sql_value \<Rightarrow> bool" where
  "sql_integer (SqlInteger n) = True"
| "sql_integer v = False"

record raw_log =
  rl_user :: string
  rl_node :: string
  rl_tx :: int
  rl_rx :: int
  rl_at :: sql_value

record raw_summary =
  rs_user :: string
  rs_node :: string
  rs_tx :: "int option"
  rs_rx :: "int option"
  rs_at :: sql_value

text \<open>A column is its name and whether it is \<open>NOT NULL\<close>.\<close>

type_synonym columns = "(string \<times> bool) list"

record database_file =
  df_tables :: "(string, columns) gomap"
  df_indexes :: "string list"
  df_state :: "(int \<times> int) option"
  df_migrations :: "(string \<times> int) list"
  df_logs :: "raw_log list"
  df_summary :: "raw_summary list"

definition empty_file :: database_file where
  "empty_file = \<lparr>df_tables = [], df_indexes = [], df_state = None, df_migrations = [], df_logs = [], df_summary = []\<rparr>"

definition columns_of :: "database_file \<Rightarrow> string \<Rightarrow> string list" where
  "columns_of db t = map fst (gget [] (df_tables db) t)"

definition has_columns :: "database_file \<Rightarrow> string \<Rightarrow> string list \<Rightarrow> bool" where
  "has_columns db t cs \<longleftrightarrow> set cs \<subseteq> set (columns_of db t)"

definition not_null :: "database_file \<Rightarrow> string \<Rightarrow> string \<Rightarrow> bool" where
  "not_null db t c \<longleftrightarrow> (c, True) \<in> set (gget [] (df_tables db) t)"

datatype sql_call =
    TrafficSchema nat | ManagementSchema nat | TableInfo string | AddColumn string
  | BeginStamps | CountStamps | UpdateLogs | UpdateSummary | RecordStamps | CommitStamps

datatype open_error =
    CreateDirectory string | OpenFailed | MigrateFailed | NormalizeLogs | NormalizeSummary

type_synonym migration = "(sql_call \<Rightarrow> bool) \<Rightarrow> database_file \<Rightarrow> (open_error, unit) result \<times> database_file"

section \<open>The schema\<close>

datatype schema_stmt = CreateTable string columns | CreateIndex string string "string list" | SeedConfigState

text \<open>One statement of a schema, \<open>None\<close> when SQLite refuses it: an index on a column the table does not have, or a taken name.\<close>

fun exec_stmt :: "schema_stmt \<Rightarrow> database_file \<Rightarrow> database_file option" where
  "exec_stmt (CreateTable t cols) db =
     (if map_of (df_tables db) t \<noteq> None then Some db
      else if t \<in> set (df_indexes db) then None
      else Some (db\<lparr>df_tables := gput t cols (df_tables db)\<rparr>))"
| "exec_stmt (CreateIndex i t cs) db =
     (if i \<in> set (df_indexes db) then Some db
      else if map_of (df_tables db) i \<noteq> None \<or> \<not> has_columns db t cs then None
      else Some (db\<lparr>df_indexes := df_indexes db @ [i]\<rparr>))"
| "exec_stmt SeedConfigState db =
     (if \<not> has_columns db ''config_state'' [''id'', ''revision'', ''active_revision''] then None
      else if df_state db \<noteq> None then Some db
      else Some (db\<lparr>df_state := Some (0, 0)\<rparr>))"

text \<open>\<open>Exec\<close> of several statements: each takes effect by itself.\<close>

fun run_script :: "(nat \<Rightarrow> sql_call) \<Rightarrow> nat \<Rightarrow> schema_stmt list \<Rightarrow> migration" where
  "run_script call n [] io db = (Inr (), db)"
| "run_script call n (s # ss) io db =
     (if \<not> io (call n) then (Inl MigrateFailed, db)
      else (case exec_stmt s db of
              None \<Rightarrow> (Inl MigrateFailed, db)
            | Some db1 \<Rightarrow> run_script call (Suc n) ss io db1))"

definition traffic_schema :: "schema_stmt list" where
  "traffic_schema =
     [CreateTable ''traffic_logs'' [(''id'', False), (''user_id'', True), (''node_id'', True), (''tx_bytes'', True),
        (''rx_bytes'', True), (''created_at'', True)],
      CreateIndex ''idx_traffic_logs_user_node'' ''traffic_logs'' [''user_id'', ''node_id''],
      CreateIndex ''idx_traffic_logs_user_created_at'' ''traffic_logs'' [''user_id'', ''created_at''],
      CreateIndex ''idx_traffic_logs_created_at'' ''traffic_logs'' [''created_at''],
      CreateTable ''traffic_summary'' [(''user_id'', True), (''node_id'', True), (''tx_total'', True), (''rx_total'', True),
        (''updated_at'', True)]]"

definition management_schema :: "schema_stmt list" where
  "management_schema =
     [CreateTable ''managed_users'' [(''username'', False), (''password'', True), (''deleted_at'', False),
        (''expires_at'', False), (''monthly_bytes'', True), (''download_speed'', True), (''token_hash'', True),
        (''created_at'', True), (''updated_at'', True)],
      CreateIndex ''idx_managed_users_token'' ''managed_users'' [''token_hash''],
      CreateTable ''managed_nodes'' [(''name'', False), (''config_json'', True), (''enabled'', True), (''created_at'', True),
        (''updated_at'', True)],
      CreateTable ''user_nodes'' [(''username'', True), (''node_name'', True)],
      CreateIndex ''idx_user_nodes_node'' ''user_nodes'' [''node_name''],
      CreateTable ''config_state'' [(''id'', False), (''revision'', True), (''active_revision'', True)],
      SeedConfigState,
      CreateTable ''management_migrations'' [(''name'', False), (''applied_at'', True)],
      CreateTable ''restart_jobs'' [(''id'', False), (''run_at'', True), (''trigger'', True), (''status'', True),
        (''created_at'', True), (''executed_at'', False), (''error_detail'', False), (''started_process_run_id'', False)],
      CreateIndex ''idx_restart_jobs_pending'' ''restart_jobs'' [''status'', ''run_at''],
      CreateTable ''process_runs'' [(''id'', False), (''pid'', False), (''started_at'', True), (''stopped_at'', False),
        (''config_revision'', True), (''trigger'', True), (''systemd_result'', False), (''exit_code'', False),
        (''exit_status'', False), (''detail'', False)],
      CreateIndex ''idx_process_runs_started'' ''process_runs'' [''started_at'']]"

text \<open>\<open>ensureColumn\<close>: the table is inspected and the column added when it is missing.\<close>

definition ensure_column :: "string \<Rightarrow> string \<Rightarrow> migration" where
  "ensure_column t c io db =
     (if \<not> io (TableInfo c) then (Inl MigrateFailed, db)
      else if c \<in> set (columns_of db t) then (Inr (), db)
      else if \<not> io (AddColumn c) then (Inl MigrateFailed, db)
      else (case map_of (df_tables db) t of
              None \<Rightarrow> (Inl MigrateFailed, db)
            | Some cols \<Rightarrow> (Inr (), db\<lparr>df_tables := gput t (cols @ [(c, False)]) (df_tables db)\<rparr>)))"

definition and_then :: "migration \<Rightarrow> migration \<Rightarrow> migration" where
  "and_then f g io db = (case f io db of (Inl e, db1) \<Rightarrow> (Inl e, db1) | (Inr _, db1) \<Rightarrow> g io db1)"

definition migrate_management :: migration where
  "migrate_management =
     and_then (run_script ManagementSchema 0 management_schema)
       (and_then (ensure_column ''restart_jobs'' ''error_detail'') (ensure_column ''restart_jobs'' ''started_process_run_id''))"

section \<open>The timestamps of the traffic tables\<close>

definition stamps_migration :: string where "stamps_migration = ''traffic-timestamps-utc-v1''"

definition cast_stamp :: "(sql_value \<Rightarrow> int option) \<Rightarrow> sql_value \<Rightarrow> sql_value" where
  "cast_stamp strftime v =
     (if sql_integer v then v else (case strftime v of None \<Rightarrow> SqlNull | Some n \<Rightarrow> SqlInteger n))"

text \<open>The two \<open>UPDATE\<close> statements; a row that would break \<open>NOT NULL\<close> fails the statement.\<close>

definition update_logs :: "(sql_value \<Rightarrow> int option) \<Rightarrow> database_file \<Rightarrow> database_file option" where
  "update_logs strftime db =
     (let rows = map (\<lambda>r. r\<lparr>rl_at := cast_stamp strftime (rl_at r)\<rparr>) (df_logs db) in
      if \<not> has_columns db ''traffic_logs'' [''created_at''] then None
      else if not_null db ''traffic_logs'' ''created_at'' \<and> (\<exists>r \<in> set rows. rl_at r = SqlNull) then None
      else Some (db\<lparr>df_logs := rows\<rparr>))"

definition update_summary :: "(sql_value \<Rightarrow> int option) \<Rightarrow> database_file \<Rightarrow> database_file option" where
  "update_summary strftime db =
     (let rows = map (\<lambda>r. r\<lparr>rs_at := cast_stamp strftime (rs_at r)\<rparr>) (df_summary db) in
      if \<not> has_columns db ''traffic_summary'' [''updated_at''] then None
      else if not_null db ''traffic_summary'' ''updated_at'' \<and> (\<exists>r \<in> set rows. rs_at r = SqlNull) then None
      else Some (db\<lparr>df_summary := rows\<rparr>))"

definition record_stamps :: "int \<Rightarrow> database_file \<Rightarrow> database_file option" where
  "record_stamps now db =
     (if has_columns db ''management_migrations'' [''name'', ''applied_at'']
      then Some (db\<lparr>df_migrations := df_migrations db @ [(stamps_migration, now)]\<rparr>) else None)"

definition stamps_applied :: "database_file \<Rightarrow> bool" where
  "stamps_applied db \<longleftrightarrow> stamps_migration \<in> fst ` set (df_migrations db)"

definition migrate_traffic_timestamps :: "(sql_value \<Rightarrow> int option) \<Rightarrow> int \<Rightarrow> migration" where
  "migrate_traffic_timestamps strftime now io db =
     (if \<not> io BeginStamps then (Inl MigrateFailed, db)
      else if \<not> io CountStamps \<or> \<not> has_columns db ''management_migrations'' [''name''] then (Inl MigrateFailed, db)
      else if stamps_applied db then (if io CommitStamps then (Inr (), db) else (Inl MigrateFailed, db))
      else (case (if io UpdateLogs then update_logs strftime db else None) of
              None \<Rightarrow> (Inl NormalizeLogs, db)
            | Some db1 \<Rightarrow>
                (case (if io UpdateSummary then update_summary strftime db1 else None) of
                   None \<Rightarrow> (Inl NormalizeSummary, db)
                 | Some db2 \<Rightarrow>
                     (case (if io RecordStamps then record_stamps now db2 else None) of
                        None \<Rightarrow> (Inl MigrateFailed, db)
                      | Some db3 \<Rightarrow> if io CommitStamps then (Inr (), db3) else (Inl MigrateFailed, db)))))"

section \<open>Opening the store\<close>

definition create_tables :: migration where
  "create_tables = and_then (run_script TrafficSchema 0 traffic_schema) migrate_management"

definition migrate_store :: "(sql_value \<Rightarrow> int option) \<Rightarrow> int \<Rightarrow> migration" where
  "migrate_store strftime now = and_then create_tables (migrate_traffic_timestamps strftime now)"

text \<open>\<open>filepath.Dir\<close> on Unix.\<close>

fun clean_parts :: "bool \<Rightarrow> string list \<Rightarrow> string list \<Rightarrow> string list" where
  "clean_parts rooted acc [] = rev acc"
| "clean_parts rooted acc (p # ps) =
     (if p = [] \<or> p = ''.'' then clean_parts rooted acc ps
      else if p = ''..'' then
        (case acc of
           a # rest \<Rightarrow> if a = ''..'' then clean_parts rooted (p # acc) ps else clean_parts rooted rest ps
         | [] \<Rightarrow> if rooted then clean_parts rooted [] ps else clean_parts rooted [p] ps)
      else clean_parts rooted (p # acc) ps)"

fun join_path :: "string list \<Rightarrow> string" where
  "join_path [] = []"
| "join_path [p] = p"
| "join_path (p # ps) = p @ ''/'' @ join_path ps"

definition clean_path :: "string \<Rightarrow> string" where
  "clean_path path =
     (let rooted = has_prefix path ''/''; body = join_path (clean_parts rooted [] (split_byte CHR ''/'' path)) in
      if rooted then ''/'' @ body else if body = [] then ''.'' else body)"

definition dir_path :: "string \<Rightarrow> string" where
  "dir_path path =
     (case last_index_byte path CHR ''/'' of None \<Rightarrow> clean_path [] | Some i \<Rightarrow> clean_path (take (Suc i) path))"

text \<open>With the result, the directory created.\<close>

definition ensure_database_dir :: "(string \<Rightarrow> bool) \<Rightarrow> string \<Rightarrow> (open_error, string option) result" where
  "ensure_database_dir mkdir_all path =
     (if path = '':memory:'' \<or> has_prefix path ''file:'' then Inr None
      else if dir_path path = ''.'' then Inr None
      else if mkdir_all (dir_path path) then Inr (Some (dir_path path))
      else Inl (CreateDirectory (dir_path path)))"

definition sqlite_dsn :: "string \<Rightarrow> string" where
  "sqlite_dsn path = path @ (if CHR ''?'' \<in> set path then ''&'' else ''?'') @ ''_journal_mode=WAL&_busy_timeout=5000''"

text \<open>
  \<open>NewSQLiteStore\<close>; \<open>sql_open\<close> yields the file a data source names, and the third result is the number of handles
  left open.
\<close>

definition new_sqlite_store ::
  "(string \<Rightarrow> bool) \<Rightarrow> (string \<Rightarrow> database_file option) \<Rightarrow> (sql_value \<Rightarrow> int option) \<Rightarrow> int \<Rightarrow> (sql_call \<Rightarrow> bool) \<Rightarrow> string
     \<Rightarrow> (open_error, unit) result \<times> database_file option \<times> nat"
where
  "new_sqlite_store mkdir_all sql_open strftime now io path =
     (case ensure_database_dir mkdir_all path of
        Inl e \<Rightarrow> (Inl e, None, 0)
      | Inr _ \<Rightarrow>
          (case sql_open (sqlite_dsn path) of
             None \<Rightarrow> (Inl OpenFailed, None, 0)
           | Some db \<Rightarrow>
               (case migrate_store strftime now io db of
                  (Inl e, db') \<Rightarrow> (Inl e, Some db', 0)
                | (Inr _, db') \<Rightarrow> (Inr (), Some db', 1))))"

section \<open>Migrations that may be cut off\<close>

text \<open>
  \<open>extends\<close>: no table, column, index or state row is lost; \<open>grows\<close>: moreover the rows of the other tables are the same.
\<close>

definition extends :: "database_file \<Rightarrow> database_file \<Rightarrow> bool" where
  "extends a b \<longleftrightarrow>
     (\<forall>t cols. map_of (df_tables a) t = Some cols \<longrightarrow> (\<exists>more. map_of (df_tables b) t = Some (cols @ more)))
     \<and> set (df_indexes a) \<subseteq> set (df_indexes b) \<and> (df_state a \<noteq> None \<longrightarrow> df_state b = df_state a)"

definition grows :: "database_file \<Rightarrow> database_file \<Rightarrow> bool" where
  "grows a b \<longleftrightarrow> extends a b \<and> df_migrations b = df_migrations a \<and> df_logs b = df_logs a \<and> df_summary b = df_summary a"

lemma extends_refl [simp]: "extends a a"
  by (simp add: extends_def)

lemma extends_trans: "extends a b \<Longrightarrow> extends b c \<Longrightarrow> extends a c"
  unfolding extends_def by (metis append.assoc order_trans)

lemma grows_extends: "grows a b \<Longrightarrow> extends a b"
  by (simp add: grows_def)

lemma grows_refl [simp]: "grows a a"
  by (simp add: grows_def)

lemma grows_trans: "grows a b \<Longrightarrow> grows b c \<Longrightarrow> grows a c"
  unfolding grows_def by (metis extends_trans)

lemma extends_table:
  assumes "extends a b"
  obtains more where "gget [] (df_tables b) t = gget [] (df_tables a) t @ more"
proof (cases "map_of (df_tables a) t")
  case (Some cols)
  with assms obtain more where "map_of (df_tables b) t = Some (cols @ more)"
    unfolding extends_def by blast
  then show thesis
    using Some by (intro that [of more]) (simp add: gget_def)
qed (simp add: that gget_def)

lemma extends_columns: "extends a b \<Longrightarrow> set (columns_of a t) \<subseteq> set (columns_of b t)"
  by (erule extends_table [of a b t]) (auto simp: columns_of_def)

lemma extends_has_columns: "extends a b \<Longrightarrow> has_columns a t cs \<Longrightarrow> has_columns b t cs"
  using extends_columns [of a b t] by (auto simp: has_columns_def)

text \<open>Once a column is \<open>NOT NULL\<close> it stays so.\<close>

lemma extends_not_null: "extends a b \<Longrightarrow> not_null a t c \<Longrightarrow> not_null b t c"
  by (erule extends_table [of a b t]) (auto simp: not_null_def)

locale resumable =
  fixes run :: migration
  assumes growing: "grows db (snd (run io db))"
    and resumes: "run (\<lambda>_. True) (snd (run io db)) = run (\<lambda>_. True) db"
    and settled: "fst (run io db) = Inr () \<Longrightarrow> extends (snd (run io db)) db' \<Longrightarrow> run (\<lambda>_. True) db' = (Inr (), db')"
begin

text \<open>A run that succeeded is the uninterrupted run.\<close>

lemma success_uninterrupted: "fst (run io db) = Inr () \<Longrightarrow> run (\<lambda>_. True) db = (Inr (), snd (run io db))"
  using resumes [of io db] settled [of io db "snd (run io db)"] by simp

lemma extending: "extends db (snd (run io db))"
  by (rule grows_extends [OF growing])

end

lemma and_then_Inl: "fst (f io db) = Inl e \<Longrightarrow> and_then f g io db = (Inl e, snd (f io db))"
  by (cases "f io db") (simp add: and_then_def)

lemma and_then_Inr: "fst (f io db) = Inr () \<Longrightarrow> and_then f g io db = g io (snd (f io db))"
  by (cases "f io db") (simp add: and_then_def)

lemma unit_result_cases: obtains e where "r = Inl e" | "r = Inr ()"
  by (cases r) auto

text \<open>Two resumable parts in a row are resumable.\<close>

lemma and_then_resumable:
  assumes f: "resumable f" and g: "resumable g"
  shows "resumable (and_then f g)"
proof
  fix io db
  show "grows db (snd (and_then f g io db))"
    by (cases rule: unit_result_cases [of "fst (f io db)"])
      (auto simp: and_then_Inl and_then_Inr intro: resumable.growing [OF f] grows_trans [OF resumable.growing [OF f] resumable.growing [OF g]])
next
  fix io db
  show "and_then f g (\<lambda>_. True) (snd (and_then f g io db)) = and_then f g (\<lambda>_. True) db"
  proof (cases rule: unit_result_cases [of "fst (f io db)"])
    case 1
    then show ?thesis
      by (simp add: and_then_Inl) (simp add: and_then_def resumable.resumes [OF f])
  next
    case 2
    let ?d = "snd (g io (snd (f io db)))"
    have "f (\<lambda>_. True) ?d = (Inr (), ?d)"
      using 2 by (rule resumable.settled [OF f]) (rule resumable.extending [OF g])
    moreover have "f (\<lambda>_. True) db = (Inr (), snd (f io db))"
      using 2 by (rule resumable.success_uninterrupted [OF f])
    ultimately show ?thesis
      using 2 by (simp add: and_then_Inr) (simp add: and_then_def resumable.resumes [OF g])
  qed
next
  fix io db db'
  assume ok: "fst (and_then f g io db) = Inr ()" and gr: "extends (snd (and_then f g io db)) db'"
  have f_ok: "fst (f io db) = Inr ()"
    using ok by (cases rule: unit_result_cases [of "fst (f io db)"]) (simp_all add: and_then_Inl)
  have "f (\<lambda>_. True) db' = (Inr (), db')"
    using f_ok gr
    by (intro resumable.settled [OF f]) (auto simp: and_then_Inr intro: extends_trans [OF resumable.extending [OF g]])
  moreover have "g (\<lambda>_. True) db' = (Inr (), db')"
    using ok gr f_ok by (intro resumable.settled [OF g]) (auto simp: and_then_Inr)
  ultimately show "and_then f g (\<lambda>_. True) db' = (Inr (), db')"
    by (simp add: and_then_def)
qed

text \<open>A statement of the schema that has taken effect has none later.\<close>

lemma exec_stmt_grows: "exec_stmt s db = Some db' \<Longrightarrow> grows db db'"
  by (cases s) (auto simp: grows_def extends_def split: if_splits)

lemma exec_stmt_settled: "exec_stmt s db = Some db1 \<Longrightarrow> extends db1 db2 \<Longrightarrow> exec_stmt s db2 = Some db2"
proof (cases s)
  case (CreateTable t cols)
  assume "exec_stmt s db = Some db1" "extends db1 db2"
  moreover from this(1) obtain cs where "map_of (df_tables db1) t = Some cs"
    by (auto simp: CreateTable split: if_splits)
  ultimately show ?thesis
    by (fastforce simp: CreateTable extends_def)
next
  case (CreateIndex i t cs)
  assume "exec_stmt s db = Some db1" "extends db1 db2"
  then have "i \<in> set (df_indexes db2)"
    by (auto simp: CreateIndex extends_def split: if_splits)
  then show ?thesis
    by (simp add: CreateIndex)
next
  case SeedConfigState
  assume ex: "exec_stmt s db = Some db1" and gr: "extends db1 db2"
  have "has_columns db1 ''config_state'' [''id'', ''revision'', ''active_revision'']"
    using ex by (auto simp: SeedConfigState has_columns_def columns_of_def split: if_splits)
  then have "has_columns db2 ''config_state'' [''id'', ''revision'', ''active_revision'']"
    by (rule extends_has_columns [OF gr])
  moreover have "df_state db2 \<noteq> None"
    using ex gr by (auto simp: SeedConfigState extends_def split: if_splits)
  ultimately show ?thesis
    by (simp add: SeedConfigState)
qed

lemma run_script_grows: "grows db (snd (run_script call n ss io db))"
proof (induction ss arbitrary: n db)
  case (Cons s ss)
  then show ?case
    by (auto simp: grows_trans [OF exec_stmt_grows] split: option.split)
qed simp

lemma run_script_settled:
  "fst (run_script call n ss io db) = Inr () \<Longrightarrow> extends (snd (run_script call n ss io db)) db'
     \<Longrightarrow> run_script call n ss (\<lambda>_. True) db' = (Inr (), db')"
proof (induction ss arbitrary: n db)
  case (Cons s ss)
  then obtain db1 where ex: "exec_stmt s db = Some db1" and io: "io (call n)"
    by (auto split: if_splits option.splits)
  have "extends db1 db'"
    using Cons.prems(2) grows_extends [OF run_script_grows [of db1]] by (simp add: ex io) (blast intro: extends_trans)
  then have "exec_stmt s db' = Some db'"
    by (rule exec_stmt_settled [OF ex])
  then show ?case
    using Cons.IH [of "Suc n" db1] Cons.prems by (simp add: ex io)
qed simp

interpretation script: resumable "run_script call n ss" for call n ss
proof
  fix io db
  show "grows db (snd (run_script call n ss io db))"
    by (rule run_script_grows)
next
  fix io db
  show "run_script call n ss (\<lambda>_. True) (snd (run_script call n ss io db)) = run_script call n ss (\<lambda>_. True) db"
  proof (induction ss arbitrary: n db)
    case (Cons s ss)
    show ?case
    proof (cases "if io (call n) then exec_stmt s db else None")
      case None
      then show ?thesis
        by (auto split: if_splits option.split)
    next
      case (Some db1)
      then have ex: "exec_stmt s db = Some db1" "io (call n)"
        by (auto split: if_splits)
      then show ?thesis
        using Cons.IH [of "Suc n" db1] exec_stmt_settled [OF ex(1) grows_extends [OF run_script_grows]] by simp
    qed
  qed simp
next
  fix io db db'
  assume "fst (run_script call n ss io db) = Inr ()" "extends (snd (run_script call n ss io db)) db'"
  then show "run_script call n ss (\<lambda>_. True) db' = (Inr (), db')"
    by (rule run_script_settled)
qed

lemma add_column_grows:
  "map_of (df_tables db) t = Some cols \<Longrightarrow> grows db (db\<lparr>df_tables := gput t (cols @ [x]) (df_tables db)\<rparr>)"
  by (auto simp: grows_def extends_def)

lemma add_column_present:
  "c \<in> set (columns_of (db\<lparr>df_tables := gput t (cols @ [(c, False)]) (df_tables db)\<rparr>) t)"
  by (simp add: columns_of_def)

interpretation column: resumable "ensure_column t c" for t c
proof
  fix io db
  show "grows db (snd (ensure_column t c io db))"
    by (auto simp: ensure_column_def add_column_grows split: option.split)
next
  fix io db
  show "ensure_column t c (\<lambda>_. True) (snd (ensure_column t c io db)) = ensure_column t c (\<lambda>_. True) db"
    by (auto simp: ensure_column_def add_column_present split: option.split)
next
  fix io db db'
  assume ok: "fst (ensure_column t c io db) = Inr ()" and gr: "extends (snd (ensure_column t c io db)) db'"
  have "c \<in> set (columns_of (snd (ensure_column t c io db)) t)"
    using ok add_column_present by (auto simp: ensure_column_def split: if_splits option.splits)
  then have "c \<in> set (columns_of db' t)"
    using extends_columns [OF gr] by blast
  then show "ensure_column t c (\<lambda>_. True) db' = (Inr (), db')"
    by (simp add: ensure_column_def)
qed

interpretation tables: resumable create_tables
  unfolding create_tables_def migrate_management_def
  by (intro and_then_resumable script.resumable_axioms column.resumable_axioms)

section \<open>Properties\<close>

text \<open>The conversion of the timestamps is one transaction.\<close>

lemma timestamps_atomic:
  "fst (migrate_traffic_timestamps strftime now io db) = Inl e \<Longrightarrow> snd (migrate_traffic_timestamps strftime now io db) = db"
  by (auto simp: migrate_traffic_timestamps_def split: if_splits option.splits)

lemma update_logs_Some:
  "update_logs strftime db = Some db' \<longleftrightarrow>
     has_columns db ''traffic_logs'' [''created_at'']
     \<and> db' = db\<lparr>df_logs := map (\<lambda>r. r\<lparr>rl_at := cast_stamp strftime (rl_at r)\<rparr>) (df_logs db)\<rparr>
     \<and> (not_null db ''traffic_logs'' ''created_at'' \<longrightarrow> (\<forall>r \<in> set (df_logs db'). rl_at r \<noteq> SqlNull))"
  by (auto simp: update_logs_def Let_def)

lemma update_summary_Some:
  "update_summary strftime db = Some db' \<longleftrightarrow>
     has_columns db ''traffic_summary'' [''updated_at'']
     \<and> db' = db\<lparr>df_summary := map (\<lambda>r. r\<lparr>rs_at := cast_stamp strftime (rs_at r)\<rparr>) (df_summary db)\<rparr>
     \<and> (not_null db ''traffic_summary'' ''updated_at'' \<longrightarrow> (\<forall>r \<in> set (df_summary db'). rs_at r \<noteq> SqlNull))"
  by (auto simp: update_summary_def Let_def)

lemma migrate_store_eq:
  "migrate_store strftime now io db =
     (if fst (create_tables io db) = Inr () then migrate_traffic_timestamps strftime now io (snd (create_tables io db))
      else create_tables io db)"
  by (cases rule: unit_result_cases [of "fst (create_tables io db)"])
    (simp_all add: migrate_store_def and_then_Inl and_then_Inr prod_eq_iff)

text \<open>The database as a start that did not come through leaves it.\<close>

inductive interrupted :: "(sql_value \<Rightarrow> int option) \<Rightarrow> database_file \<Rightarrow> database_file \<Rightarrow> bool" for strftime where
  interrupted_none: "interrupted strftime db db"
| interrupted_again: "interrupted strftime db db1 \<Longrightarrow> migrate_store strftime now io db1 = (Inl e, db2) \<Longrightarrow> interrupted strftime db db2"

lemma interrupted_tables:
  assumes "migrate_store strftime now io db = (Inl e, db')"
  shows "db' = snd (create_tables io db)"
  using assms timestamps_atomic [of strftime now io "snd (create_tables io db)" e]
  by (cases "fst (create_tables io db) = Inr ()") (auto simp: migrate_store_eq dest: sym)

lemma interrupted_resumes:
  assumes "migrate_store strftime now io db = (Inl e, db')"
  shows "migrate_store strftime now' (\<lambda>_. True) db' = migrate_store strftime now' (\<lambda>_. True) db"
  by (simp add: interrupted_tables [OF assms] migrate_store_eq tables.resumes)

text \<open>C32: However many starts were cut off while they opened the database, at whatever statements, the next start that is
  not disturbed has the outcome and leaves the database file of a start on the original file: no interruption loses or
  repeats a part of the migration.\<close>

theorem interrupted_open_resumes:
  assumes "interrupted strftime db db'"
  shows "migrate_store strftime now (\<lambda>_. True) db' = migrate_store strftime now (\<lambda>_. True) db"
  using assms by (induction) (simp_all add: interrupted_resumes)

definition old_file :: database_file where
  "old_file = empty_file\<lparr>
     df_tables := [(''traffic_logs'', [(''id'', False), (''user_id'', True), (''node_id'', True), (''tx_bytes'', True),
       (''rx_bytes'', True), (''created_at'', True)])],
     df_logs := [\<lparr>rl_user = ''alice'', rl_node = ''direct'', rl_tx = 1, rl_rx = 2, rl_at = SqlText ''2026-08-08 18:30:00+08:00''\<rparr>]\<rparr>"

definition demo_strftime :: "sql_value \<Rightarrow> int option" where
  "demo_strftime v = (if v = SqlText ''2026-08-08 18:30:00+08:00'' then Some 1786185000 else None)"

definition cut_file :: database_file where
  "cut_file = snd (migrate_store demo_strftime 7 (\<lambda>c. c \<noteq> ManagementSchema 3) old_file)"

lemma cut_file_interrupted: "migrate_store demo_strftime 7 (\<lambda>c. c \<noteq> ManagementSchema 3) old_file = (Inl MigrateFailed, cut_file)"
proof -
  have "fst (migrate_store demo_strftime 7 (\<lambda>c. c \<noteq> ManagementSchema 3) old_file) = Inl MigrateFailed"
    by code_simp
  then show ?thesis
    by (simp add: cut_file_def prod_eq_iff)
qed

theorem interrupted_open_resumes_witness:
  "interrupted demo_strftime old_file cut_file \<and> cut_file \<noteq> old_file
     \<and> migrate_store demo_strftime 9 (\<lambda>_. True) cut_file = migrate_store demo_strftime 9 (\<lambda>_. True) old_file
     \<and> fst (migrate_store demo_strftime 9 (\<lambda>_. True) old_file) = Inr ()"
proof -
  have "interrupted demo_strftime old_file cut_file"
    by (rule interrupted_again [OF interrupted_none cut_file_interrupted])
  moreover from this have "migrate_store demo_strftime 9 (\<lambda>_. True) cut_file = migrate_store demo_strftime 9 (\<lambda>_. True) old_file"
    by (rule interrupted_open_resumes)
  moreover have "cut_file \<noteq> old_file"
    by code_simp
  moreover have "fst (migrate_store demo_strftime 9 (\<lambda>_. True) old_file) = Inr ()"
    by code_simp
  ultimately show ?thesis
    by blast
qed

text \<open>A start on a database that was opened before changes nothing.\<close>

lemma record_stamps_Some:
  "record_stamps now db = Some db' \<longleftrightarrow>
     has_columns db ''management_migrations'' [''name'', ''applied_at'']
     \<and> db' = db\<lparr>df_migrations := df_migrations db @ [(stamps_migration, now)]\<rparr>"
  by (auto simp: record_stamps_def)

lemma timestamps_Inr:
  assumes "migrate_traffic_timestamps strftime now io db = (Inr (), db')"
  shows "if stamps_applied db then db' = db
    else (\<exists>db1 db2. update_logs strftime db = Some db1 \<and> update_summary strftime db1 = Some db2 \<and> record_stamps now db2 = Some db')"
  using assms by (auto simp: migrate_traffic_timestamps_def split: if_splits option.splits)

section \<open>The traffic tables after opening\<close>

text \<open>The tables as the traffic store reads them, once every time column holds integers.\<close>

definition stamp_seconds :: "(sql_value \<Rightarrow> int option) \<Rightarrow> sql_value \<Rightarrow> int" where
  "stamp_seconds strftime v = (case v of SqlInteger n \<Rightarrow> n | _ \<Rightarrow> the (strftime v))"

definition converted_log :: "(sql_value \<Rightarrow> int option) \<Rightarrow> raw_log \<Rightarrow> log_row" where
  "converted_log strftime r =
     \<lparr>lr_user = rl_user r, lr_node = rl_node r, lr_tx = rl_tx r, lr_rx = rl_rx r, lr_at = stamp_seconds strftime (rl_at r)\<rparr>"

definition converted_summary :: "(sql_value \<Rightarrow> int option) \<Rightarrow> raw_summary \<Rightarrow> (string \<times> string) \<times> summary_row" where
  "converted_summary strftime r =
     ((rs_user r, rs_node r), \<lparr>sm_tx = rs_tx r, sm_rx = rs_rx r, sm_at = stamp_seconds strftime (rs_at r)\<rparr>)"

definition converted_tables :: "(sql_value \<Rightarrow> int option) \<Rightarrow> database_file \<Rightarrow> traffic_db" where
  "converted_tables strftime db =
     \<lparr>td_logs = map (converted_log strftime) (df_logs db), td_summary = map (converted_summary strftime) (df_summary db)\<rparr>"

definition stamps_integer :: "database_file \<Rightarrow> bool" where
  "stamps_integer db \<longleftrightarrow> (\<forall>r \<in> set (df_logs db). sql_integer (rl_at r)) \<and> (\<forall>r \<in> set (df_summary db). sql_integer (rs_at r))"

definition traffic_view :: "database_file \<Rightarrow> traffic_db option" where
  "traffic_view db = (if stamps_integer db then Some (converted_tables (\<lambda>_. None) db) else None)"

lemma stamp_seconds_integer: "sql_integer v \<Longrightarrow> stamp_seconds f v = stamp_seconds g v"
  by (cases v) (simp_all add: stamp_seconds_def)

lemma cast_stamp_cases: "cast_stamp f v = SqlNull \<or> (sql_integer (cast_stamp f v) \<and> stamp_seconds g (cast_stamp f v) = stamp_seconds f v)"
  by (cases v) (auto simp: cast_stamp_def stamp_seconds_def split: option.split)

lemma stamps_integer_view: "stamps_integer db \<Longrightarrow> traffic_view db = Some (converted_tables strftime db)"
  using stamp_seconds_integer [of _ "\<lambda>_. None" strftime]
  by (auto simp: traffic_view_def converted_tables_def stamps_integer_def converted_log_def converted_summary_def)

lemma converted_view:
  assumes logs: "df_logs db' = map (\<lambda>r. r\<lparr>rl_at := cast_stamp strftime (rl_at r)\<rparr>) (df_logs db)"
    and summary: "df_summary db' = map (\<lambda>r. r\<lparr>rs_at := cast_stamp strftime (rs_at r)\<rparr>) (df_summary db)"
    and "\<forall>r \<in> set (df_logs db'). rl_at r \<noteq> SqlNull" "\<forall>r \<in> set (df_summary db'). rs_at r \<noteq> SqlNull"
  shows "traffic_view db' = Some (converted_tables strftime db)"
proof -
  have l: "sql_integer (cast_stamp strftime (rl_at r)) \<and> stamp_seconds g (cast_stamp strftime (rl_at r)) = stamp_seconds strftime (rl_at r)"
    if "r \<in> set (df_logs db)" for r g
    using assms(3) that cast_stamp_cases [of strftime "rl_at r" g] by (auto simp: logs)
  have s: "sql_integer (cast_stamp strftime (rs_at r)) \<and> stamp_seconds g (cast_stamp strftime (rs_at r)) = stamp_seconds strftime (rs_at r)"
    if "r \<in> set (df_summary db)" for r g
    using assms(4) that cast_stamp_cases [of strftime "rs_at r" g] by (auto simp: summary)
  have "stamps_integer db'"
    using l s by (auto simp: stamps_integer_def logs summary)
  moreover have "converted_tables strftime db' = converted_tables strftime db"
    using l s by (auto simp: converted_tables_def converted_log_def converted_summary_def logs summary)
  ultimately show ?thesis
    using stamps_integer_view by metis
qed

text \<open>C33: Opening a database refines its traffic tables to those of the traffic store.  After a start that opened the
  database, every time column holds integer seconds, and the tables are the rows the file had, in their order, with the
  user, node and byte counts unchanged, integer times unchanged and every other time the seconds SQLite's
  \<open>strftime\<close> gives for it; whatever calls the database refused on the way.\<close>

theorem opened_traffic_tables:
  assumes opened: "migrate_store strftime now io db = (Inr (), db')"
    and columns: "not_null db' ''traffic_logs'' ''created_at''" "not_null db' ''traffic_summary'' ''updated_at''"
    and earlier: "stamps_applied db \<Longrightarrow> stamps_integer db"
  shows "traffic_view db' = Some (converted_tables strftime db)"
proof -
  let ?t = "snd (create_tables io db)"
  have gr: "grows db ?t"
    by (rule tables.growing)
  have st: "migrate_traffic_timestamps strftime now io ?t = (Inr (), db')"
    using opened by (cases "fst (create_tables io db) = Inr ()") (auto simp: migrate_store_eq)
  have same: "stamps_applied ?t = stamps_applied db" "converted_tables strftime ?t = converted_tables strftime db"
      "stamps_integer ?t = stamps_integer db"
    using gr by (simp_all add: grows_def stamps_applied_def converted_tables_def stamps_integer_def)
  show ?thesis
  proof (cases "stamps_applied db")
    case True
    then show ?thesis
      using timestamps_Inr [OF st] earlier by (simp add: same stamps_integer_view [of ?t strftime])
  next
    case False
    then obtain d1 d2 where u: "update_logs strftime ?t = Some d1" "update_summary strftime d1 = Some d2" "record_stamps now d2 = Some db'"
      using timestamps_Inr [OF st] by (auto simp: same)
    have nn: "not_null ?t ''traffic_logs'' ''created_at''" "not_null d1 ''traffic_summary'' ''updated_at''"
      using columns u by (auto simp: update_logs_Some update_summary_Some record_stamps_Some not_null_def)
    have "traffic_view db' = Some (converted_tables strftime ?t)"
      using u nn by (intro converted_view) (auto simp: update_logs_Some update_summary_Some record_stamps_Some)
    then show ?thesis
      by (simp add: same)
  qed
qed

definition opened_file :: database_file where
  "opened_file = snd (migrate_store demo_strftime 7 (\<lambda>_. True) old_file)"

theorem opened_traffic_tables_witness:
  "traffic_view old_file = None
     \<and> traffic_view opened_file =
         Some \<lparr>td_logs = [\<lparr>lr_user = ''alice'', lr_node = ''direct'', lr_tx = 1, lr_rx = 2, lr_at = 1786185000\<rparr>], td_summary = []\<rparr>"
proof -
  have "fst (migrate_store demo_strftime 7 (\<lambda>_. True) old_file) = Inr ()"
    by code_simp
  then have "migrate_store demo_strftime 7 (\<lambda>_. True) old_file = (Inr (), opened_file)"
    by (simp add: opened_file_def prod_eq_iff)
  moreover have "not_null opened_file ''traffic_logs'' ''created_at''"
    by code_simp
  moreover have "not_null opened_file ''traffic_summary'' ''updated_at''"
    by code_simp
  moreover have "\<not> stamps_applied old_file"
    by code_simp
  ultimately have "traffic_view opened_file = Some (converted_tables demo_strftime old_file)"
    by (intro opened_traffic_tables) simp_all
  then show ?thesis
    by (simp add: converted_tables_def converted_log_def stamp_seconds_def demo_strftime_def traffic_view_def stamps_integer_def
        old_file_def empty_file_def)
qed

text \<open>A later start changes nothing, however the clock stands.\<close>

lemma timestamps_applied:
  assumes "migrate_traffic_timestamps strftime now io db = (Inr (), db')"
  shows "stamps_applied db' \<and> extends db db' \<and> has_columns db' ''management_migrations'' [''name'']"
proof -
  have "has_columns db ''management_migrations'' [''name'']"
    using assms by (auto simp: migrate_traffic_timestamps_def split: if_splits)
  then show ?thesis
    using timestamps_Inr [OF assms]
    by (cases "stamps_applied db")
      (auto simp: update_logs_Some update_summary_Some record_stamps_Some extends_def stamps_applied_def has_columns_def columns_of_def)
qed

lemma reopened_unchanged:
  assumes "migrate_store strftime now io db = (Inr (), db')"
  shows "migrate_store strftime now' (\<lambda>_. True) db' = (Inr (), db')"
proof -
  let ?t = "snd (create_tables io db)"
  have ok: "fst (create_tables io db) = Inr ()"
    using assms by (cases "fst (create_tables io db) = Inr ()") (auto simp: migrate_store_eq)
  then have st: "migrate_traffic_timestamps strftime now io ?t = (Inr (), db')"
    using assms by (simp add: migrate_store_eq)
  have "create_tables (\<lambda>_. True) db' = (Inr (), db')"
    using ok timestamps_applied [OF st] by (intro tables.settled) auto
  then show ?thesis
    using timestamps_applied [OF st] by (simp add: migrate_store_eq migrate_traffic_timestamps_def)
qed

text \<open>A time that SQLite cannot read in a \<open>NOT NULL\<close> column stops every start, and the rows stay as they are.\<close>

lemma unreadable_time_stops_start:
  assumes row: "r \<in> set (df_logs db)" "\<not> sql_integer (rl_at r)" "strftime (rl_at r) = None"
    and column: "not_null db ''traffic_logs'' ''created_at''" and first: "\<not> stamps_applied db"
  shows "\<exists>e db'. migrate_store strftime now io db = (Inl e, db') \<and> df_logs db' = df_logs db"
proof (cases rule: unit_result_cases [of "fst (migrate_store strftime now io db)"])
  case (1 e)
  then have "migrate_store strftime now io db = (Inl e, snd (migrate_store strftime now io db))"
    by (simp add: prod_eq_iff)
  then show ?thesis
    using interrupted_tables tables.growing [of db io] by (fastforce simp: grows_def)
next
  case 2
  let ?t = "snd (create_tables io db)"
  have gr: "grows db ?t"
    by (rule tables.growing)
  have "fst (create_tables io db) = Inr ()" "fst (migrate_traffic_timestamps strftime now io ?t) = Inr ()"
    using 2 by (cases "fst (create_tables io db) = Inr ()"; auto simp: migrate_store_eq)+
  then obtain d where "migrate_traffic_timestamps strftime now io ?t = (Inr (), d)"
    by (metis prod.collapse)
  moreover have "\<not> stamps_applied ?t"
    using gr first by (simp add: grows_def stamps_applied_def)
  ultimately obtain d1 where "update_logs strftime ?t = Some d1"
    using timestamps_Inr by fastforce
  moreover have "update_logs strftime ?t = None"
    using row extends_not_null [OF grows_extends [OF gr] column] gr
    by (fastforce simp: update_logs_def Let_def cast_stamp_def grows_def)
  ultimately show ?thesis
    by simp
qed

end
