(* ===== verification/Relay_Lifecycle.thy ===== *)
theory Relay_Lifecycle
  imports Trojan_Relay
begin

text \<open>
  The goroutines of one relay (\<open>relayMetered\<close> and \<open>relayUDPMetered\<close> of \<open>inbound/trojan/service.go\<close>): the two copy loops, the
  caller that waits for both, the idle watchdog of a UDP association, the result channel and \<open>closeBoth\<close>.  A state
  records where each goroutine stands; an action is one step of one of them, and a run is any interleaving of actions.
  What the loops do with the bytes is the subject of \<open>Trojan_Relay\<close>: here a loop ends, with a result that the loops can
  have, at any time of its choice, and when both connections are closed it has to.
\<close>

section \<open>The goroutines\<close>

datatype copier = Copying | Delivering "relay_error option" | Delivered

datatype relay_main =
    AwaitFirst | ClosingFirst "relay_error option" | AwaitSecond "relay_error option"
  | AwaitWatch "relay_error option" "relay_error option" | Returned "relay_error option"

datatype watcher = NoWatchdog | Watching | IdleFound | IdleClosing | WatchdogEnded

text \<open>
  \<open>rl_stage\<close> counts what the body of \<open>closeBoth\<close> has done: cancel, close the client, close the target.  \<open>rl_order\<close> is not a
  variable of the code: the results in the order of their delivery.
\<close>

record relay_state =
  rl_up :: copier
  rl_down :: copier
  rl_main :: relay_main
  rl_watch :: watcher
  rl_results :: "relay_error option list"
  rl_idle :: bool
  rl_stage :: nat
  rl_cancelled :: bool
  rl_client_closes :: nat
  rl_target_closes :: nat
  rl_order :: "relay_error option list"

datatype relay_action =
    UpEnds "relay_error option" | DownEnds "relay_error option" | UpDelivers | DownDelivers
  | WatchIdle "watch_event list" | StoreIdle | WatchCancelled | WatchClosed
  | CloseStep | MainReceives | MainClosed | MainReturns | ParentCancels

text \<open>The relay of bytes has no watchdog, that of datagrams has.\<close>

definition relay_start :: "bool \<Rightarrow> relay_state" where
  "relay_start udp =
     \<lparr>rl_up = Copying, rl_down = Copying, rl_main = AwaitFirst, rl_watch = (if udp then Watching else NoWatchdog), rl_results = [],
      rl_idle = False, rl_stage = 0, rl_cancelled = False, rl_client_closes = 0, rl_target_closes = 0, rl_order = []\<rparr>"

definition deliver :: "relay_error option \<Rightarrow> relay_state \<Rightarrow> relay_state" where
  "deliver e s = s\<lparr>rl_results := rl_results s @ [e], rl_order := rl_order s @ [e]\<rparr>"

text \<open>One action of the body of \<open>closeBoth\<close>; it runs once, and other callers wait for it.\<close>

definition close_step :: "relay_state \<Rightarrow> relay_state" where
  "close_step s =
     (if rl_stage s = 0 then s\<lparr>rl_stage := 1, rl_cancelled := True\<rparr>
      else if rl_stage s = 1 then s\<lparr>rl_stage := 2, rl_client_closes := rl_client_closes s + 1\<rparr>
      else s\<lparr>rl_stage := 3, rl_target_closes := rl_target_closes s + 1\<rparr>)"

definition closing :: "relay_state \<Rightarrow> bool" where
  "closing s \<longleftrightarrow> (case rl_main s of ClosingFirst e \<Rightarrow> True | _ \<Rightarrow> False) \<or> rl_watch s = IdleClosing"

text \<open>The caller takes a result from the channel.\<close>

definition main_receives :: "relay_state \<Rightarrow> relay_state option" where
  "main_receives s =
     (case rl_results s of
        [] \<Rightarrow> None
      | e # rest \<Rightarrow>
          (case rl_main s of
             AwaitFirst \<Rightarrow> Some (s\<lparr>rl_main := ClosingFirst e, rl_results := rest\<rparr>)
           | AwaitSecond earlier \<Rightarrow>
               Some (s\<lparr>rl_main := (if rl_watch s = NoWatchdog then Returned (relay_result earlier e) else AwaitWatch earlier e),
                  rl_results := rest\<rparr>)
           | _ \<Rightarrow> None))"

fun relay_exec :: "duration \<Rightarrow> relay_action \<Rightarrow> relay_state \<Rightarrow> relay_state option" where
  "relay_exec timeout (UpEnds e) s =
     (if rl_up s = Copying \<and> e \<noteq> Some AssociationIdle then Some (s\<lparr>rl_up := Delivering e\<rparr>) else None)"
| "relay_exec timeout (DownEnds e) s =
     (if rl_down s = Copying \<and> e \<noteq> Some AssociationIdle then Some (s\<lparr>rl_down := Delivering e\<rparr>) else None)"
| "relay_exec timeout UpDelivers s =
     (case rl_up s of
        Delivering e \<Rightarrow> if length (rl_results s) < 2 then Some (deliver e (s\<lparr>rl_up := Delivered\<rparr>)) else None
      | _ \<Rightarrow> None)"
| "relay_exec timeout DownDelivers s =
     (case rl_down s of
        Delivering e \<Rightarrow> if length (rl_results s) < 2 then Some (deliver e (s\<lparr>rl_down := Delivered\<rparr>)) else None
      | _ \<Rightarrow> None)"
| "relay_exec timeout (WatchIdle events) s =
     (if rl_watch s = Watching \<and> watch_idle timeout events = Some True then Some (s\<lparr>rl_watch := IdleFound\<rparr>) else None)"
| "relay_exec timeout StoreIdle s =
     (if rl_watch s = IdleFound then Some (s\<lparr>rl_watch := IdleClosing, rl_idle := True\<rparr>) else None)"
| "relay_exec timeout WatchCancelled s =
     (if rl_watch s = Watching \<and> rl_cancelled s then Some (s\<lparr>rl_watch := WatchdogEnded\<rparr>) else None)"
| "relay_exec timeout WatchClosed s =
     (if rl_watch s = IdleClosing \<and> rl_stage s = 3 then Some (s\<lparr>rl_watch := WatchdogEnded\<rparr>) else None)"
| "relay_exec timeout CloseStep s = (if closing s \<and> rl_stage s < 3 then Some (close_step s) else None)"
| "relay_exec timeout MainReceives s = main_receives s"
| "relay_exec timeout MainClosed s =
     (case rl_main s of
        ClosingFirst e \<Rightarrow> if rl_stage s = 3 then Some (s\<lparr>rl_main := AwaitSecond e\<rparr>) else None
      | _ \<Rightarrow> None)"
| "relay_exec timeout MainReturns s =
     (case rl_main s of
        AwaitWatch earlier later \<Rightarrow>
          if rl_watch s = WatchdogEnded then Some (s\<lparr>rl_main := Returned (udp_relay_result (rl_idle s) earlier later)\<rparr>) else None
      | _ \<Rightarrow> None)"
| "relay_exec timeout ParentCancels s = (if rl_cancelled s then None else Some (s\<lparr>rl_cancelled := True\<rparr>))"

fun relay_run :: "duration \<Rightarrow> relay_action list \<Rightarrow> relay_state \<Rightarrow> relay_state option" where
  "relay_run timeout [] s = Some s"
| "relay_run timeout (a # acts) s = (case relay_exec timeout a s of None \<Rightarrow> None | Some s1 \<Rightarrow> relay_run timeout acts s1)"

text \<open>The results the loops can have.\<close>

lemma copy_metered_not_idle: "fst (copy_metered admit_bytes script s) \<noteq> Some (Some AssociationIdle)"
proof (induction script arbitrary: s)
  case (Cons st script)
  have rest: "copy_metered admit_bytes script x \<noteq> (Some (Some AssociationIdle), a, b)" for x a b
    using Cons.IH [of x] by auto
  show ?case
    by (auto simp: Let_def rest Cons.IH split: prod.splits option.splits bool.splits io_error.splits)
qed simp

lemma copy_client_packets_not_idle: "fst (copy_client_packets admit_bytes script r activity s) \<noteq> Some (Some AssociationIdle)"
proof (induction script arbitrary: r activity s)
  case (Cons st script)
  have rest: "copy_client_packets admit_bytes script r activity x \<noteq> (Some (Some AssociationIdle), a)" for r activity x a
    using Cons.IH [of r activity x] by auto
  show ?case
    by (auto simp: Let_def rest Cons.IH split: prod.splits option.splits bool.splits sum.splits trojan_error.splits)
qed simp

lemma copy_association_packets_not_idle: "fst (copy_association_packets admit_bytes script activity s) \<noteq> Some (Some AssociationIdle)"
proof (induction script arbitrary: activity s)
  case (Cons st script)
  have rest: "copy_association_packets admit_bytes script activity x \<noteq> (Some (Some AssociationIdle), a)" for activity x a
    using Cons.IH [of activity x] by auto
  show ?case
    by (auto simp: Let_def rest Cons.IH split: prod.splits option.splits bool.splits sum.splits)
qed simp

section \<open>Invariant\<close>

definition delivered_count :: "relay_state \<Rightarrow> nat" where
  "delivered_count s = (if rl_up s = Delivered then 1 else 0) + (if rl_down s = Delivered then 1 else 0)"

text \<open>The channel holds what was delivered and not yet received.\<close>

definition channel_ok :: "relay_state \<Rightarrow> bool" where
  "channel_ok s \<longleftrightarrow>
     length (rl_order s) = delivered_count s
     \<and> (case rl_main s of
          AwaitFirst \<Rightarrow> rl_results s = rl_order s
        | ClosingFirst e \<Rightarrow> rl_order s = e # rl_results s
        | AwaitSecond e \<Rightarrow> rl_order s = e # rl_results s
        | AwaitWatch e e' \<Rightarrow> rl_order s = [e, e'] \<and> rl_results s = [] \<and> rl_watch s \<noteq> NoWatchdog
        | Returned r \<Rightarrow> rl_results s = [] \<and> length (rl_order s) = 2 \<and> rl_watch s \<in> {NoWatchdog, WatchdogEnded}
            \<and> r = udp_relay_result (rl_idle s) (rl_order s ! 0) (rl_order s ! 1))"

definition closing_ok :: "relay_state \<Rightarrow> bool" where
  "closing_ok s \<longleftrightarrow>
     rl_stage s \<le> 3 \<and> rl_client_closes s = (if 2 \<le> rl_stage s then 1 else 0) \<and> rl_target_closes s = (if 3 \<le> rl_stage s then 1 else 0)
     \<and> (1 \<le> rl_stage s \<longrightarrow> rl_cancelled s)
     \<and> (case rl_main s of AwaitFirst \<Rightarrow> True | ClosingFirst e \<Rightarrow> True | _ \<Rightarrow> rl_stage s = 3)"

definition watch_ok :: "relay_state \<Rightarrow> bool" where
  "watch_ok s \<longleftrightarrow>
     (rl_idle s \<longrightarrow> rl_watch s = IdleClosing \<or> (rl_watch s = WatchdogEnded \<and> rl_stage s = 3))
     \<and> (rl_watch s = WatchdogEnded \<longrightarrow> rl_cancelled s) \<and> (rl_watch s = IdleClosing \<longrightarrow> rl_idle s)"

definition relay_inv :: "relay_state \<Rightarrow> bool" where
  "relay_inv s \<longleftrightarrow> channel_ok s \<and> closing_ok s \<and> watch_ok s"

lemmas relay_defs = channel_ok_def closing_ok_def watch_ok_def deliver_def close_step_def closing_def

lemma relay_start_inv: "relay_inv (relay_start udp)"
  by (simp add: relay_inv_def relay_defs delivered_count_def relay_start_def)

lemma main_receivesE:
  assumes "main_receives s = Some s'"
  obtains (first) e rest where "rl_results s = e # rest" "rl_main s = AwaitFirst"
      "s' = s\<lparr>rl_main := ClosingFirst e, rl_results := rest\<rparr>"
    | (second) e rest earlier where "rl_results s = e # rest" "rl_main s = AwaitSecond earlier" "rl_watch s = NoWatchdog"
      "s' = s\<lparr>rl_main := Returned (relay_result earlier e), rl_results := rest\<rparr>"
    | (second_watched) e rest earlier where "rl_results s = e # rest" "rl_main s = AwaitSecond earlier" "rl_watch s \<noteq> NoWatchdog"
      "s' = s\<lparr>rl_main := AwaitWatch earlier e, rl_results := rest\<rparr>"
  using assms unfolding main_receives_def
  by (auto split: list.split_asm relay_main.split_asm if_split_asm intro: that)

lemma delivered_count_update [simp]:
  "delivered_count (s\<lparr>rl_main := m\<rparr>) = delivered_count s" "delivered_count (s\<lparr>rl_watch := w\<rparr>) = delivered_count s"
  "delivered_count (s\<lparr>rl_results := rs\<rparr>) = delivered_count s" "delivered_count (s\<lparr>rl_idle := b\<rparr>) = delivered_count s"
  "delivered_count (s\<lparr>rl_stage := n\<rparr>) = delivered_count s" "delivered_count (s\<lparr>rl_cancelled := b\<rparr>) = delivered_count s"
  "delivered_count (s\<lparr>rl_client_closes := n\<rparr>) = delivered_count s" "delivered_count (s\<lparr>rl_target_closes := n\<rparr>) = delivered_count s"
  "delivered_count (s\<lparr>rl_order := es\<rparr>) = delivered_count s"
  "rl_up s = Copying \<Longrightarrow> delivered_count (s\<lparr>rl_up := Delivering e\<rparr>) = delivered_count s"
  "rl_down s = Copying \<Longrightarrow> delivered_count (s\<lparr>rl_down := Delivering e\<rparr>) = delivered_count s"
  "rl_up s = Delivering e \<Longrightarrow> delivered_count (s\<lparr>rl_up := Delivered\<rparr>) = Suc (delivered_count s)"
  "rl_down s = Delivering e \<Longrightarrow> delivered_count (s\<lparr>rl_down := Delivered\<rparr>) = Suc (delivered_count s)"
  by (simp_all add: delivered_count_def)

lemma delivered_count_bound: "delivered_count s \<le> 2"
  by (simp add: delivered_count_def)

lemma received_twice:
  assumes "channel_ok s" "rl_main s = AwaitSecond earlier" "rl_results s = e # rest"
  shows "rest = []"
  using assms delivered_count_bound [of s] by (cases rest) (auto simp: channel_ok_def)

lemma receive_inv:
  assumes inv: "relay_inv s" and "main_receives s = Some s'"
  shows "relay_inv s'"
  using assms(2)
proof (cases rule: main_receivesE)
  case first
  then show ?thesis
    using inv by (auto simp: relay_inv_def relay_defs)
next
  case (second e rest earlier)
  then have "rest = []"
    using inv received_twice unfolding relay_inv_def by blast
  then show ?thesis
    using inv second by (auto simp: relay_inv_def relay_defs udp_relay_result_def)
next
  case (second_watched e rest earlier)
  then have "rest = []"
    using inv received_twice unfolding relay_inv_def by blast
  then show ?thesis
    using inv second_watched by (auto simp: relay_inv_def relay_defs)
qed

text \<open>A result that is still to be delivered finds a caller that still waits.\<close>

lemma undelivered_main:
  assumes "channel_ok s" "delivered_count s < 2"
  shows "rl_main s = AwaitFirst \<or> (\<exists>e. rl_main s = ClosingFirst e) \<or> (\<exists>e. rl_main s = AwaitSecond e)"
  using assms by (cases "rl_main s") (auto simp: channel_ok_def)

lemma deliver_inv:
  assumes inv: "relay_inv s" and count: "delivered_count s' = Suc (delivered_count s)"
    and s': "s' = s\<lparr>rl_up := u, rl_down := d, rl_results := rl_results s @ [e], rl_order := rl_order s @ [e]\<rparr>"
  shows "relay_inv s'"
proof -
  have "delivered_count s < 2"
    using count delivered_count_bound [of s'] by simp
  then have "rl_main s = AwaitFirst \<or> (\<exists>e. rl_main s = ClosingFirst e) \<or> (\<exists>e. rl_main s = AwaitSecond e)"
    using inv by (intro undelivered_main) (simp_all add: relay_inv_def)
  then show ?thesis
    using inv count by (elim disjE exE) (auto simp: relay_inv_def relay_defs s')
qed

lemma up_delivers_inv: "relay_inv s \<Longrightarrow> rl_up s = Delivering e \<Longrightarrow> relay_inv (deliver e (s\<lparr>rl_up := Delivered\<rparr>))"
  by (rule deliver_inv [where u = Delivered and d = "rl_down s" and e = e and s = s]) (simp_all add: deliver_def)

lemma down_delivers_inv: "relay_inv s \<Longrightarrow> rl_down s = Delivering e \<Longrightarrow> relay_inv (deliver e (s\<lparr>rl_down := Delivered\<rparr>))"
  by (rule deliver_inv [where u = "rl_up s" and d = Delivered and e = e and s = s]) (simp_all add: deliver_def)

lemma close_step_inv:
  assumes "relay_inv s" "closing s" "rl_stage s < 3"
  shows "relay_inv (close_step s)"
proof -
  have "rl_stage s = 0 \<or> rl_stage s = 1 \<or> rl_stage s = 2"
    using assms by auto
  then show ?thesis
    using assms by (cases "rl_main s"; auto simp: relay_inv_def relay_defs)
qed

lemma up_ends_inv:
  assumes "relay_inv s" "rl_up s = Copying"
  shows "relay_inv (s\<lparr>rl_up := Delivering e\<rparr>)"
  using assms by (cases "rl_main s") (auto simp: relay_inv_def relay_defs)

lemma down_ends_inv:
  assumes "relay_inv s" "rl_down s = Copying"
  shows "relay_inv (s\<lparr>rl_down := Delivering e\<rparr>)"
  using assms by (cases "rl_main s") (auto simp: relay_inv_def relay_defs)

lemma idle_found_inv:
  assumes "relay_inv s" "rl_watch s = Watching"
  shows "relay_inv (s\<lparr>rl_watch := IdleFound\<rparr>)"
  using assms by (cases "rl_main s") (auto simp: relay_inv_def relay_defs)

lemma store_idle_inv:
  assumes "relay_inv s" "rl_watch s = IdleFound"
  shows "relay_inv (s\<lparr>rl_watch := IdleClosing, rl_idle := True\<rparr>)"
  using assms by (cases "rl_main s") (auto simp: relay_inv_def relay_defs)

lemma watch_ends_inv:
  assumes "relay_inv s" "rl_watch s = Watching \<and> rl_cancelled s \<or> rl_watch s = IdleClosing \<and> rl_stage s = 3"
  shows "relay_inv (s\<lparr>rl_watch := WatchdogEnded\<rparr>)"
  using assms by (cases "rl_main s") (auto simp: relay_inv_def relay_defs)

lemma parent_cancels_inv:
  assumes "relay_inv s"
  shows "relay_inv (s\<lparr>rl_cancelled := True\<rparr>)"
  using assms by (cases "rl_main s") (auto simp: relay_inv_def relay_defs)

lemma main_inv:
  "relay_inv s \<Longrightarrow> rl_main s = ClosingFirst e \<Longrightarrow> rl_stage s = 3 \<Longrightarrow> relay_inv (s\<lparr>rl_main := AwaitSecond e\<rparr>)"
  "relay_inv s \<Longrightarrow> rl_main s = AwaitWatch e e' \<Longrightarrow> rl_watch s = WatchdogEnded
     \<Longrightarrow> relay_inv (s\<lparr>rl_main := Returned (udp_relay_result (rl_idle s) e e')\<rparr>)"
  by (auto simp: relay_inv_def relay_defs)

lemma exec_inv: "relay_inv s \<Longrightarrow> relay_exec timeout a s = Some s' \<Longrightarrow> relay_inv s'"
  by (cases a)
    (auto intro: receive_inv up_delivers_inv down_delivers_inv close_step_inv up_ends_inv down_ends_inv idle_found_inv store_idle_inv
      watch_ends_inv parent_cancels_inv main_inv
      split: copier.splits relay_main.splits if_splits)

lemma run_inv: "relay_inv s \<Longrightarrow> relay_run timeout acts s = Some s' \<Longrightarrow> relay_inv s'"
proof (induction acts arbitrary: s)
  case (Cons a acts)
  then show ?case
    using exec_inv [OF Cons.prems(1)] by (auto split: option.splits)
qed simp

section \<open>A relay leaves nothing behind\<close>

text \<open>C12: When a relay returns, in whatever order its goroutines ran, both copy loops and the watchdog have ended, no
  result is left in the channel, the context is cancelled, each of the two connections was closed exactly once by it,
  and the error it reports is idleness if the watchdog found the association idle and otherwise the error of the loop
  that ended first, or that of the other when the first had none.\<close>

theorem relay_leaves_nothing:
  assumes "relay_run timeout acts (relay_start udp) = Some s" and "rl_main s = Returned r"
  shows "rl_up s = Delivered \<and> rl_down s = Delivered \<and> rl_watch s \<in> {NoWatchdog, WatchdogEnded} \<and> rl_results s = []
    \<and> rl_cancelled s \<and> rl_client_closes s = 1 \<and> rl_target_closes s = 1
    \<and> r = udp_relay_result (rl_idle s) (rl_order s ! 0) (rl_order s ! 1)"
proof -
  have "relay_inv s"
    by (rule run_inv [OF relay_start_inv assms(1)])
  then have c: "channel_ok s" and d: "closing_ok s"
    by (simp_all add: relay_inv_def)
  then have "delivered_count s = 2"
    using assms(2) by (simp add: channel_ok_def)
  then have "rl_up s = Delivered \<and> rl_down s = Delivered"
    by (simp add: delivered_count_def split: if_splits)
  then show ?thesis
    using c d assms(2) by (simp add: channel_ok_def closing_ok_def)
qed

definition demo_relay :: "relay_action list" where
  "demo_relay = [WatchIdle [WatchTick 100 0], UpEnds (Some TrafficRejected), StoreIdle, CloseStep, UpDelivers, MainReceives,
     CloseStep, CloseStep, MainClosed, DownEnds None, WatchClosed, DownDelivers, MainReceives, MainReturns]"

definition demo_relay_end :: relay_state where
  "demo_relay_end = the (relay_run 60 demo_relay (relay_start True))"

lemma demo_relay_runs: "relay_run 60 demo_relay (relay_start True) = Some demo_relay_end"
proof -
  have "relay_run 60 demo_relay (relay_start True) \<noteq> None"
    by code_simp
  then show ?thesis
    by (simp add: demo_relay_end_def)
qed

theorem relay_leaves_nothing_witness:
  "rl_main demo_relay_end = Returned (Some AssociationIdle) \<and> rl_client_closes demo_relay_end = 1 \<and> rl_up demo_relay_end = Delivered"
proof -
  have "rl_main demo_relay_end = Returned (Some AssociationIdle)"
    by code_simp
  then show ?thesis
    using relay_leaves_nothing [OF demo_relay_runs] by simp
qed

text \<open>A relay that reports no error had none in either direction and was not idle.\<close>

lemma relay_success:
  assumes "relay_run timeout acts (relay_start udp) = Some s" "rl_main s = Returned None"
  shows "rl_order s ! 0 = None \<and> rl_order s ! 1 = None \<and> \<not> rl_idle s"
proof -
  have "channel_ok s"
    using run_inv [OF relay_start_inv assms(1)] by (simp add: relay_inv_def)
  then show ?thesis
    using assms(2) by (auto simp: channel_ok_def udp_relay_result_def relay_result_def split: if_splits)
qed

section \<open>A relay comes to its end\<close>

text \<open>
  The actions a goroutine takes without waiting for the network or the clock: a loop ends by itself only once both
  connections are closed.
\<close>

definition forced :: "relay_state \<Rightarrow> relay_action \<Rightarrow> bool" where
  "forced s a = (case a of UpEnds e \<Rightarrow> rl_stage s = 3 | DownEnds e \<Rightarrow> rl_stage s = 3 | WatchIdle events \<Rightarrow> False | ParentCancels \<Rightarrow> False | _ \<Rightarrow> True)"

definition triggered :: "relay_state \<Rightarrow> bool" where
  "triggered s \<longleftrightarrow> rl_up s \<noteq> Copying \<or> rl_down s \<noteq> Copying \<or> rl_watch s = IdleFound \<or> rl_idle s"

fun copier_work :: "copier \<Rightarrow> nat" where
  "copier_work Copying = 2"
| "copier_work (Delivering e) = 1"
| "copier_work Delivered = 0"

fun main_work :: "relay_main \<Rightarrow> nat" where
  "main_work AwaitFirst = 4"
| "main_work (ClosingFirst e) = 3"
| "main_work (AwaitSecond e) = 2"
| "main_work (AwaitWatch e e') = 1"
| "main_work (Returned r) = 0"

fun watch_work :: "watcher \<Rightarrow> nat" where
  "watch_work NoWatchdog = 0"
| "watch_work Watching = 3"
| "watch_work IdleFound = 2"
| "watch_work IdleClosing = 1"
| "watch_work WatchdogEnded = 0"

definition relay_work :: "relay_state \<Rightarrow> nat" where
  "relay_work s = copier_work (rl_up s) + copier_work (rl_down s) + main_work (rl_main s) + watch_work (rl_watch s)
     + (3 - rl_stage s) + (if rl_cancelled s then 0 else 1)"

lemma exec_work:
  assumes "relay_exec timeout a s = Some s'"
  shows "relay_work s' < relay_work s"
proof (cases a)
  case MainReceives
  then have "main_receives s = Some s'"
    using assms by simp
  then show ?thesis
    by (cases rule: main_receivesE) (simp_all add: relay_work_def)
next
  case CloseStep
  then show ?thesis
    using assms by (auto simp: relay_work_def close_step_def split: if_splits)
qed (use assms in \<open>auto simp: relay_work_def deliver_def split: if_splits copier.splits relay_main.splits\<close>)

lemma run_work: "relay_run timeout acts s = Some s' \<Longrightarrow> length acts + relay_work s' \<le> relay_work s"
proof (induction acts arbitrary: s)
  case (Cons a acts)
  then obtain s1 where s1: "relay_exec timeout a s = Some s1" "relay_run timeout acts s1 = Some s'"
    by (auto split: option.splits)
  then show ?case
    using Cons.IH [of s1] exec_work [OF s1(1)] by simp
qed simp

text \<open>The caller waits at most for the network or the clock.\<close>

lemma forced_disabled:
  assumes "\<And>a. forced s a \<Longrightarrow> relay_exec timeout a s = None"
  shows "relay_exec timeout UpDelivers s = None" "relay_exec timeout DownDelivers s = None" "relay_exec timeout StoreIdle s = None"
    "relay_exec timeout WatchCancelled s = None" "relay_exec timeout WatchClosed s = None" "relay_exec timeout CloseStep s = None"
    "relay_exec timeout MainReceives s = None" "relay_exec timeout MainClosed s = None" "relay_exec timeout MainReturns s = None"
    "rl_stage s = 3 \<Longrightarrow> relay_exec timeout (UpEnds None) s = None" "rl_stage s = 3 \<Longrightarrow> relay_exec timeout (DownEnds None) s = None"
  by (rule assms, simp add: forced_def)+

lemma relay_progress:
  assumes inv: "relay_inv s" and trig: "triggered s" and stuck: "\<And>a. forced s a \<Longrightarrow> relay_exec timeout a s = None"
  shows "\<exists>r. rl_main s = Returned r"
proof -
  have c: "channel_ok s" and d: "closing_ok s" and w: "watch_ok s"
    using inv by (simp_all add: relay_inv_def)
  note dis = forced_disabled [OF stuck]
  have stage: "rl_stage s \<le> 3"
    using d by (simp add: closing_ok_def)
  have not_closing: "rl_main s \<noteq> ClosingFirst e" for e
    using dis(6,8) stage by (auto simp: closing_def split: if_splits)
  have watch: "rl_watch s \<noteq> IdleFound" "rl_watch s \<noteq> IdleClosing"
    using dis(3,5,6) stage by (auto simp: closing_def split: if_splits)
  have open_end: "rl_stage s = 3 \<Longrightarrow> rl_up s \<noteq> Copying \<and> rl_down s \<noteq> Copying"
    using dis(10,11) by auto
  show ?thesis
  proof (cases "rl_main s")
    case AwaitFirst
    then have empty: "rl_results s = []" "delivered_count s = 0"
      using dis(7) c by (auto simp: main_receives_def channel_ok_def split: list.splits)
    then have copying: "rl_up s = Copying" "rl_down s = Copying"
      using dis(1,2) by (auto simp: delivered_count_def split: copier.splits if_splits)
    then have "rl_idle s"
      using trig watch by (simp add: triggered_def)
    then show ?thesis
      using w watch open_end copying by (simp add: watch_ok_def)
  next
    case (ClosingFirst e)
    then show ?thesis
      using not_closing by simp
  next
    case (AwaitSecond e)
    then have "rl_results s = []" and st: "rl_stage s = 3"
      using dis(7) d by (auto simp: main_receives_def closing_ok_def split: list.splits)
    then have "delivered_count s = 1"
      using AwaitSecond c by (auto simp: channel_ok_def)
    then show ?thesis
      using dis(1,2) open_end [OF st] \<open>rl_results s = []\<close> by (auto simp: delivered_count_def split: copier.splits if_splits)
  next
    case (AwaitWatch e e')
    then have "rl_cancelled s" "rl_watch s \<noteq> NoWatchdog"
      using c d by (auto simp: channel_ok_def closing_ok_def)
    then show ?thesis
      using dis(4,9) AwaitWatch watch by (cases "rl_watch s") auto
  qed simp
qed

text \<open>C13: A relay always comes to its end.  No run of its goroutines has more than fifteen actions, and once one loop has
  ended or the association was found idle, a state in which no goroutine can act on its own is one in which the relay
  has returned: closing both connections, the bounded channel and the single execution of \<open>closeBoth\<close> leave no deadlock.\<close>

theorem relay_comes_to_end:
  assumes "relay_run timeout acts (relay_start udp) = Some s"
  shows "length acts \<le> 15
    \<and> (triggered s \<and> (\<forall>a. forced s a \<longrightarrow> relay_exec timeout a s = None) \<longrightarrow> (\<exists>r. rl_main s = Returned r))"
proof -
  have "relay_work (relay_start udp) \<le> 15"
    by (simp add: relay_work_def relay_start_def)
  then have "length acts \<le> 15"
    using run_work [OF assms] by simp
  then show ?thesis
    using relay_progress [OF run_inv [OF relay_start_inv assms]] by blast
qed

lemma demo_relay_end_fields:
  "rl_up demo_relay_end = Delivered" "rl_down demo_relay_end = Delivered" "rl_watch demo_relay_end = WatchdogEnded"
  "rl_main demo_relay_end = Returned (Some AssociationIdle)" "rl_results demo_relay_end = []"
  by code_simp+

lemma demo_relay_stuck: "relay_exec timeout a demo_relay_end = None \<or> a = ParentCancels"
  by (cases a) (simp_all add: demo_relay_end_fields closing_def main_receives_def)

theorem relay_comes_to_end_witness:
  "length demo_relay = 14 \<and> triggered demo_relay_end \<and> (\<exists>r. rl_main demo_relay_end = Returned r)"
proof -
  have trig: "triggered demo_relay_end"
    by (simp add: triggered_def demo_relay_end_fields)
  moreover have "forced demo_relay_end a \<longrightarrow> relay_exec 60 a demo_relay_end = None" for a
    using demo_relay_stuck [of 60 a] by (auto simp: forced_def)
  ultimately have "\<exists>r. rl_main demo_relay_end = Returned r"
    using relay_comes_to_end [OF demo_relay_runs] by blast
  then show ?thesis
    using trig by (simp add: demo_relay_def)
qed

end
