(* ===== verification/Spec2Isabelle.thy ===== *)
theory Spec2Isabelle
  imports Gateway_Lifecycle Legacy_Import Outbound_Adapters Database_Open Relay_Lifecycle
begin

text \<open>
  Verification of the proxy gateway (\<open>cmd/gateway\<close>): a multi-user proxy that accepts Hysteria2 and Trojan clients, checks
  them against a policy loaded from an SQLite database, relays their traffic directly or through remote Hysteria2 nodes,
  meters and limits it, and offers a subscription endpoint and a management web.

  \<^bold>\<open>How the parts interact.\<close>  A start reads the configuration, opens the database, loads a snapshot of users and nodes,
  builds the policy kernel (authenticator, connection tracker, traffic logger, outbound factory), binds the HTTP
  listeners, constructs the inbounds and starts all loops.  An inbound authenticates a client and receives a session from
  the kernel; every request names its session, is routed by it, and is admitted payload by payload by the traffic logger,
  which flushes its records to the database.  The management web changes the database; a periodic refresh brings changed
  users into the running kernel, and everything else waits for a restart.

  \<^bold>\<open>Foundations.\<close>
  \<^item> \<open>Gateway_Prelude\<close>: machine types, Go maps as association lists, results, shared rewrite collections.
  \<^item> \<open>Go_Std\<close>, \<open>Go_Net\<close>, \<open>Calendar\<close>: what the sources use of the Go library (strings, numbers, readers, addresses, civil time).
    The locale \<open>month_calendar\<close> states what a division of time into months promises; fixed offsets are proved to be one.
  \<^item> \<open>Config_Types\<close>: the configuration data of \<open>internal/config\<close>.

  \<^bold>\<open>Policy and accounting.\<close>
  \<^item> \<open>Auth\<close> (\<open>internal/auth\<close>): published policy, credentials of both protocols; exactly the configured active pairs are
    accepted, and both protocols accept alike.
  \<^item> \<open>Tracker\<close> (\<open>internal/connection\<close>): live connections and requests, through the locale \<open>request_registry\<close>.
  \<^item> \<open>Traffic_Store\<close> (traffic tables of \<open>internal/storage\<close>): the transactional flush and the usage queries; the locales
    \<open>traffic_store\<close> and \<open>month_store\<close> are what the logger relies on, interpreted on the tables.
  \<^item> \<open>Database_Open\<close> (\<open>NewSQLiteStore\<close> and its migrations): the statements of the schema, the added columns and the conversion
    of timestamps over a database file.  The locale \<open>resumable\<close> is the contract of a part of the migration that may be cut
    off at any statement; it holds for scripts and added columns and is closed under sequencing, so an interrupted start is
    completed by the next.  An opened file refines to the tables of \<open>Traffic_Store\<close>.
  \<^item> \<open>Limiter\<close>, \<open>Traffic\<close>, \<open>Traffic_Accounting\<close>, \<open>Traffic_Quota\<close> (\<open>internal/traffic\<close>): the download timeline with 64-bit floats, the
    logger as locked sections in any order, exactness of the counters and of the monthly usage, and the quota for one call of
    \<open>LogTrafficContext\<close> cut into its sections, between which every other goroutine may run; the call as the kernel makes it
    (\<open>log_traffic\<close>) is proved to be one of these interleavings.
  \<^item> \<open>Outbound\<close>, \<open>Outbound_Adapters\<close> (\<open>internal/outbound\<close>, \<open>internal/router\<close>): the factory and its node workers as a step relation,
    dialling and retrying, and the adapters around the Hysteria2 client and the direct dialer.
  \<^item> \<open>Kernel\<close> (\<open>internal/policy\<close>, \<open>internal/router\<close>, \<open>inbound/hysteria2/adapter.go\<close>): sessions as capabilities, routing, admission, live
    updates; no session ever leaves through a node other than its own.

  \<^bold>\<open>Inbounds.\<close>
  \<^item> \<open>Trojan_Protocol\<close>, \<open>Trojan_Relay\<close>, \<open>Relay_Lifecycle\<close>, \<open>Trojan_Service\<close> (\<open>internal/inbound/trojan\<close>): the codec with its round trips;
    the copy loops over scripts of their calls, charged through the locale \<open>admission\<close>; its extension \<open>shared_admission\<close>
    adds other streams between the calls and is interpreted on the kernel in both directions; the goroutines of one relay in every interleaving; the service as a step relation over its
    connections, with the website fallback.
  \<^item> \<open>Hysteria2_Service\<close> (\<open>internal/inbound/hysteria2\<close>) and \<open>Inbound_Manager\<close> (\<open>internal/inbound/manager.go\<close>).

  \<^bold>\<open>Configuration and management.\<close>
  \<^item> \<open>Config_Schema\<close>, \<open>Config_Load\<close> (\<open>internal/config\<close>): the validator decides a declarative schema, which differs from the documented one in one conflict
    check; loading and migration of files.
  \<^item> \<open>Management\<close>, \<open>Restart_Jobs\<close> (\<open>internal/storage/management.go\<close>): users, nodes, grants, revision, jobs and process history, each
    call with its transaction; integrity and atomicity whatever statements fail; a job restarts the unit at most once.
  \<^item> \<open>Subtoken\<close>, \<open>Byte_Quantity\<close>, \<open>Subscription\<close> (\<open>internal/subtoken\<close>, \<open>internal/api\<close>): tokens, quantities and the subscription
    handler; what it serves is accepted by the kernel.
  \<^item> \<open>Admin_Web\<close>, \<open>Admin_Views\<close> (\<open>internal/api/manager.go\<close>): the form handlers behind the token check, the pages with their sums, and the
    handler that serves both over the management tables and the traffic logger.
  \<^item> \<open>Legacy_Import\<close> (\<open>internal/migration\<close> and the three small commands), \<open>Systemd\<close> (\<open>internal/systemd\<close>).

  \<^bold>\<open>The process.\<close>  \<open>Gateway_Process\<close> is \<open>cmd/gateway/main.go\<close> with a trace of what is acquired and released, and with the
  workers of a shutdown finishing in any order before, between or after its two deadlines;
  \<open>Gateway_Lifecycle\<close> holds the lemmas on the whole life of a process, and this theory the properties that span components:
  a restart applies the database, a disabled user is cut off, and a clean shutdown loses no admitted byte.

  \<^bold>\<open>State, errors, concurrency.\<close>  A struct is a record, a Go map an association list, an error an \<open>Inl\<close>; unsigned counters are
  64-bit words that wrap around.  A goroutine is a sequence of atomic sections (what one lock, channel operation or
  database call covers), and a run is any interleaving of them.  Calls that can fail from outside (SQL statements, sockets,
  files, the clock, D-Bus) take what they return as an argument, so a theorem holds for every pattern of failures.

  \<^bold>\<open>Bounds and fuel.\<close>  No definition runs on fuel that a property could exhaust: loops over the network run over the list of
  what their calls return, and \<open>None\<close> says that the list is used up and the loop still waits.  The search for a free name in
  a subscription is a partial function for which termination is proved.  The fifteen actions of a relay are the sum of
  what its goroutines can do, each action lowering that sum.

  \<^bold>\<open>Parameters.\<close>  Code that is not part of the repository is an argument: SHA-224, SHA-256 and HMAC, the Hysteria2 library and
  QUIC, TLS, the resolver and the sockets, YAML and JSON codecs, \<open>url.Parse\<close>, the time zone database, SQLite's
  \<open>strftime\<close>, D-Bus.  What a property needs of one is a hypothesis of it, and its witness gives an instance.

  \<^bold>\<open>Scope of some properties.\<close>  Months are those of zones with a constant offset; usage counters are exact modulo \<open>2 ^ 64\<close>.  Management
  calls are serial in the integrity property, since the route check of two of them runs outside their
  transaction (a lemma of \<open>Management\<close> shows the race).  The timeline of the limiter is followed between two wake-ups.

  \<^bold>\<open>Not modelled.\<close>  HTML templates with their formatting helpers, style sheets and scripts (markup without state); log
  messages and the construction of the log writer; command line flags beyond their values; the vendored Hysteria2
  core; test utilities.  \<open>strings.ToLower\<close> and \<open>strings.TrimSpace\<close> are modelled on ASCII.
\<close>

section \<open>From the database to the policy in force\<close>

lemma user_routes_grants: "n \<in> set (user_routes u db) \<longleftrightarrow> (u, n) \<in> set (md_grants db)"
  by (auto simp: user_routes_def image_iff)

definition row_active :: "go_time \<Rightarrow> user_row \<Rightarrow> bool" where
  "row_active now row \<longleftrightarrow> ur_deleted row = None \<and> \<not> expired (case ur_expires row of None \<Rightarrow> None | Some v \<Rightarrow> unix_time v) now"

lemma active_at_runtime_user: "active_at now ((runtime_user row)\<lparr>uc_routes := routes\<rparr>) \<longleftrightarrow> row_active now row"
  by (simp add: active_at_def runtime_user_def row_active_def)


text \<open>C9: Disabling a user cuts the user off.  Once the store has marked a user deleted, the next refresh of the policy that
  can read the tables refuses every further transfer on every open session of the user and every new proof in
  the user's name.\<close>

theorem disabled_user_cut_off:
  assumes "set_user_deleted io t0 u True db = (Inr (), db')" and "io' QueryUsers" and "io' QueryGrants"
    and "parse_id (ks_route s) = (u, n)"
  shows "let k' = refresh_tick sha224 io' db' k
    in admit mb env (Some s) tx rx k' = (Some False, k') \<and> (\<forall>p rid. authenticate now (kn_auth k') p = Inr rid \<longrightarrow> fst (parse_id rid) \<noteq> u)"
proof -
  from assms(1) obtain row where row: "map_of (md_users db') u = Some row" "ur_deleted row \<noteq> None"
    by (auto simp: set_user_deleted_def update_row_def split: if_split_asm option.split_asm)
  from assms(2,3) obtain loaded where l: "load_runtime_users io' db' = Inr loaded" by (simp add: load_runtime_users_def)
  with row obtain c where c: "map_of loaded u = Some c" "uc_disabled c"
    using load_runtime_users_ok [OF l, of u] by (auto simp: runtime_user_def)
  let ?k = "kernel_update_users sha224 loaded k"
  have "log_traffic mb env (kn_auth ?k) (ks_route s) tx rx (kn_traffic ?k) = (Some False, kn_traffic ?k)"
    using c by (intro revoked_transfer_refused [OF assms(4)]) (simp add: active_at_def)
  then have "admit mb env (Some s) tx rx ?k = (Some False, ?k)" by (simp add: admit_def)
  moreover have "fst (parse_id rid) \<noteq> u" if "authenticate now (kn_auth ?k) p = Inr rid" for p rid
  proof -
    from that obtain u' n' c' where a: "CHR '':'' \<notin> set u'" "map_of (refresh_snapshot (kn_startup k) loaded) u' = Some c'"
      "active_at now c'" "rid = route_id u' n'"
      by (auto dest!: authenticate_InrD)
    with c have "u' \<noteq> u" by (auto simp: map_of_refresh_snapshot active_at_def)
    with a show ?thesis by simp
  qed
  ultimately show ?thesis by (simp add: refresh_tick_def l Let_def)
qed

section \<open>Traffic across a shutdown\<close>

text \<open>C4: No admitted byte is lost by a shutdown.  Start on a consistent log, serve any interleaving of transfers, flushes and
  month changes, then shut down while other goroutines still finish their sections: if the final flush does
  not report an error, nothing is pending at the end and, for every configured pair, the log in the database holds
  exactly (modulo \<open>2 ^ 64\<close>) what the counters say was transferred.\<close>

theorem clean_shutdown_persists:
  assumes "boot env t = (Inr gw, trace)" and "be_months env = (\<lambda>_. fixed_zone offset)" and "be_summary_io env = (\<lambda>_ _. True)"
    and "traffic_db_ok (gt_traffic t)" and "logged_tx (gt_traffic t) u n < 2 ^ 63" and "logged_rx (gt_traffic t) u n < 2 ^ 63"
    and "names_plain (kn_auth (gw_kernel gw))" and "pair_ok u n" and "(u, n) \<in> set (policy_pairs (kn_auth (gw_kernel gw)))"
    and "list_all (\<lambda>e. clock_ok e \<and> \<not> is_reset e) es" and "tl_run (fixed_zone offset) es (kn_traffic (gw_kernel gw), Idle) = Some (lg, ph)"
    and "orderly_stop (fixed_zone offset) stop lg ph"
    and "shutdown stop cause (gw\<lparr>gw_kernel := (gw_kernel gw)\<lparr>kn_traffic := lg\<rparr>\<rparr>) = (errs, gw', trace')"
    and "\<forall>e. FinalFlushFailed e \<notin> set errs"
  shows "let lg' = kn_traffic (gw_kernel gw') in tl_pending lg' = [] \<and>
    us_tx (live_stats lg' u n) = stored_tx (tl_store lg') u n \<and> us_rx (live_stats lg' u n) = stored_rx (tl_store lg') u n"
proof -
  let ?lg = "kn_traffic (gw_kernel gw)" and ?lg' = "kn_traffic (gw_kernel gw')"
  from assms(1) obtain cfg snap where "kn_traffic (gw_kernel gw) = start_periodic_flush (kn_traffic (boot_kernel env cfg snap (gt_traffic t)))"
    "kn_auth (gw_kernel gw) = new_authenticator (be_sha224 env) (rs_users snap)" by (rule boot_started)
  note init = started_logger_exact [OF this assms(2-9)]
  from assms(13) obtain stop_err where st: "stop_context (so_flush_io stop) (so_flush_now stop) (so_flush_wait stop) (so_meanwhile stop (stop_admission lg)) =
      (stop_err, ?lg')" "\<forall>e. stop_err = Some e \<longrightarrow> FinalFlushFailed e \<in> set errs"
    by (rule shutdown_traffic) simp
  with assms(14) have none: "stop_context (so_flush_io stop) (so_flush_now stop) (so_flush_wait stop) (so_meanwhile stop (stop_admission lg)) = (None, ?lg')"
    by (cases stop_err) auto
  have "tl_flush_started lg" "tl_store lg \<noteq> None"
    using same_flags_run [OF assms(11)] init(2,3) by (simp_all add: same_flags_def)
  note fin = stop_context_keeps [OF assms(8) this assms(12) none]
  have "keeps_ledger (fixed_zone offset) u n (?lg, Idle) (lg, ph)" by (rule keeps_ledger_run [OF assms(8,10,11)])
  also have "keeps_ledger (fixed_zone offset) u n (lg, ph) (?lg', Idle)" using fin by blast
  finally have "drift_tx u n (?lg', Idle) = 0" "drift_rx u n (?lg', Idle) = 0"
    using init(1,4,5) by (simp_all add: keeps_ledger_def same_ledger_def)
  with fin show ?thesis by (simp add: drift_tx_def drift_rx_def Let_def)
qed

section \<open>A concrete process\<close>

definition demo_boot :: boot_env where
  "demo_boot = \<lparr>be_config = Inr Management.demo_legacy, be_open = \<lambda>_. None, be_io = \<lambda>_. True, be_dec = \<lambda>_. None, be_sha224 = demo_hash,
     be_months = \<lambda>_. utc, be_usage_io = True, be_summary_io = \<lambda>_ _. True, be_now = zero_time + 1 * second,
     be_certificate = \<lambda>_. None, be_known_zone = \<lambda>_. True, be_random = None, be_location = \<lambda>_. None, be_listen = \<lambda>_. None,
     be_hy2 = \<lparr>he_resolve = Inr, he_parse_target = \<lambda>_. None, he_bind = \<lambda>_. None, he_server = \<lambda>_ _ _. None\<rparr>,
     be_trojan_listen = \<lambda>_. True, be_methods = \<lambda>_. (None, None, None), be_order = \<lambda>ss. ss, be_between = \<lambda>db. db,
     be_run_io = \<lambda>_. True, be_active_io = \<lambda>_. True, be_pid = 1, be_trigger = []\<rparr>"

definition demo_tables :: tables where
  "demo_tables = \<lparr>gt_db = demo_database, gt_history = empty_history, gt_traffic = demo_store\<rparr>"

definition demo_running :: gateway where
  "demo_running = start_serving demo_boot Management.demo_legacy demo_snapshot (boot_kernel demo_boot Management.demo_legacy demo_snapshot demo_store)
     demo_tables (None, None, [], new_manager [])"

lemma demo_booted: "\<exists>trace. boot demo_boot demo_tables = (Inr demo_running, trace)"
  using demo_snapshot_loaded
  by (simp add: boot_def demo_boot_def demo_tables_def demo_running_def Let_def boot_services_def boot_admin_def boot_subscription_def
      Management.demo_legacy_def)


theorem disabled_user_cut_off_witness:
  "\<exists>db'. set_user_deleted (\<lambda>_. True) 0 ''ann'' True demo_database = (Inr (), db') \<and>
     (let k' = refresh_tick demo_hash (\<lambda>_. True) db' (gw_kernel demo_running)
      in \<forall>p rid. authenticate 0 (kn_auth k') p = Inr rid \<longrightarrow> fst (parse_id rid) \<noteq> ''ann'')"
proof -
  obtain db' where d: "set_user_deleted (\<lambda>_. True) 0 ''ann'' True demo_database = (Inr (), db')"
    unfolding demo_database_def demo_create by (simp add: set_user_deleted_def update_row_def)
  have "parse_id (ks_route \<lparr>ks_owner = 0, ks_id = [], ks_route = ''ann:direct'', ks_inbound = []\<rparr>) = (''ann'', ''direct'')" by code_simp
  from disabled_user_cut_off [OF d TrueI TrueI this, of demo_hash "gw_kernel demo_running"] d show ?thesis
    by (auto simp: Let_def)
qed

definition demo_stop :: stop_env where
  "demo_stop = \<lparr>so_first = [CloseOutboundsW, WaitInboundsW, WaitBackgroundW], so_expired = False, so_second = [], so_wait_err = None, so_wait_order = \<lambda>ss. ss, so_meanwhile = \<lambda>lg. lg, so_flush_io = \<lambda>_. True, so_flush_now = 0,
     so_flush_wait = \<lambda>lg. lg\<lparr>tl_flush_done := True\<rparr>, so_store_close = None\<rparr>"

lemma demo_orderly: "orderly_stop mb demo_stop lg Idle"
  by (auto simp: orderly_stop_def demo_stop_def Let_def intro!: exI [of _ "[]"] exI [of _ Idle])

text \<open>With no listener and no inbound, all workers of this shutdown end in time and without an error.\<close>

lemma demo_stop_clean:
  assumes "shutdown demo_stop ContextDone (demo_running\<lparr>gw_kernel := (gw_kernel demo_running)\<lparr>kn_traffic := lg\<rparr>\<rparr>) = (errs, gw', trace)"
    and "stop_context (\<lambda>_. True) 0 (\<lambda>lg. lg\<lparr>tl_flush_done := True\<rparr>) (stop_admission lg) = (None, lg')"
  shows "errs = [] \<and> kn_traffic (gw_kernel gw') = lg'"
proof -
  have m: "fst (manager_close (gw_inbounds demo_running)) = []"
    "manager_wait None (\<lambda>ss. ss) (snd (manager_close (gw_inbounds demo_running))) = []" by code_simp+
  have "gw_http demo_running = []" by (simp add: demo_running_def start_serving_def)
  then have "worker_errors demo_stop (gw_http demo_running) [] (snd (manager_close (gw_inbounds demo_running))) = []"
    using m by (simp add: worker_errors_def workers_late_def finished_first_def workers_of_def demo_stop_def collector_add_def Let_def)
  with assms m(1) show ?thesis
    by (auto simp: shutdown_def kernel_stop_admission_def demo_stop_def cause_error_def case_prod_beta Let_def)
qed

definition demo_serving :: "tl_event list" where
  "demo_serving = [Account False (zero_time + 2 * second) ''ann:direct'' 3 4]"

theorem clean_shutdown_persists_witness:
  "\<exists>lg errs gw' trace. tl_run utc demo_serving (kn_traffic (gw_kernel demo_running), Idle) = Some (lg, Idle) \<and>
     shutdown demo_stop ContextDone (demo_running\<lparr>gw_kernel := (gw_kernel demo_running)\<lparr>kn_traffic := lg\<rparr>\<rparr>) = (errs, gw', trace) \<and>
     us_rx (live_stats (kn_traffic (gw_kernel gw')) ''ann'' ''direct'') = 4 \<and> stored_rx (tl_store (kn_traffic (gw_kernel gw'))) ''ann'' ''direct'' = 4"
proof -
  obtain trace where b: "boot demo_boot demo_tables = (Inr demo_running, trace)" using demo_booted by blast
  have "case tl_run utc demo_serving (kn_traffic (gw_kernel demo_running), Idle) of
      Some (lg, Idle) \<Rightarrow>
        (case stop_context (\<lambda>_. True) 0 (\<lambda>lg. lg\<lparr>tl_flush_done := True\<rparr>) (stop_admission lg) of
           (None, lg') \<Rightarrow> us_rx (live_stats lg' ''ann'' ''direct'') = 4
         | _ \<Rightarrow> False)
    | _ \<Rightarrow> False"
    by code_simp
  then obtain lg lg' where run: "tl_run utc demo_serving (kn_traffic (gw_kernel demo_running), Idle) = Some (lg, Idle)"
    and stop: "stop_context (\<lambda>_. True) 0 (\<lambda>lg. lg\<lparr>tl_flush_done := True\<rparr>) (stop_admission lg) = (None, lg')"
    and rx: "us_rx (live_stats lg' ''ann'' ''direct'') = 4"
    by (auto split: option.split_asm prod.split_asm flush_phase.split_asm)
  obtain errs gw' trace' where sh: "shutdown demo_stop ContextDone (demo_running\<lparr>gw_kernel := (gw_kernel demo_running)\<lparr>kn_traffic := lg\<rparr>\<rparr>) = (errs, gw', trace')"
    by (metis prod.exhaust)
  from demo_stop_clean [OF sh] stop rx have res: "errs = []" "us_rx (live_stats (kn_traffic (gw_kernel gw')) ''ann'' ''direct'') = 4"
    by simp_all
  have env: "be_months demo_boot = (\<lambda>_. utc)" "be_summary_io demo_boot = (\<lambda>_ _. True)" by (simp_all add: demo_boot_def)
  have db: "traffic_db_ok (gt_traffic demo_tables)" "logged_tx (gt_traffic demo_tables) ''ann'' ''direct'' < 2 ^ 63"
    "logged_rx (gt_traffic demo_tables) ''ann'' ''direct'' < 2 ^ 63"
    by (simp_all add: demo_tables_def demo_store_def traffic_db_ok_def pair_rows_def logged_tx_def logged_rx_def)
  have names: "names_plain (kn_auth (gw_kernel demo_running))" "pair_ok ''ann'' ''direct''"
    "(''ann'', ''direct'') \<in> set (policy_pairs (kn_auth (gw_kernel demo_running)))" by code_simp+
  have ok: "list_all (\<lambda>e. clock_ok e \<and> \<not> is_reset e) demo_serving" by (simp add: demo_serving_def clock_ok_def is_reset_def)
  have "\<forall>e. FinalFlushFailed e \<notin> set errs" using res by simp
  from clean_shutdown_persists [OF b env db names ok run demo_orderly sh this] run sh res show ?thesis by (simp add: Let_def)
qed

end
